(* ===== verification/Prelude.thy ===== *)
theory Prelude
  imports Main "HOL-Library.Word" "HOL-Library.Multiset"
begin

unbundle bit_operations_syntax

text \<open>
  Shared vocabulary of the development: the machine integer types of the kernel, the
  result type of its fallible operations, the errno values it returns, and the generic
  facts on lists and words that the component theories use.

  \<^item> \<open>u8\<close> .. \<open>u128\<close> are the fixed-width integers of the sources; \<open>usize\<close> and \<open>uptr\<close> are
    \<open>u64\<close>. A C++ \<open>int\<close> whose value is kept in a small range by the code is an \<open>int\<close>.
  \<^item> \<open>expected\<close> is \<open>Expected<T, int>\<close>: a value, or an (already negated) errno. The third
    constructor \<open>Bug\<close> is a kernel panic (\<open>FK_BUG_ON\<close>) or a call through a null pointer:
    the operation does not return.
\<close>

section \<open>Machine integers\<close>

type_synonym u8 = "8 word"
type_synonym u16 = "16 word"
type_synonym u32 = "32 word"
type_synonym u64 = "64 word"
type_synonym u128 = "128 word"
type_synonym addr = u64

section \<open>Results\<close>

datatype 'a expected = Value 'a | Unexpected int | Bug

definition is_value :: "'a expected \<Rightarrow> bool" where
  "is_value r = (case r of Value _ \<Rightarrow> True | _ \<Rightarrow> False)"

lemma is_value_simps [simp]:
  "is_value (Value x)" "\<not> is_value (Unexpected e)" "\<not> is_value Bug"
  by (simp_all add: is_value_def)

section \<open>Errno values (include/ceryx/Errno.h)\<close>

abbreviation (input) EPERM :: int where "EPERM \<equiv> 1"
abbreviation (input) ENOENT :: int where "ENOENT \<equiv> 2"
abbreviation (input) ENOEXEC :: int where "ENOEXEC \<equiv> 8"
abbreviation (input) EBADF :: int where "EBADF \<equiv> 9"
abbreviation (input) ECHILD :: int where "ECHILD \<equiv> 10"
abbreviation (input) EAGAIN :: int where "EAGAIN \<equiv> 11"
abbreviation (input) ENOMEM :: int where "ENOMEM \<equiv> 12"
abbreviation (input) EFAULT :: int where "EFAULT \<equiv> 14"
abbreviation (input) EEXIST :: int where "EEXIST \<equiv> 17"
abbreviation (input) ENODEV :: int where "ENODEV \<equiv> 19"
abbreviation (input) ENOTDIR :: int where "ENOTDIR \<equiv> 20"
abbreviation (input) EISDIR :: int where "EISDIR \<equiv> 21"
abbreviation (input) EINVAL :: int where "EINVAL \<equiv> 22"
abbreviation (input) EMFILE :: int where "EMFILE \<equiv> 24"
abbreviation (input) ENOTTY :: int where "ENOTTY \<equiv> 25"
abbreviation (input) EPIPE :: int where "EPIPE \<equiv> 32"
abbreviation (input) ENOSYS :: int where "ENOSYS \<equiv> 38"

section \<open>Words\<close>

lemma unat_push_bit: "unat (push_bit n (w :: 'a::len word)) = unat w * 2 ^ n mod 2 ^ LENGTH('a)"
  by (subst unsigned_push_bit_eq) (simp add: push_bit_eq_mult take_bit_eq_mod)

lemma unat_drop_bit: "unat (drop_bit n (w :: 'a::len word)) = unat w div 2 ^ n"
  by (subst unat_drop_bit_eq) (simp add: drop_bit_eq_div)

lemma unat_ucast: "unat (ucast (w :: 'b::len word) :: 'a::len word) = unat w mod 2 ^ LENGTH('a)"
  by (simp add: unsigned_ucast_eq take_bit_eq_mod)

lemma unat_lt_2p: "unat (w :: 'a::len word) < 2 ^ LENGTH('a)"
  by (rule unsigned_less)

lemma unat_ucast_up:
  assumes "LENGTH('b) \<le> LENGTH('a)"
  shows "unat (ucast (w :: 'b::len word) :: 'a::len word) = unat w"
proof -
  have "unat w < 2 ^ LENGTH('a)"
    using unat_lt_2p [of w] assms by (meson less_le_trans one_le_numeral power_increasing)
  then show ?thesis by (simp add: unat_ucast)
qed

lemma and_not_mask: "w AND NOT (mask k) = push_bit k (drop_bit k w)" for w :: "'a::len word"
  by (rule bit_word_eqI) (auto simp: bit_simps)

lemma unat_mult_le: "unat (a * b) \<le> unat a * unat b" for a b :: "'a::len word"
  by (simp add: unat_word_ariths)

lemma unat_plus_no_wrap:
  "unat a + unat b < 2 ^ LENGTH('a) \<Longrightarrow> unat (a + b) = unat a + unat b" for a b :: "'a::len word"
  by (simp add: unat_word_ariths)

section \<open>Lists of queues\<close>

lemma mset_concat_snoc:
  "i < length qs \<Longrightarrow> mset (concat (qs[i := qs ! i @ [t]])) = add_mset t (mset (concat qs))"
proof (induction qs arbitrary: i)
  case Nil
  then show ?case by simp
next
  case (Cons q qs)
  then show ?case by (cases i) simp_all
qed

lemma set_concat_snoc:
  "i < length qs \<Longrightarrow> set (concat (qs[i := qs ! i @ [t]])) = insert t (set (concat qs))"
  using mset_concat_snoc [of i qs t] by (metis set_mset_add_mset_insert set_mset_mset)

lemma distinct_concat_snoc:
  assumes "i < length qs"
  shows "distinct (concat (qs[i := qs ! i @ [t]])) \<longleftrightarrow> distinct (concat qs) \<and> t \<notin> set (concat qs)"
proof -
  have "mset (concat (qs[i := qs ! i @ [t]])) = mset (t # concat qs)"
    using mset_concat_snoc [OF assms, of t] by simp
  from mset_eq_imp_distinct_iff [OF this] show ?thesis by auto
qed

lemma nth_snoc_update:
  "i < length qs \<Longrightarrow> j < length qs \<Longrightarrow>
     qs[i := qs ! i @ [t]] ! j = (if i = j then qs ! j @ [t] else qs ! j)"
  by auto

end
