(* ===== verification/CompilerRt.thy ===== *)
theory CompilerRt
  imports Prelude "HOL-Library.Signed_Division"
begin

text \<open>
  The freestanding 128-bit arithmetic of \<open>lib/compiler_rt.cpp\<close>: \<open>UDivMod128\<close> with its four
  paths and the ABI symbols built on it. The x86 instructions \<open>divq\<close> and \<open>mulq\<close> of the inline
  assembly are \<open>divq\<close> and \<open>mulq\<close>; \<open>divq\<close> faults (\<open>None\<close>) on a zero divisor and on a quotient
  that does not fit 64 bits. The lemmas show that every path computes the mathematical
  quotient and remainder and that no path faults for a nonzero divisor.
\<close>

section \<open>Definitions\<close>

definition Split :: "u128 \<Rightarrow> u64 \<times> u64" where
  "Split v = (ucast v, ucast (drop_bit 64 v))"

definition Join :: "u64 \<Rightarrow> u64 \<Rightarrow> u128" where
  "Join hi lo = push_bit 64 (ucast hi) OR ucast lo"

definition divq :: "u64 \<Rightarrow> u64 \<Rightarrow> u64 \<Rightarrow> (u64 \<times> u64) option" where
  "divq rdx rax d =
     (let n = unat rdx * 2 ^ 64 + unat rax in
      if d = 0 \<or> 2 ^ 64 \<le> n div unat d then None
      else Some (of_nat (n div unat d), of_nat (n mod unat d)))"

definition mulq :: "u64 \<Rightarrow> u64 \<Rightarrow> u64 \<times> u64" where
  "mulq a b = (of_nat (unat a * unat b), of_nat (unat a * unat b div 2 ^ 64))"

definition clzll :: "u64 \<Rightarrow> nat" where
  "clzll x = length (takeWhile (\<lambda>i. \<not> bit x i) (rev [0..<64]))"

fun udiv_loop :: "nat \<Rightarrow> u128 \<Rightarrow> u128 \<Rightarrow> u128 \<Rightarrow> u128 \<times> u128" where
  "udiv_loop 0 q r d_shifted = (q, r)"
| "udiv_loop (Suc k) q r d_shifted =
     (if d_shifted \<le> r
      then udiv_loop k (push_bit 1 q OR 1) (r - d_shifted) (drop_bit 1 d_shifted)
      else udiv_loop k (push_bit 1 q) r (drop_bit 1 d_shifted))"

definition UDivMod128 :: "u128 \<Rightarrow> u128 \<Rightarrow> (u128 \<times> u128) option" where
  "UDivMod128 n d =
     (if d = 0 then None
      else
        let (n_lo, n_hi) = Split n; (d_lo, d_hi) = Split d in
        if n_hi = 0 \<and> d_hi = 0 then Some (ucast (n_lo div d_lo), ucast (n_lo mod d_lo))
        else if d_hi = 0 \<and> n_hi < d_lo then
          (case divq n_hi n_lo d_lo of
             None \<Rightarrow> None
           | Some (q, r) \<Rightarrow> Some (ucast q, ucast r))
        else if d_hi = 0 then
          (case divq 0 n_hi d_lo of
             None \<Rightarrow> None
           | Some (q_hi, r_hi) \<Rightarrow>
               (case divq r_hi n_lo d_lo of
                  None \<Rightarrow> None
                | Some (q_lo, r_lo) \<Rightarrow> Some (Join q_hi q_lo, ucast r_lo)))
        else if n < d then Some (0, n)
        else
          let shift = clzll d_hi in
          Some (udiv_loop (Suc shift) 0 n (push_bit shift d)))"

definition udivti3 :: "u128 \<Rightarrow> u128 \<Rightarrow> u128 option" where
  "udivti3 n d = map_option fst (UDivMod128 n d)"

definition umodti3 :: "u128 \<Rightarrow> u128 \<Rightarrow> u128 option" where
  "umodti3 n d = map_option snd (UDivMod128 n d)"

definition udivmodti4 :: "u128 \<Rightarrow> u128 \<Rightarrow> (u128 \<times> u128) option" where
  "udivmodti4 n d = UDivMod128 n d"

definition divti3 :: "u128 \<Rightarrow> u128 \<Rightarrow> u128 option" where
  "divti3 n d =
     (if d = 0 then None
      else
        let neg = ((sint n < 0) \<noteq> (sint d < 0));
            un = (if sint n < 0 then - n else n);
            ud = (if sint d < 0 then - d else d) in
        case UDivMod128 un ud of
          None \<Rightarrow> None
        | Some (uq, _) \<Rightarrow> Some (if neg then - uq else uq))"

definition modti3 :: "u128 \<Rightarrow> u128 \<Rightarrow> u128 option" where
  "modti3 n d =
     (if d = 0 then None
      else
        let neg = (sint n < 0);
            un = (if sint n < 0 then - n else n);
            ud = (if sint d < 0 then - d else d) in
        case UDivMod128 un ud of
          None \<Rightarrow> None
        | Some (_, rem) \<Rightarrow> Some (if neg then - rem else rem))"

definition multi3 :: "u128 \<Rightarrow> u128 \<Rightarrow> u128" where
  "multi3 a b =
     (let a_lo = ucast a :: u64; a_hi = ucast (drop_bit 64 a) :: u64;
          b_lo = ucast b :: u64; b_hi = ucast (drop_bit 64 b) :: u64;
          (result_lo, carry) = mulq a_lo b_lo;
          result_hi = carry + a_lo * b_hi + a_hi * b_lo
      in Join result_hi result_lo)"

section \<open>Halves\<close>

lemma unat_u128_less: "unat (v :: u128) < 2 ^ 64 * 2 ^ 64"
  using unsigned_less [of v, where 'a = nat] by simp

lemma unat_u64_less: "unat (v :: u64) < 2 ^ 64"
  using unsigned_less [of v, where 'a = nat] by simp

lemma unat_ucast_u64: "unat (ucast (v :: u128) :: u64) = unat v mod 2 ^ 64"
  by (simp add: unat_ucast)

lemma unat_ucast_u128: "unat (ucast (v :: u64) :: u128) = unat v"
  using unat_u64_less [of v] by (simp add: unat_ucast)

lemma unat_Split_lo: "unat (fst (Split v)) = unat v mod 2 ^ 64"
  by (simp add: Split_def unat_ucast_u64)

lemma unat_Split_hi: "unat (snd (Split v)) = unat v div 2 ^ 64"
proof -
  have "unat v div 2 ^ 64 < 2 ^ 64"
    using unat_u128_less [of v] by (simp add: less_mult_imp_div_less)
  then show ?thesis
    by (simp only: Split_def snd_conv unat_ucast_u64 unat_drop_bit mod_less)
qed

lemma unat_Split_eq: "unat v = unat (snd (Split v)) * 2 ^ 64 + unat (fst (Split v))"
  by (simp add: unat_Split_lo unat_Split_hi)

lemma unat_Join: "unat (Join hi lo) = unat hi * 2 ^ 64 + unat lo"
proof -
  have "bit (push_bit 64 (ucast hi) :: u128) n \<Longrightarrow> \<not> bit (ucast lo :: u128) n" for n
    by (auto simp: bit_simps dest: bit_imp_le_length)
  then have "Join hi lo = push_bit 64 (ucast hi) + ucast lo"
    unfolding Join_def by (subst disjunctive_add_eq_or) (auto simp: bit_eq_iff bit_simps dest: bit_imp_le_length)
  moreover have "unat (push_bit 64 (ucast hi) :: u128) = unat hi * 2 ^ 64"
    using unat_u64_less [of hi] by (simp only: unat_push_bit unat_ucast_u128) simp
  moreover have "unat hi * 2 ^ 64 + unat lo < 2 ^ 128"
  proof -
    have "unat hi * 2 ^ 64 + unat lo < Suc (unat hi) * 2 ^ 64" 
      using unat_u64_less [of lo] by simp
    also have "\<dots> \<le> 2 ^ 64 * 2 ^ 64"
      using unat_u64_less [of hi] by (intro mult_right_mono) auto
    finally show ?thesis by simp
  qed
  ultimately show ?thesis
    by (simp add: unat_word_ariths unat_ucast_u128)
qed

lemma divq_Some:
  assumes "d \<noteq> 0" and "unat rdx < unat d"
  shows "\<exists>q r. divq rdx rax d = Some (q, r) \<and>
           unat q = (unat rdx * 2 ^ 64 + unat rax) div unat d \<and>
           unat r = (unat rdx * 2 ^ 64 + unat rax) mod unat d"
proof -
  let ?n = "unat rdx * 2 ^ 64 + unat rax"
  have d: "0 < unat d" using assms(1) by (simp add: unat_gt_0)
  have "?n < Suc (unat rdx) * 2 ^ 64" using unat_u64_less [of rax] by simp
  also have "\<dots> \<le> unat d * 2 ^ 64" using assms(2) by (intro mult_right_mono) auto
  finally have q: "?n div unat d < 2 ^ 64" by (simp add: less_mult_imp_div_less mult.commute)
  have r: "?n mod unat d < 2 ^ 64"
    using d unat_u64_less [of d] by (meson mod_less_divisor order.strict_trans)
  have "divq rdx rax d = Some (of_nat (?n div unat d), of_nat (?n mod unat d))"
    using q assms(1) by (simp add: divq_def Let_def not_le)
  moreover have "unat (of_nat (?n div unat d) :: u64) = ?n div unat d"
    using q by (intro of_nat_inverse [OF refl]) simp
  moreover have "unat (of_nat (?n mod unat d) :: u64) = ?n mod unat d"
    using r by (intro of_nat_inverse [OF refl]) simp
  ultimately show ?thesis by blast
qed

section \<open>The shift-and-subtract loop\<close>

lemma unat_push_bit_1:
  assumes "2 * unat (q :: u128) < 2 ^ 128"
  shows "unat (push_bit 1 q) = 2 * unat q" "unat (push_bit 1 q OR 1) = 2 * unat q + 1"
proof -
  show a: "unat (push_bit 1 q) = 2 * unat q"
    using assms by (simp only: unat_push_bit) simp
  have "push_bit 1 q AND 1 = 0"
    by (rule bit_eqI) (auto simp only: bit_and_iff bit_push_bit_iff bit_1_iff bit_0_eq)
  then have "push_bit 1 q OR 1 = push_bit 1 q + 1"
    by (simp only: disjunctive_add_eq_or)
  then show "unat (push_bit 1 q OR 1) = 2 * unat q + 1"
    using assms a by (simp only:) (subst unat_plus_no_wrap, auto simp: a)
qed

lemma udiv_loop_correct:
  assumes "unat ds = D * 2 ^ k" and "unat r < 2 * (D * 2 ^ k)" and "(unat q + 1) * 2 ^ Suc k \<le> 2 ^ 128"
    and "udiv_loop (Suc k) q r ds = (q', r')"
  shows "unat q' * D + unat r' = unat q * D * 2 ^ Suc k + unat r \<and> unat r' < D"
  using assms
proof (induction k arbitrary: q r ds)
  case 0
  then have q: "2 * unat q < 2 ^ 128" by simp
  show ?case
  proof (cases "ds \<le> r")
    case True
    have r: "unat (r - ds) = unat r - D" and le: "D \<le> unat r"
      using True "0.prems"(1) by (simp_all add: unat_sub word_le_nat_alt)
    have "q' = push_bit 1 q OR 1" and "r' = r - ds"
      using "0.prems"(4) True by (simp_all del: push_bit_eq_mult)
    with r le "0.prems"(2) q show ?thesis by (simp only: unat_push_bit_1) (simp add: algebra_simps)
  next
    case False
    have "q' = push_bit 1 q" and "r' = r"
      using "0.prems"(4) False by simp_all
    with "0.prems"(1) False q show ?thesis
      by (simp only: unat_push_bit_1) (simp add: word_le_nat_alt)
  qed
next
  case (Suc k)
  have q: "2 * unat q < 2 ^ 128"
  proof -
    have "2 * unat q < (unat q + 1) * 2" by simp
    also have "\<dots> \<le> (unat q + 1) * 2 ^ Suc (Suc k)" by (intro mult_le_mono) simp_all
    finally show ?thesis using Suc.prems(3) by linarith
  qed
  have ds: "unat (drop_bit 1 ds) = D * 2 ^ k"
    using Suc.prems(1) by (simp only: unat_drop_bit) simp
  show ?case
  proof (cases "ds \<le> r")
    case True
    have r: "unat (r - ds) = unat r - D * 2 ^ Suc k"
      using True Suc.prems(1) by (simp add: unat_sub)
    have le: "D * 2 ^ Suc k \<le> unat r"
      using True Suc.prems(1) by (simp add: word_le_nat_alt)
    have "unat q' * D + unat r' = unat (push_bit 1 q OR 1) * D * 2 ^ Suc k + unat (r - ds) \<and> unat r' < D"
    proof (rule Suc.IH [OF ds])
      show "unat (r - ds) < 2 * (D * 2 ^ k)" using r Suc.prems(2) le by simp
      show "(unat (push_bit 1 q OR 1) + 1) * 2 ^ Suc k \<le> 2 ^ 128"
        unfolding unat_push_bit_1 [OF q] using Suc.prems(3) by (simp add: algebra_simps)
      show "udiv_loop (Suc k) (push_bit 1 q OR 1) (r - ds) (drop_bit 1 ds) = (q', r')"
        using Suc.prems(4) True by (metis udiv_loop.simps(2))
    qed
    with r le show ?thesis unfolding unat_push_bit_1 [OF q] by (simp add: algebra_simps)
  next
    case False
    have "unat q' * D + unat r' = unat (push_bit 1 q) * D * 2 ^ Suc k + unat r \<and> unat r' < D"
    proof (rule Suc.IH [OF ds])
      show "unat r < 2 * (D * 2 ^ k)" using False Suc.prems(1) by (simp add: word_le_nat_alt)
      show "(unat (push_bit 1 q) + 1) * 2 ^ Suc k \<le> 2 ^ 128"
        unfolding unat_push_bit_1 [OF q] using Suc.prems(3) by (simp add: algebra_simps)
      show "udiv_loop (Suc k) (push_bit 1 q) r (drop_bit 1 ds) = (q', r')"
        using Suc.prems(4) False by (metis udiv_loop.simps(2))
    qed
    then show ?thesis unfolding unat_push_bit_1 [OF q] by (simp add: algebra_simps)
  qed
qed

section \<open>Counting leading zeros\<close>

lemma bit_nat_lower: "bit (m :: nat) i \<Longrightarrow> 2 ^ i \<le> m"
  by (metis bit_take_bit_iff less_irrefl not_le take_bit_nat_eq_self)

lemma clzll_bits:
  assumes "x \<noteq> 0"
  shows "clzll x < 64" and "bit x (63 - clzll x)" and "\<And>j. 63 - clzll x < j \<Longrightarrow> \<not> bit x j"
proof -
  let ?is = "rev [0..<64]" and ?P = "\<lambda>i. \<not> bit x i"
  obtain m where m: "bit x m" "m < 64"
    using assms by (force simp: bit_eq_iff)
  have "takeWhile ?P ?is \<noteq> ?is"
    using m by (auto simp: takeWhile_eq_all_conv)
  then show lt: "clzll x < 64"
    unfolding clzll_def
    by (metis diff_zero length_rev length_takeWhile_le length_upt nat_less_le takeWhile_eq_take take_all)
  have nth: "?is ! j = 63 - j" if "j < 64" for j
    using that by (simp add: rev_nth)
  show "bit x (63 - clzll x)"
    using nth_length_takeWhile [of ?P ?is] lt nth unfolding clzll_def by simp
  fix j assume j: "63 - clzll x < j"
  show "\<not> bit x j"
  proof (cases "j < 64")
    case True
    with j have "63 - j < clzll x" by simp
    then have "takeWhile ?P ?is ! (63 - j) \<in> set (takeWhile ?P ?is)" and
      "takeWhile ?P ?is ! (63 - j) = ?is ! (63 - j)"
      unfolding clzll_def by (simp only: nth_mem, simp only: takeWhile_nth)
    with nth [of "63 - j"] True have "j \<in> set (takeWhile ?P ?is)" by simp
    then show ?thesis by (auto dest: set_takeWhileD)
  next
    case False
    then show ?thesis by (auto dest: bit_imp_le_length)
  qed
qed

lemma clzll_scale:
  assumes "x \<noteq> 0"
  shows "2 ^ 63 \<le> unat x * 2 ^ clzll x" and "unat x * 2 ^ clzll x < 2 ^ 64"
proof -
  let ?k = "clzll x"
  note b = clzll_bits [OF assms]
  have "2 ^ (63 - ?k) \<le> unat x"
    using b(2) by (intro bit_nat_lower) (simp add: bit_unsigned_iff)
  then have "2 ^ (63 - ?k) * 2 ^ ?k \<le> unat x * 2 ^ ?k" by simp
  with b(1) show "2 ^ 63 \<le> unat x * 2 ^ ?k"
    by (simp flip: power_add)
  have "take_bit (64 - ?k) x = x"
  proof (rule bit_eqI)
    fix n
    show "bit (take_bit (64 - ?k) x) n \<longleftrightarrow> bit x n"
      using b(1) b(3) [of n] by (cases "n < 64 - ?k") (auto simp: bit_take_bit_iff)
  qed
  then have "unat x < 2 ^ (64 - ?k)"
    by (metis take_bit_nat_less_exp unsigned_take_bit_eq)
  then have "unat x * 2 ^ ?k < 2 ^ (64 - ?k) * 2 ^ ?k" by simp
  with b(1) show "unat x * 2 ^ ?k < 2 ^ 64"
    by (simp flip: power_add)
qed

section \<open>Unsigned division\<close>

lemma unat_push_bit_clzll:
  assumes "snd (Split d) \<noteq> 0"
  shows "unat (push_bit (clzll (snd (Split d))) d) = unat d * 2 ^ clzll (snd (Split d))"
    and "2 ^ 127 \<le> unat d * 2 ^ clzll (snd (Split d))"
proof -
  let ?h = "snd (Split d)" and ?l = "fst (Split d)"
  let ?k = "clzll ?h"
  note sc = clzll_scale [OF assms]
  have "unat d * 2 ^ ?k = (unat ?h * 2 ^ ?k) * 2 ^ 64 + unat ?l * 2 ^ ?k"
    by (subst unat_Split_eq) (simp add: algebra_simps)
  moreover have "2 ^ 63 * 2 ^ 64 \<le> (unat ?h * 2 ^ ?k) * (2 ^ 64 :: nat)"
    using sc(1) by (rule mult_right_mono) simp
  ultimately show "2 ^ 127 \<le> unat d * 2 ^ ?k"
    by simp
  have "unat d < Suc (unat ?h) * 2 ^ 64"
    using unat_u64_less [of ?l] by (subst unat_Split_eq) simp
  then have "unat d * 2 ^ ?k < Suc (unat ?h) * 2 ^ 64 * 2 ^ ?k" by simp
  also have "\<dots> = (Suc (unat ?h) * 2 ^ ?k) * 2 ^ 64" by (simp add: algebra_simps)
  also have "\<dots> \<le> 2 ^ 64 * 2 ^ 64"
  proof (rule mult_right_mono)
    have k: "?k < 64" using clzll_bits(1) [OF assms] .
    have "unat ?h * 2 ^ ?k < 2 ^ (64 - ?k) * 2 ^ ?k" using sc(2) k by (simp flip: power_add)
    then have "Suc (unat ?h) \<le> 2 ^ (64 - ?k)" by simp
    then have "Suc (unat ?h) * 2 ^ ?k \<le> 2 ^ (64 - ?k) * 2 ^ ?k" by (rule mult_right_mono) simp
    with k show "Suc (unat ?h) * 2 ^ ?k \<le> 2 ^ 64" by (simp flip: power_add)
  qed simp
  finally show "unat (push_bit ?k d) = unat d * 2 ^ ?k"
    by (simp add: unat_push_bit)
qed

lemma div_mod_uniqueI:
  "q * d + r = n \<Longrightarrow> r < d \<Longrightarrow> q = n div d \<and> r = n mod d" for q d r n :: nat
  by auto

lemma UDivMod128_long:
  assumes "snd (Split d) \<noteq> 0"
    and "udiv_loop (Suc (clzll (snd (Split d)))) 0 n (push_bit (clzll (snd (Split d))) d) = (q, r)"
  shows "unat q = unat n div unat d \<and> unat r = unat n mod unat d"
proof -
  note p = unat_push_bit_clzll [OF assms(1)]
  have "unat n < 2 ^ 128" using unsigned_less [of n, where 'a = nat] by simp
  with p(2) have "unat n < 2 * (unat d * 2 ^ clzll (snd (Split d)))" by simp
  moreover have "(unat (0 :: u128) + 1) * 2 ^ Suc (clzll (snd (Split d))) \<le> (2 ^ 128 :: nat)"
    using clzll_bits(1) [OF assms(1)] power_increasing [of "Suc (clzll (snd (Split d)))" 128 "2 :: nat"]
    by simp
  ultimately have "unat q * unat d + unat r = unat (0 :: u128) * unat d * 2 ^ Suc (clzll (snd (Split d))) + unat n
      \<and> unat r < unat d"
    using udiv_loop_correct [OF p(1) _ _ assms(2)] by blast
  then show ?thesis by (intro div_mod_uniqueI) auto
qed

lemma UDivMod128_narrow:
  assumes "d_lo \<noteq> 0"
    and "divq 0 n_hi d_lo = Some (q_hi, r_hi)" and "divq r_hi n_lo d_lo = Some (q_lo, r_lo)"
  shows "unat (Join q_hi q_lo) = (unat n_hi * 2 ^ 64 + unat n_lo) div unat d_lo"
    and "unat r_lo = (unat n_hi * 2 ^ 64 + unat n_lo) mod unat d_lo"
proof -
  have d: "0 < unat d_lo" using assms(1) by (simp add: unat_gt_0)
  have hi: "unat q_hi = unat n_hi div unat d_lo" "unat r_hi = unat n_hi mod unat d_lo"
    using divq_Some [OF assms(1), of 0 n_hi] assms(2) d by auto
  have "unat r_hi < unat d_lo" using hi d by simp
  then have lo: "unat q_lo = (unat r_hi * 2 ^ 64 + unat n_lo) div unat d_lo"
    "unat r_lo = (unat r_hi * 2 ^ 64 + unat n_lo) mod unat d_lo"
    using divq_Some [OF assms(1), of r_hi n_lo] assms(3) by auto
  have "(unat q_hi * 2 ^ 64 + unat q_lo) * unat d_lo + unat r_lo
      = (unat q_hi * unat d_lo + unat r_hi) * 2 ^ 64 + unat n_lo"
    using div_mult_mod_eq [of "unat r_hi * 2 ^ 64 + unat n_lo" "unat d_lo"] lo
    by (simp add: algebra_simps)
  also have "\<dots> = unat n_hi * 2 ^ 64 + unat n_lo"
    using hi by simp
  finally have "unat (Join q_hi q_lo) * unat d_lo + unat r_lo = unat n_hi * 2 ^ 64 + unat n_lo"
    by (simp add: unat_Join)
  moreover have "unat r_lo < unat d_lo" using lo d by simp
  ultimately have "unat (Join q_hi q_lo) = (unat n_hi * 2 ^ 64 + unat n_lo) div unat d_lo \<and>
      unat r_lo = (unat n_hi * 2 ^ 64 + unat n_lo) mod unat d_lo"
    by (rule div_mod_uniqueI)
  then show "unat (Join q_hi q_lo) = (unat n_hi * 2 ^ 64 + unat n_lo) div unat d_lo"
    and "unat r_lo = (unat n_hi * 2 ^ 64 + unat n_lo) mod unat d_lo"
    by simp_all
qed

lemma UDivMod128_unat:
  assumes "d \<noteq> 0"
  shows "\<exists>q r. UDivMod128 n d = Some (q, r) \<and> unat q = unat n div unat d \<and> unat r = unat n mod unat d"
proof -
  obtain n_lo n_hi d_lo d_hi where sp: "Split n = (n_lo, n_hi)" "Split d = (d_lo, d_hi)"
    by (metis surj_pair)
  have n: "unat n = unat n_hi * 2 ^ 64 + unat n_lo" and d: "unat d = unat d_hi * 2 ^ 64 + unat d_lo"
    using unat_Split_eq [of n] unat_Split_eq [of d] sp by simp_all
  consider (small) "n_hi = 0" "d_hi = 0" | (one) "\<not> (n_hi = 0 \<and> d_hi = 0)" "d_hi = 0" "n_hi < d_lo"
    | (two) "\<not> (n_hi = 0 \<and> d_hi = 0)" "d_hi = 0" "\<not> n_hi < d_lo"
    | (less) "d_hi \<noteq> 0" "n < d" | (long) "d_hi \<noteq> 0" "\<not> n < d"
    by blast
  then show ?thesis
  proof cases
    case small
    then show ?thesis
      using assms n d
      by (simp add: UDivMod128_def sp unat_ucast_u128 unat_div_distrib unat_mod_distrib)
  next
    case one
    then have dl: "d_lo \<noteq> 0" using assms d by (auto simp: unat_eq_zero)
    from divq_Some [OF dl, of n_hi n_lo] one(3) obtain q r where
      "divq n_hi n_lo d_lo = Some (q, r)" "unat q = unat n div unat d_lo" "unat r = unat n mod unat d_lo"
      by (auto simp: word_less_nat_alt n)
    with one assms d show ?thesis
      by (auto simp: UDivMod128_def sp unat_ucast_u128)
  next
    case two
    then have dl: "d_lo \<noteq> 0" using assms d by (auto simp: unat_eq_zero)
    then have dp: "0 < unat d_lo" by (simp add: unat_gt_0)
    from divq_Some [OF dl, of 0 n_hi] dp obtain q_hi r_hi where
      hi: "divq 0 n_hi d_lo = Some (q_hi, r_hi)" "unat r_hi < unat d_lo" by auto
    from divq_Some [OF dl hi(2), of n_lo] obtain q_lo r_lo where
      lo: "divq r_hi n_lo d_lo = Some (q_lo, r_lo)" by auto
    from two assms d UDivMod128_narrow [OF dl hi(1) lo] hi(1) lo show ?thesis
      by (auto simp: UDivMod128_def sp unat_ucast_u128 n)
  next
    case less
    then show ?thesis
      using assms by (auto simp: UDivMod128_def sp word_less_nat_alt)
  next
    case long
    obtain q r where qr: "udiv_loop (Suc (clzll d_hi)) 0 n (push_bit (clzll d_hi) d) = (q, r)"
      by (metis surj_pair)
    have "UDivMod128 n d = Some (q, r)"
      using long assms qr unfolding UDivMod128_def sp Let_def by (simp only: prod.case) simp
    with UDivMod128_long [of d n q r] long qr sp show ?thesis by auto
  qed
qed

lemma UDivMod128_eq:
  assumes "d \<noteq> 0"
  shows "UDivMod128 n d = Some (n div d, n mod d)"
proof -
  obtain q r where "UDivMod128 n d = Some (q, r)" "unat q = unat n div unat d" "unat r = unat n mod unat d"
    using UDivMod128_unat [OF assms] by blast
  then show ?thesis
    by (simp add: word_unat_eq_iff unat_div_distrib unat_mod_distrib)
qed

section \<open>Signed division\<close>

lemma uint_magnitude: "uint (if sint x < 0 then - x else x) = \<bar>sint (x :: u128)\<bar>"
proof (cases "sint x < 0")
  case True
  have "- sint x \<le> 2 ^ 127" using sint_ge [of x] by simp
  with True have m: "(- sint x) mod 2 ^ 128 = - sint x" by simp
  have "uint (- x) = uint (word_of_int (- sint x) :: u128)"
    by simp
  also have "\<dots> = - sint x"
    using m by (simp only: uint_word_of_int) simp
  finally have "uint (- x) = - sint x" .
  with True show ?thesis by simp
next
  case False
  have "sint x < 2 ^ 127" using sint_lt [of x] by simp
  with False have m: "sint x mod 2 ^ 128 = sint x" by simp
  have "uint x = uint (word_of_int (sint x) :: u128)"
    by simp
  also have "\<dots> = sint x"
    using m by (simp only: uint_word_of_int) simp
  finally show ?thesis using False by simp
qed

lemma word_of_int_uint_div:
  "word_of_int (uint (a :: u128) div uint b) = a div b" "word_of_int (uint (a :: u128) mod uint b) = a mod b"
  by (simp_all flip: uint_div_distrib uint_mod_distrib)

lemma divti3_eq:
  assumes "d \<noteq> 0"
  shows "divti3 n d = Some (word_of_int (sint n sdiv sint d))"
proof -
  let ?un = "if sint n < 0 then - n else n" and ?ud = "if sint d < 0 then - d else d"
  have ud: "?ud \<noteq> 0" using assms by simp
  have q: "word_of_int (\<bar>sint n\<bar> div \<bar>sint d\<bar>) = ?un div ?ud"
    unfolding uint_magnitude [symmetric] by (rule word_of_int_uint_div)
  have s: "sint d \<noteq> 0" using assms by (simp add: signed_eq_0_iff)
  have "sint n sdiv sint d =
      (if (sint n < 0) \<noteq> (sint d < 0) then - (\<bar>sint n\<bar> div \<bar>sint d\<bar>) else \<bar>sint n\<bar> div \<bar>sint d\<bar>)"
    using s by (auto simp: signed_divide_int_def sgn_if)
  then have "word_of_int (sint n sdiv sint d) =
      (if (sint n < 0) \<noteq> (sint d < 0) then - (?un div ?ud) else ?un div ?ud)"
    unfolding q [symmetric] by (simp only: if_distrib [of word_of_int] wi_hom_neg)
  then show ?thesis
    using assms unfolding divti3_def Let_def UDivMod128_eq [OF ud] by (simp only: if_False option.case prod.case)
qed

lemma modti3_eq:
  assumes "d \<noteq> 0"
  shows "modti3 n d = Some (word_of_int (sint n smod sint d))"
proof -
  let ?un = "if sint n < 0 then - n else n" and ?ud = "if sint d < 0 then - d else d"
  have ud: "?ud \<noteq> 0" using assms by simp
  have r: "word_of_int (\<bar>sint n\<bar> mod \<bar>sint d\<bar>) = ?un mod ?ud"
    unfolding uint_magnitude [symmetric] by (rule word_of_int_uint_div)
  have "sint n smod sint d =
      (if sint n < 0 then - (\<bar>sint n\<bar> mod \<bar>sint d\<bar>) else \<bar>sint n\<bar> mod \<bar>sint d\<bar>)"
    by (auto simp: signed_modulo_int_def sgn_if)
  then have "word_of_int (sint n smod sint d) = (if sint n < 0 then - (?un mod ?ud) else ?un mod ?ud)"
    unfolding r [symmetric] by (simp only: if_distrib [of word_of_int] wi_hom_neg)
  then show ?thesis
    using assms unfolding modti3_def Let_def UDivMod128_eq [OF ud] by (simp only: if_False option.case prod.case)
qed

section \<open>Multiplication\<close>

lemma mod_square_split: "x < c \<Longrightarrow> h mod c * c + x = (h * c + x) mod (c * c)" for x c h :: nat
  by (simp add: mod_mult2_eq)

lemma multi3_eq: "multi3 a b = a * b"
proof -
  obtain al ah bl bh where sp: "Split a = (al, ah)" "Split b = (bl, bh)"
    by (metis surj_pair)
  have a: "unat a = unat ah * 2 ^ 64 + unat al" and b: "unat b = unat bh * 2 ^ 64 + unat bl"
    using unat_Split_eq [of a] unat_Split_eq [of b] sp by simp_all
  let ?p = "unat al * unat bl"
  let ?hi = "?p div 2 ^ 64 + unat al * unat bh + unat ah * unat bl"
  have "multi3 a b = Join (of_nat (?p div 2 ^ 64) + al * bh + ah * bl) (of_nat ?p)"
    using sp by (simp add: multi3_def Split_def mulq_def Let_def)
  then have "unat (multi3 a b) = (?hi mod 2 ^ 64) * 2 ^ 64 + ?p mod 2 ^ 64"
    by (simp add: unat_Join unat_word_ariths unat_of_nat mod_simps)
  also have "\<dots> = (?hi * 2 ^ 64 + ?p mod 2 ^ 64) mod (2 ^ 64 * 2 ^ 64)"
    by (rule mod_square_split) simp
  also have "?hi * 2 ^ 64 + ?p mod 2 ^ 64 = ?p + (unat al * unat bh + unat ah * unat bl) * 2 ^ 64"
    using div_mult_mod_eq [of ?p "2 ^ 64"] by (simp add: algebra_simps)
  also have "\<dots> mod (2 ^ 64 * 2 ^ 64) = (unat a * unat b) mod (2 ^ 64 * 2 ^ 64)"
  proof -
    have "unat a * unat b = ?p + (unat al * unat bh + unat ah * unat bl) * 2 ^ 64
        + unat ah * unat bh * (2 ^ 64 * 2 ^ 64)"
      unfolding a b by (simp add: algebra_simps)
    then show ?thesis by (simp only: mod_mult_self1)
  qed
  finally show ?thesis
    by (simp add: word_unat_eq_iff unat_word_ariths)
qed

section \<open>Properties\<close>

text \<open>
  C22: 128-bit unsigned division. For every dividend and divisor \<open>UDivMod128\<close> panics exactly
  on a zero divisor; otherwise whichever of its paths runs (one 64-bit division, one
  \<open>divq\<close>, two chained \<open>divq\<close>, early exit, shift-and-subtract loop) returns the quotient and
  the remainder, and no \<open>divq\<close> faults.
\<close>

theorem UDivMod128_correct:
  "UDivMod128 n d = (if d = 0 then None else Some (n div d, n mod d))"
  by (simp add: UDivMod128_eq) (simp add: UDivMod128_def)

text \<open>
  128-bit signed division and remainder. \<open>__divti3\<close> truncates towards zero and
  \<open>__modti3\<close> takes the sign of the dividend, as C requires, for all operands (the one
  overflowing case, the least value divided by -1, wraps to itself); both panic exactly
  on a zero divisor.
\<close>

theorem divti3_modti3_correct:
  "divti3 n d = (if d = 0 then None else Some (word_of_int (sint n sdiv sint d))) \<and>
   modti3 n d = (if d = 0 then None else Some (word_of_int (sint n smod sint d)))"
  by (simp add: divti3_eq modti3_eq) (simp add: divti3_def modti3_def)

text \<open>
  128-bit multiplication. \<open>__multi3\<close>, assembled from one full 64x64 product and two
  truncated cross products, is multiplication modulo \<open>2 ^ 128\<close>.
\<close>

theorem multi3_correct: "multi3 a b = a * b"
  by (rule multi3_eq)

end
