(* ===== verification/Memory.thy ===== *)
theory Memory
  imports Prelude
begin

text \<open>
  Byte memory as the kernel's pointers see it: one function from 64-bit addresses to bytes,
  with the little-endian layout of the integers, the memory primitives the sources call
  (\<open>MemoryCopy\<close>, \<open>MemoryZero\<close>, plain stores through a cast pointer) and C strings. User and kernel
  buffers, the higher-half direct map and module images are all reached through it.
\<close>

type_synonym mem = "addr \<Rightarrow> u8"

section \<open>Bytes\<close>

definition read_bytes :: "mem \<Rightarrow> addr \<Rightarrow> nat \<Rightarrow> u8 list" where
  "read_bytes m a n = map (\<lambda>i. m (a + of_nat i)) [0..<n]"

fun write_bytes :: "mem \<Rightarrow> addr \<Rightarrow> u8 list \<Rightarrow> mem" where
  "write_bytes m a [] = m"
| "write_bytes m a (b # bs) = write_bytes (m(a := b)) (a + 1) bs"

definition MemoryCopy :: "mem \<Rightarrow> addr \<Rightarrow> addr \<Rightarrow> u64 \<Rightarrow> mem" where
  "MemoryCopy m dst src n = write_bytes m dst (read_bytes m src (unat n))"

definition MemoryZero :: "mem \<Rightarrow> addr \<Rightarrow> u64 \<Rightarrow> mem" where
  "MemoryZero m dst n = write_bytes m dst (replicate (unat n) 0)"

definition region :: "addr \<Rightarrow> nat \<Rightarrow> addr set" where
  "region a n = (\<lambda>i. a + of_nat i) ` {..<n}"

lemma region_0 [simp]: "region a 0 = {}"
  by (simp add: region_def)

lemma region_Suc: "region a (Suc n) = insert a (region (a + 1) n)"
  by (auto simp: region_def lessThan_Suc_eq_insert_0 image_image add.assoc)

lemma region_mono: "n \<le> k \<Longrightarrow> region a n \<subseteq> region a k"
  by (auto simp: region_def)

lemma region_append: "region a (n + k) = region a n \<union> region (a + of_nat n) k"
proof (induction n arbitrary: a)
  case (Suc n)
  then show ?case by (simp add: region_Suc add.assoc)
qed simp

lemma region_sub:
  assumes "k + n \<le> N"
  shows "region (a + of_nat k) n \<subseteq> region a N"
proof -
  have "region a N = region a (k + n + (N - (k + n)))" using assms by simp
  then show ?thesis unfolding region_append by blast
qed

lemma in_region_offset:
  assumes "n \<le> 2 ^ 64"
  shows "a + of_nat i \<in> region a n \<longleftrightarrow> i mod 2 ^ 64 < n"
proof -
  have "(of_nat i :: u64) = of_nat j \<longleftrightarrow> i mod 2 ^ 64 = j" if "j < n" for j
    using that assms by (auto simp: word_of_nat_eq_iff take_bit_eq_mod)
  then show ?thesis
    by (auto simp: region_def intro!: image_eqI [where x = "i mod 2 ^ 64"])
qed

lemma region_disjoint:
  assumes "unat a + n \<le> unat b" and "unat b + k \<le> 2 ^ 64"
  shows "region a n \<inter> region b k = {}" "region b k \<inter> region a n = {}"
proof -
  have "unat (c + of_nat i) = unat c + i" if "unat c + i < 2 ^ 64" for c :: addr and i
  proof -
    have "unat (of_nat i :: addr) = i" using that by (intro of_nat_inverse [OF refl]) simp
    then show ?thesis using that by (subst unat_plus_no_wrap) simp_all
  qed
  then have "unat x < unat b" if "x \<in> region a n" for x
    using that assms unat_lt_2p [of b] by (auto simp: region_def)
  moreover have "unat b \<le> unat x" if "x \<in> region b k" for x
    using that assms \<open>\<And>c i. unat c + i < 2 ^ 64 \<Longrightarrow> unat (c + of_nat i) = unat c + i\<close> [of b] by (auto simp: region_def)
  ultimately show "region a n \<inter> region b k = {}" "region b k \<inter> region a n = {}" by fastforce+
qed

lemma length_read_bytes [simp]: "length (read_bytes m a n) = n"
  by (simp add: read_bytes_def)

lemma nth_read_bytes [simp]: "i < n \<Longrightarrow> read_bytes m a n ! i = m (a + of_nat i)"
  by (simp add: read_bytes_def)

lemma read_bytes_Suc: "read_bytes m a (Suc n) = m a # read_bytes m (a + 1) n"
  unfolding read_bytes_def upt_conv_Cons [OF zero_less_Suc]
  by (simp add: map_Suc_upt [symmetric] add.assoc comp_def del: upt_Suc map_Suc_upt)

lemma read_bytes_0 [simp]: "read_bytes m a 0 = []"
  by (simp add: read_bytes_def)

lemma read_bytes_append: "read_bytes m a (n + k) = read_bytes m a n @ read_bytes m (a + of_nat n) k"
proof (induction n arbitrary: a)
  case (Suc n)
  then show ?case by (simp add: read_bytes_Suc add.assoc)
qed simp

lemma write_bytes_append:
  "write_bytes m a (bs @ cs) = write_bytes (write_bytes m a bs) (a + of_nat (length bs)) cs"
  by (induction bs arbitrary: m a) (simp_all add: add.assoc)

lemma write_bytes_other: "x \<notin> region a (length bs) \<Longrightarrow> write_bytes m a bs x = m x"
  by (induction bs arbitrary: m a) (auto simp: region_Suc)

lemma write_bytes_at:
  assumes "length bs \<le> 2 ^ 64" and "i < length bs"
  shows "write_bytes m a bs (a + of_nat i) = bs ! i"
  using assms
proof (induction bs arbitrary: m a i)
  case (Cons b bs)
  show ?case
  proof (cases i)
    case 0
    have "a \<notin> region (a + 1) (length bs)"
    proof
      assume "a \<in> region (a + 1) (length bs)"
      moreover have "(of_nat (2 ^ 64 - 1) :: u64) = - 1" by simp
      ultimately have "(a + 1) + of_nat (2 ^ 64 - 1) \<in> region (a + 1) (length bs)" by (simp only:) simp
      then show False
        using Cons.prems(1) in_region_offset [of "length bs" "a + 1" "2 ^ 64 - 1"] by simp
    qed
    then show ?thesis using 0 by (simp add: write_bytes_other)
  next
    case (Suc j)
    with Cons.IH [where i = j and a = "a + 1"] Cons.prems show ?thesis
      by (simp add: add.assoc)
  qed
qed simp

lemma read_write_same:
  "length bs \<le> 2 ^ 64 \<Longrightarrow> n = length bs \<Longrightarrow> read_bytes (write_bytes m a bs) a n = bs"
  by (auto intro!: nth_equalityI simp: write_bytes_at)

lemma read_bytes_cong:
  "(\<And>x. x \<in> region a n \<Longrightarrow> m x = m' x) \<Longrightarrow> read_bytes m a n = read_bytes m' a n"
  by (auto intro!: nth_equalityI simp: region_def)

lemma read_write_disjoint:
  "region a n \<inter> region b (length bs) = {} \<Longrightarrow> read_bytes (write_bytes m b bs) a n = read_bytes m a n"
  by (rule read_bytes_cong) (auto intro!: write_bytes_other)

section \<open>Integers in memory\<close>

definition to_bytes :: "nat \<Rightarrow> 'a::len word \<Rightarrow> u8 list" where
  "to_bytes n w = map (\<lambda>i. ucast (drop_bit (8 * i) w)) [0..<n]"

fun of_bytes :: "u8 list \<Rightarrow> 'a::len word" where
  "of_bytes [] = 0"
| "of_bytes (b # bs) = ucast b OR push_bit 8 (of_bytes bs)"

lemma length_to_bytes [simp]: "length (to_bytes n w) = n"
  by (simp add: to_bytes_def)

lemma bit_of_bytes:
  "bit (of_bytes bs :: 'a::len word) i \<longleftrightarrow> i < LENGTH('a) \<and> i div 8 < length bs \<and> bit (bs ! (i div 8)) (i mod 8)"
proof (induction bs arbitrary: i)
  case (Cons b bs)
  show ?case
  proof (cases "i < 8")
    case True
    then show ?thesis by (auto simp: bit_or_iff bit_push_bit_iff bit_ucast_iff)
  next
    case False
    then obtain j where j: "i = 8 + j" by (metis le_add_diff_inverse not_less)
    have "\<not> bit b (8 + j)" using bit_imp_le_length [of b "8 + j"] by auto
    moreover have "(8 + j) div 8 = Suc (j div 8)" by simp
    ultimately show ?thesis
      by (auto simp: j bit_or_iff bit_push_bit_iff bit_ucast_iff Cons.IH)
  qed
qed simp

lemma of_bytes_to_bytes:
  assumes "LENGTH('a) = 8 * n"
  shows "of_bytes (to_bytes n w) = (w :: 'a::len word)"
proof (rule bit_word_eqI)
  fix i assume i: "i < LENGTH('a)"
  then have "i div 8 < n" using assms by (simp add: less_mult_imp_div_less mult.commute)
  with i show "bit (of_bytes (to_bytes n w) :: 'a word) i = bit w i"
    by (simp add: bit_of_bytes to_bytes_def bit_ucast_iff bit_drop_bit_eq)
qed

definition load64 :: "mem \<Rightarrow> addr \<Rightarrow> u64" where
  "load64 m a = of_bytes (read_bytes m a 8)"

definition store64 :: "mem \<Rightarrow> addr \<Rightarrow> u64 \<Rightarrow> mem" where
  "store64 m a w = write_bytes m a (to_bytes 8 w)"

definition load32 :: "mem \<Rightarrow> addr \<Rightarrow> u32" where
  "load32 m a = of_bytes (read_bytes m a 4)"

definition store32 :: "mem \<Rightarrow> addr \<Rightarrow> u32 \<Rightarrow> mem" where
  "store32 m a w = write_bytes m a (to_bytes 4 w)"

definition load16 :: "mem \<Rightarrow> addr \<Rightarrow> u16" where
  "load16 m a = of_bytes (read_bytes m a 2)"

lemma load_store64 [simp]: "load64 (store64 m a w) a = w"
  by (simp add: load64_def store64_def read_write_same of_bytes_to_bytes)

lemma load_store32 [simp]: "load32 (store32 m a w) a = w"
  by (simp add: load32_def store32_def read_write_same of_bytes_to_bytes)

lemma load64_store64_other:
  "region a 8 \<inter> region b 8 = {} \<Longrightarrow> load64 (store64 m a w) b = load64 m b"
  unfolding load64_def store64_def by (subst read_write_disjoint) (simp_all add: inf_commute)

lemma region_offsets_disjoint:
  assumes "i + n \<le> j" and "j + k \<le> 2 ^ 64"
  shows "region (a + of_nat i) n \<inter> region (a + of_nat j) k = {}" "region (a + of_nat j) k \<inter> region (a + of_nat i) n = {}"
proof -
  have "(of_nat i + of_nat x :: u64) \<noteq> of_nat j + of_nat y" if "x < n" "y < k" for x y
  proof
    assume "(of_nat i + of_nat x :: u64) = of_nat j + of_nat y"
    then have "unat (of_nat (i + x) :: u64) = unat (of_nat (j + y) :: u64)" by simp
    moreover have "unat (of_nat (i + x) :: u64) = i + x" "unat (of_nat (j + y) :: u64) = j + y"
      using that assms by (intro of_nat_inverse [OF refl], simp)+
    ultimately show False using that assms by linarith
  qed
  then show "region (a + of_nat i) n \<inter> region (a + of_nat j) k = {}"
    "region (a + of_nat j) k \<inter> region (a + of_nat i) n = {}"
    by (fastforce simp: region_def add.assoc)+
qed

section \<open>Arrays of 64-bit words\<close>

definition write_words :: "mem \<Rightarrow> addr \<Rightarrow> u64 list \<Rightarrow> mem" where
  "write_words m a ws = write_bytes m a (concat (map (to_bytes 8) ws))"

definition read_words :: "mem \<Rightarrow> addr \<Rightarrow> nat \<Rightarrow> u64 list" where
  "read_words m a n = map (\<lambda>i. load64 m (a + 8 * of_nat i)) [0..<n]"

lemma length_concat_words [simp]: "length (concat (map (to_bytes 8) ws)) = 8 * length ws"
  by (induction ws) simp_all

lemma take_drop_concat_words:
  "i < length ws \<Longrightarrow> take 8 (drop (8 * i) (concat (map (to_bytes 8) ws))) = to_bytes 8 (ws ! i)"
proof (induction ws arbitrary: i)
  case (Cons w ws)
  then show ?case by (cases i) simp_all
qed simp

lemma read_bytes_sub:
  "i + k \<le> n \<Longrightarrow> read_bytes m (a + of_nat i) k = take k (drop i (read_bytes m a n))"
  by (rule nth_equalityI) (simp_all add: add.assoc)

lemma load64_write_words:
  assumes "8 * length ws \<le> 2 ^ 64" and "i < length ws"
  shows "load64 (write_words m a ws) (a + of_nat (8 * i)) = ws ! i"
proof -
  have "read_bytes (write_words m a ws) (a + of_nat (8 * i)) 8
      = take 8 (drop (8 * i) (read_bytes (write_words m a ws) a (8 * length ws)))"
    using assms(2) by (intro read_bytes_sub) simp
  also have "read_bytes (write_words m a ws) a (8 * length ws) = concat (map (to_bytes 8) ws)"
    using assms(1) by (simp add: write_words_def read_write_same)
  finally show ?thesis
    using assms(2) by (simp add: load64_def take_drop_concat_words of_bytes_to_bytes)
qed

lemma read_words_write_words:
  "8 * length ws \<le> 2 ^ 64 \<Longrightarrow> read_words (write_words m a ws) a (length ws) = ws"
  using load64_write_words [of ws _ m a] by (auto intro!: nth_equalityI simp: read_words_def)

section \<open>C strings\<close>

text \<open>
  The characters from \<open>p\<close> up to the first NUL: what a \<open>StringView\<close> built from a \<open>const char*\<close> holds.
  \<open>None\<close>: there is no NUL anywhere, so the scan does not end.
\<close>

definition char_of_byte :: "u8 \<Rightarrow> char" where
  "char_of_byte b = char_of (unat b)"

definition byte_of_char :: "char \<Rightarrow> u8" where
  "byte_of_char c = of_nat (of_char c)"

lemma char_of_byte_of_char [simp]: "char_of_byte (byte_of_char c) = c"
proof -
  have "unat (of_nat (of_char c) :: u8) = of_char c"
    by (simp add: unat_of_nat)
  then show ?thesis by (simp add: char_of_byte_def byte_of_char_def)
qed

partial_function (option) cstr :: "mem \<Rightarrow> addr \<Rightarrow> string option" where
  "cstr m p = (if m p = 0 then Some []
     else Option.bind (cstr m (p + 1)) (\<lambda>cs. Some (char_of_byte (m p) # cs)))"

lemma cstr_read:
  assumes "c = map char_of_byte bs" and "0 \<notin> set bs" and "read_bytes m p (length bs) = bs"
    and "m (p + of_nat (length bs)) = 0"
  shows "cstr m p = Some c"
  using assms
proof (induction bs arbitrary: p c)
  case Nil
  then show ?case by (simp add: cstr.simps)
next
  case (Cons b bs)
  then show ?case
    by (subst cstr.simps) (auto simp: read_bytes_Suc add.assoc)
qed

end
