(* ===== verification/Pipe.thy ===== *)
theory Pipe
  imports Memory
begin

text \<open>
  The pipe (\<open>include/ceryx/fs/pipe/Pipe.hpp\<close>). The ring buffer \<open>DynamicRingBuffer<u8>\<close> is not under
  \<open>src/\<close>: its operations are the record \<open>ring\<close>, an argument of the pipe operations, and
  \<open>ring_laws\<close> states what a bounded first-in first-out buffer promises.

  The mutex makes each operation atomic up to a \<open>Wait\<close> on a condition variable. An operation
  that waits returns \<open>Wait\<close> with its local progress, and is resumed from there; \<open>notified\<close> lists the
  condition variables it has signalled.
\<close>

section \<open>Data\<close>

record 'r ring =
  rb_Empty :: "'r \<Rightarrow> bool"
  rb_Size :: "'r \<Rightarrow> u64"
  rb_Capacity :: "'r \<Rightarrow> u64"
  rb_Push :: "u8 \<Rightarrow> 'r \<Rightarrow> bool \<times> 'r"
  rb_Pop :: "'r \<Rightarrow> u8 option \<times> 'r"

record 'r pipe =
  m_buffer :: 'r
  m_readers :: u64
  m_writers :: u64

datatype cond_var = can_read | can_write

datatype 'a blocking = Return 'a | Wait cond_var nat

section \<open>Operations\<close>

definition Pipe_new :: "'r \<Rightarrow> 'r pipe" where
  "Pipe_new b = \<lparr>m_buffer = b, m_readers = 0, m_writers = 0\<rparr>"

fun pop_loop :: "'r ring \<Rightarrow> nat \<Rightarrow> 'r \<Rightarrow> u8 list \<times> 'r" where
  "pop_loop R 0 b = ([], b)"
| "pop_loop R (Suc n) b =
     (case rb_Pop R b of
        (None, b') \<Rightarrow> ([], b')
      | (Some v, b') \<Rightarrow> (case pop_loop R n b' of (vs, b'') \<Rightarrow> (v # vs, b'')))"

text \<open>\<open>Pipe_Read\<close>: the bytes stored in the caller's buffer come back as a list.\<close>

definition Pipe_Read :: "'r ring \<Rightarrow> u64 \<Rightarrow> 'r pipe \<Rightarrow> u8 list expected blocking \<times> 'r pipe \<times> cond_var list" where
  "Pipe_Read R sz p =
     (if rb_Empty R (m_buffer p) then
        (if m_writers p = 0 then (Return (Value []), p, []) else (Wait can_read 0, p, []))
      else
        (case pop_loop R (unat sz) (m_buffer p) of
           (vs, b) \<Rightarrow> (Return (Value vs), p\<lparr>m_buffer := b\<rparr>, if vs \<noteq> [] then [can_write] else [])))"

fun push_loop :: "'r ring \<Rightarrow> u8 list \<Rightarrow> 'r \<Rightarrow> nat \<times> 'r" where
  "push_loop R [] b = (0, b)"
| "push_loop R (v # vs) b =
     (case rb_Push R v b of
        (True, b') \<Rightarrow> (case push_loop R vs b' of (n, b'') \<Rightarrow> (Suc n, b''))
      | (False, b') \<Rightarrow> (0, b'))"

text \<open>\<open>-EPIPE\<close> is returned as a value of type \<open>usize\<close>, not as an error.\<close>

definition epipe_value :: u64 where
  "epipe_value = - 32"

text \<open>The write loop, from \<open>written\<close> bytes of \<open>data\<close> already pushed.\<close>

partial_function (option) Write_loop ::
  "'r ring \<Rightarrow> u8 list \<Rightarrow> nat \<Rightarrow> 'r pipe \<Rightarrow> cond_var list \<Rightarrow> (u64 expected blocking \<times> 'r pipe \<times> cond_var list) option" where
  "Write_loop R data written p notified =
     (if written < length data then
        if rb_Size R (m_buffer p) \<ge> rb_Capacity R (m_buffer p) then
          if m_readers p = 0 then Some (Return (Value epipe_value), p, notified)
          else Some (Wait can_write written, p, notified)
        else
          (let (n, b) = push_loop R (drop written data) (m_buffer p);
               written' = written + n
           in Write_loop R data written' (p\<lparr>m_buffer := b\<rparr>)
                (if written' > 0 then notified @ [can_read] else notified))
      else Some (Return (Value (of_nat written)), p, notified))"

definition Pipe_Write :: "'r ring \<Rightarrow> u8 list \<Rightarrow> 'r pipe \<Rightarrow> (u64 expected blocking \<times> 'r pipe \<times> cond_var list) option" where
  "Pipe_Write R data p =
     (if m_readers p = 0 then Some (Return (Value epipe_value), p, [])
      else Write_loop R data 0 p [])"

definition IncrementReaders :: "'r pipe \<Rightarrow> 'r pipe" where
  "IncrementReaders p = p\<lparr>m_readers := m_readers p + 1\<rparr>"

definition DecrementReaders :: "'r pipe \<Rightarrow> 'r pipe \<times> cond_var list" where
  "DecrementReaders p =
     (let p = p\<lparr>m_readers := m_readers p - 1\<rparr> in (p, if m_readers p = 0 then [can_write] else []))"

definition IncrementWriters :: "'r pipe \<Rightarrow> 'r pipe" where
  "IncrementWriters p = p\<lparr>m_writers := m_writers p + 1\<rparr>"

definition DecrementWriters :: "'r pipe \<Rightarrow> 'r pipe \<times> cond_var list" where
  "DecrementWriters p =
     (let p = p\<lparr>m_writers := m_writers p - 1\<rparr> in (p, if m_writers p = 0 then [can_read] else []))"

section \<open>What the ring buffer promises\<close>

definition ring_laws :: "'r ring \<Rightarrow> ('r \<Rightarrow> u8 list) \<Rightarrow> nat \<Rightarrow> bool" where
  "ring_laws R con cap \<longleftrightarrow> 0 < cap \<and> cap < 2 ^ 64 \<and>
     (\<forall>b. length (con b) \<le> cap \<and> rb_Empty R b = (con b = []) \<and>
        unat (rb_Size R b) = length (con b) \<and> unat (rb_Capacity R b) = cap) \<and>
     (\<forall>b v. if length (con b) < cap then fst (rb_Push R v b) \<and> con (snd (rb_Push R v b)) = con b @ [v]
            else \<not> fst (rb_Push R v b) \<and> con (snd (rb_Push R v b)) = con b) \<and>
     (\<forall>b. case con b of [] \<Rightarrow> fst (rb_Pop R b) = None \<and> con (snd (rb_Pop R b)) = []
            | v # vs \<Rightarrow> fst (rb_Pop R b) = Some v \<and> con (snd (rb_Pop R b)) = vs)"

text \<open>A ring buffer of four bytes over lists, for the concrete instances.\<close>

definition list_ring :: "u8 list ring" where
  "list_ring = \<lparr>rb_Empty = (\<lambda>b. b = []), rb_Size = (\<lambda>b. of_nat (length (take 4 b))), rb_Capacity = (\<lambda>_. 4),
     rb_Push = (\<lambda>v b. if length b < 4 then (True, b @ [v]) else (False, b)),
     rb_Pop = (\<lambda>b. case take 4 b of [] \<Rightarrow> (None, b) | v # vs \<Rightarrow> (Some v, vs))\<rparr>"

lemma list_ring_laws: "ring_laws list_ring (take 4) 4"
proof -
  have m: "min k 4 mod 18446744073709551616 = min k (4::nat)" for k by simp
  have "length vs \<le> 4" if "take 4 b = v # vs" for b :: "u8 list" and v vs
    using arg_cong [OF that, of length] by simp
  then show ?thesis
    by (auto simp: ring_laws_def list_ring_def unat_of_nat m split: list.split)
qed

section \<open>Loops over a lawful ring\<close>

lemma ring_facts:
  assumes "ring_laws R con cap"
  shows "length (con b) \<le> cap" "rb_Empty R b = (con b = [])" "unat (rb_Size R b) = length (con b)"
    "unat (rb_Capacity R b) = cap" "0 < cap" "cap < 2 ^ 64"
  using assms by (simp_all add: ring_laws_def)

lemma ring_pop:
  assumes "ring_laws R con cap" and "rb_Pop R b = (w, b')"
  shows "con b = [] \<Longrightarrow> w = None \<and> con b' = []" and "con b = v # vs \<Longrightarrow> w = Some v \<and> con b' = vs"
proof -
  have "case con b of [] \<Rightarrow> fst (rb_Pop R b) = None \<and> con (snd (rb_Pop R b)) = []
      | v # vs \<Rightarrow> fst (rb_Pop R b) = Some v \<and> con (snd (rb_Pop R b)) = vs"
    using assms(1) unfolding ring_laws_def by blast
  then show "con b = [] \<Longrightarrow> w = None \<and> con b' = []" "con b = v # vs \<Longrightarrow> w = Some v \<and> con b' = vs"
    by (simp_all add: assms(2))
qed

lemma ring_push:
  assumes "ring_laws R con cap" and "rb_Push R v b = (ok, b')"
  shows "ok = (length (con b) < cap) \<and> con b' = con b @ (if ok then [v] else [])"
proof -
  have "if length (con b) < cap then fst (rb_Push R v b) \<and> con (snd (rb_Push R v b)) = con b @ [v]
      else \<not> fst (rb_Push R v b) \<and> con (snd (rb_Push R v b)) = con b"
    using assms(1) unfolding ring_laws_def by blast
  then show ?thesis by (simp add: assms(2) split: if_splits)
qed

lemma pop_loop_eq:
  assumes "ring_laws R con cap"
  shows "\<exists>b'. pop_loop R n b = (take n (con b), b') \<and> con b' = drop n (con b)"
proof (induction n arbitrary: b)
  case (Suc n)
  obtain w b1 where pop: "rb_Pop R b = (w, b1)" by fastforce
  note law = ring_pop [OF assms pop]
  obtain b2 where "pop_loop R n b1 = (take n (con b1), b2)" "con b2 = drop n (con b1)"
    using Suc.IH by blast
  with law show ?case by (cases "con b") (simp_all add: pop)
qed simp

lemma push_loop_eq:
  assumes "ring_laws R con cap"
  shows "\<exists>b'. push_loop R vs b = (min (length vs) (cap - length (con b)), b') \<and>
    con b' = con b @ take (cap - length (con b)) vs"
proof (induction vs arbitrary: b)
  case (Cons v vs)
  obtain ok b1 where push: "rb_Push R v b = (ok, b1)" by fastforce
  note law = ring_push [OF assms push]
  show ?case
  proof (cases "length (con b) < cap")
    case True
    then obtain k where k: "cap - length (con b) = Suc k" by (metis Suc_diff_Suc)
    then have "cap - Suc (length (con b)) = k" by simp
    moreover obtain b2 where "push_loop R vs b1 = (min (length vs) (cap - length (con b1)), b2)"
      "con b2 = con b1 @ take (cap - length (con b1)) vs" using Cons.IH by blast
    ultimately show ?thesis using True law k by (simp add: push)
  next
    case False
    with law show ?thesis by (simp add: push)
  qed
qed simp

subsection \<open>Reading and writing\<close>

lemma Pipe_Read_eq:
  assumes "ring_laws R con cap"
  shows "\<exists>b. con b = drop (unat sz) (con (m_buffer p)) \<and>
    Pipe_Read R sz p =
      (if con (m_buffer p) = [] then (if m_writers p = 0 then Return (Value []) else Wait can_read 0, p, [])
       else (Return (Value (take (unat sz) (con (m_buffer p)))), p\<lparr>m_buffer := b\<rparr>,
             if sz = 0 then [] else [can_write]))"
proof -
  obtain b where b: "pop_loop R (unat sz) (m_buffer p) = (take (unat sz) (con (m_buffer p)), b)"
    "con b = drop (unat sz) (con (m_buffer p))"
    using pop_loop_eq [OF assms] by blast
  show ?thesis
    using b ring_facts(2) [OF assms]
    by (intro exI [of _ b]) (auto simp: Pipe_Read_def unsigned_eq_0_iff)
qed

text \<open>The write loop runs at most two iterations: one push run fills the buffer or finishes.\<close>

lemma Write_loop_eq:
  assumes R: "ring_laws R con cap" and w: "w \<le> length data"
    and room_def: "room = cap - length (con (m_buffer p))"
  shows "\<exists>b ns. con b = con (m_buffer p) @ take room (drop w data) \<and>
    Write_loop R data w p n =
      Some (if length data - w \<le> room then Return (Value (of_nat (length data)))
            else if m_readers p = 0 then Return (Value epipe_value) else Wait can_write (w + room),
            p\<lparr>m_buffer := b\<rparr>, n @ ns) \<and>
    set ns \<subseteq> {can_read} \<and> (w < length data \<and> 0 < room \<longrightarrow> can_read \<in> set ns)"
proof -
  have full: "rb_Capacity R b \<le> rb_Size R b \<longleftrightarrow> length (con b) = cap" for b
    using ring_facts(1,3,4) [OF R, of b] by (auto simp: word_le_nat_alt)
  have fin: "Write_loop R data (length data) q ns = Some (Return (Value (of_nat (length data))), q, ns)" for q ns
    by (simp add: Write_loop.simps)
  have stuck: "Write_loop R data v q ns = Some (if m_readers q = 0 then Return (Value epipe_value) else Wait can_write v, q, ns)"
    if "v < length data" "length (con (m_buffer q)) = cap" for v q ns
    using that full by (simp add: Write_loop.simps)
  consider "w = length data" | "w < length data" "room = 0" | "w < length data" "0 < room"
    using w by linarith
  then show ?thesis
  proof cases
    case 1
    then show ?thesis by (intro exI [of _ "m_buffer p"] exI [of _ "[]"]) (simp add: fin)
  next
    case 2
    then have "length (con (m_buffer p)) = cap"
      using ring_facts(1) [OF R, of "m_buffer p"] by (simp add: room_def)
    with 2 show ?thesis
      by (intro exI [of _ "m_buffer p"] exI [of _ "[]"]) (auto simp: stuck)
  next
    case 3
    obtain b where b: "push_loop R (drop w data) (m_buffer p) = (min (length data - w) room, b)"
      "con b = con (m_buffer p) @ take room (drop w data)"
      using push_loop_eq [OF R, of "drop w data" "m_buffer p"] by (auto simp: room_def)
    let ?v = "w + min (length data - w) room"
    have step: "Write_loop R data w p n = Write_loop R data ?v (p\<lparr>m_buffer := b\<rparr>) (n @ [can_read])"
      using 3 full b(1) by (subst Write_loop.simps) (auto simp: room_def Let_def)
    show ?thesis
    proof (cases "length data - w \<le> room")
      case True
      then have "?v = length data" using w by simp
      with True step b(2) show ?thesis
        by (intro exI [of _ b] exI [of _ "[can_read]"]) (simp add: fin)
    next
      case False
      then have "?v = w + room" "w + room < length data" by simp_all
      moreover have "length (con b) = cap"
        using False ring_facts(1) [OF R, of "m_buffer p"] by (simp add: b(2) room_def)
      ultimately show ?thesis
        using False step b(2) by (intro exI [of _ b] exI [of _ "[can_read]"]) (auto simp: stuck)
    qed
  qed
qed

section \<open>Threads on one pipe\<close>

text \<open>
  Any number of threads use one pipe: they begin calls of \<open>Read\<close> and \<open>Write\<close>, sleep on a condition variable, and go on when they are
  woken; ends are opened and closed. Each step is what runs under the mutex, up to a return or a wait. \<open>ps_call\<close> holds the suspended
  calls (a write with its data and progress), \<open>ps_asleep\<close> the threads that sleep; \<open>NotifyAll\<close> wakes all sleepers of its variable, and a
  sleeper may also wake for no reason. The rest is history: \<open>ps_in\<close> and \<open>ps_out\<close> are the bytes that went into and came out of the
  ring, each with its thread, \<open>ps_done\<close> the data of the write calls that returned, \<open>ps_failed\<close> the threads one of whose
  writes returned \<open>EPIPE\<close>.
\<close>

datatype call = Writing "u8 list" nat | Reading u64

record 'r pipe_sys =
  ps_pipe :: "'r pipe"
  ps_call :: "nat \<Rightarrow> call option"
  ps_asleep :: "nat \<Rightarrow> cond_var option"
  ps_in :: "(nat \<times> u8) list"
  ps_out :: "(nat \<times> u8) list"
  ps_done :: "nat \<Rightarrow> u8 list"
  ps_failed :: "nat set"

definition pipe_start :: "'r pipe \<Rightarrow> 'r pipe_sys" where
  "pipe_start p = \<lparr>ps_pipe = p, ps_call = (\<lambda>_. None), ps_asleep = (\<lambda>_. None), ps_in = [], ps_out = [], ps_done = (\<lambda>_. []), ps_failed = {}\<rparr>"

definition NotifyAll :: "cond_var list \<Rightarrow> (nat \<Rightarrow> cond_var option) \<Rightarrow> nat \<Rightarrow> cond_var option" where
  "NotifyAll ns f t = (case f t of Some c \<Rightarrow> if c \<in> set ns then None else Some c | None \<Rightarrow> None)"

text \<open>The effect of a step of \<open>Write\<close> by thread \<open>t\<close>: what the ring gained is logged, sleepers are woken, and the call returns or sleeps.\<close>

definition after_write ::
  "('r \<Rightarrow> u8 list) \<Rightarrow> nat \<Rightarrow> u8 list \<Rightarrow> u64 expected blocking \<Rightarrow> 'r pipe \<Rightarrow> cond_var list \<Rightarrow> 'r pipe_sys \<Rightarrow> 'r pipe_sys" where
  "after_write con t data r p' ns s =
     (let new = drop (length (con (m_buffer (ps_pipe s)))) (con (m_buffer p'));
          s = s\<lparr>ps_pipe := p', ps_asleep := NotifyAll ns (ps_asleep s), ps_in := ps_in s @ map (Pair t) new\<rparr>
      in case r of
           Wait c w \<Rightarrow> s\<lparr>ps_call := (ps_call s)(t := Some (Writing data w)), ps_asleep := (ps_asleep s)(t := Some c)\<rparr>
         | Return (Value n) \<Rightarrow>
             (let s = s\<lparr>ps_call := (ps_call s)(t := None)\<rparr> in
              if n = epipe_value then s\<lparr>ps_failed := insert t (ps_failed s)\<rparr>
              else s\<lparr>ps_done := (ps_done s)(t := ps_done s t @ data)\<rparr>)
         | Return _ \<Rightarrow> s\<lparr>ps_call := (ps_call s)(t := None)\<rparr>)"

definition after_read ::
  "nat \<Rightarrow> u64 \<Rightarrow> u8 list expected blocking \<Rightarrow> 'r pipe \<Rightarrow> cond_var list \<Rightarrow> 'r pipe_sys \<Rightarrow> 'r pipe_sys" where
  "after_read t sz r p' ns s =
     (let s = s\<lparr>ps_pipe := p', ps_asleep := NotifyAll ns (ps_asleep s)\<rparr>
      in case r of
           Wait c _ \<Rightarrow> s\<lparr>ps_call := (ps_call s)(t := Some (Reading sz)), ps_asleep := (ps_asleep s)(t := Some c)\<rparr>
         | Return (Value vs) \<Rightarrow> s\<lparr>ps_call := (ps_call s)(t := None), ps_out := ps_out s @ map (Pair t) vs\<rparr>
         | Return _ \<Rightarrow> s\<lparr>ps_call := (ps_call s)(t := None)\<rparr>)"

inductive pipe_step :: "'r ring \<Rightarrow> ('r \<Rightarrow> u8 list) \<Rightarrow> 'r pipe_sys \<Rightarrow> 'r pipe_sys \<Rightarrow> bool" for R and con where
  write_call: "ps_call s t = None \<Longrightarrow> Pipe_Write R data (ps_pipe s) = Some (r, p', ns) \<Longrightarrow>
     pipe_step R con s (after_write con t data r p' ns s)"
| write_on: "ps_call s t = Some (Writing data w) \<Longrightarrow> ps_asleep s t = None \<Longrightarrow> Write_loop R data w (ps_pipe s) [] = Some (r, p', ns) \<Longrightarrow>
     pipe_step R con s (after_write con t data r p' ns s)"
| read_call: "ps_call s t = None \<Longrightarrow> Pipe_Read R sz (ps_pipe s) = (r, p', ns) \<Longrightarrow>
     pipe_step R con s (after_read t sz r p' ns s)"
| read_on: "ps_call s t = Some (Reading sz) \<Longrightarrow> ps_asleep s t = None \<Longrightarrow> Pipe_Read R sz (ps_pipe s) = (r, p', ns) \<Longrightarrow>
     pipe_step R con s (after_read t sz r p' ns s)"
| open_read: "m_readers (ps_pipe s) \<noteq> - 1 \<Longrightarrow> pipe_step R con s (s\<lparr>ps_pipe := IncrementReaders (ps_pipe s)\<rparr>)"
| open_write: "m_writers (ps_pipe s) \<noteq> - 1 \<Longrightarrow> pipe_step R con s (s\<lparr>ps_pipe := IncrementWriters (ps_pipe s)\<rparr>)"
| close_read: "m_readers (ps_pipe s) \<noteq> 0 \<Longrightarrow> DecrementReaders (ps_pipe s) = (p', ns) \<Longrightarrow>
     pipe_step R con s (s\<lparr>ps_pipe := p', ps_asleep := NotifyAll ns (ps_asleep s)\<rparr>)"
| close_write: "m_writers (ps_pipe s) \<noteq> 0 \<Longrightarrow> DecrementWriters (ps_pipe s) = (p', ns) \<Longrightarrow>
     pipe_step R con s (s\<lparr>ps_pipe := p', ps_asleep := NotifyAll ns (ps_asleep s)\<rparr>)"
| spurious: "pipe_step R con s (s\<lparr>ps_asleep := (ps_asleep s)(t := None)\<rparr>)"

inductive_cases pipe_stepE: "pipe_step R con s s'"

text \<open>The bytes of one thread in a log, and how far its current write is.\<close>

definition bytes_of :: "nat \<Rightarrow> (nat \<times> u8) list \<Rightarrow> u8 list" where
  "bytes_of t xs = map snd (filter (\<lambda>x. fst x = t) xs)"

definition progress :: "call option \<Rightarrow> u8 list" where
  "progress c = (case c of Some (Writing data w) \<Rightarrow> take w data | _ \<Rightarrow> [])"

definition log_ok :: "('r \<Rightarrow> u8 list) \<Rightarrow> 'r pipe_sys \<Rightarrow> bool" where
  "log_ok con s \<longleftrightarrow> map snd (ps_out s) @ con (m_buffer (ps_pipe s)) = map snd (ps_in s) \<and>
     (\<forall>t. t \<notin> ps_failed s \<longrightarrow> bytes_of t (ps_in s) = ps_done s t @ progress (ps_call s t))"

text \<open>A thread sleeps only on a condition that does not hold.\<close>

definition sleep_ok :: "('r \<Rightarrow> u8 list) \<Rightarrow> nat \<Rightarrow> 'r pipe_sys \<Rightarrow> bool" where
  "sleep_ok con cap s \<longleftrightarrow>
     (\<forall>t. ps_asleep s t = Some can_read \<longrightarrow> con (m_buffer (ps_pipe s)) = [] \<and> m_writers (ps_pipe s) \<noteq> 0) \<and>
     (\<forall>t. ps_asleep s t = Some can_write \<longrightarrow> length (con (m_buffer (ps_pipe s))) = cap \<and> m_readers (ps_pipe s) \<noteq> 0)"

definition calls_ok :: "'r pipe_sys \<Rightarrow> bool" where
  "calls_ok s \<longleftrightarrow> (\<forall>t data w. ps_call s t = Some (Writing data w) \<longrightarrow> w < length data) \<and>
     (\<forall>t. ps_asleep s t = Some can_read \<longrightarrow> (\<exists>sz. ps_call s t = Some (Reading sz))) \<and>
     (\<forall>t. ps_asleep s t = Some can_write \<longrightarrow> (\<exists>data w. ps_call s t = Some (Writing data w)))"

definition pipe_inv :: "('r \<Rightarrow> u8 list) \<Rightarrow> nat \<Rightarrow> 'r pipe_sys \<Rightarrow> bool" where
  "pipe_inv con cap s \<longleftrightarrow> log_ok con s \<and> sleep_ok con cap s \<and> calls_ok s"

text \<open>One step of a write, from progress \<open>w\<close>: \<open>n\<close> more bytes go into the ring.\<close>

definition wrote :: "('r \<Rightarrow> u8 list) \<Rightarrow> nat \<Rightarrow> u8 list \<Rightarrow> nat \<Rightarrow> 'r pipe \<Rightarrow> u64 expected blocking \<Rightarrow> 'r pipe \<Rightarrow> cond_var list \<Rightarrow> nat \<Rightarrow> bool" where
  "wrote con cap data w p r p' ns n \<longleftrightarrow>
     m_readers p' = m_readers p \<and> m_writers p' = m_writers p \<and> con (m_buffer p') = con (m_buffer p) @ take n (drop w data) \<and>
     (length (con (m_buffer p)) = cap \<longrightarrow> n = 0) \<and> (take n (drop w data) \<noteq> [] \<longrightarrow> can_read \<in> set ns) \<and> set ns \<subseteq> {can_read} \<and>
     (r = Return (Value (of_nat (length data))) \<and> length data - w \<le> n \<or> r = Return (Value epipe_value) \<or>
      r = Wait can_write (w + n) \<and> w + n < length data \<and> length (con (m_buffer p')) = cap \<and> m_readers p \<noteq> 0)"

lemma Write_loop_wrote:
  assumes R: "ring_laws R con cap" and w: "w \<le> length data" and run: "Write_loop R data w p [] = Some (r, p', ns)"
  shows "wrote con cap data w p r p' ns (cap - length (con (m_buffer p)))"
proof -
  define room where "room = cap - length (con (m_buffer p))"
  obtain b xs where b: "con b = con (m_buffer p) @ take room (drop w data)"
    "Write_loop R data w p [] = Some (if length data - w \<le> room then Return (Value (of_nat (length data)))
            else if m_readers p = 0 then Return (Value epipe_value) else Wait can_write (w + room),
            p\<lparr>m_buffer := b\<rparr>, [] @ xs)"
    "set xs \<subseteq> {can_read}" "w < length data \<and> 0 < room \<longrightarrow> can_read \<in> set xs"
    using Write_loop_eq [OF R w room_def, of "[]"] by blast
  have c: "length (con (m_buffer p)) \<le> cap" by (rule ring_facts(1) [OF R])
  show ?thesis
    unfolding wrote_def room_def [symmetric] using b run c by (auto simp: room_def)
qed

lemma Pipe_Write_wrote:
  assumes R: "ring_laws R con cap" and run: "Pipe_Write R data p = Some (r, p', ns)"
  shows "\<exists>n. wrote con cap data 0 p r p' ns n"
proof (cases "m_readers p = 0")
  case True
  then have "wrote con cap data 0 p r p' ns 0" using run by (simp add: Pipe_Write_def wrote_def)
  then show ?thesis ..
next
  case False
  then show ?thesis using Write_loop_wrote [OF R, of 0 data p r p' ns] run by (auto simp: Pipe_Write_def)
qed

lemma NotifyAll_simps [simp]:
  "NotifyAll ns f t = Some c \<longleftrightarrow> f t = Some c \<and> c \<notin> set ns"
  "NotifyAll [] f = f"
  by (auto simp: NotifyAll_def split: option.splits)

lemma bytes_of_simps [simp]:
  "bytes_of t [] = []" "bytes_of t (xs @ ys) = bytes_of t xs @ bytes_of t ys"
  "bytes_of t (map (Pair u) vs) = (if u = t then vs else [])"
  by (simp_all add: bytes_of_def comp_def filter_map)

lemma map_snd_Pair [simp]: "map (snd \<circ> Pair t) xs = xs"
  by (simp add: comp_def)

lemma progress_simps [simp]:
  "progress None = []" "progress (Some (Reading sz)) = []" "progress (Some (Writing data w)) = take w data"
  by (simp_all add: progress_def)

subsection \<open>Every step keeps the invariant\<close>

lemma asleep_in_call:
  assumes "calls_ok s" and "ps_call s t = None"
  shows "ps_asleep s t = None"
proof (cases "ps_asleep s t")
  case (Some c)
  with assms show ?thesis by (cases c) (auto simp: calls_ok_def dest: spec [of _ t])
qed

lemma after_write_inv:
  assumes inv: "pipe_inv con cap s" and wr: "wrote con cap data w (ps_pipe s) r p' ns n"
    and own: "progress (ps_call s t) = take w data" "ps_asleep s t = None \<or> ps_call s t = None"
  shows "pipe_inv con cap (after_write con t data r p' ns s)"
proof -
  define p new where pn: "p = ps_pipe s" "new = take n (drop w data)"
  have wr: "m_readers p' = m_readers p" "m_writers p' = m_writers p" "con (m_buffer p') = con (m_buffer p) @ new"
    "length (con (m_buffer p)) = cap \<Longrightarrow> new = []" "new \<noteq> [] \<Longrightarrow> can_read \<in> set ns" "set ns \<subseteq> {can_read}"
    and r: "r = Return (Value (of_nat (length data))) \<and> length data - w \<le> n \<or> r = Return (Value epipe_value) \<or>
      r = Wait can_write (w + n) \<and> w + n < length data \<and> length (con (m_buffer p')) = cap \<and> m_readers p \<noteq> 0"
    using wr by (auto simp: wrote_def pn)
  have all: "take w data @ new = data" if "length data - w \<le> n"
    using that by (simp add: pn)
  have some: "take (w + n) data = take w data @ new"
    by (simp add: take_add pn)
  have awake: "ps_asleep s t = None"
    using own(2) inv by (auto simp: pipe_inv_def dest: asleep_in_call)
  have log: "log_ok con s" "sleep_ok con cap s" "calls_ok s" using inv by (simp_all add: pipe_inv_def)
  have "log_ok con (after_write con t data r p' ns s)"
    using r log(1) own(1) all some
    by (elim disjE) (auto simp: log_ok_def after_write_def Let_def wr(3) simp flip: pn(1))
  moreover have "sleep_ok con cap (after_write con t data r p' ns s)"
    using r log(2) wr awake
    by (elim disjE) (auto simp: sleep_ok_def after_write_def Let_def simp flip: pn(1))
  moreover have "calls_ok (after_write con t data r p' ns s)"
    using r log(3) awake wr(6)
    by (elim disjE) (auto simp: calls_ok_def after_write_def Let_def)
  ultimately show ?thesis by (simp add: pipe_inv_def)
qed

lemma after_read_inv:
  assumes R: "ring_laws R con cap" and inv: "pipe_inv con cap s" and run: "Pipe_Read R sz (ps_pipe s) = (r, p', ns)"
    and own: "ps_call s t = None \<or> ps_call s t = Some (Reading sz)" "ps_asleep s t = None \<or> ps_call s t = None"
  shows "pipe_inv con cap (after_read t sz r p' ns s)"
proof -
  define p where p: "p = ps_pipe s"
  obtain b where b: "con b = drop (unat sz) (con (m_buffer p))"
    "(r, p', ns) =
      (if con (m_buffer p) = [] then (if m_writers p = 0 then Return (Value []) else Wait can_read 0, p, [])
       else (Return (Value (take (unat sz) (con (m_buffer p)))), p\<lparr>m_buffer := b\<rparr>,
             if sz = 0 then [] else [can_write]))"
    using Pipe_Read_eq [OF R, of sz p] run by (auto simp: p)
  have awake: "ps_asleep s t = None"
    using own(2) inv by (auto simp: pipe_inv_def dest: asleep_in_call)
  have own: "progress (ps_call s t) = []" using own(1) by auto
  have log: "log_ok con s" "sleep_ok con cap s" "calls_ok s" using inv by (simp_all add: pipe_inv_def)
  have "log_ok con (after_read t sz r p' ns s)"
    using b log(1) own by (auto simp: log_ok_def after_read_def Let_def split: if_splits simp flip: p)
  moreover have "sleep_ok con cap (after_read t sz r p' ns s)"
    using b log(2) awake by (auto simp: sleep_ok_def after_read_def Let_def split: if_splits simp flip: p)
  moreover have "calls_ok (after_read t sz r p' ns s)"
    using b log(3) awake by (auto simp: calls_ok_def after_read_def Let_def split: if_splits)
  ultimately show ?thesis by (simp add: pipe_inv_def)
qed

lemma pipe_step_inv:
  assumes R: "ring_laws R con cap" and "pipe_step R con s s'" and inv: "pipe_inv con cap s"
  shows "pipe_inv con cap s'"
  using assms(2)
proof cases
  case (write_call t data r p' ns)
  then show ?thesis using Pipe_Write_wrote [OF R] after_write_inv [OF inv] by fastforce
next
  case (write_on t data w r p' ns)
  moreover have "w \<le> length data" using write_on(2) inv by (fastforce simp: pipe_inv_def calls_ok_def)
  ultimately show ?thesis using Write_loop_wrote [OF R] after_write_inv [OF inv] by fastforce
next
  case (read_call t sz r p' ns)
  then show ?thesis using after_read_inv [OF R inv] by simp
next
  case (read_on t sz r p' ns)
  then show ?thesis using after_read_inv [OF R inv] by simp
next
  case open_read
  moreover have "m_readers (ps_pipe s) + 1 \<noteq> 0" using open_read(2) by (metis add_eq_0_iff2 add.commute)
  ultimately show ?thesis using inv
    by (simp add: pipe_inv_def log_ok_def sleep_ok_def calls_ok_def IncrementReaders_def)
next
  case open_write
  moreover have "m_writers (ps_pipe s) + 1 \<noteq> 0" using open_write(2) by (metis add_eq_0_iff2 add.commute)
  ultimately show ?thesis using inv
    by (simp add: pipe_inv_def log_ok_def sleep_ok_def calls_ok_def IncrementWriters_def)
next
  case (close_read p' ns)
  then show ?thesis using inv
    by (auto simp: pipe_inv_def log_ok_def sleep_ok_def calls_ok_def DecrementReaders_def Let_def)
next
  case (close_write p' ns)
  then show ?thesis using inv
    by (auto simp: pipe_inv_def log_ok_def sleep_ok_def calls_ok_def DecrementWriters_def Let_def)
next
  case (spurious t)
  then show ?thesis using inv by (auto simp: pipe_inv_def log_ok_def sleep_ok_def calls_ok_def)
qed

lemma pipe_steps_inv:
  assumes R: "ring_laws R con cap" and "(pipe_step R con)\<^sup>*\<^sup>* (pipe_start p) s" and "con (m_buffer p) = []"
  shows "pipe_inv con cap s"
  using assms(2)
proof (induction rule: rtranclp_induct)
  case base
  then show ?case using assms(3)
    by (simp add: pipe_start_def pipe_inv_def log_ok_def sleep_ok_def calls_ok_def)
qed (rule pipe_step_inv [OF R])

section \<open>Properties\<close>

text \<open>
  C23: The pipe is a lossless first-in first-out stream, whatever the interleaving of any number of reading and writing threads, of
  wake-ups and of ends opened and closed. From an empty pipe, the bytes that reads have returned, followed by the
  buffer, are exactly the bytes that writes have put in, in that order; and for every thread none of whose writes returned
  \<open>EPIPE\<close>, the bytes it put in are the data of its finished writes and the part its current write has done, in
  order. (The data of two writers can interleave when one of them has to wait for room.)
\<close>

theorem pipe_fifo:
  assumes "ring_laws R con cap" and "con (m_buffer p) = []" and "(pipe_step R con)\<^sup>*\<^sup>* (pipe_start p) s"
  shows "map snd (ps_out s) @ con (m_buffer (ps_pipe s)) = map snd (ps_in s) \<and>
    (\<forall>t. t \<notin> ps_failed s \<longrightarrow> bytes_of t (ps_in s) = ps_done s t @ progress (ps_call s t))"
  using pipe_steps_inv [OF assms(1,3,2)] by (simp_all add: pipe_inv_def log_ok_def)

text \<open>A run: thread 1 writes five bytes and sleeps with four of them in the buffer, thread 2 writes and sleeps, thread 3 reads two bytes.\<close>

definition ex_pipe :: "u8 list pipe" where
  "ex_pipe = \<lparr>m_buffer = [], m_readers = 1, m_writers = 1\<rparr>"

definition ex_full :: "u8 list pipe_sys" where
  "ex_full = (pipe_start (ex_pipe\<lparr>m_buffer := [1, 2, 3, 4]\<rparr>))\<lparr>ps_call := [1 \<mapsto> Writing [1, 2, 3, 4, 5] 4],
     ps_asleep := [1 \<mapsto> can_write], ps_in := map (Pair 1) [1, 2, 3, 4]\<rparr>"

definition ex_wait :: "u8 list pipe_sys" where
  "ex_wait = ex_full\<lparr>ps_call := [1 \<mapsto> Writing [1, 2, 3, 4, 5] 4, 2 \<mapsto> Writing [6] 0], ps_asleep := [1 \<mapsto> can_write, 2 \<mapsto> can_write]\<rparr>"

definition ex_read :: "u8 list pipe_sys" where
  "ex_read = ex_wait\<lparr>ps_pipe := ex_pipe\<lparr>m_buffer := [3, 4]\<rparr>, ps_asleep := (\<lambda>_. None), ps_out := map (Pair 3) [1, 2]\<rparr>"

lemma ex_pipe_full: "(pipe_step list_ring (take 4))\<^sup>*\<^sup>* (pipe_start ex_pipe) ex_full"
proof (rule r_into_rtranclp)
  have w: "Pipe_Write list_ring [1, 2, 3, 4, 5] (ps_pipe (pipe_start ex_pipe)) =
      Some (Wait can_write 4, ex_pipe\<lparr>m_buffer := [1, 2, 3, 4]\<rparr>, [can_read])"
    by (simp add: Pipe_Write_def Write_loop.simps ex_pipe_def pipe_start_def list_ring_def Let_def)
  have "after_write (take 4) 1 [1, 2, 3, 4, 5] (Wait can_write 4) (ex_pipe\<lparr>m_buffer := [1, 2, 3, 4]\<rparr>) [can_read] (pipe_start ex_pipe) = ex_full"
    by (simp add: after_write_def ex_full_def pipe_start_def ex_pipe_def Let_def NotifyAll_def fun_eq_iff)
  then show "pipe_step list_ring (take 4) (pipe_start ex_pipe) ex_full"
    using pipe_step.write_call [OF _ w, of 1 "take 4"] by (simp add: pipe_start_def)
qed

lemma ex_pipe_wait: "pipe_step list_ring (take 4) ex_full ex_wait"
proof -
  have w: "Pipe_Write list_ring [6] (ps_pipe ex_full) = Some (Wait can_write 0, ps_pipe ex_full, [])"
    by (simp add: Pipe_Write_def Write_loop.simps ex_full_def ex_pipe_def pipe_start_def list_ring_def)
  have "after_write (take 4) 2 [6] (Wait can_write 0) (ps_pipe ex_full) [] ex_full = ex_wait"
    by (simp add: after_write_def ex_full_def ex_wait_def pipe_start_def ex_pipe_def)
  then show ?thesis
    using pipe_step.write_call [OF _ w, of 2 "take 4"] by (simp add: ex_full_def)
qed

lemma ex_pipe_read: "pipe_step list_ring (take 4) ex_wait ex_read"
proof -
  have w: "Pipe_Read list_ring 2 (ps_pipe ex_wait) = (Return (Value [1, 2]), ex_pipe\<lparr>m_buffer := [3, 4]\<rparr>, [can_write])"
    using pop_loop.simps(2) [of list_ring 1] pop_loop.simps(2) [of list_ring 0]
    by (simp add: Pipe_Read_def ex_wait_def ex_full_def ex_pipe_def pipe_start_def list_ring_def flip: numeral_2_eq_2)
  have "after_read 3 2 (Return (Value [1, 2])) (ex_pipe\<lparr>m_buffer := [3, 4]\<rparr>) [can_write] ex_wait = ex_read"
    by (auto simp: after_read_def ex_full_def ex_wait_def ex_read_def pipe_start_def ex_pipe_def NotifyAll_def)
  then show ?thesis
    using pipe_step.read_call [OF _ w, of 3 "take 4"] by (simp add: ex_wait_def)
qed

lemma ex_pipe_run: "(pipe_step list_ring (take 4))\<^sup>*\<^sup>* (pipe_start ex_pipe) ex_wait"
    "(pipe_step list_ring (take 4))\<^sup>*\<^sup>* (pipe_start ex_pipe) ex_read"
  using ex_pipe_full ex_pipe_wait ex_pipe_read by (auto intro: rtranclp.rtrancl_into_rtrancl)

theorem pipe_fifo_witness:
  "map snd (ps_out ex_read) @ take 4 (m_buffer (ps_pipe ex_read)) = map snd (ps_in ex_read) \<and>
   bytes_of 1 (ps_in ex_read) = ps_done ex_read 1 @ progress (ps_call ex_read 1) \<and>
   ps_out ex_read = [(3, 1), (3, 2)] \<and> progress (ps_call ex_read 1) = [1, 2, 3, 4]"
  using pipe_fifo [OF list_ring_laws _ ex_pipe_run(2)]
  by (simp add: ex_read_def ex_wait_def ex_full_def ex_pipe_def pipe_start_def)

text \<open>
  C24: No wake-up is lost. In every reachable state, whatever the threads did, a thread that sleeps on \<open>can_read\<close> is in a
  read, the buffer is empty and a write end is open; a thread that sleeps on \<open>can_write\<close> is in a write
  with bytes left, the buffer is full and a read end is open. So no reader sleeps while there are bytes, no
  writer sleeps while there is room, and a reader and a writer never sleep at the same time. A suspended write that is awake
  comes to its next return or wait. (Ends are opened and closed between the steps of other threads: the
  counters are changed without the mutex, so on a machine where a close falls between the test and the wait
  the wake-up of that close could be missed.)
\<close>

theorem pipe_no_deadlock:
  assumes R: "ring_laws R con cap" and "con (m_buffer p) = []" and "(pipe_step R con)\<^sup>*\<^sup>* (pipe_start p) s"
  shows "(\<forall>t. ps_asleep s t = Some can_read \<longrightarrow> (\<exists>sz. ps_call s t = Some (Reading sz)) \<and>
      con (m_buffer (ps_pipe s)) = [] \<and> m_writers (ps_pipe s) \<noteq> 0) \<and>
    (\<forall>t. ps_asleep s t = Some can_write \<longrightarrow> (\<exists>data w. ps_call s t = Some (Writing data w) \<and> w < length data) \<and>
      length (con (m_buffer (ps_pipe s))) = cap \<and> m_readers (ps_pipe s) \<noteq> 0) \<and>
    \<not> (\<exists>t u. ps_asleep s t = Some can_read \<and> ps_asleep s u = Some can_write) \<and>
    (\<forall>t data w. ps_call s t = Some (Writing data w) \<longrightarrow> (\<exists>x. Write_loop R data w (ps_pipe s) [] = Some x))"
proof (intro conjI)
  note inv = pipe_steps_inv [OF R assms(3,2)]
  show 1: "\<forall>t. ps_asleep s t = Some can_read \<longrightarrow> (\<exists>sz. ps_call s t = Some (Reading sz)) \<and>
      con (m_buffer (ps_pipe s)) = [] \<and> m_writers (ps_pipe s) \<noteq> 0"
    using inv by (auto simp: pipe_inv_def sleep_ok_def calls_ok_def)
  show 2: "\<forall>t. ps_asleep s t = Some can_write \<longrightarrow> (\<exists>data w. ps_call s t = Some (Writing data w) \<and> w < length data) \<and>
      length (con (m_buffer (ps_pipe s))) = cap \<and> m_readers (ps_pipe s) \<noteq> 0"
    using inv by (fastforce simp: pipe_inv_def sleep_ok_def calls_ok_def)
  show "\<not> (\<exists>t u. ps_asleep s t = Some can_read \<and> ps_asleep s u = Some can_write)"
    using 1 2 ring_facts(5) [OF R] by auto
  show "\<forall>t data w. ps_call s t = Some (Writing data w) \<longrightarrow> (\<exists>x. Write_loop R data w (ps_pipe s) [] = Some x)"
  proof (intro allI impI)
    fix t data w assume "ps_call s t = Some (Writing data w)"
    then have "w \<le> length data" using inv by (auto simp: pipe_inv_def calls_ok_def dest: less_imp_le)
    from Write_loop_eq [OF R this refl, of "ps_pipe s" "[]"]
    show "\<exists>x. Write_loop R data w (ps_pipe s) [] = Some x" by blast
  qed
qed

theorem pipe_no_deadlock_witness:
  "ps_asleep ex_wait 1 = Some can_write \<and> ps_asleep ex_wait 2 = Some can_write \<and> length (take 4 (m_buffer (ps_pipe ex_wait))) = 4 \<and>
   m_readers (ps_pipe ex_wait) \<noteq> 0 \<and> ps_asleep ex_read 1 = None \<and>
   (\<exists>x. Write_loop list_ring [1, 2, 3, 4, 5] 4 (ps_pipe ex_read) [] = Some x)"
proof (intro conjI)
  show a: "ps_asleep ex_wait 1 = Some can_write" "ps_asleep ex_wait 2 = Some can_write" "ps_asleep ex_read 1 = None"
    by (simp_all add: ex_read_def ex_wait_def)
  have e: "take 4 (m_buffer ex_pipe) = []" by (simp add: ex_pipe_def)
  have c: "ps_call ex_read 1 = Some (Writing [1, 2, 3, 4, 5] 4)" by (simp add: ex_read_def ex_wait_def)
  show "length (take 4 (m_buffer (ps_pipe ex_wait))) = 4" "m_readers (ps_pipe ex_wait) \<noteq> 0"
    using pipe_no_deadlock [OF list_ring_laws e ex_pipe_run(1)] a(1) by blast+
  show "\<exists>x. Write_loop list_ring [1, 2, 3, 4, 5] 4 (ps_pipe ex_read) [] = Some x"
    using pipe_no_deadlock [OF list_ring_laws e ex_pipe_run(2)] c by blast
qed

text \<open>
  A write to a pipe with readers always comes to rest. It returns the full length and has
  appended all its bytes if they fit; otherwise it waits on \<open>can_write\<close> with the buffer filled to
  capacity by a prefix of the data. It signals \<open>can_read\<close> whenever it appended a byte. With no
  reader it returns the value \<open>-EPIPE\<close> and appends nothing.
\<close>

theorem Pipe_Write_spec:
  assumes "ring_laws R con cap"
  shows "\<exists>r p' ns. Pipe_Write R data p = Some (r, p', ns) \<and>
    m_readers p' = m_readers p \<and> m_writers p' = m_writers p \<and>
    (let room = cap - length (con (m_buffer p)) in
     if m_readers p = 0 then r = Return (Value (- 32)) \<and> p' = p
     else con (m_buffer p') = con (m_buffer p) @ take room data \<and>
       r = (if length data \<le> room then Return (Value (of_nat (length data))) else Wait can_write room) \<and>
       (data \<noteq> [] \<and> 0 < room \<longrightarrow> can_read \<in> set ns))"
proof (cases "m_readers p = 0")
  case True
  then show ?thesis by (simp add: Pipe_Write_def epipe_value_def)
next
  case False
  define room where "room = cap - length (con (m_buffer p))"
  obtain b ns where "con b = con (m_buffer p) @ take room (drop 0 data)"
    "Write_loop R data 0 p [] =
      Some (if length data - 0 \<le> room then Return (Value (of_nat (length data)))
            else if m_readers p = 0 then Return (Value epipe_value) else Wait can_write (0 + room),
            p\<lparr>m_buffer := b\<rparr>, [] @ ns)"
    "0 < length data \<and> 0 < room \<longrightarrow> can_read \<in> set ns"
    using Write_loop_eq [OF assms le0 room_def, of data "[]"] by blast
  with False show ?thesis by (auto simp: Pipe_Write_def Let_def room_def)
qed

theorem Pipe_Write_spec_witness:
  "\<exists>p' ns. Pipe_Write list_ring [1, 2, 3, 4, 5] \<lparr>m_buffer = [9], m_readers = 1, m_writers = 1\<rparr> =
     Some (Wait can_write 3, p', ns) \<and> take 4 (m_buffer p') = [9, 1, 2, 3]"
  using Pipe_Write_spec [OF list_ring_laws, of "[1, 2, 3, 4, 5]" "\<lparr>m_buffer = [9], m_readers = 1, m_writers = 1\<rparr>"]
  by (auto simp: Let_def numeral_3_eq_3)

text \<open>
  Reading returns the oldest bytes: at most the requested number, all of the buffer if it
  holds fewer, and removes exactly those. An empty pipe gives end of file if there is no writer
  and waits on \<open>can_read\<close> otherwise; a read of at least one byte signals \<open>can_write\<close>.
\<close>

theorem Pipe_Read_spec:
  assumes "ring_laws R con cap"
  shows "(case Pipe_Read R sz p of (r, p', ns) \<Rightarrow>
     m_readers p' = m_readers p \<and> m_writers p' = m_writers p \<and>
     (if con (m_buffer p) = [] then p' = p \<and> r = (if m_writers p = 0 then Return (Value []) else Wait can_read 0)
      else r = Return (Value (take (unat sz) (con (m_buffer p)))) \<and>
        con (m_buffer p') = drop (unat sz) (con (m_buffer p)) \<and> (sz \<noteq> 0 \<longrightarrow> ns = [can_write])))"
  using Pipe_Read_eq [OF assms, of sz p] by auto

theorem Pipe_Read_spec_witness:
  "fst (Pipe_Read list_ring 2 \<lparr>m_buffer = [7, 8, 9], m_readers = 1, m_writers = 0\<rparr>) = Return (Value [7, 8])"
  using Pipe_Read_spec [OF list_ring_laws, where sz = 2 and p = "\<lparr>m_buffer = [7, 8, 9], m_readers = 1, m_writers = 0\<rparr>"]
  by (auto split: prod.splits)


end
