(* ===== verification/LinearFb.thy ===== *)
theory LinearFb
  imports Memory
begin

text \<open>
  The framebuffer console (\<open>lib/linearfb.cpp\<close>) and the debug port (\<open>drivers/debugcon.cpp\<close>). The file
  statics are the record \<open>console\<close>; pixels live in memory at the framebuffer's address. Loop
  counters over pixel rows and columns run through naturals below the loop bound; the
  framebuffer sizes of the boot protocol are far below \<open>2 ^ 32\<close>, where the \<open>uint32_t\<close> counters of the
  code and these agree.
\<close>

section \<open>State\<close>

record framebuffer =
  fb_address :: addr
  fb_width :: u64
  fb_height :: u64
  fb_pitch :: u64
  fb_bpp :: u16

datatype linearfb_mode = FB_MODE_CONSOLE | FB_MODE_GRAPHICS

record console =
  fb_initialized :: bool
  fb :: "framebuffer option"
  fb_mode :: linearfb_mode
  fb_font_data :: addr
  font_glyph_count :: u32
  font_glyph_w :: u32
  font_glyph_h :: u32
  console_col :: u32
  console_row :: u32
  console_cols :: u32
  console_rows :: u32
  console_bg :: u32

definition console_boot :: console where
  "console_boot = \<lparr>fb_initialized = False, fb = None, fb_mode = FB_MODE_CONSOLE, fb_font_data = 0,
     font_glyph_count = 0, font_glyph_w = 0, font_glyph_h = 0, console_col = 0, console_row = 0,
     console_cols = 0, console_rows = 0, console_bg = 0\<rparr>"

section \<open>Operations\<close>

definition linearfb_console_set_cursor :: "u32 \<Rightarrow> u32 \<Rightarrow> console \<Rightarrow> console" where
  "linearfb_console_set_cursor col row c =
     (let c = (if col < console_cols c then c\<lparr>console_col := col\<rparr> else c)
      in if row < console_rows c then c\<lparr>console_row := row\<rparr> else c)"

definition linearfb_console_get_cursor :: "console \<Rightarrow> u32 \<times> u32" where
  "linearfb_console_get_cursor c = (console_col c, console_row c)"

definition putpixel :: "console \<Rightarrow> u32 \<Rightarrow> u32 \<Rightarrow> u32 \<Rightarrow> mem \<Rightarrow> mem" where
  "putpixel c x y color m =
     (case fb c of
        None \<Rightarrow> m
      | Some f \<Rightarrow>
          if ucast x \<ge> fb_width f \<or> ucast y \<ge> fb_height f then m
          else write_bytes m
                 (fb_address f + ucast y * fb_pitch f + ucast (x * (ucast (fb_bpp f div 8) :: u32)))
                 (take (unat (fb_bpp f div 8)) (to_bytes 4 color)))"

text \<open>A rectangle of pixels: rows \<open>ys\<close>, columns \<open>xs\<close>, in the order of the nested loops.\<close>

definition draw :: "(nat \<Rightarrow> nat \<Rightarrow> mem \<Rightarrow> mem) \<Rightarrow> nat list \<Rightarrow> nat list \<Rightarrow> mem \<Rightarrow> mem" where
  "draw f ys xs m = fold (\<lambda>y. fold (\<lambda>x. f x y) xs) ys m"

definition linearfb_console_clear :: "u32 \<Rightarrow> console \<times> mem \<Rightarrow> console \<times> mem" where
  "linearfb_console_clear color cm =
     (case cm of (c, m) \<Rightarrow>
       case fb c of
         None \<Rightarrow> (c, m)
       | Some f \<Rightarrow>
           (c\<lparr>console_col := 0, console_row := 0, console_bg := color\<rparr>,
            draw (\<lambda>x y. putpixel c (of_nat x) (of_nat y) color) [0..<unat (fb_height f)] [0..<unat (fb_width f)] m))"

definition console_scroll :: "console \<times> mem \<Rightarrow> console \<times> mem" where
  "console_scroll cm =
     (case cm of (c, m) \<Rightarrow>
       case fb c of
         None \<Rightarrow> (c, m)
       | Some f \<Rightarrow>
           if fb_font_data c = 0 then (c, m)
           else
             (let row_bytes = ucast (fb_pitch f * ucast (font_glyph_h c)) :: u32;
                  dst = fb_address f;
                  src = dst + ucast row_bytes;
                  n = row_bytes * (console_rows c - 1);
                  m = write_bytes m dst (read_bytes m src (unat n));
                  y0 = (console_rows c - 1) * font_glyph_h c;
                  m = draw (\<lambda>x y. putpixel c (of_nat x) (of_nat y) (console_bg c))
                        [unat y0..<unat (fb_height f)] [0..<unat (fb_width f)] m
              in (c\<lparr>console_row := console_rows c - 1\<rparr>, m)))"

definition newline :: "console \<times> mem \<Rightarrow> console \<times> mem" where
  "newline cm =
     (case cm of (c, m) \<Rightarrow>
        let c = c\<lparr>console_row := console_row c + 1\<rparr>
        in if console_row c \<ge> console_rows c then console_scroll (c, m) else (c, m))"

definition draw_glyph :: "u8 \<Rightarrow> console \<Rightarrow> mem \<Rightarrow> mem" where
  "draw_glyph ch c m =
     (let ch = (if ucast ch \<ge> font_glyph_count c then 63 else ch);
          glyph = fb_font_data c + ucast ((ucast ch :: u32) * font_glyph_h c);
          px = console_col c * font_glyph_w c;
          py = console_row c * font_glyph_h c;
          rows = [0..<unat (font_glyph_h c)];
          cols = [0..<unat (font_glyph_w c)];
          m = draw (\<lambda>x y. putpixel c (px + of_nat x) (py + of_nat y) (console_bg c)) rows cols m
      in draw (\<lambda>x y m. if x \<le> 7 \<and> bit (m (glyph + of_nat y)) (7 - x)
                 then putpixel c (px + of_nat x) (py + of_nat y) 0xFFFFFFFF m else m) rows cols m)"

definition linearfb_console_putc :: "u8 \<Rightarrow> console \<times> mem \<Rightarrow> console \<times> mem" where
  "linearfb_console_putc ch cm =
     (case cm of (c, m) \<Rightarrow>
       if fb_mode c \<noteq> FB_MODE_CONSOLE \<or> fb_font_data c = 0 then (c, m)
       else if ch = 10 then newline (c\<lparr>console_col := 0\<rparr>, m)
       else if ch = 13 then (c\<lparr>console_col := 0\<rparr>, m)
       else if ch = 8 then (if console_col c > 0 then c\<lparr>console_col := console_col c - 1\<rparr> else c, m)
       else
         (let m = draw_glyph ch c m;
              c = c\<lparr>console_col := console_col c + 1\<rparr>
          in if console_col c \<ge> console_cols c then newline (c\<lparr>console_col := 0\<rparr>, m) else (c, m)))"

definition linearfb_console_puts :: "u8 list \<Rightarrow> console \<times> mem \<Rightarrow> console \<times> mem" where
  "linearfb_console_puts s cm = fold linearfb_console_putc (takeWhile (\<lambda>b. b \<noteq> 0) s) cm"

definition update_dims :: "console \<Rightarrow> console" where
  "update_dims c =
     (case fb c of
        None \<Rightarrow> c
      | Some f \<Rightarrow>
          if font_glyph_w c \<noteq> 0 \<and> font_glyph_h c \<noteq> 0
          then c\<lparr>console_cols := ucast (fb_width f div ucast (font_glyph_w c)),
                 console_rows := ucast (fb_height f div ucast (font_glyph_h c))\<rparr>
          else c)"

text \<open>\<open>req\<close> is the first framebuffer of the boot response, \<open>None\<close> when there is no response or it
  lists none.\<close>

definition linearfb_init :: "framebuffer option \<Rightarrow> console \<Rightarrow> int \<times> console" where
  "linearfb_init req c =
     (case req of
        None \<Rightarrow> (- 1, c)
      | Some f \<Rightarrow> (0, (update_dims (c\<lparr>fb := Some f\<rparr>))\<lparr>fb_initialized := True\<rparr>))"

definition linearfb_set_mode :: "linearfb_mode \<Rightarrow> console \<Rightarrow> console" where
  "linearfb_set_mode mode c = c\<lparr>fb_mode := mode\<rparr>"

definition linearfb_load_font :: "addr \<Rightarrow> u32 \<Rightarrow> u32 \<Rightarrow> u32 \<Rightarrow> console \<Rightarrow> console" where
  "linearfb_load_font data w h n c =
     update_dims (c\<lparr>fb_font_data := data, font_glyph_w := w, font_glyph_h := h, font_glyph_count := n\<rparr>)"

definition linearfb_console_init :: "framebuffer option \<Rightarrow> addr \<Rightarrow> console \<times> mem \<Rightarrow> int \<times> console \<times> mem" where
  "linearfb_console_init req console_font cm =
     (case cm of (c, m) \<Rightarrow>
       let c = snd (linearfb_init req c);
           c = linearfb_load_font console_font 8 16 256 c;
           c = linearfb_set_mode FB_MODE_CONSOLE c;
           (c, m) = linearfb_console_clear 0 (c, m);
           c = linearfb_console_set_cursor 0 0 c
       in (if fb c = None then - 1 else 0, c, m))"

text \<open>\<open>debugcon_puts\<close> writes the characters and then the terminating NUL to the port.\<close>

definition debugcon_puts :: "u8 list \<Rightarrow> u8 list \<Rightarrow> u8 list" where
  "debugcon_puts s out = out @ takeWhile (\<lambda>b. b \<noteq> 0) s @ [0]"

section \<open>The cursor stays on the screen\<close>

definition cursor_ok :: "console \<Rightarrow> bool" where
  "cursor_ok c \<longleftrightarrow> fb c \<noteq> None \<and> fb_font_data c \<noteq> 0 \<and> console_col c < console_cols c \<and>
     console_row c < console_rows c"

lemma word_pred_less: "w \<noteq> 0 \<Longrightarrow> w - 1 < (w :: u32)"
  using unat_sub [of 1 w] by (simp add: word_less_nat_alt word_le_nat_alt unat_gt_0 Suc_le_eq)

lemma console_scroll_console:
  "cursor_ok c' \<Longrightarrow> c = c'\<lparr>console_row := r\<rparr> \<Longrightarrow> fst (console_scroll (c, m)) = c'\<lparr>console_row := console_rows c' - 1\<rparr>"
  by (auto simp: console_scroll_def cursor_ok_def Let_def)

lemma newline_ok: "cursor_ok c \<Longrightarrow> cursor_ok (fst (newline (c, m)))"
proof -
  assume c: "cursor_ok c"
  then have "console_rows c \<noteq> 0" by (auto simp: cursor_ok_def)
  then have "console_rows c - 1 < console_rows c" by (rule word_pred_less)
  with c console_scroll_console [OF c refl, of "console_row c + 1" m] show ?thesis
    by (auto simp: newline_def Let_def cursor_ok_def)
qed

lemma putc_ok:
  assumes "cursor_ok c"
  shows "cursor_ok (fst (linearfb_console_putc ch (c, m)))"
proof -
  have z: "cursor_ok (c\<lparr>console_col := 0\<rparr>)"
    using assms by (auto simp: cursor_ok_def word_less_nat_alt)
  have z': "c\<lparr>console_col := console_col c + 1, console_col := 0\<rparr> = c\<lparr>console_col := 0\<rparr>" by simp
  have dec: "console_col c - 1 < console_cols c" if "0 < console_col c"
    using that assms less_trans [OF word_pred_less] by (auto simp: cursor_ok_def)
  show ?thesis
    using assms z newline_ok [OF z] dec
    by (auto simp: linearfb_console_putc_def Let_def) (auto simp: cursor_ok_def)
qed

section \<open>Writes stay inside the framebuffer\<close>

definition fb_ok :: "framebuffer \<Rightarrow> bool" where
  "fb_ok f \<longleftrightarrow> unat (fb_width f) * unat (fb_bpp f div 8) \<le> unat (fb_pitch f) \<and>
     unat (fb_height f) * unat (fb_pitch f) < 2 ^ 64"

definition screen :: "framebuffer \<Rightarrow> addr set" where
  "screen f = region (fb_address f) (unat (fb_height f) * unat (fb_pitch f))"

definition only_in :: "addr set \<Rightarrow> mem \<Rightarrow> mem \<Rightarrow> bool" where
  "only_in A m m' \<longleftrightarrow> (\<forall>x. x \<notin> A \<longrightarrow> m' x = m x)"

lemma only_in_refl [simp]: "only_in A m m"
  by (simp add: only_in_def)

lemma only_in_trans: "only_in A m m' \<Longrightarrow> only_in A m' m'' \<Longrightarrow> only_in A m m''"
  by (simp add: only_in_def)

lemma only_in_fold: "(\<And>x m. only_in A m (f x m)) \<Longrightarrow> only_in A m (fold f xs m)"
  by (induction xs arbitrary: m) (auto intro: only_in_trans)

lemma only_in_draw: "(\<And>x y m. only_in A m (f x y m)) \<Longrightarrow> only_in A m (draw f ys xs m)"
  unfolding draw_def by (intro only_in_fold)

lemma only_in_write:
  "k + length bs \<le> N \<Longrightarrow> only_in (region a N) m (write_bytes m (a + of_nat k) bs)"
  using region_sub [of k "length bs" N a] by (auto simp: only_in_def intro: write_bytes_other)

lemma putpixel_in_screen:
  assumes "fb c = Some f" and "fb_ok f"
  shows "only_in (screen f) m (putpixel c x y color m)"
proof (cases "ucast x \<ge> fb_width f \<or> ucast y \<ge> fb_height f")
  case True
  then show ?thesis using assms(1) by (auto simp: putpixel_def)
next
  case False
  let ?b = "unat (fb_bpp f div 8)"
  have x: "unat x < unat (fb_width f)" and y: "unat y < unat (fb_height f)"
    using False by (auto simp: word_le_nat_alt not_le unat_ucast_up)
  let ?k = "unat y * unat (fb_pitch f) + unat (x * (ucast (fb_bpp f div 8) :: u32))"
  have mult: "unat (x * (ucast (fb_bpp f div 8) :: u32)) \<le> unat x * ?b"
    using unat_mult_le [of x "ucast (fb_bpp f div 8)"] by (simp only: unat_ucast_up len_of_numeral_defs)
  have "(unat x + 1) * ?b \<le> unat (fb_width f) * ?b" using x by (intro mult_right_mono) simp_all
  also have "\<dots> \<le> unat (fb_pitch f)" using assms(2) by (simp add: fb_ok_def)
  finally have "?k + ?b \<le> (unat y + 1) * unat (fb_pitch f)" using mult by (simp add: algebra_simps)
  also have "\<dots> \<le> unat (fb_height f) * unat (fb_pitch f)"
    using y by (intro mult_right_mono) simp_all
  finally have k: "?k + ?b \<le> unat (fb_height f) * unat (fb_pitch f)" .
  have "fb_address f + ucast y * fb_pitch f + ucast (x * (ucast (fb_bpp f div 8) :: u32)) = fb_address f + of_nat ?k"
    by simp
  then show ?thesis
    using False k only_in_write [of ?k "take ?b (to_bytes 4 color)" _ "fb_address f" m] assms(1)
    by (simp add: putpixel_def screen_def add.assoc)
qed

text \<open>Geometry of the console: the dimensions come from \<open>update_dims\<close>.\<close>

definition dims_ok :: "console \<Rightarrow> bool" where
  "dims_ok c \<longleftrightarrow> console_rows c \<noteq> 0 \<and> (\<exists>f. fb c = Some f \<and> fb_ok f \<and>
     unat (console_rows c) * unat (font_glyph_h c) \<le> unat (fb_height f))"

lemma scroll_in_screen:
  assumes "dims_ok c" and "fb c = Some f"
  shows "only_in (screen f) m (snd (console_scroll (c, m)))"
proof (cases "fb_font_data c = 0")
  case True
  then show ?thesis using assms(2) by (simp add: console_scroll_def)
next
  case False
  have f: "fb_ok f" "unat (console_rows c) * unat (font_glyph_h c) \<le> unat (fb_height f)"
    using assms by (auto simp: dims_ok_def)
  let ?rb = "ucast (fb_pitch f * ucast (font_glyph_h c)) :: u32"
  let ?n = "?rb * (console_rows c - 1)"
  have "unat ?rb \<le> unat (fb_pitch f) * unat (font_glyph_h c)"
    using unat_mult_le [of "fb_pitch f" "ucast (font_glyph_h c)"] unat_ucast_up [of "font_glyph_h c", where 'a = 64]
    by (simp add: unat_ucast)
  have rows: "console_rows c \<noteq> 0" using assms(1) by (simp add: dims_ok_def)
  have n: "unat ?n \<le> unat (fb_height f) * unat (fb_pitch f)"
  proof -
    have "unat ?n \<le> unat ?rb * unat (console_rows c - 1)" by (rule unat_mult_le)
    also have "\<dots> \<le> (unat (fb_pitch f) * unat (font_glyph_h c)) * unat (console_rows c)"
      using \<open>unat ?rb \<le> _\<close> word_pred_less [OF rows] by (intro mult_mono) (simp_all add: word_less_nat_alt)
    also have "\<dots> \<le> unat (fb_height f) * unat (fb_pitch f)"
      using mult_right_mono [OF f(2), of "unat (fb_pitch f)"] by (simp add: ac_simps)
    finally show ?thesis .
  qed
  let ?bs = "read_bytes m (fb_address f + ucast ?rb) (unat ?n)"
  have "only_in (screen f) m (write_bytes m (fb_address f) ?bs)"
    using only_in_write [of 0 ?bs, where a = "fb_address f"] n by (simp add: screen_def)
  then show ?thesis
    using False assms(2)
    by (auto simp: console_scroll_def Let_def intro!: only_in_draw putpixel_in_screen f elim!: only_in_trans)
qed

lemma putpixel_row [simp]: "putpixel (c\<lparr>console_row := r\<rparr>) = putpixel c"
  by (simp add: putpixel_def fun_eq_iff)

lemma scroll_row: "snd (console_scroll (c\<lparr>console_row := r\<rparr>, m)) = snd (console_scroll (c, m))"
  by (cases "fb c") (simp_all add: console_scroll_def Let_def)

lemma newline_in_screen:
  assumes "dims_ok c" and "fb c = Some f"
  shows "only_in (screen f) m (snd (newline (c, m)))"
  using scroll_in_screen [OF assms, of m] scroll_row [where c = c and m = m]
  by (simp add: newline_def Let_def)

lemma draw_glyph_in_screen:
  assumes "fb c = Some f" and "fb_ok f"
  shows "only_in (screen f) m (draw_glyph ch c m)"
  unfolding draw_glyph_def Let_def
  by (intro only_in_trans [OF only_in_draw only_in_draw]) (simp_all add: putpixel_in_screen [OF assms])

lemma putc_in_screen:
  assumes "dims_ok c" and "fb c = Some f"
  shows "only_in (screen f) m (snd (linearfb_console_putc ch (c, m)))"
proof -
  have f: "fb_ok f" using assms by (auto simp: dims_ok_def)
  have d: "dims_ok (c\<lparr>console_col := k\<rparr>)" "fb (c\<lparr>console_col := k\<rparr>) = Some f" for k
    using assms by (auto simp: dims_ok_def)
  show ?thesis
    using newline_in_screen [OF d] draw_glyph_in_screen [OF assms(2) f]
      only_in_trans [OF draw_glyph_in_screen [OF assms(2) f] newline_in_screen [OF d]]
    by (auto simp: linearfb_console_putc_def Let_def)
qed

text \<open>What printing keeps of the console; without a framebuffer it writes nothing.\<close>

lemma putc_geometry:
  "fb (fst (linearfb_console_putc ch (c, m))) = fb c" "console_rows (fst (linearfb_console_putc ch (c, m))) = console_rows c"
  "font_glyph_h (fst (linearfb_console_putc ch (c, m))) = font_glyph_h c"
  by (auto simp: linearfb_console_putc_def newline_def console_scroll_def Let_def split: option.split)

lemma putc_no_screen: "fb c = None \<Longrightarrow> snd (linearfb_console_putc ch (c, m)) = m"
proof -
  assume n: "fb c = None"
  then have px: "putpixel c = (\<lambda>_ _ _ m. m)" by (simp add: putpixel_def fun_eq_iff)
  moreover have "fold (\<lambda>y. fold (\<lambda>x m. m) xs) ys m = m" for xs ys :: "nat list" and m :: mem
  proof (induction ys arbitrary: m)
    case (Cons y ys)
    have "fold (\<lambda>x m. m) xs m = m" for xs :: "nat list" and m :: mem by (induction xs) simp_all
    then show ?case using Cons by simp
  qed simp
  ultimately show ?thesis
    by (auto simp: linearfb_console_putc_def newline_def console_scroll_def draw_glyph_def draw_def Let_def n cong: if_cong)
qed

text \<open>The bytes of the screen, if there is one, and the geometry that keeps the writes inside.\<close>

definition screen_area :: "console \<Rightarrow> addr set" where
  "screen_area c = (case fb c of None \<Rightarrow> {} | Some f \<Rightarrow> screen f)"

definition screen_fits :: "console \<Rightarrow> bool" where
  "screen_fits c \<longleftrightarrow> (fb c \<noteq> None \<longrightarrow> dims_ok c)"

lemma putc_area:
  assumes "screen_fits c"
  shows "only_in (screen_area c) m (snd (linearfb_console_putc ch (c, m)))" "screen_fits (fst (linearfb_console_putc ch (c, m)))"
    "screen_area (fst (linearfb_console_putc ch (c, m))) = screen_area c"
proof -
  show "only_in (screen_area c) m (snd (linearfb_console_putc ch (c, m)))"
    using assms putc_in_screen putc_no_screen [of c ch m] by (auto simp: screen_area_def screen_fits_def split: option.split)
  show "screen_fits (fst (linearfb_console_putc ch (c, m)))" "screen_area (fst (linearfb_console_putc ch (c, m))) = screen_area c"
    using assms by (simp_all add: screen_area_def screen_fits_def dims_ok_def putc_geometry)
qed

section \<open>Properties\<close>

text \<open>
  Whatever is printed, the text cursor stays on the screen: from a console with a font, a
  framebuffer and the cursor within its columns and rows, printing any string leaves it so.
\<close>

theorem console_cursor_in_bounds:
  assumes "cursor_ok c"
  shows "cursor_ok (fst (linearfb_console_puts s (c, m)))"
proof -
  have "cursor_ok (fst (fold linearfb_console_putc xs cm))" if "cursor_ok (fst cm)" for xs cm
    using that
  proof (induction xs arbitrary: cm)
    case (Cons x xs)
    then show ?case using putc_ok [of "fst cm" x "snd cm"] by simp
  qed simp
  from this [of "(c, m)"] assms show ?thesis by (simp add: linearfb_console_puts_def)
qed

definition ex_console :: console where
  "ex_console = console_boot\<lparr>fb := Some \<lparr>fb_address = 0x1000, fb_width = 16, fb_height = 32, fb_pitch = 64, fb_bpp = 32\<rparr>,
     fb_font_data := 0x100, font_glyph_w := 8, font_glyph_h := 16, font_glyph_count := 256,
     console_cols := 2, console_rows := 2\<rparr>"

theorem console_cursor_in_bounds_witness:
  "cursor_ok (fst (linearfb_console_puts [65, 66, 10, 67, 10, 10] (ex_console, \<lambda>_. 0)))"
  by (rule console_cursor_in_bounds) (simp add: cursor_ok_def ex_console_def console_boot_def)

text \<open>
  With no text row, a scroll moves almost 4 GiB: the byte at any address outside the screen in that range is replaced by the one a row of
  glyphs above it.
\<close>

theorem low_framebuffer_overrun:
  assumes "fb c = Some f" and "fb_ok f" and "fb_font_data c \<noteq> 0" and "console_rows c = 0"
    and "rb = ucast (fb_pitch f * ucast (font_glyph_h c))" and "i < unat (- rb :: u32)" and "fb_address f + of_nat i \<notin> screen f"
  shows "snd (console_scroll (c, m)) (fb_address f + of_nat i) = m (fb_address f + ucast rb + of_nat i)"
proof -
  let ?bs = "read_bytes m (fb_address f + ucast rb) (unat (- rb))"
  let ?m = "write_bytes m (fb_address f) ?bs"
  have "unat (- rb) \<le> 2 ^ 64" using unat_lt_2p [of "- rb"] by simp
  then have "?m (fb_address f + of_nat i) = m (fb_address f + ucast rb + of_nat i)"
    using assms(6) by (subst write_bytes_at) simp_all
  moreover have "only_in (screen f) ?m (snd (console_scroll (c, m)))"
    using assms(1,3,4) by (auto simp: console_scroll_def Let_def assms(5) [symmetric] intro!: only_in_draw putpixel_in_screen assms(1,2))
  ultimately show ?thesis using assms(7) by (simp add: only_in_def)
qed

text \<open>
  C35: Printing a character writes no byte outside the framebuffer, glyphs and scrolling
  included, for a framebuffer whose lines hold its pixels and a console which has at least one text row and whose rows fit its
  height. (The code does not make sure of the row: a framebuffer lower than a glyph has no row, and scrolling
  then writes outside it, as \<open>low_framebuffer_overrun\<close> shows.)
\<close>

theorem putc_writes_only_screen:
  assumes "dims_ok c" and "fb c = Some f" and "x \<notin> screen f"
  shows "snd (linearfb_console_putc ch (c, m)) x = m x"
  using putc_in_screen [OF assms(1,2), of m ch] assms(3) by (simp add: only_in_def)

theorem putc_writes_only_screen_witness:
  "snd (linearfb_console_putc 65 (ex_console, \<lambda>_. 7)) 0x100 = 7"
proof -
  let ?f = "\<lparr>fb_address = 0x1000, fb_width = 16, fb_height = 32, fb_pitch = 64, fb_bpp = 32\<rparr>"
  have "(0x1000 :: addr) + of_nat (2 ^ 64 - 0xF00) = 0x100"
    unfolding word_unat_eq_iff by (simp add: unat_word_ariths unat_of_nat)
  then have "(0x100 :: addr) \<notin> screen ?f"
    using in_region_offset [of 2048 "0x1000" "2 ^ 64 - 0xF00"] by (simp only: screen_def) simp
  moreover have "dims_ok ex_console" "fb ex_console = Some ?f"
    by (simp_all add: dims_ok_def fb_ok_def ex_console_def)
  ultimately show ?thesis using putc_writes_only_screen [of ex_console ?f "0x100" 65 "\<lambda>_. 7"] by simp
qed

end
