(* ===== verification/Vnode.thy ===== *)
theory Vnode
  imports Pipe LinearFb
begin

text \<open>
  Vnodes (\<open>include/ceryx/fs/Vnode.hpp\<close>), the stat structure (\<open>include/ceryx/fs/Stat.hpp\<close>) and the
  state the file systems share. A vnode is named by its address. The three subclasses
  (\<open>RamFsNode\<close>, \<open>PseudoFsNode\<close>, \<open>PipeVnode\<close>) share one record whose extra fields are unused in the
  others; the \<open>ops\<close> pointer tells them apart, and a null function pointer of a table is a
  missing case of the operation.

  The record \<open>fk\<close> holds what the file systems use of code outside \<open>src/\<close>: the page allocator and
  \<open>operator new\<close> (on an abstract state \<open>'k\<close>), whether a \<open>Vector\<close> could grow, the \<open>VmObject\<close> (an
  abstract \<open>'v\<close>), the ring buffer of a pipe and the offset of the direct map.
\<close>

section \<open>Data\<close>

datatype VnodeType = Regular | Directory | BlockDevice | CharDevice | SymLink | Socket | Fifo

datatype VnodeOps = RamFsOps | PseudoFsOps | PipeOps

datatype PseudoReadCallback = NullRead | ZeroRead | TtyRead | VersionRead

datatype PseudoWriteCallback = NullWrite | ZeroWrite | TtyWrite | StdoutWrite

text \<open>
  A \<open>StringView\<close> does not own its characters: it is a string literal of the kernel, or an address and a length,
  and then what it says depends on the memory at the time it is read. \<open>Vnode::name\<close> is one.
\<close>

datatype StringView = Literal string | View addr nat

definition chars :: "mem \<Rightarrow> StringView \<Rightarrow> string" where
  "chars m v = (case v of Literal str \<Rightarrow> str | View a n \<Rightarrow> map char_of_byte (read_bytes m a n))"

definition sv_size :: "StringView \<Rightarrow> nat" where
  "sv_size v = (case v of Literal str \<Rightarrow> length str | View a n \<Rightarrow> n)"

definition sv_byte :: "mem \<Rightarrow> StringView \<Rightarrow> nat \<Rightarrow> u8" where
  "sv_byte m v j = (case v of Literal str \<Rightarrow> byte_of_char (str ! j) | View a n \<Rightarrow> m (a + of_nat j))"

lemma length_chars: "length (chars m v) = sv_size v"
  by (simp add: chars_def sv_size_def split: StringView.split)

record ('v, 'r) vnode =
  vtype :: VnodeType
  ops :: "VnodeOps option"
  v_size :: u64
  permissions :: u32
  v_name :: StringView
  vmo :: "'v option"
  children :: "addr list"
  read_cb :: "PseudoReadCallback option"
  write_cb :: "PseudoWriteCallback option"
  v_pipe :: "'r pipe option"

definition Vnode_new :: "VnodeType \<Rightarrow> VnodeOps \<Rightarrow> ('v, 'r) vnode" where
  "Vnode_new t q = \<lparr>vtype = t, ops = Some q, v_size = 0, permissions = 0, v_name = Literal [], vmo = None,
     children = [], read_cb = None, write_cb = None, v_pipe = None\<rparr>"

record ('v, 'r, 'k) fk =
  op_new :: "'k \<Rightarrow> addr option \<times> 'k"
  PushBack_ok :: "'k \<Rightarrow> bool \<times> 'k"
  AllocatePage :: "'k \<Rightarrow> u64 option \<times> 'k"
  FreeFolio :: "u64 \<Rightarrow> 'k \<Rightarrow> 'k"
  PfnToPhysical :: "u64 \<Rightarrow> u64"
  hhdm :: u64
  VmObject_new :: 'v
  vmo_Lookup :: "'v \<Rightarrow> u64 \<Rightarrow> u64 option"
  vmo_InsertBlock :: "u64 \<Rightarrow> u64 \<Rightarrow> u64 \<Rightarrow> 'v \<Rightarrow> 'v"
  vmo_Pages :: "'v \<Rightarrow> (u64 \<times> u64) list"
  vmo_RemoveBlock :: "u64 \<times> u64 \<Rightarrow> 'v \<Rightarrow> 'v"
  ring_ops :: "'r ring"
  ring_new :: "u64 \<Rightarrow> 'r"

record ('v, 'r, 'k) fsys =
  memory :: mem
  vnodes :: "addr \<rightharpoonup> ('v, 'r) vnode"
  kmm :: 'k
  screen_console :: console
  debug_port :: "u8 list"

definition upd_vnode :: "addr \<Rightarrow> (('v, 'r) vnode \<Rightarrow> ('v, 'r) vnode) \<Rightarrow> ('v, 'r, 'k) fsys \<Rightarrow> ('v, 'r, 'k) fsys" where
  "upd_vnode a f s = s\<lparr>vnodes := (vnodes s)(a := map_option f (vnodes s a))\<rparr>"

definition IsDirectory :: "('v, 'r) vnode \<Rightarrow> bool" where
  "IsDirectory vn \<longleftrightarrow> vtype vn = Directory"

section \<open>Allocation of objects\<close>

text \<open>\<open>operator new\<close> returns storage of no live object; \<open>live l\<close> are the objects of the allocator state \<open>l\<close>. Growing a vector
  and allocating a page free no object.\<close>

definition alloc_laws :: "('v, 'r, 'k) fk \<Rightarrow> ('k \<Rightarrow> addr set) \<Rightarrow> bool" where
  "alloc_laws K live \<longleftrightarrow>
     (\<forall>l d l'. op_new K l = (Some d, l') \<longrightarrow> d \<notin> live l \<and> live l' = insert d (live l)) \<and>
     (\<forall>l l'. op_new K l = (None, l') \<longrightarrow> live l' = live l) \<and>
     (\<forall>l b l'. PushBack_ok K l = (b, l') \<longrightarrow> live l \<subseteq> live l') \<and>
     (\<forall>l q l'. AllocatePage K l = (q, l') \<longrightarrow> live l \<subseteq> live l')"

lemma alloc_lawsD:
  assumes "alloc_laws K live"
  shows "op_new K l = (Some d, l') \<Longrightarrow> d \<notin> live l" "op_new K l = (q, l') \<Longrightarrow> live l \<subseteq> live l'"
    "op_new K l = (Some d, l') \<Longrightarrow> d \<in> live l'"
    "PushBack_ok K l = (b, l') \<Longrightarrow> live l \<subseteq> live l'" "AllocatePage K l = (q', l') \<Longrightarrow> live l \<subseteq> live l'"
  using assms unfolding alloc_laws_def by (cases q; fastforce)+

section \<open>Stat\<close>

record KernelStat =
  st_dev :: u64
  st_ino :: u64
  st_nlink :: u64
  st_mode :: u32
  st_uid :: u32
  st_gid :: u32
  st_pad0 :: u32
  st_rdev :: u64
  st_size :: u64
  st_blksize :: u64
  st_blocks :: u64
  st_atime :: u64
  st_atime_nsec :: u64
  st_mtime :: u64
  st_mtime_nsec :: u64
  st_ctime :: u64
  st_ctime_nsec :: u64
  st_unused :: "u64 list"

fun VnodeTypeToMode :: "VnodeType \<Rightarrow> u32" where
  "VnodeTypeToMode Regular = 0x8000"
| "VnodeTypeToMode Directory = 0x4000"
| "VnodeTypeToMode BlockDevice = 0x6000"
| "VnodeTypeToMode CharDevice = 0x2000"
| "VnodeTypeToMode SymLink = 0xA000"
| "VnodeTypeToMode Socket = 0xC000"
| "VnodeTypeToMode Fifo = 0x1000"

definition VnodeToStat :: "addr \<Rightarrow> ('v, 'r) vnode \<Rightarrow> KernelStat" where
  "VnodeToStat a vn =
     \<lparr>st_dev = 0, st_ino = a, st_nlink = 1,
      st_mode = VnodeTypeToMode (vtype vn) OR (permissions vn AND 0x1FF),
      st_uid = 0, st_gid = 0, st_pad0 = 0, st_rdev = 0,
      st_size = v_size vn, st_blksize = 4096, st_blocks = (v_size vn + 511) div 512,
      st_atime = 0, st_atime_nsec = 0, st_mtime = 0, st_mtime_nsec = 0, st_ctime = 0, st_ctime_nsec = 0,
      st_unused = [0, 0, 0]\<rparr>"

text \<open>The 144-byte image of the structure, field by field in declaration order.\<close>

definition stat_bytes :: "KernelStat \<Rightarrow> u8 list" where
  "stat_bytes st =
     concat (map (to_bytes 8) [st_dev st, st_ino st, st_nlink st]) @
     concat (map (to_bytes 4) [st_mode st, st_uid st, st_gid st, st_pad0 st]) @
     concat (map (to_bytes 8) ([st_rdev st, st_size st, st_blksize st, st_blocks st, st_atime st, st_atime_nsec st,
       st_mtime st, st_mtime_nsec st, st_ctime st, st_ctime_nsec st] @ st_unused st))"

lemma length_stat_bytes: "length (stat_bytes (VnodeToStat a vn)) = 144"
  by (simp add: stat_bytes_def VnodeToStat_def)

text \<open>The file type is recoverable from the mode bits, whatever the permissions.\<close>

lemma VnodeTypeToMode_inj: "VnodeTypeToMode t = VnodeTypeToMode u \<Longrightarrow> t = u"
  by (cases t; cases u) simp_all

lemma mode_type_bits:
  "st_mode (VnodeToStat a vn) AND 0xF000 = VnodeTypeToMode (vtype vn)"
proof -
  have p: "(p AND 0x1FF) AND 0xF000 = (0 :: u32)" for p :: u32
    by (simp add: and.assoc)
  show ?thesis
    by (cases "vtype vn") (simp_all add: VnodeToStat_def bit.conj_disj_distrib2 p)
qed

end
