(* ===== verification/RamFs.thy ===== *)
theory RamFs
  imports Vnode
begin

text \<open>
  The RAM file system (\<open>include/ceryx/fs/ramfs/RamFs.hpp\<close>). File data live in pages of a
  \<open>VmObject\<close>, reached through the direct map; the copy loops run on 64-bit offsets as in the code.
\<close>

definition kPageSize :: u64 where
  "kPageSize = 4096"

section \<open>Operations\<close>

definition RamFsNode_new :: "('v, 'r, 'k) fk \<Rightarrow> VnodeType \<Rightarrow> StringView \<Rightarrow> ('v, 'r) vnode" where
  "RamFsNode_new K t nm =
     (Vnode_new t RamFsOps)\<lparr>v_name := nm, vmo := (if t = Regular then Some (VmObject_new K) else None)\<rparr>"

text \<open>\<open>InsertChild\<close>: a panic on a node that is no directory; the flag is the result of \<open>PushBack\<close>.\<close>

definition InsertChild :: "('v, 'r, 'k) fk \<Rightarrow> addr \<Rightarrow> addr \<Rightarrow> ('v, 'r, 'k) fsys \<Rightarrow> (bool \<times> ('v, 'r, 'k) fsys) expected" where
  "InsertChild K dir child s =
     (case vnodes s dir of
        None \<Rightarrow> Bug
      | Some d \<Rightarrow>
          if vtype d \<noteq> Directory then Bug
          else (case PushBack_ok K (kmm s) of
                  (True, k) \<Rightarrow> Value (True, upd_vnode dir (\<lambda>d. d\<lparr>children := children d @ [child]\<rparr>) (s\<lparr>kmm := k\<rparr>))
                | (False, k) \<Rightarrow> Value (False, s\<lparr>kmm := k\<rparr>)))"

text \<open>The bytes one iteration copies: what is left, but not beyond the end of the page.\<close>

definition to_copy :: "u64 \<Rightarrow> u64 \<Rightarrow> u64" where
  "to_copy curr_offset left =
     (let page_offset = curr_offset AND (kPageSize - 1);
          page_remain = kPageSize - page_offset
      in if left < page_remain then left else page_remain)"

lemma unat_page_offset: "unat (w AND (kPageSize - 1)) = unat w mod 4096" for w :: u64
proof -
  have "w AND (kPageSize - 1) = take_bit 12 w"
    by (simp add: kPageSize_def take_bit_eq_mask mask_eq_exp_minus_1)
  then show ?thesis by (simp add: take_bit_eq_mod unat_mod_distrib)
qed

lemma unat_to_copy: "unat (to_copy pos left) = min (unat left) (4096 - unat pos mod 4096)"
proof -
  have "unat (kPageSize - (pos AND (kPageSize - 1))) = 4096 - unat pos mod 4096"
    using unat_page_offset [of pos] by (subst unat_sub) (simp_all add: word_le_nat_alt kPageSize_def)
  then show ?thesis by (auto simp: to_copy_def Let_def word_less_nat_alt)
qed

lemma to_copy_progress:
  "copied < lim \<Longrightarrow> unat (lim - (copied + to_copy pos (lim - copied))) < unat (lim - copied)"
  "copied < lim \<Longrightarrow> unat (copied + to_copy pos (lim - copied)) = unat copied + unat (to_copy pos (lim - copied))"
proof -
  assume lt: "copied < lim"
  let ?n = "to_copy pos (lim - copied)"
  have d: "unat (lim - copied) = unat lim - unat copied"
    using lt by (intro unat_sub) (simp add: word_less_nat_alt word_le_nat_alt)
  have n: "unat ?n \<le> unat lim - unat copied" "0 < unat ?n"
    using lt unat_to_copy [of pos "lim - copied"] d by (auto simp: word_less_nat_alt)
  then show sum: "unat (copied + ?n) = unat copied + unat ?n"
    using lt unat_lt_2p [of lim] by (intro unat_plus_no_wrap) (simp add: word_less_nat_alt)
  then have "unat (lim - (copied + ?n)) = unat lim - (unat copied + unat ?n)"
    using n lt by (subst unat_sub) (simp_all add: word_less_nat_alt word_le_nat_alt)
  with n d show "unat (lim - (copied + ?n)) < unat (lim - copied)" by simp
qed

function ramfs_Read_loop ::
  "('v, 'r, 'k) fk \<Rightarrow> 'v \<Rightarrow> addr \<Rightarrow> u64 \<Rightarrow> u64 \<Rightarrow> u64 \<Rightarrow> mem \<Rightarrow> u64 \<times> mem" where
  "ramfs_Read_loop K v buffer offset cnt copied m =
     (if copied < cnt then
        (let curr_offset = offset + copied;
             n = to_copy curr_offset (cnt - copied);
             m = (case vmo_Lookup K v curr_offset of
                    Some phys \<Rightarrow> MemoryCopy m (buffer + copied) (hhdm K + phys) n
                  | None \<Rightarrow> MemoryZero m (buffer + copied) n)
         in ramfs_Read_loop K v buffer offset cnt (copied + n) m)
      else (copied, m))"
  by pat_completeness auto
termination
  by (relation "measure (\<lambda>(K, v, buffer, offset, cnt, copied, m). unat (cnt - copied))")
    (auto simp: to_copy_progress)

declare ramfs_Read_loop.simps [simp del]

definition RamFs_Read ::
  "('v, 'r, 'k) fk \<Rightarrow> addr \<Rightarrow> addr \<Rightarrow> u64 \<Rightarrow> u64 \<Rightarrow> ('v, 'r, 'k) fsys \<Rightarrow> u64 expected \<times> ('v, 'r, 'k) fsys" where
  "RamFs_Read K a buffer sz offset s =
     (case vnodes s a of
        None \<Rightarrow> (Bug, s)
      | Some vn \<Rightarrow>
          if vtype vn \<noteq> Regular then (Unexpected (- EISDIR), s)
          else if offset \<ge> v_size vn then (Value 0, s)
          else
            (let cnt = (if offset + sz > v_size vn then v_size vn - offset else sz) in
             case vmo vn of
               None \<Rightarrow> (Value 0, s)
             | Some v \<Rightarrow>
                 (case ramfs_Read_loop K v buffer offset cnt 0 (memory s) of
                    (copied, m) \<Rightarrow> (Value copied, s\<lparr>memory := m\<rparr>))))"

text \<open>
  The write loop, with what was done so far: \<open>-ENOMEM\<close> when a page could not be allocated. The result of
  \<open>new VmPage()\<close> is not checked: stores through a null pointer are \<open>Bug\<close>.
\<close>

function ramfs_Write_loop ::
  "('v, 'r, 'k) fk \<Rightarrow> addr \<Rightarrow> u64 \<Rightarrow> u64 \<Rightarrow> u64 \<Rightarrow> 'v \<times> mem \<times> 'k \<Rightarrow> u64 expected \<times> 'v \<times> mem \<times> 'k" where
  "ramfs_Write_loop K buffer offset sz copied (v, m, k) =
     (if copied < sz then
        (let curr_offset = offset + copied;
             page_offset = curr_offset AND (kPageSize - 1);
             n = to_copy curr_offset (sz - copied);
             (phys, v, m, k) =
               (case vmo_Lookup K v curr_offset of
                  Some phys \<Rightarrow> (Value phys, v, m, k)
                | None \<Rightarrow>
                    (case AllocatePage K k of
                       (None, k) \<Rightarrow> (Unexpected (- ENOMEM), v, m, k)
                     | (Some pfn, k) \<Rightarrow>
                         (case op_new K k of
                            (None, k) \<Rightarrow> (Bug, v, m, k)
                          | (Some page, k) \<Rightarrow>
                              (Value (PfnToPhysical K pfn),
                               vmo_InsertBlock K (curr_offset AND NOT (kPageSize - 1)) kPageSize pfn v,
                               MemoryZero m (hhdm K + PfnToPhysical K pfn) kPageSize, k))))
         in case phys of
              Value phys \<Rightarrow>
                ramfs_Write_loop K buffer offset sz (copied + n)
                  (v, MemoryCopy m (hhdm K + phys + page_offset) (buffer + copied) n, k)
            | Unexpected e \<Rightarrow> (Unexpected e, v, m, k)
            | Bug \<Rightarrow> (Bug, v, m, k))
      else (Value copied, v, m, k))"
  by pat_completeness auto
termination
  by (relation "measure (\<lambda>(K, buffer, offset, sz, copied, vmk). unat (sz - copied))")
    (auto simp: to_copy_progress)

declare ramfs_Write_loop.simps [simp del]

definition RamFs_Write ::
  "('v, 'r, 'k) fk \<Rightarrow> addr \<Rightarrow> addr \<Rightarrow> u64 \<Rightarrow> u64 \<Rightarrow> ('v, 'r, 'k) fsys \<Rightarrow> u64 expected \<times> ('v, 'r, 'k) fsys" where
  "RamFs_Write K a buffer sz offset s =
     (case vnodes s a of
        None \<Rightarrow> (Bug, s)
      | Some vn \<Rightarrow>
          if vtype vn \<noteq> Regular then (Unexpected (- EISDIR), s)
          else
            (case vmo vn of
               None \<Rightarrow> (Unexpected (- ENOMEM), s)
             | Some v \<Rightarrow>
                 (case ramfs_Write_loop K buffer offset sz 0 (v, memory s, kmm s) of
                    (res, v, m, k) \<Rightarrow>
                      let s = upd_vnode a (\<lambda>vn. vn\<lparr>vmo := Some v\<rparr>) (s\<lparr>memory := m, kmm := k\<rparr>)
                      in case res of
                           Value copied \<Rightarrow>
                             (Value copied,
                              if offset + sz > v_size vn
                              then upd_vnode a (\<lambda>vn. vn\<lparr>v_size := offset + sz\<rparr>) s else s)
                         | Unexpected e \<Rightarrow> (Unexpected e, s)
                         | Bug \<Rightarrow> (Bug, s))))"

definition child_named :: "('v, 'r, 'k) fsys \<Rightarrow> string \<Rightarrow> addr \<Rightarrow> bool" where
  "child_named s nm c = (case vnodes s c of Some vn \<Rightarrow> chars (memory s) (v_name vn) = nm | None \<Rightarrow> False)"

definition RamFs_Lookup :: "addr \<Rightarrow> string \<Rightarrow> ('v, 'r, 'k) fsys \<Rightarrow> addr expected" where
  "RamFs_Lookup dir nm s =
     (case vnodes s dir of
        None \<Rightarrow> Bug
      | Some d \<Rightarrow>
          if vtype d \<noteq> Directory then Unexpected (- ENOTDIR)
          else (case List.find (child_named s nm) (children d) of
                  Some c \<Rightarrow> Value c
                | None \<Rightarrow> Unexpected (- ENOENT)))"

text \<open>The common tail of \<open>Create\<close>, \<open>Mkdir\<close> and \<open>Mknod\<close>: a new node, pushed on the children.\<close>

definition add_node ::
  "('v, 'r, 'k) fk \<Rightarrow> addr \<Rightarrow> VnodeType \<Rightarrow> StringView \<Rightarrow> ('v, 'r, 'k) fsys \<Rightarrow> addr expected \<times> ('v, 'r, 'k) fsys" where
  "add_node K dir t nm s =
     (case op_new K (kmm s) of
        (None, k) \<Rightarrow> (Unexpected (- ENOMEM), s\<lparr>kmm := k\<rparr>)
      | (Some a, k) \<Rightarrow>
          (case PushBack_ok K k of
             (False, k) \<Rightarrow> (Unexpected (- ENOMEM), s\<lparr>kmm := k\<rparr>)
           | (True, k) \<Rightarrow>
               (Value a,
                upd_vnode dir (\<lambda>d. d\<lparr>children := children d @ [a]\<rparr>)
                  (s\<lparr>kmm := k, vnodes := (vnodes s)(a \<mapsto> RamFsNode_new K t nm)\<rparr>))))"

definition RamFs_Create ::
  "('v, 'r, 'k) fk \<Rightarrow> addr \<Rightarrow> StringView \<Rightarrow> ('v, 'r, 'k) fsys \<Rightarrow> addr expected \<times> ('v, 'r, 'k) fsys" where
  "RamFs_Create K dir nm s =
     (case vnodes s dir of
        None \<Rightarrow> (Bug, s)
      | Some d \<Rightarrow>
          if vtype d \<noteq> Directory then (Unexpected (- ENOTDIR), s)
          else if List.find (child_named s (chars (memory s) nm)) (children d) \<noteq> None then (Unexpected (- EEXIST), s)
          else add_node K dir Regular nm s)"

definition RamFs_Mkdir ::
  "('v, 'r, 'k) fk \<Rightarrow> addr \<Rightarrow> StringView \<Rightarrow> ('v, 'r, 'k) fsys \<Rightarrow> addr expected \<times> ('v, 'r, 'k) fsys" where
  "RamFs_Mkdir K dir nm s =
     (case vnodes s dir of
        None \<Rightarrow> (Bug, s)
      | Some d \<Rightarrow>
          if vtype d \<noteq> Directory then (Unexpected (- ENOTDIR), s)
          else (case List.find (child_named s (chars (memory s) nm)) (children d) of
                  Some c \<Rightarrow> (Value c, s)
                | None \<Rightarrow> add_node K dir Directory nm s))"

definition RamFs_Mknod ::
  "('v, 'r, 'k) fk \<Rightarrow> addr \<Rightarrow> StringView \<Rightarrow> VnodeType \<Rightarrow> ('v, 'r, 'k) fsys \<Rightarrow> addr expected \<times> ('v, 'r, 'k) fsys" where
  "RamFs_Mknod K dir nm t s =
     (case vnodes s dir of
        None \<Rightarrow> (Bug, s)
      | Some d \<Rightarrow>
          if vtype d \<noteq> Directory then (Unexpected (- ENOTDIR), s)
          else add_node K dir t nm s)"

text \<open>
  Directory records. \<open>sizeof(Dirent64Header)\<close> is 24: the 19 bytes of its fields are padded to the
  alignment of \<open>u64\<close>, and the name starts after the padding.
\<close>

definition kDirentHeader :: u64 where
  "kDirentHeader = 24"

fun vtype_to_dt :: "VnodeType \<Rightarrow> u8" where
  "vtype_to_dt Regular = 8"
| "vtype_to_dt Directory = 4"
| "vtype_to_dt BlockDevice = 6"
| "vtype_to_dt CharDevice = 2"
| "vtype_to_dt SymLink = 10"
| "vtype_to_dt Socket = 12"
| "vtype_to_dt Fifo = 1"

definition rec_size :: "u64 \<Rightarrow> u64" where
  "rec_size name_len = (kDirentHeader + name_len + 1 + 7) AND NOT 7"

definition put_dirent :: "addr \<Rightarrow> addr \<Rightarrow> u64 \<Rightarrow> VnodeType \<Rightarrow> StringView \<Rightarrow> mem \<Rightarrow> mem" where
  "put_dirent hdr ino next_cookie t nm m =
     (let name_len = sv_size nm;
          m = write_bytes m hdr (to_bytes 8 ino @ to_bytes 8 next_cookie @
                to_bytes 2 (ucast (rec_size (of_nat name_len)) :: u16) @ [vtype_to_dt t]);
          name_dst = hdr + kDirentHeader;
          m = fold (\<lambda>j m. m(name_dst + of_nat j := sv_byte m nm j)) [0..<name_len] m
      in m(name_dst + of_nat name_len := 0))"

fun Iterate_loop ::
  "('v, 'r, 'k) fsys \<Rightarrow> addr \<Rightarrow> u64 \<Rightarrow> u64 \<Rightarrow> addr list \<Rightarrow> u64 \<Rightarrow> mem \<Rightarrow> u64 expected \<times> mem" where
  "Iterate_loop s out buf_len i [] written m = (Value written, m)"
| "Iterate_loop s out buf_len i (c # cs) written m =
     (case vnodes s c of
        None \<Rightarrow> (Bug, m)
      | Some vn \<Rightarrow>
          (let sz = rec_size (of_nat (sv_size (v_name vn))) in
           if written + sz > buf_len then (Value written, m)
           else Iterate_loop s out buf_len (i + 1) cs (written + sz)
                  (put_dirent (out + written) c (i + 1) (vtype vn) (v_name vn) m)))"

definition RamFs_Iterate ::
  "addr \<Rightarrow> addr \<Rightarrow> u64 \<Rightarrow> u64 \<Rightarrow> ('v, 'r, 'k) fsys \<Rightarrow> u64 expected \<times> ('v, 'r, 'k) fsys" where
  "RamFs_Iterate dir buf buf_len offset s =
     (case vnodes s dir of
        None \<Rightarrow> (Bug, s)
      | Some d \<Rightarrow>
          if vtype d \<noteq> Directory then (Unexpected (- ENOTDIR), s)
          else (case Iterate_loop s buf buf_len offset (drop (unat offset) (children d)) 0 (memory s) of
                  (r, m) \<Rightarrow> (r, s\<lparr>memory := m\<rparr>)))"

text \<open>
  \<open>Destroy\<close> drains the page tree in batches of 32: collect, then remove and free each page. A
  page is its file offset and its frame number. The reference counts of the children are not
  part of the state.
\<close>

definition free_batch :: "('v, 'r, 'k) fk \<Rightarrow> (u64 \<times> u64) list \<Rightarrow> 'v \<times> 'k \<Rightarrow> 'v \<times> 'k" where
  "free_batch K batch vk =
     fold (\<lambda>p (v, k). (vmo_RemoveBlock K p v, FreeFolio K (snd p) k)) batch vk"

partial_function (option) drain_loop :: "('v, 'r, 'k) fk \<Rightarrow> 'v \<times> 'k \<Rightarrow> ('v \<times> 'k) option" where
  "drain_loop K vk =
     (let batch = take 32 (vmo_Pages K (fst vk)) in
      if batch = [] then Some vk else drain_loop K (free_batch K batch vk))"

definition RamFs_Destroy :: "('v, 'r, 'k) fk \<Rightarrow> addr \<Rightarrow> ('v, 'r, 'k) fsys \<Rightarrow> ('v, 'r, 'k) fsys option" where
  "RamFs_Destroy K a s =
     (case vnodes s a of
        None \<Rightarrow> Some s
      | Some vn \<Rightarrow>
          (case vmo vn of
             None \<Rightarrow> Some (s\<lparr>vnodes := (vnodes s)(a := None)\<rparr>)
           | Some v \<Rightarrow>
               Option.bind (drain_loop K (v, kmm s))
                 (\<lambda>(_, k). Some (s\<lparr>kmm := k, vnodes := (vnodes s)(a := None)\<rparr>))))"

section \<open>File contents\<close>

text \<open>
  The byte at position \<open>n\<close> of a file: looked up through the page that holds it. The laws on the
  \<open>VmObject\<close> only speak of page-aligned offsets, where the page's base is the answer.
\<close>

definition page_base :: "nat \<Rightarrow> u64" where
  "page_base n = of_nat (n - n mod 4096)"

definition byte_at :: "('v, 'r, 'k) fk \<Rightarrow> 'v \<Rightarrow> mem \<Rightarrow> nat \<Rightarrow> u8" where
  "byte_at K v m n =
     (case vmo_Lookup K v (page_base n) of
        None \<Rightarrow> 0
      | Some phys \<Rightarrow> m (hhdm K + phys + of_nat (n mod 4096)))"

definition frame :: "('v, 'r, 'k) fk \<Rightarrow> u64 \<Rightarrow> addr set" where
  "frame K phys = region (hhdm K + phys) 4096"

definition aligned :: "u64 \<Rightarrow> bool" where
  "aligned w \<longleftrightarrow> unat w mod 4096 = 0"

text \<open>
  What the code relies on: an inserted block is found at its offset and disturbs no other;
  the allocator hands out frames that are not in use (an object may take frames too), and while \<open>avail\<close> is not 0 it has a frame
  and storage for its page object;
  distinct physical frames (the set \<open>P\<close>) do not overlap.
\<close>

definition page_laws :: "('v, 'r, 'k) fk \<Rightarrow> u64 set \<Rightarrow> ('k \<Rightarrow> u64 set) \<Rightarrow> ('k \<Rightarrow> nat) \<Rightarrow> bool" where
  "page_laws K P owned avail \<longleftrightarrow>
     (\<forall>v off pfn w. aligned off \<and> aligned w \<longrightarrow>
        vmo_Lookup K (vmo_InsertBlock K off kPageSize pfn v) w =
          (if w = off then Some (PfnToPhysical K pfn) else vmo_Lookup K v w)) \<and>
     (\<forall>k pfn k'. AllocatePage K k = (Some pfn, k') \<longrightarrow> pfn \<notin> owned k \<and> owned k' = insert pfn (owned k)) \<and>
     (\<forall>k q k'. op_new K k = (q, k') \<longrightarrow> owned k \<subseteq> owned k') \<and>
     (\<forall>k. owned k \<subseteq> P) \<and>
     (\<forall>k. 0 < avail k \<longrightarrow> (\<exists>pfn k1 a k2. AllocatePage K k = (Some pfn, k1) \<and> op_new K k1 = (Some a, k2) \<and> avail k2 = avail k - 1)) \<and>
     (\<forall>p \<in> P. \<forall>q \<in> P. p \<noteq> q \<longrightarrow> frame K (PfnToPhysical K p) \<inter> frame K (PfnToPhysical K q) = {})"

text \<open>A file whose pages are owned frames, each used for one page.\<close>

definition file_ok :: "('v, 'r, 'k) fk \<Rightarrow> ('k \<Rightarrow> u64 set) \<Rightarrow> 'v \<Rightarrow> 'k \<Rightarrow> bool" where
  "file_ok K owned v k \<longleftrightarrow>
     (\<forall>w phys. aligned w \<and> vmo_Lookup K v w = Some phys \<longrightarrow> (\<exists>pfn \<in> owned k. phys = PfnToPhysical K pfn)) \<and>
     (\<forall>w w' phys. aligned w \<and> aligned w' \<and> vmo_Lookup K v w = Some phys \<and> vmo_Lookup K v w' = Some phys \<longrightarrow> w = w')"

text \<open>A buffer that overlaps no page frame.\<close>

definition buffer_ok :: "('v, 'r, 'k) fk \<Rightarrow> u64 set \<Rightarrow> addr \<Rightarrow> nat \<Rightarrow> bool" where
  "buffer_ok K P buffer n \<longleftrightarrow> (\<forall>pfn \<in> P. frame K (PfnToPhysical K pfn) \<inter> region buffer n = {})"

lemma page_lawsD:
  assumes "page_laws K P owned avail"
  shows "aligned off \<Longrightarrow> aligned w \<Longrightarrow> vmo_Lookup K (vmo_InsertBlock K off kPageSize pfn v) w =
      (if w = off then Some (PfnToPhysical K pfn) else vmo_Lookup K v w)"
    and "AllocatePage K k = (Some pfn, k') \<Longrightarrow> pfn \<notin> owned k \<and> owned k' = insert pfn (owned k)"
    and "owned k \<subseteq> P"
    and "0 < avail k \<Longrightarrow> \<exists>pfn k1 a k2. AllocatePage K k = (Some pfn, k1) \<and> op_new K k1 = (Some a, k2) \<and> avail k2 = avail k - 1"
    and "p \<in> P \<Longrightarrow> q \<in> P \<Longrightarrow> p \<noteq> q \<Longrightarrow> frame K (PfnToPhysical K p) \<inter> frame K (PfnToPhysical K q) = {}"
    and "op_new K k = (x, k') \<Longrightarrow> owned k \<subseteq> owned k'"
  using assms unfolding page_laws_def by simp_all

lemma file_ok_mono: "file_ok K owned v k \<Longrightarrow> owned k \<subseteq> owned k' \<Longrightarrow> file_ok K owned v k'"
  unfolding file_ok_def by blast

lemma page_base_unat: "n < 2 ^ 64 \<Longrightarrow> unat (page_base n) = n - n mod 4096"
  unfolding page_base_def by (rule of_nat_inverse [OF refl]) (rule le_less_trans [OF diff_le_self], simp)

lemma page_base_aligned: "n < 2 ^ 64 \<Longrightarrow> aligned (page_base n)"
  by (simp add: aligned_def page_base_unat minus_mod_eq_mult_div)

text \<open>A position inside the page that starts at the aligned offset \<open>w\<close>.\<close>

lemma in_page:
  assumes "aligned w" and "j < 4096"
  shows "page_base (unat w + j) = w" "(unat w + j) mod 4096 = j"
proof -
  have w: "unat w mod 4096 = 0" using assms(1) by (simp add: aligned_def)
  then show j: "(unat w + j) mod 4096 = j"
    using assms(2) by (metis add.left_neutral mod_add_left_eq mod_less)
  show "page_base (unat w + j) = w"
    unfolding page_base_def j by simp
qed

lemma byte_at_cong:
  assumes "\<And>phys x. vmo_Lookup K v (page_base n) = Some phys \<Longrightarrow> x \<in> frame K phys \<Longrightarrow> m' x = m x"
  shows "byte_at K v m' n = byte_at K v m n"
proof (cases "vmo_Lookup K v (page_base n)")
  case (Some phys)
  have "hhdm K + phys + of_nat (n mod 4096) \<in> frame K phys"
    unfolding frame_def region_def by (rule imageI) simp
  with Some assms show ?thesis by (simp add: byte_at_def)
qed (simp add: byte_at_def)

definition pages_off :: "('v, 'r, 'k) fk \<Rightarrow> 'v \<Rightarrow> addr set \<Rightarrow> bool" where
  "pages_off K v A \<longleftrightarrow> (\<forall>w phys. aligned w \<and> vmo_Lookup K v w = Some phys \<longrightarrow> frame K phys \<inter> A = {})"

lemma pages_offI:
  "file_ok K owned v k \<Longrightarrow> owned k \<subseteq> P \<Longrightarrow> buffer_ok K P buffer n \<Longrightarrow> pages_off K v (region buffer n)"
  unfolding pages_off_def file_ok_def buffer_ok_def by blast

lemma byte_at_off:
  assumes "pages_off K v A" and "n < 2 ^ 64" and "\<And>x. x \<notin> A \<Longrightarrow> m' x = m x"
  shows "byte_at K v m' n = byte_at K v m n"
  using assms page_base_aligned [OF assms(2)] by (intro byte_at_cong) (auto simp: pages_off_def)

lemma not_in_later:
  assumes "i < k" and "k + n \<le> 2 ^ 64"
  shows "a + of_nat i \<notin> region (a + of_nat k) n"
proof
  assume "a + of_nat i \<in> region (a + of_nat k) n"
  then obtain j where j: "j < n" "(of_nat i :: u64) = of_nat (k + j)" by (auto simp: region_def add.assoc)
  have "i < 2 ^ LENGTH(64)" "k + j < 2 ^ LENGTH(64)" using assms j(1) by simp_all
  then have "i = k + j" using j(2) of_nat_inverse by metis
  with assms(1) show False by simp
qed

text \<open>One iteration of a copy loop at an aligned position: where it ends.\<close>

lemma aligned_step:
  assumes "copied < cnt" and "aligned (offset + copied)" and "unat offset + unat cnt \<le> 2 ^ 64"
    and "n = to_copy (offset + copied) (cnt - copied)"
  shows "unat (offset + copied) = unat offset + unat copied"
    and "unat n = min (unat cnt - unat copied) 4096"
    and "unat (copied + n) = unat copied + unat n"
    and "copied + n = cnt \<or> copied + n < cnt \<and> aligned (offset + (copied + n)) \<and> unat n = 4096"
proof -
  have lt: "unat copied < unat cnt" using assms(1) by (simp add: word_less_nat_alt)
  show pos: "unat (offset + copied) = unat offset + unat copied"
    using lt assms(3) by (intro unat_plus_no_wrap) simp
  have d: "unat (cnt - copied) = unat cnt - unat copied"
    using lt by (intro unat_sub) (simp add: word_le_nat_alt)
  show n: "unat n = min (unat cnt - unat copied) 4096"
    using assms(2) by (simp add: assms(4) unat_to_copy d aligned_def)
  show sum: "unat (copied + n) = unat copied + unat n"
    using to_copy_progress(2) [OF assms(1)] assms(4) by simp
  show "copied + n = cnt \<or> copied + n < cnt \<and> aligned (offset + (copied + n)) \<and> unat n = 4096"
  proof (cases "unat cnt - unat copied \<le> 4096")
    case True
    then have "unat (copied + n) = unat cnt" using n sum lt by simp
    then show ?thesis by (simp add: word_unat_eq_iff)
  next
    case False
    then have n4: "unat n = 4096" "unat (copied + n) < unat cnt" using n sum by simp_all
    then have "unat (offset + (copied + n)) = unat offset + unat (copied + n)"
      using assms(3) by (intro unat_plus_no_wrap) simp
    then have "unat (offset + (copied + n)) = unat (offset + copied) + 4096" using pos sum n4 by simp
    then have "aligned (offset + (copied + n))" using assms(2) by (simp add: aligned_def)
    with n4 show ?thesis by (simp add: word_less_nat_alt)
  qed
qed

section \<open>Reading a file\<close>

lemma Read_step_mem:
  assumes "n = unat w" and "unat copied + n \<le> unat cnt"
  shows "(case p of Some phys \<Rightarrow> MemoryCopy m (buffer + copied) (hhdm K + phys) w
            | None \<Rightarrow> MemoryZero m (buffer + copied) w) =
      write_bytes m (buffer + of_nat (unat copied))
        (case p of Some phys \<Rightarrow> read_bytes m (hhdm K + phys) n | None \<Rightarrow> replicate n 0)"
  using assms by (auto simp: MemoryCopy_def MemoryZero_def split: option.split)

lemma Read_loop_spec:
  assumes "pages_off K v (region buffer (unat cnt))" and "unat offset + unat cnt \<le> 2 ^ 64"
    and "copied \<le> cnt" and "copied = cnt \<or> aligned (offset + copied)"
  shows "\<exists>m'. ramfs_Read_loop K v buffer offset cnt copied m = (cnt, m') \<and>
    (\<forall>i. unat copied \<le> i \<and> i < unat cnt \<longrightarrow> m' (buffer + of_nat i) = byte_at K v m (unat offset + i)) \<and>
    (\<forall>x. x \<notin> region (buffer + of_nat (unat copied)) (unat cnt - unat copied) \<longrightarrow> m' x = m x)"
  using assms
proof (induction "unat (cnt - copied)" arbitrary: copied m rule: less_induct)
  case less
  show ?case
  proof (cases "copied < cnt")
    case False
    with less.prems(3) have "copied = cnt" by simp
    then show ?thesis by (auto simp: ramfs_Read_loop.simps)
  next
    case True
    define n where "n = to_copy (offset + copied) (cnt - copied)"
    have al: "aligned (offset + copied)" using less.prems(4) True by auto
    note st = aligned_step [OF True al less.prems(2) n_def]
    define src where "src = (case vmo_Lookup K v (offset + copied) of
        Some phys \<Rightarrow> read_bytes m (hhdm K + phys) (unat n) | None \<Rightarrow> replicate (unat n) 0)"
    define m1 where "m1 = write_bytes m (buffer + of_nat (unat copied)) src"
    have len: "length src = unat n" by (simp add: src_def split: option.split)
    have le: "unat copied + unat n \<le> unat cnt"
      using st(2) True by (simp add: word_less_nat_alt)
    have c64: "unat cnt \<le> 2 ^ 64" using unat_lt_2p [of cnt] by simp
    have run: "ramfs_Read_loop K v buffer offset cnt copied m = ramfs_Read_loop K v buffer offset cnt (copied + n) m1"
      using True Read_step_mem [OF refl le, where p = "vmo_Lookup K v (offset + copied)" and K = K and m = m and buffer = buffer]
      by (subst ramfs_Read_loop.simps) (simp add: Let_def n_def [symmetric] m1_def src_def cong: option.case_cong)
    have m1_off: "m1 x = m x" if "x \<notin> region (buffer + of_nat (unat copied)) (unat n)" for x
      using that len by (simp add: m1_def write_bytes_other)
    have m1_at: "m1 (buffer + of_nat i) = byte_at K v m (unat offset + i)" if "unat copied \<le> i" "i < unat copied + unat n" for i
    proof -
      define j where "j = i - unat copied"
      have j: "i = unat copied + j" "j < unat n" "j < 4096" using that st(2) by (auto simp: j_def)
      have pos: "unat offset + i = unat (offset + copied) + j" using st(1) j(1) by simp
      have "m1 (buffer + of_nat i) = src ! j"
        using write_bytes_at [of src j m "buffer + of_nat (unat copied)"] len j le c64
        by (simp add: m1_def add.assoc)
      also have "\<dots> = byte_at K v m (unat offset + i)"
        using in_page [OF al j(3)] j(2)
        unfolding pos byte_at_def src_def by (simp split: option.split)
      finally show ?thesis .
    qed
    have reg: "region (buffer + of_nat (unat copied)) (unat n) \<subseteq> region buffer (unat cnt)"
      using region_sub [OF le] .
    have bytes: "byte_at K v m1 k = byte_at K v m k" if "k < 2 ^ 64" for k
      using byte_at_off [OF less.prems(1) that] m1_off reg by blast
    have "copied + n \<le> cnt" "copied + n = cnt \<or> aligned (offset + (copied + n))" using st(4) by auto
    then obtain m' where IH: "ramfs_Read_loop K v buffer offset cnt (copied + n) m1 = (cnt, m')"
        "\<And>i. unat (copied + n) \<le> i \<Longrightarrow> i < unat cnt \<Longrightarrow> m' (buffer + of_nat i) = byte_at K v m1 (unat offset + i)"
        "\<And>x. x \<notin> region (buffer + of_nat (unat (copied + n))) (unat cnt - unat (copied + n)) \<Longrightarrow> m' x = m1 x"
      using less.hyps [of "copied + n" m1] to_copy_progress(1) [OF True] less.prems(1,2) n_def by auto
    have "m' (buffer + of_nat i) = byte_at K v m (unat offset + i)" if "unat copied \<le> i" "i < unat cnt" for i
    proof (cases "i < unat copied + unat n")
      case True
      then have "m' (buffer + of_nat i) = m1 (buffer + of_nat i)"
        using le c64 st(3) by (intro IH(3) not_in_later) simp_all
      then show ?thesis using m1_at [OF that(1) True] by simp
    next
      case False
      then show ?thesis
        using IH(2) [of i] that st(3) bytes [of "unat offset + i"] less.prems(2) by simp
    qed
    moreover have "m' x = m x" if "x \<notin> region (buffer + of_nat (unat copied)) (unat cnt - unat copied)" for x
    proof -
      have "region (buffer + of_nat (unat copied)) (unat cnt - unat copied) =
          region (buffer + of_nat (unat copied)) (unat n) \<union>
          region (buffer + of_nat (unat (copied + n))) (unat cnt - unat (copied + n))"
        using region_append [of "buffer + of_nat (unat copied)" "unat n" "unat cnt - unat (copied + n)"] le st(3)
        by (simp add: add.assoc)
      with that IH(3) m1_off show ?thesis by auto
    qed
    ultimately show ?thesis using run IH(1) by auto
  qed
qed

section \<open>Writing a file\<close>

lemma same_page:
  assumes "aligned w" and "n < 2 ^ 64" and "page_base n = w"
  shows "n = unat w + n mod 4096"
  using page_base_unat [OF assms(2)] assms(3) mod_less_eq_dividend [of n 4096] by simp

lemma frames_apart:
  assumes "page_laws K P owned avail" and "file_ok K owned v k"
    and "aligned w" "vmo_Lookup K v w = Some phys" "aligned w'" "vmo_Lookup K v w' = Some phys'" "w \<noteq> w'"
  shows "frame K phys \<inter> frame K phys' = {}"
proof -
  obtain p q where "phys = PfnToPhysical K p" "phys' = PfnToPhysical K q" "p \<in> owned k" "q \<in> owned k"
    using assms(2-6) unfolding file_ok_def by blast
  moreover have "phys \<noteq> phys'" using assms(2-7) unfolding file_ok_def by blast
  ultimately show ?thesis
    using page_lawsD(3) [OF assms(1), of k] by (simp only:) (rule page_lawsD(5) [OF assms(1)], auto)
qed

lemma write_page:
  assumes "page_laws K P owned avail" and "file_ok K owned v k" and w: "aligned w" "vmo_Lookup K v w = Some phys"
    and len: "length bs \<le> 4096" and n: "n < 2 ^ 64"
  shows "byte_at K v (write_bytes m (hhdm K + phys) bs) n =
    (if unat w \<le> n \<and> n < unat w + length bs then bs ! (n - unat w) else byte_at K v m n)"
proof (cases "page_base n = w")
  case True
  have eq: "n = unat w + n mod 4096" by (rule same_page [OF w(1) n True])
  have at: "write_bytes m (hhdm K + phys) bs (hhdm K + phys + of_nat (n mod 4096)) =
      (if n mod 4096 < length bs then bs ! (n mod 4096) else m (hhdm K + phys + of_nat (n mod 4096)))"
  proof (cases "n mod 4096 < length bs")
    case True
    with len show ?thesis by (simp add: write_bytes_at)
  next
    case False
    have "n mod 4096 < 4096" by simp
    with False len have "hhdm K + phys + of_nat (n mod 4096) \<notin> region (hhdm K + phys) (length bs)"
      by (subst in_region_offset) (simp_all add: mod_less)
    with False show ?thesis by (simp add: write_bytes_other)
  qed
  have "(unat w \<le> n \<and> n < unat w + length bs) = (n mod 4096 < length bs)" "n - unat w = n mod 4096"
    using eq by linarith+
  with at True w(2) show ?thesis by (simp add: byte_at_def)
next
  case False
  have "\<not> (unat w \<le> n \<and> n < unat w + length bs)"
  proof
    assume "unat w \<le> n \<and> n < unat w + length bs"
    then obtain j where "n = unat w + j" "j < 4096" using len by (metis le_add_diff_inverse nat_add_left_cancel_less less_le_trans)
    then have "page_base n = w" using in_page(1) [OF w(1)] by simp
    with False show False by simp
  qed
  moreover have "byte_at K v (write_bytes m (hhdm K + phys) bs) n = byte_at K v m n"
  proof (rule byte_at_cong)
    fix phys' x assume p: "vmo_Lookup K v (page_base n) = Some phys'" and x: "x \<in> frame K phys'"
    have "frame K phys \<inter> frame K phys' = {}"
      by (rule frames_apart [OF assms(1,2) w page_base_aligned [OF n] p]) (use False in simp)
    moreover have "region (hhdm K + phys) (length bs) \<subseteq> frame K phys"
      unfolding frame_def by (rule region_mono [OF len])
    ultimately show "write_bytes m (hhdm K + phys) bs x = m x"
      using x by (intro write_bytes_other) blast
  qed
  ultimately show ?thesis by auto
qed

text \<open>A fresh zeroed page changes no byte of the file.\<close>

lemma fresh_page:
  assumes laws: "page_laws K P owned avail" and ok: "file_ok K owned v k" and w: "aligned w" "vmo_Lookup K v w = None"
    and alloc: "AllocatePage K k = (Some pfn, k')"
    and v': "v' = vmo_InsertBlock K w kPageSize pfn v"
    and m': "m' = MemoryZero m (hhdm K + PfnToPhysical K pfn) kPageSize"
  shows "file_ok K owned v' k'" "vmo_Lookup K v' w = Some (PfnToPhysical K pfn)"
    "n < 2 ^ 64 \<Longrightarrow> byte_at K v' m' n = byte_at K v m n"
    "x \<notin> frame K (PfnToPhysical K pfn) \<Longrightarrow> m' x = m x"
proof -
  have look: "vmo_Lookup K v' u = (if u = w then Some (PfnToPhysical K pfn) else vmo_Lookup K v u)" if "aligned u" for u
    unfolding v' by (rule page_lawsD(1) [OF laws w(1) that])
  show "vmo_Lookup K v' w = Some (PfnToPhysical K pfn)" using look [OF w(1)] by simp
  have fresh: "pfn \<notin> owned k" "owned k' = insert pfn (owned k)"
    using page_lawsD(2) [OF laws alloc] by simp_all
  have P: "owned k \<subseteq> P" "pfn \<in> P" using page_lawsD(3) [OF laws, of k] page_lawsD(3) [OF laws, of k'] fresh(2) by auto
  have apart: "frame K (PfnToPhysical K p) \<inter> frame K (PfnToPhysical K pfn) = {}" if "p \<in> owned k" for p
  proof -
    have "p \<noteq> pfn" "p \<in> P" using that fresh(1) P by auto
    then show ?thesis by (intro page_lawsD(5) [OF laws] P)
  qed
  have ne: "PfnToPhysical K pfn \<noteq> PfnToPhysical K p" if "p \<in> owned k" for p
  proof
    assume "PfnToPhysical K pfn = PfnToPhysical K p"
    then have "frame K (PfnToPhysical K p) = {}" using apart [OF that] by simp
    then show False by (simp add: frame_def region_def lessThan_empty_iff)
  qed
  have new: "PfnToPhysical K pfn \<noteq> phys" if u: "aligned u" "vmo_Lookup K v u = Some phys" for u phys
  proof -
    obtain p where "p \<in> owned k" "phys = PfnToPhysical K p" using ok u unfolding file_ok_def by blast
    with ne show ?thesis by simp
  qed
  show "file_ok K owned v' k'"
    unfolding file_ok_def fresh(2)
  proof (intro conjI allI impI; elim conjE)
    fix u phys assume "aligned u" "vmo_Lookup K v' u = Some phys"
    then show "\<exists>p\<in>insert pfn (owned k). phys = PfnToPhysical K p"
      using ok look [of u] unfolding file_ok_def by (auto split: if_splits)
  next
    fix u u' phys assume h: "aligned u" "aligned u'" "vmo_Lookup K v' u = Some phys" "vmo_Lookup K v' u' = Some phys"
    show "u = u'"
    proof (cases "u = w \<or> u' = w")
      case True
      then show ?thesis using h look [OF h(1)] look [OF h(2)] new [OF h(1)] new [OF h(2)] by (auto split: if_splits)
    next
      case False
      then have "vmo_Lookup K v u = Some phys" "vmo_Lookup K v u' = Some phys"
        using h look [OF h(1)] look [OF h(2)] by simp_all
      with ok h(1,2) show ?thesis unfolding file_ok_def by blast
    qed
  qed
  have m_eq: "m' = write_bytes m (hhdm K + PfnToPhysical K pfn) (replicate 4096 0)"
    by (simp add: m' MemoryZero_def kPageSize_def)
  show other: "x \<notin> frame K (PfnToPhysical K pfn) \<Longrightarrow> m' x = m x" for x
    by (simp add: m_eq write_bytes_other frame_def)
  assume n: "n < 2 ^ 64"
  show "byte_at K v' m' n = byte_at K v m n"
  proof (cases "page_base n = w")
    case True
    have "m' (hhdm K + PfnToPhysical K pfn + of_nat (n mod 4096)) = 0"
      using write_bytes_at [of "replicate 4096 (0::u8)" "n mod 4096"] by (simp add: m_eq)
    with True w(2) look [OF w(1)] show ?thesis by (simp add: byte_at_def)
  next
    case False
    then have "vmo_Lookup K v' (page_base n) = vmo_Lookup K v (page_base n)"
      using look [OF page_base_aligned [OF n]] by simp
    then have "byte_at K v' m' n = byte_at K v m' n" by (simp add: byte_at_def)
    also have "\<dots> = byte_at K v m n"
    proof (rule byte_at_cong)
      fix phys x assume p: "vmo_Lookup K v (page_base n) = Some phys" "x \<in> frame K phys"
      then obtain q where q: "q \<in> owned k" "phys = PfnToPhysical K q"
        using ok page_base_aligned [OF n] unfolding file_ok_def by blast
      then have "x \<notin> frame K (PfnToPhysical K pfn)" using p(2) apart [of q] by blast
      then show "m' x = m x" by (rule other)
    qed
    finally show ?thesis .
  qed
qed

text \<open>The page an iteration works on, found or allocated.\<close>

lemma aligned_simps:
  assumes "aligned w"
  shows "w AND (kPageSize - 1) = 0" "w AND NOT (kPageSize - 1) = w"
proof -
  have "unat (w AND (kPageSize - 1)) = 0" using assms by (simp add: unat_page_offset aligned_def)
  then show z: "w AND (kPageSize - 1) = 0" by (simp add: unsigned_eq_0_iff)
  have "w = (w AND (kPageSize - 1)) OR (w AND NOT (kPageSize - 1))"
    by (simp flip: bit.conj_disj_distrib)
  then show "w AND NOT (kPageSize - 1) = w" using z by simp
qed

definition get_page :: "('v, 'r, 'k) fk \<Rightarrow> u64 \<Rightarrow> 'v \<times> mem \<times> 'k \<Rightarrow> u64 expected \<times> 'v \<times> mem \<times> 'k" where
  "get_page K w vmk = (case vmk of (v, m, k) \<Rightarrow>
     (case vmo_Lookup K v w of
        Some phys \<Rightarrow> (Value phys, v, m, k)
      | None \<Rightarrow>
          (case AllocatePage K k of
             (None, k) \<Rightarrow> (Unexpected (- ENOMEM), v, m, k)
           | (Some pfn, k) \<Rightarrow>
               (case op_new K k of
                  (None, k) \<Rightarrow> (Bug, v, m, k)
                | (Some page, k) \<Rightarrow>
                    (Value (PfnToPhysical K pfn), vmo_InsertBlock K (w AND NOT (kPageSize - 1)) kPageSize pfn v,
                     MemoryZero m (hhdm K + PfnToPhysical K pfn) kPageSize, k)))))"

lemma get_page_spec:
  assumes "page_laws K P owned avail" and "file_ok K owned v k" and "aligned w" and "buffer_ok K P buffer N"
    and "0 < avail k"
  shows "\<exists>phys v' m' k'. get_page K w (v, m, k) = (Value phys, v', m', k') \<and> file_ok K owned v' k' \<and> avail k - 1 \<le> avail k' \<and>
    vmo_Lookup K v' w = Some phys \<and> (\<forall>n < 2 ^ 64. byte_at K v' m' n = byte_at K v m n) \<and>
    (\<forall>x \<in> region buffer N. m' x = m x)"
proof (cases "vmo_Lookup K v w")
  case (Some phys)
  then show ?thesis using assms(2) by (simp add: get_page_def)
next
  case None
  obtain pfn k1 b k2 where a: "AllocatePage K k = (Some pfn, k1)" "op_new K k1 = (Some b, k2)" "avail k2 = avail k - 1"
    using page_lawsD(4) [OF assms(1,5)] by blast
  have P: "pfn \<in> P"
    using page_lawsD(2) [OF assms(1) a(1)] page_lawsD(3) [OF assms(1), of k1] by auto
  note f = fresh_page [OF assms(1-3) None a(1) refl refl]
  have "file_ok K owned v' k1 \<Longrightarrow> file_ok K owned v' k2" for v'
    using page_lawsD(6) [OF assms(1) a(2)] by (auto intro: file_ok_mono)
  note f = f this
  have "x \<notin> frame K (PfnToPhysical K pfn)" if "x \<in> region buffer N" for x
    using that assms(4) P unfolding buffer_ok_def by blast
  with f None a aligned_simps [OF assms(3)] show ?thesis by (simp add: get_page_def)
qed

lemma Write_loop_unfold:
  "copied < sz \<Longrightarrow> n = to_copy (offset + copied) (sz - copied) \<Longrightarrow>
   get_page K (offset + copied) (v, m, k) = (Value phys, v', m', k') \<Longrightarrow>
   ramfs_Write_loop K buffer offset sz copied (v, m, k) =
     ramfs_Write_loop K buffer offset sz (copied + n)
       (v', MemoryCopy m' (hhdm K + phys + ((offset + copied) AND (kPageSize - 1))) (buffer + copied) n, k')"
  by (subst ramfs_Write_loop.simps) (auto simp: get_page_def Let_def split: option.splits prod.splits expected.splits)

lemma Write_loop_spec:
  assumes laws: "page_laws K P owned avail" and buf: "buffer_ok K P buffer (unat sz)"
    and nowrap: "unat offset + unat sz \<le> 2 ^ 64" and "(unat sz - unat copied + 4095) div 4096 \<le> avail k"
    and "file_ok K owned v k" and "copied \<le> sz" and "copied = sz \<or> aligned (offset + copied)"
  shows "\<exists>v' m' k'. ramfs_Write_loop K buffer offset sz copied (v, m, k) = (Value sz, v', m', k') \<and>
    file_ok K owned v' k' \<and>
    (\<forall>n < 2 ^ 64. byte_at K v' m' n =
       (if unat offset + unat copied \<le> n \<and> n < unat offset + unat sz then m (buffer + of_nat (n - unat offset))
        else byte_at K v m n)) \<and>
    (\<forall>x \<in> region buffer (unat sz). m' x = m x)"
  using assms(4-)
proof (induction "unat (sz - copied)" arbitrary: copied v m k rule: less_induct)
  case less
  show ?case
  proof (cases "copied < sz")
    case False
    with less.prems(3) have "copied = sz" by simp
    then show ?thesis using less.prems(2) by (auto simp: ramfs_Write_loop.simps)
  next
    case True
    define n where "n = to_copy (offset + copied) (sz - copied)"
    have al: "aligned (offset + copied)" using less.prems(4) True by auto
    note st = aligned_step [OF True al nowrap n_def]
    have le: "unat copied + unat n \<le> unat sz" using st(2) True by (simp add: word_less_nat_alt)
    have left: "0 < unat sz - unat copied" using True by (simp add: word_less_nat_alt)
    then have "0 < avail k" using less.prems(1) by (auto simp: div_eq_0_iff intro: less_le_trans)
    then obtain phys v1 m1 k1 where g: "get_page K (offset + copied) (v, m, k) = (Value phys, v1, m1, k1)"
      "file_ok K owned v1 k1" "vmo_Lookup K v1 (offset + copied) = Some phys"
      "\<And>n. n < 2 ^ 64 \<Longrightarrow> byte_at K v1 m1 n = byte_at K v m n" "\<And>x. x \<in> region buffer (unat sz) \<Longrightarrow> m1 x = m x"
      "avail k - 1 \<le> avail k1"
      using get_page_spec [OF laws less.prems(2) al buf, of m] by blast
    define bs where "bs = read_bytes m1 (buffer + of_nat (unat copied)) (unat n)"
    define m2 where "m2 = write_bytes m1 (hhdm K + phys) bs"
    have run: "ramfs_Write_loop K buffer offset sz copied (v, m, k) =
        ramfs_Write_loop K buffer offset sz (copied + n) (v1, m2, k1)"
      using Write_loop_unfold [OF True n_def g(1), of buffer] aligned_simps(1) [OF al]
      by (simp add: m2_def bs_def MemoryCopy_def)
    have in_buf: "buffer + of_nat i \<in> region buffer (unat sz)" if "i < unat sz" for i
      using that by (auto simp: region_def)
    have bs: "bs ! j = m (buffer + of_nat (unat copied + j))" if "j < unat n" for j
    proof -
      have "unat copied + j < unat sz" using that le by linarith
      then have "m1 (buffer + of_nat (unat copied + j)) = m (buffer + of_nat (unat copied + j))"
        by (rule g(5) [OF in_buf])
      then show ?thesis using that by (simp add: bs_def add.assoc)
    qed
    have bl: "length bs = unat n" "length bs \<le> 4096" using st(2) by (simp_all add: bs_def)
    have page: "byte_at K v1 m2 i = (if unat offset + unat copied \<le> i \<and> i < unat offset + unat copied + unat n
        then m (buffer + of_nat (i - unat offset)) else byte_at K v m i)" if "i < 2 ^ 64" for i
      using write_page [OF laws g(2) al g(3) bl(2) that, of m1] g(4) [OF that] bs [of "i - unat (offset + copied)"] bl(1) st(1)
      by (auto simp: m2_def add.assoc)
    obtain pfn where "phys = PfnToPhysical K pfn" "pfn \<in> owned k1" using g(2,3) al unfolding file_ok_def by blast
    moreover have "owned k1 \<subseteq> P" by (rule page_lawsD(3) [OF laws])
    ultimately have "frame K phys \<inter> region buffer (unat sz) = {}" using buf unfolding buffer_ok_def by blast
    moreover have "region (hhdm K + phys) (length bs) \<subseteq> frame K phys"
      unfolding frame_def by (rule region_mono [OF bl(2)])
    ultimately have m2: "m2 x = m x" if "x \<in> region buffer (unat sz)" for x
      using that g(5) [OF that] by (subst m2_def, subst write_bytes_other) auto
    have "(unat sz - unat (copied + n) + 4095) div 4096 = (unat sz - unat copied + 4095) div 4096 - 1"
      using st(2,3) left by (cases "unat sz - unat copied \<le> 4096") (auto simp: div_eq_0_iff div_if)
    then have "(unat sz - unat (copied + n) + 4095) div 4096 \<le> avail k1"
      using less.prems(1) g(6) by linarith
    moreover have "copied + n \<le> sz" "copied + n = sz \<or> aligned (offset + (copied + n))" using st(4) by auto
    ultimately obtain v' m' k' where IH: "ramfs_Write_loop K buffer offset sz (copied + n) (v1, m2, k1) = (Value sz, v', m', k')"
        "file_ok K owned v' k'"
        "\<And>i. i < 2 ^ 64 \<Longrightarrow> byte_at K v' m' i =
          (if unat offset + unat (copied + n) \<le> i \<and> i < unat offset + unat sz then m2 (buffer + of_nat (i - unat offset))
           else byte_at K v1 m2 i)"
        "\<And>x. x \<in> region buffer (unat sz) \<Longrightarrow> m' x = m2 x"
      using less.hyps [of "copied + n" k1 v1 m2] to_copy_progress(1) [OF True] g(2) n_def by (auto simp: Let_def)
    have "byte_at K v' m' i =
       (if unat offset + unat copied \<le> i \<and> i < unat offset + unat sz then m (buffer + of_nat (i - unat offset))
        else byte_at K v m i)" if i: "i < 2 ^ 64" for i
      using IH(3) [OF i] page [OF i] m2 [OF in_buf, of "i - unat offset"] st(3) le by (auto simp: add.assoc)
    with run IH(1,2,4) m2 show ?thesis by auto
  qed
qed

section \<open>Properties of file contents\<close>

text \<open>
  The abstract file: its size and its bytes.
\<close>

definition file_bytes :: "('v, 'r, 'k) fk \<Rightarrow> addr \<Rightarrow> ('v, 'r, 'k) fsys \<Rightarrow> nat \<Rightarrow> u8" where
  "file_bytes K a s n =
     (case vnodes s a of
        Some vn \<Rightarrow> (case vmo vn of Some v \<Rightarrow> byte_at K v (memory s) n | None \<Rightarrow> 0)
      | None \<Rightarrow> 0)"

definition file_size :: "addr \<Rightarrow> ('v, 'r, 'k) fsys \<Rightarrow> nat" where
  "file_size a s = (case vnodes s a of Some vn \<Rightarrow> unat (v_size vn) | None \<Rightarrow> 0)"

definition file_wf :: "('v, 'r, 'k) fk \<Rightarrow> ('k \<Rightarrow> u64 set) \<Rightarrow> addr \<Rightarrow> ('v, 'r, 'k) fsys \<Rightarrow> bool" where
  "file_wf K owned a s \<longleftrightarrow>
     (\<exists>vn v. vnodes s a = Some vn \<and> vtype vn = Regular \<and> vmo vn = Some v \<and> file_ok K owned v (kmm s))"

lemma RamFs_Write_spec:
  assumes "page_laws K P owned avail" and "file_wf K owned a s" and "buffer_ok K P buffer (unat sz)"
    and "aligned offset" and "unat offset + unat sz < 2 ^ 64" and "(unat sz + 4095) div 4096 \<le> avail (kmm s)"
  shows "\<exists>s'. RamFs_Write K a buffer sz offset s = (Value sz, s') \<and> file_wf K owned a s' \<and>
    file_size a s' = max (file_size a s) (unat offset + unat sz) \<and>
    (\<forall>n < 2 ^ 64. file_bytes K a s' n =
       (if unat offset \<le> n \<and> n < unat offset + unat sz then memory s (buffer + of_nat (n - unat offset))
        else file_bytes K a s n)) \<and>
    (\<forall>x \<in> region buffer (unat sz). memory s' x = memory s x)"
proof -
  obtain vn v where vn: "vnodes s a = Some vn" "vtype vn = Regular" "vmo vn = Some v" "file_ok K owned v (kmm s)"
    using assms(2) by (auto simp: file_wf_def)
  obtain v' m' k' where w: "ramfs_Write_loop K buffer offset sz 0 (v, memory s, kmm s) = (Value sz, v', m', k')"
    "file_ok K owned v' k'"
    "\<And>n. n < 2 ^ 64 \<Longrightarrow> byte_at K v' m' n =
       (if unat offset \<le> n \<and> n < unat offset + unat sz then memory s (buffer + of_nat (n - unat offset))
        else byte_at K v (memory s) n)"
    "\<And>x. x \<in> region buffer (unat sz) \<Longrightarrow> m' x = memory s x"
    using Write_loop_spec [OF assms(1,3) _ _ vn(4), of offset 0 "memory s"] assms(4-6) by auto
  have sum: "unat (offset + sz) = unat offset + unat sz"
    using assms(5) by (intro unat_plus_no_wrap) simp
  define s1 where "s1 = upd_vnode a (\<lambda>vn. vn\<lparr>vmo := Some v'\<rparr>) (s\<lparr>memory := m', kmm := k'\<rparr>)"
  define s2 where "s2 = (if offset + sz > v_size vn then upd_vnode a (\<lambda>vn. vn\<lparr>v_size := offset + sz\<rparr>) s1 else s1)"
  have run: "RamFs_Write K a buffer sz offset s = (Value sz, s2)"
    using vn w(1) by (simp add: RamFs_Write_def Let_def s2_def s1_def)
  have st: "memory s2 = m'" "kmm s2 = k'"
    "vnodes s2 a = Some (vn\<lparr>vmo := Some v', v_size := max (v_size vn) (offset + sz)\<rparr>)"
    using vn by (auto simp: s2_def s1_def upd_vnode_def max_def not_less)
  have "unat (max (v_size vn) (offset + sz)) = max (unat (v_size vn)) (unat offset + unat sz)"
    unfolding sum [symmetric] by (simp add: max_def word_le_nat_alt)
  with run st vn w(2-4) show ?thesis
    by (auto simp: file_wf_def file_size_def file_bytes_def)
qed

lemma RamFs_Read_spec:
  assumes "file_wf K owned a s" and "buffer_ok K P buffer (unat sz)" and "aligned offset" and "owned (kmm s) \<subseteq> P"
    and "unat offset + unat sz < 2 ^ 64"
  shows "\<exists>s' n. RamFs_Read K a buffer sz offset s = (Value n, s') \<and>
    unat n = min (unat sz) (file_size a s - unat offset) \<and>
    read_bytes (memory s') buffer (unat n) = map (file_bytes K a s) [unat offset..<unat offset + unat n] \<and>
    (\<forall>x. x \<notin> region buffer (unat n) \<longrightarrow> memory s' x = memory s x) \<and> vnodes s' = vnodes s \<and> kmm s' = kmm s"
proof -
  obtain vn v where vn: "vnodes s a = Some vn" "vtype vn = Regular" "vmo vn = Some v" "file_ok K owned v (kmm s)"
    using assms(1) by (auto simp: file_wf_def)
  show ?thesis
  proof (cases "offset \<ge> v_size vn")
    case True
    then show ?thesis using vn by (simp add: RamFs_Read_def file_size_def word_le_nat_alt)
  next
    case False
    define cnt where "cnt = (if offset + sz > v_size vn then v_size vn - offset else sz)"
    have sum: "unat (offset + sz) = unat offset + unat sz"
      using assms(5) by (intro unat_plus_no_wrap) simp
    have "unat (v_size vn - offset) = unat (v_size vn) - unat offset"
      using False by (intro unat_sub) simp
    then have cnt: "unat cnt = min (unat sz) (file_size a s - unat offset)"
      using vn(1) False sum by (auto simp: cnt_def file_size_def word_less_nat_alt)
    then have le: "unat cnt \<le> unat sz" by simp
    have "pages_off K v (region buffer (unat sz))" by (rule pages_offI [OF vn(4) assms(4,2)])
    then have off: "pages_off K v (region buffer (unat cnt))"
      using region_mono [OF le, of buffer] unfolding pages_off_def by blast
    obtain m' where r: "ramfs_Read_loop K v buffer offset cnt 0 (memory s) = (cnt, m')"
      "\<And>i. i < unat cnt \<Longrightarrow> m' (buffer + of_nat i) = byte_at K v (memory s) (unat offset + i)"
      "\<And>x. x \<notin> region buffer (unat cnt) \<Longrightarrow> m' x = memory s x"
      using Read_loop_spec [OF off, of offset 0 "memory s"] assms(3,5) le by auto
    have "RamFs_Read K a buffer sz offset s = (Value cnt, s\<lparr>memory := m'\<rparr>)"
      using vn False r(1) by (simp add: RamFs_Read_def Let_def cnt_def [symmetric])
    moreover have "read_bytes m' buffer (unat cnt) = map (file_bytes K a s) [unat offset..<unat offset + unat cnt]"
      using r(2) vn by (auto intro!: nth_equalityI simp: file_bytes_def)
    ultimately show ?thesis using cnt r(3) by auto
  qed
qed

section \<open>Directories\<close>

definition dir_wf :: "addr \<Rightarrow> ('v, 'r, 'k) fsys \<Rightarrow> bool" where
  "dir_wf dir s \<longleftrightarrow> (\<exists>d. vnodes s dir = Some d \<and> vtype d = Directory \<and>
     (\<forall>c \<in> set (children d). vnodes s c \<noteq> None) \<and>
     (\<forall>nm. length (filter (child_named s nm) (children d)) \<le> 1))"

lemma find_append: "List.find P (xs @ ys) = (case List.find P xs of None \<Rightarrow> List.find P ys | Some x \<Rightarrow> Some x)"
  by (induction xs) auto

lemma find_cong_on: "(\<And>x. x \<in> set xs \<Longrightarrow> P x = Q x) \<Longrightarrow> List.find P xs = List.find Q xs"
  by (induction xs) auto

lemma find_None_filter: "List.find P xs = None \<longleftrightarrow> filter P xs = []"
  by (induction xs) auto

lemma find_some_None: "List.find P xs = Some x \<Longrightarrow> P x \<and> x \<in> set xs"
  by (induction xs) (auto split: if_splits)

lemma add_node_effect:
  assumes wf: "dir_wf dir s" and run: "add_node K dir t v s = (r, s')"
    and fresh: "\<And>a k. op_new K (kmm s) = (Some a, k) \<Longrightarrow> vnodes s a = None"
    and nm: "chars (memory s) v = nm" and new: "RamFs_Lookup dir nm s = Unexpected (- ENOENT)"
  shows "case r of
      Value a \<Rightarrow> RamFs_Lookup dir nm s' = Value a \<and> (\<forall>nm'. nm' \<noteq> nm \<longrightarrow> RamFs_Lookup dir nm' s' = RamFs_Lookup dir nm' s) \<and>
        vnodes s' a = Some (RamFsNode_new K t v) \<and> dir_wf dir s'
    | Unexpected e \<Rightarrow> e = - ENOMEM \<and> vnodes s' = vnodes s | Bug \<Rightarrow> False"
proof -
  obtain d where d: "vnodes s dir = Some d" "vtype d = Directory" "\<And>c. c \<in> set (children d) \<Longrightarrow> vnodes s c \<noteq> None"
      "\<And>nm. length (filter (child_named s nm) (children d)) \<le> 1"
    using wf by (auto simp: dir_wf_def)
  have none: "List.find (child_named s nm) (children d) = None"
    using new d(1,2) by (auto simp: RamFs_Lookup_def split: option.splits)
  consider a k where "r = Value a" "op_new K (kmm s) = (Some a, k)"
      "\<exists>k'. s' = upd_vnode dir (\<lambda>d. d\<lparr>children := children d @ [a]\<rparr>)
                  (s\<lparr>kmm := k', vnodes := (vnodes s)(a \<mapsto> RamFsNode_new K t v)\<rparr>)"
    | "r = Unexpected (- ENOMEM)" "vnodes s' = vnodes s"
    using run by (auto simp: add_node_def split: option.splits prod.splits bool.splits)
  then show ?thesis
  proof cases
    case 1
    then have fr: "vnodes s a = None" using fresh by blast
    then have ad: "a \<noteq> dir" using d(1) by auto
    have vs: "vnodes s' = (vnodes s)(a \<mapsto> RamFsNode_new K t v, dir \<mapsto> d\<lparr>children := children d @ [a]\<rparr>)"
      and m: "memory s' = memory s"
      using 1(3) d(1) ad by (auto simp: upd_vnode_def)
    have old: "child_named s' n c = child_named s n c" if "c \<in> set (children d)" for n c
    proof -
      have "c \<noteq> a" using d(3) [OF that] fr by auto
      then show ?thesis using d(1) by (auto simp: child_named_def vs m split: option.splits)
    qed
    have new: "child_named s' n a = (n = nm)" for n
      using ad nm by (auto simp: child_named_def vs m RamFsNode_new_def)
    have find: "List.find (child_named s' n) (children d) = List.find (child_named s n) (children d)" for n
      by (rule find_cong_on) (rule old)
    have "filter (child_named s' n) (children d) = filter (child_named s n) (children d)" for n
      by (rule filter_cong [OF refl]) (rule old)
    moreover have "filter (child_named s nm) (children d) = []"
      using none by (simp add: find_None_filter)
    ultimately have "length (filter (child_named s' n) (children d @ [a])) \<le> 1" for n
      using d(4) [of n] new by (cases "n = nm") auto
    then have "dir_wf dir s'"
      using d(2,3) ad unfolding dir_wf_def by (auto simp: vs)
    moreover have "RamFs_Lookup dir nm s' = Value a"
      using none new find d(2) by (simp add: RamFs_Lookup_def vs find_append)
    moreover have "RamFs_Lookup dir n s' = RamFs_Lookup dir n s" if "n \<noteq> nm" for n
      using that new find d(1,2) by (auto simp: RamFs_Lookup_def vs find_append split: option.splits)
    ultimately show ?thesis using 1(1) ad by (simp add: vs)
  next
    case 2
    then show ?thesis by simp
  qed
qed

section \<open>Destroy\<close>

definition vmo_drain_laws :: "('v, 'r, 'k) fk \<Rightarrow> bool" where
  "vmo_drain_laws K \<longleftrightarrow> (\<forall>p v. vmo_Pages K (vmo_RemoveBlock K p v) = remove1 p (vmo_Pages K v))"

lemma free_batch_eq:
  assumes "vmo_drain_laws K" and "vmo_Pages K v = batch @ rest"
  shows "\<exists>v'. free_batch K batch (v, k) = (v', fold (FreeFolio K) (map snd batch) k) \<and> vmo_Pages K v' = rest"
  using assms(2)
proof (induction batch arbitrary: v k)
  case Nil
  then show ?case by (simp add: free_batch_def)
next
  case (Cons p batch)
  then have "vmo_Pages K (vmo_RemoveBlock K p v) = batch @ rest"
    using assms(1) by (cases p) (simp add: vmo_drain_laws_def)
  from Cons.IH [OF this] show ?case by (simp add: free_batch_def)
qed

lemma drain_loop_eq:
  assumes "vmo_drain_laws K"
  shows "\<exists>v'. drain_loop K (v, k) = Some (v', fold (FreeFolio K) (map snd (vmo_Pages K v)) k) \<and> vmo_Pages K v' = []"
proof (induction "length (vmo_Pages K v)" arbitrary: v k rule: less_induct)
  case less
  let ?ps = "vmo_Pages K v"
  show ?case
  proof (cases "?ps = []")
    case True
    then show ?thesis by (simp add: drain_loop.simps)
  next
    case False
    obtain v1 where v1: "free_batch K (take 32 ?ps) (v, k) = (v1, fold (FreeFolio K) (map snd (take 32 ?ps)) k)"
      "vmo_Pages K v1 = drop 32 ?ps"
      using free_batch_eq [OF assms, of v "take 32 ?ps" "drop 32 ?ps" k] by auto
    then have "length (vmo_Pages K v1) < length ?ps" using False by simp
    from less [OF this] obtain v' where v': "vmo_Pages K v' = []"
      "drain_loop K (v1, fold (FreeFolio K) (map snd (take 32 ?ps)) k) =
        Some (v', fold (FreeFolio K) (map snd (drop 32 ?ps)) (fold (FreeFolio K) (map snd (take 32 ?ps)) k))"
      using v1(2) by metis
    have "fold (FreeFolio K) (map snd (drop 32 ?ps)) (fold (FreeFolio K) (map snd (take 32 ?ps)) k)
        = fold (FreeFolio K) (map snd (take 32 ?ps) @ map snd (drop 32 ?ps)) k"
      by simp
    also have "map snd (take 32 ?ps) @ map snd (drop 32 ?ps) = map snd ?ps"
      by (metis append_take_drop_id map_append)
    finally show ?thesis
      using False v1(1) v' by (subst drain_loop.simps) (simp add: Let_def)
  qed
qed

section \<open>A concrete page store\<close>

text \<open>Eight page frames above 256 MiB, files as lists of blocks, found by page.\<close>

definition ex_fk :: "((u64 \<times> u64) list, u8 list, nat) fk" where
  "ex_fk = \<lparr>op_new = (\<lambda>k. (Some (0x100000 + 256 * of_nat k), Suc k)), PushBack_ok = (\<lambda>k. (True, k)),
     AllocatePage = (\<lambda>k. if k < 8 then (Some (of_nat k), Suc k) else (None, k)), FreeFolio = (\<lambda>_ k. k),
     PfnToPhysical = (\<lambda>p. p * 4096), hhdm = 0x10000000, VmObject_new = [],
     vmo_Lookup = (\<lambda>v w. map_option (\<lambda>p. p * 4096) (map_of v (w AND NOT (kPageSize - 1)))),
     vmo_InsertBlock = (\<lambda>off sz pfn v. (off, pfn) # v), vmo_Pages = (\<lambda>v. v), vmo_RemoveBlock = remove1,
     ring_ops = list_ring, ring_new = (\<lambda>_. [])\<rparr>"

definition ex_frames :: "u64 set" where
  "ex_frames = {p. p < 8}"

definition ex_owned :: "nat \<Rightarrow> u64 set" where
  "ex_owned k = {p. unat p < min k 8}"

lemma ex_frame_region:
  assumes "p < (8 :: u64)"
  shows "frame ex_fk (PfnToPhysical ex_fk p) = region (0x10000000 + p * 4096) 4096"
    and "unat (0x10000000 + p * 4096) = 0x10000000 + unat p * 4096"
proof -
  show "frame ex_fk (PfnToPhysical ex_fk p) = region (0x10000000 + p * 4096) 4096"
    by (simp add: frame_def ex_fk_def)
  have "unat p < 8" using assms by (simp add: word_less_nat_alt)
  then show "unat (0x10000000 + p * 4096) = 0x10000000 + unat p * 4096"
    by (simp add: unat_word_ariths)
qed

lemma ex_page_laws: "page_laws ex_fk ex_frames ex_owned (\<lambda>k. (8 - k) div 2)"
  unfolding page_laws_def
proof (intro conjI)
  show "\<forall>v off pfn w. aligned off \<and> aligned w \<longrightarrow>
      vmo_Lookup ex_fk (vmo_InsertBlock ex_fk off kPageSize pfn v) w =
        (if w = off then Some (PfnToPhysical ex_fk pfn) else vmo_Lookup ex_fk v w)"
    by (auto simp: ex_fk_def aligned_simps(2))
  have "unat p = k \<longleftrightarrow> p = of_nat k" if "k < 8" for p :: u64 and k
    using that by (auto simp: word_unat_eq_iff unat_of_nat)
  then show "\<forall>k pfn k'. AllocatePage ex_fk k = (Some pfn, k') \<longrightarrow> pfn \<notin> ex_owned k \<and> ex_owned k' = insert pfn (ex_owned k)"
    by (auto simp: ex_fk_def ex_owned_def unat_of_nat less_Suc_eq split: if_splits)
  show "\<forall>k. ex_owned k \<subseteq> ex_frames"
    by (auto simp: ex_owned_def ex_frames_def word_less_nat_alt)
  show "\<forall>k q k'. op_new ex_fk k = (q, k') \<longrightarrow> ex_owned k \<subseteq> ex_owned k'"
    by (auto simp: ex_fk_def ex_owned_def)
  show "\<forall>k. 0 < (8 - k) div 2 \<longrightarrow> (\<exists>pfn k1 a k2. AllocatePage ex_fk k = (Some pfn, k1) \<and> op_new ex_fk k1 = (Some a, k2) \<and>
      (8 - k2) div 2 = (8 - k) div 2 - 1)"
    by (auto simp: ex_fk_def div_if)
  show "\<forall>p\<in>ex_frames. \<forall>q\<in>ex_frames. p \<noteq> q \<longrightarrow>
      frame ex_fk (PfnToPhysical ex_fk p) \<inter> frame ex_fk (PfnToPhysical ex_fk q) = {}"
  proof (intro ballI impI)
    fix p q assume "p \<in> ex_frames" "q \<in> ex_frames" and ne: "p \<noteq> q"
    then have lt: "p < 8" "q < 8" "unat p < 8" "unat q < 8" by (auto simp: ex_frames_def word_less_nat_alt)
    have "unat p < unat q \<or> unat q < unat p" using ne by (auto simp: word_unat_eq_iff)
    then show "frame ex_fk (PfnToPhysical ex_fk p) \<inter> frame ex_fk (PfnToPhysical ex_fk q) = {}"
      unfolding ex_frame_region(1) [OF lt(1)] ex_frame_region(1) [OF lt(2)]
      using region_disjoint [of "0x10000000 + p * 4096" 4096 "0x10000000 + q * 4096" 4096]
        region_disjoint [of "0x10000000 + q * 4096" 4096 "0x10000000 + p * 4096" 4096]
        ex_frame_region(2) [OF lt(1)] ex_frame_region(2) [OF lt(2)] lt by auto
  qed
qed

lemma ex_buffer_ok: "unat buffer + n \<le> 0x10000000 \<Longrightarrow> buffer_ok ex_fk ex_frames buffer n"
  unfolding buffer_ok_def
proof
  fix p assume h: "unat buffer + n \<le> 0x10000000" and "p \<in> ex_frames"
  then have lt: "p < 8" "unat p < 8" by (auto simp: ex_frames_def word_less_nat_alt)
  show "frame ex_fk (PfnToPhysical ex_fk p) \<inter> region buffer n = {}"
    unfolding ex_frame_region(1) [OF lt(1)]
    using h lt(2) ex_frame_region(2) [OF lt(1)] by (intro region_disjoint(2)) simp_all
qed

definition ex_fsys :: "((u64 \<times> u64) list, u8 list, nat) fsys" where
  "ex_fsys = \<lparr>memory = (\<lambda>_. 7), vnodes = [1 \<mapsto> RamFsNode_new ex_fk Regular (Literal ''f''), 2 \<mapsto> RamFsNode_new ex_fk Directory (Literal ''/'')],
     kmm = 0, screen_console = console_boot, debug_port = []\<rparr>"

lemma ex_file_wf: "file_wf ex_fk ex_owned 1 ex_fsys"
  by (simp add: file_wf_def ex_fsys_def RamFsNode_new_def Vnode_new_def file_ok_def ex_fk_def)

section \<open>Directory records stay in the buffer\<close>

lemma unat_rec_size:
  assumes "n < 2 ^ 32"
  shows "n + 25 \<le> unat (rec_size (of_nat n))" and "unat (rec_size (of_nat n)) \<le> n + 32"
proof -
  have n: "unat (of_nat n :: u64) = n" using assms by (intro of_nat_inverse [OF refl]) simp
  have w: "rec_size (of_nat n) = push_bit 3 (drop_bit 3 (of_nat n + 32))"
  proof -
    have "(7 :: u64) = mask 3" by (simp add: mask_eq_exp_minus_1)
    moreover have "w AND NOT (mask 3) = push_bit 3 (drop_bit 3 w)" for w :: u64
      by (rule bit_word_eqI) (auto simp: bit_simps simp del: mask_numeral dest: le_Suc_ex)
    ultimately show ?thesis by (simp only: rec_size_def kDirentHeader_def) (simp add: ac_simps)
  qed
  have "unat (of_nat n + 32 :: u64) = n + 32"
    using n assms unat_plus_no_wrap [of "of_nat n :: u64" 32] by simp
  then have "unat (rec_size (of_nat n)) = (n + 32) div 8 * 8"
    using assms by (simp add: w unat_push_bit unat_drop_bit)
  then show "n + 25 \<le> unat (rec_size (of_nat n))" "unat (rec_size (of_nat n)) \<le> n + 32" by presburger+
qed

lemma fold_upd_other:
  "(\<And>j. j < n \<Longrightarrow> x \<noteq> f j) \<Longrightarrow> fold (\<lambda>j m. m(f j := g m j)) [0..<n] m x = m x"
  by (induction n) simp_all

lemma put_dirent_other:
  assumes "x \<notin> region hdr (25 + sv_size nm)"
  shows "put_dirent hdr ino nx t nm m x = m x"
proof -
  have nin: "x \<noteq> hdr + kDirentHeader + of_nat j" if "j \<le> sv_size nm" for j
  proof
    assume x: "x = hdr + kDirentHeader + of_nat j"
    have "hdr + of_nat (24 + j) \<in> region hdr (25 + sv_size nm)"
      unfolding region_def using that by (intro imageI) simp
    then show False using assms x by (simp add: kDirentHeader_def add.assoc)
  qed
  have hd: "x \<notin> region hdr 19" using assms region_mono [of 19 "25 + sv_size nm" hdr] by auto
  show ?thesis
    using nin nin [of "sv_size nm"] hd
    by (simp add: put_dirent_def Let_def fold_upd_other write_bytes_other)
qed

lemma Iterate_loop_bounds:
  assumes "\<And>c vn. c \<in> set cs \<Longrightarrow> vnodes s c \<noteq> None"
    and "\<And>c vn. c \<in> set cs \<Longrightarrow> vnodes s c = Some vn \<Longrightarrow> sv_size (v_name vn) < 2 ^ 32"
    and "unat written \<le> unat buf_len" and "unat buf_len < 2 ^ 63"
    and "Iterate_loop s out buf_len i cs written m = (r, m')"
  shows "\<exists>w. r = Value w \<and> unat w \<le> unat buf_len \<and> (\<forall>x. x \<notin> region out (unat buf_len) \<longrightarrow> m' x = m x)"
  using assms
proof (induction cs arbitrary: written i m)
  case Nil
  then show ?case by auto
next
  case (Cons c cs)
  obtain vn where vn: "vnodes s c = Some vn" using Cons.prems(1) [of c] by auto
  let ?n = "sv_size (v_name vn)"
  let ?sz = "rec_size (of_nat ?n)"
  have n: "?n < 2 ^ 32" using Cons.prems(2) [of c] vn by simp
  note sz = unat_rec_size [OF n]
  have sum: "unat (written + ?sz) = unat written + unat ?sz"
    using sz n Cons.prems(3,4) by (intro unat_plus_no_wrap) simp
  show ?case
  proof (cases "written + ?sz > buf_len")
    case True
    then show ?thesis using Cons.prems(3,5) vn by (auto simp: Let_def)
  next
    case False
    let ?m = "put_dirent (out + written) c (i + 1) (vtype vn) (v_name vn) m"
    have rec: "Iterate_loop s out buf_len (i + 1) cs (written + ?sz) ?m = (r, m')"
      using Cons.prems(5) vn False by (simp add: Let_def)
    have le: "unat written + unat ?sz \<le> unat buf_len" using False sum by (simp add: word_less_nat_alt)
    have IH: "\<exists>w. r = Value w \<and> unat w \<le> unat buf_len \<and> (\<forall>x. x \<notin> region out (unat buf_len) \<longrightarrow> m' x = ?m x)"
      using Cons.prems(1,2,4) le sum by (intro Cons.IH [OF _ _ _ _ rec]) auto
    have "region (out + written) (25 + ?n) \<subseteq> region out (unat buf_len)"
      using region_sub [of "unat written" "25 + ?n" "unat buf_len" out] sz le by simp
    then have "?m x = m x" if "x \<notin> region out (unat buf_len)" for x
      using put_dirent_other that by blast
    with IH show ?thesis by auto
  qed
qed

section \<open>Properties\<close>

text \<open>
  C7: Writing a RAM file at a page-aligned offset implements the abstract splice: with enough
  free pages, and storage for their page objects, the write returns the full size, the file's bytes from the offset on are the
  buffer's, every other byte keeps its value (holes read as zero), the size grows to cover the
  write and never shrinks, and the file stays well formed.
\<close>

theorem RamFs_Write_refines:
  assumes "page_laws K P owned avail" and "file_wf K owned a s" and "buffer_ok K P buffer (unat sz)"
    and "aligned offset" and "unat offset + unat sz < 2 ^ 64" and "(unat sz + 4095) div 4096 \<le> avail (kmm s)"
  shows "\<exists>s'. RamFs_Write K a buffer sz offset s = (Value sz, s') \<and> file_wf K owned a s' \<and>
    file_size a s' = max (file_size a s) (unat offset + unat sz) \<and>
    (\<forall>n < 2 ^ 64. file_bytes K a s' n =
       (if unat offset \<le> n \<and> n < unat offset + unat sz then memory s (buffer + of_nat (n - unat offset))
        else file_bytes K a s n))"
  using RamFs_Write_spec [OF assms] by blast

theorem RamFs_Write_refines_witness:
  "\<exists>s'. RamFs_Write ex_fk 1 0x1000 5000 4096 ex_fsys = (Value 5000, s') \<and> file_size 1 s' = 9096 \<and>
     file_bytes ex_fk 1 s' 9000 = 7 \<and> file_bytes ex_fk 1 s' 100 = 0"
proof -
  obtain s' where "RamFs_Write ex_fk 1 0x1000 5000 4096 ex_fsys = (Value 5000, s')"
    "file_size 1 s' = max (file_size 1 ex_fsys) (unat (4096 :: u64) + unat (5000 :: u64))"
    "\<forall>n < 2 ^ 64. file_bytes ex_fk 1 s' n =
       (if unat (4096 :: u64) \<le> n \<and> n < unat (4096 :: u64) + unat (5000 :: u64)
        then memory ex_fsys (0x1000 + of_nat (n - unat (4096 :: u64))) else file_bytes ex_fk 1 ex_fsys n)"
    using RamFs_Write_refines [OF ex_page_laws ex_file_wf ex_buffer_ok, of "0x1000" 5000 4096]
    by (auto simp: aligned_def ex_fsys_def)
  then show ?thesis
    by (simp add: ex_fsys_def file_size_def file_bytes_def RamFsNode_new_def Vnode_new_def byte_at_def ex_fk_def)
qed

text \<open>
  C8: What was written to a RAM file is read back: after a write at a page-aligned offset, a read
  of the same range into any buffer outside the page frames returns the full size and the very
  bytes that were written.
\<close>

theorem RamFs_write_read_roundtrip:
  assumes "page_laws K P owned avail" and "file_wf K owned a s" and "buffer_ok K P src (unat sz)"
    and "buffer_ok K P dst (unat sz)"
    and "aligned offset" and "unat offset + unat sz < 2 ^ 64" and "(unat sz + 4095) div 4096 \<le> avail (kmm s)"
    and "RamFs_Write K a src sz offset s = (r, s1)" and "RamFs_Read K a dst sz offset s1 = (r', s2)"
  shows "r = Value sz \<and> r' = Value sz \<and>
    read_bytes (memory s2) dst (unat sz) = read_bytes (memory s) src (unat sz)"
proof -
  have w: "r = Value sz" "file_wf K owned a s1" "file_size a s1 = max (file_size a s) (unat offset + unat sz)"
    "\<And>n. n < 2 ^ 64 \<Longrightarrow> file_bytes K a s1 n =
       (if unat offset \<le> n \<and> n < unat offset + unat sz then memory s (src + of_nat (n - unat offset))
        else file_bytes K a s n)"
    using RamFs_Write_spec [OF assms(1-3,5-7)] assms(8) by auto
  obtain n where n: "r' = Value n" "unat n = min (unat sz) (file_size a s1 - unat offset)"
    "read_bytes (memory s2) dst (unat n) = map (file_bytes K a s1) [unat offset..<unat offset + unat n]"
    using RamFs_Read_spec [OF w(2) assms(4,5) page_lawsD(3) [OF assms(1)] assms(6)] assms(9) by auto
  have "unat n = unat sz" using n(2) w(3) by simp
  moreover have "map (file_bytes K a s1) [unat offset..<unat offset + unat sz] = read_bytes (memory s) src (unat sz)"
    using w(4) assms(6) by (auto intro!: nth_equalityI)
  ultimately show ?thesis using n w(1) by (simp add: word_unat_eq_iff)
qed

theorem RamFs_write_read_roundtrip_witness:
  "fst (RamFs_Read ex_fk 1 0x8000 5000 4096 (snd (RamFs_Write ex_fk 1 0x1000 5000 4096 ex_fsys))) = Value 5000"
  using RamFs_write_read_roundtrip [OF ex_page_laws ex_file_wf ex_buffer_ok ex_buffer_ok, of "0x1000" 5000 "0x8000" 4096
      "fst (RamFs_Write ex_fk 1 0x1000 5000 4096 ex_fsys)" "snd (RamFs_Write ex_fk 1 0x1000 5000 4096 ex_fsys)"
      "fst (RamFs_Read ex_fk 1 0x8000 5000 4096 (snd (RamFs_Write ex_fk 1 0x1000 5000 4096 ex_fsys)))"
      "snd (RamFs_Read ex_fk 1 0x8000 5000 4096 (snd (RamFs_Write ex_fk 1 0x1000 5000 4096 ex_fsys)))"]
  by (simp add: aligned_def ex_fsys_def)

text \<open>
  At an offset inside a page the two directions disagree: \<open>Read\<close> takes the address \<open>Lookup\<close>
  returns as it is, \<open>Write\<close> adds the offset within the page to it. Whichever address \<open>Lookup\<close>
  returns for such an offset, the byte just written there is not the byte read back: the read
  returns what was at the looked-up address before.
\<close>

theorem RamFs_unaligned_mismatch:
  assumes "vnodes s a = Some vn" and "vtype vn = Regular" and "vmo vn = Some v"
    and "0 < unat offset mod 4096" and "offset < v_size vn"
    and "vmo_Lookup K v offset = Some phys"
    and "RamFs_Write K a src 1 offset s = (r, s1)" and "RamFs_Read K a dst 1 offset s1 = (r', s2)"
  shows "r = Value 1 \<and> r' = Value 1 \<and>
    memory s1 (hhdm K + phys + of_nat (unat offset mod 4096)) = memory s src \<and>
    memory s2 dst = memory s (hhdm K + phys)"
proof -
  let ?po = "offset AND (kPageSize - 1)"
  have po: "?po = of_nat (unat offset mod 4096)" using unat_page_offset [of offset] by (metis of_nat_unat ucast_id)
  have "unat ?po \<noteq> 0" using assms(4) unat_page_offset [of offset] by simp
  then have ne: "hhdm K + phys + ?po \<noteq> hhdm K + phys" by auto
  have one: "to_copy offset 1 = 1"
  proof -
    have "unat (to_copy offset 1) = 1" using unat_to_copy [of offset 1] by (simp add: Suc_leI)
    then show ?thesis by (simp add: word_unat_eq_iff)
  qed
  have W: "ramfs_Write_loop K src offset 1 0 (v, m, k) = (Value 1, v, m(hhdm K + phys + ?po := m src), k)" for m k
    using assms(6) one
    by (subst ramfs_Write_loop.simps, subst ramfs_Write_loop.simps)
      (simp add: Let_def MemoryCopy_def read_bytes_def)
  have R: "ramfs_Read_loop K v dst offset 1 0 m = (1, m(dst := m (hhdm K + phys)))" for m
    using assms(6) one
    by (simp add: ramfs_Read_loop.simps [of K v dst offset 1 0 m] ramfs_Read_loop.simps [of K v dst offset 1 1]
        Let_def MemoryCopy_def read_bytes_def)
  have le: "\<not> v_size vn < offset + 1" "\<not> v_size vn \<le> offset" using assms(5) by (auto simp: inc_le not_less)
  have s1: "r = Value 1" "memory s1 = (memory s)(hhdm K + phys + ?po := memory s src)"
    "\<exists>vn'. vnodes s1 a = Some vn' \<and> vtype vn' = Regular \<and> vmo vn' = Some v \<and> v_size vn' = v_size vn"
    using assms(1-3,7) le by (auto simp: RamFs_Write_def W Let_def upd_vnode_def)
  have "r' = Value 1" "memory s2 = (memory s1)(dst := memory s1 (hhdm K + phys))"
    using assms(8) s1(3) le by (auto simp: RamFs_Read_def R Let_def)
  with s1 ne po show ?thesis by auto
qed

theorem RamFs_unaligned_mismatch_witness:
  "\<exists>s. memory (snd (RamFs_Read ex_fk 1 0x3000 1 1 (snd (RamFs_Write ex_fk 1 0x2000 1 1 s)))) 0x3000
     \<noteq> memory s 0x2000"
proof -
  let ?vn = "(RamFsNode_new ex_fk Regular (Literal ''f''))\<lparr>v_size := 10, vmo := Some [(0, 3)]\<rparr>"
  let ?s = "ex_fsys\<lparr>memory := (\<lambda>_. 7)(0x2000 := 9), vnodes := [1 \<mapsto> ?vn]\<rparr>"
  have "memory (snd (RamFs_Read ex_fk 1 0x3000 1 1 (snd (RamFs_Write ex_fk 1 0x2000 1 1 ?s)))) 0x3000
      = memory ?s (hhdm ex_fk + 3 * 4096)"
    using RamFs_unaligned_mismatch [of ?s 1 ?vn "[(0, 3)]" 1 ex_fk "3 * 4096" "0x2000"
        "fst (RamFs_Write ex_fk 1 0x2000 1 1 ?s)" "snd (RamFs_Write ex_fk 1 0x2000 1 1 ?s)" "0x3000"
        "fst (RamFs_Read ex_fk 1 0x3000 1 1 (snd (RamFs_Write ex_fk 1 0x2000 1 1 ?s)))"
        "snd (RamFs_Read ex_fk 1 0x3000 1 1 (snd (RamFs_Write ex_fk 1 0x2000 1 1 ?s)))"]
    by (simp add: RamFsNode_new_def Vnode_new_def ex_fk_def kPageSize_def)
  moreover have "memory ?s (hhdm ex_fk + 3 * 4096) = 7" "memory ?s 0x2000 = 9" by (simp_all add: ex_fk_def)
  ultimately show ?thesis by (intro exI [of _ ?s]) simp
qed

text \<open>
  C36: Creating a file or directory makes exactly that name resolvable. In a directory with unique
  names, \<open>Create\<close> of an existing name fails with EEXIST and \<open>Mkdir\<close> returns the existing node,
  both without any change; otherwise success returns a new node which \<open>Lookup\<close> then finds
  under the name, no other name resolves differently, and names stay unique; the only other
  outcome is ENOMEM with the tree unchanged.
\<close>

theorem RamFs_create_lookup:
  assumes "dir_wf dir s" and "\<And>a k. op_new K (kmm s) = (Some a, k) \<Longrightarrow> vnodes s a = None"
    and "nm = chars (memory s) v"
  shows "(case RamFs_Create K dir v s of (r, s') \<Rightarrow>
      case RamFs_Lookup dir nm s of
        Value c \<Rightarrow> r = Unexpected (- EEXIST) \<and> s' = s
      | _ \<Rightarrow> (case r of
          Value a \<Rightarrow> RamFs_Lookup dir nm s' = Value a \<and> (\<forall>nm'. nm' \<noteq> nm \<longrightarrow> RamFs_Lookup dir nm' s' = RamFs_Lookup dir nm' s) \<and>
            vnodes s' a = Some (RamFsNode_new K Regular v) \<and> dir_wf dir s'
        | Unexpected e \<Rightarrow> e = - ENOMEM \<and> vnodes s' = vnodes s | Bug \<Rightarrow> False)) \<and>
    (case RamFs_Mkdir K dir v s of (r, s') \<Rightarrow>
      case RamFs_Lookup dir nm s of
        Value c \<Rightarrow> r = Value c \<and> s' = s
      | _ \<Rightarrow> (case r of
          Value a \<Rightarrow> RamFs_Lookup dir nm s' = Value a \<and> (\<forall>nm'. nm' \<noteq> nm \<longrightarrow> RamFs_Lookup dir nm' s' = RamFs_Lookup dir nm' s) \<and>
            vnodes s' a = Some (RamFsNode_new K Directory v) \<and> dir_wf dir s'
        | Unexpected e \<Rightarrow> e = - ENOMEM \<and> vnodes s' = vnodes s | Bug \<Rightarrow> False))"
proof -
  obtain d where d: "vnodes s dir = Some d" "vtype d = Directory" using assms(1) by (auto simp: dir_wf_def)
  show ?thesis
  proof (cases "List.find (child_named s nm) (children d)")
    case (Some c)
    then show ?thesis using d assms(3) by (simp add: RamFs_Create_def RamFs_Mkdir_def RamFs_Lookup_def)
  next
    case None
    then have look: "RamFs_Lookup dir nm s = Unexpected (- ENOENT)" using d by (simp add: RamFs_Lookup_def)
    have "RamFs_Create K dir v s = add_node K dir Regular v s" "RamFs_Mkdir K dir v s = add_node K dir Directory v s"
      using None d assms(3) by (simp_all add: RamFs_Create_def RamFs_Mkdir_def)
    then show ?thesis
      using add_node_effect [OF assms(1) _ assms(2) assms(3) [symmetric] look, where K = K] look
      by (auto split: prod.split)
  qed
qed

theorem RamFs_create_lookup_witness:
  "\<exists>a. RamFs_Lookup 2 ''etc'' (snd (RamFs_Mkdir ex_fk 2 (Literal ''etc'') ex_fsys)) = Value a"
proof -
  have "dir_wf 2 ex_fsys"
    by (simp add: dir_wf_def ex_fsys_def RamFsNode_new_def Vnode_new_def)
  moreover have "RamFs_Lookup 2 ''etc'' ex_fsys = Unexpected (- 2)"
    "fst (RamFs_Mkdir ex_fk 2 (Literal ''etc'') ex_fsys) = Value 0x100000"
    by (simp_all add: RamFs_Lookup_def RamFs_Mkdir_def add_node_def ex_fsys_def RamFsNode_new_def Vnode_new_def ex_fk_def chars_def)
  ultimately show ?thesis
    using RamFs_create_lookup [of 2 ex_fsys ex_fk "''etc''" "Literal ''etc''"]
    by (cases "RamFs_Mkdir ex_fk 2 (Literal ''etc'') ex_fsys") (auto simp: ex_fsys_def ex_fk_def chars_def)
qed

text \<open>
  C37: Destroying a file returns every one of its pages: the drain loop, which works in batches of
  32 pages, terminates whatever the number of pages, hands each page's frame to the allocator
  exactly once and in order, and the node is gone.
\<close>

theorem RamFs_Destroy_frees_all:
  assumes "vmo_drain_laws K" and "vnodes s a = Some vn" and "vmo vn = Some v"
  shows "RamFs_Destroy K a s =
    Some (s\<lparr>kmm := fold (FreeFolio K) (map snd (vmo_Pages K v)) (kmm s), vnodes := (vnodes s)(a := None)\<rparr>)"
  using drain_loop_eq [OF assms(1), of v "kmm s"] assms(2,3) by (auto simp: RamFs_Destroy_def)

definition ex_two_pages :: "((u64 \<times> u64) list, u8 list, nat) fsys" where
  "ex_two_pages = ex_fsys\<lparr>vnodes := [1 \<mapsto> (RamFsNode_new ex_fk Regular (Literal ''f''))\<lparr>vmo := Some [(0, 3), (4096, 5)]\<rparr>]\<rparr>"

text \<open>With an allocator that counts frame \<open>n\<close> as \<open>2 ^ n\<close>: frames 3 and 5 come back, once each.\<close>

theorem RamFs_Destroy_frees_all_witness:
  "\<exists>s'. RamFs_Destroy (ex_fk\<lparr>FreeFolio := \<lambda>p k. k + 2 ^ unat p\<rparr>) 1 ex_two_pages = Some s' \<and> vnodes s' 1 = None \<and> kmm s' = 40"
  using RamFs_Destroy_frees_all [of "ex_fk\<lparr>FreeFolio := \<lambda>p k. k + 2 ^ unat p\<rparr>" ex_two_pages 1
      "(RamFsNode_new ex_fk Regular (Literal ''f''))\<lparr>vmo := Some [(0, 3), (4096, 5)]\<rparr>" "[(0, 3), (4096, 5)]"]
  by (simp add: vmo_drain_laws_def ex_fk_def ex_two_pages_def ex_fsys_def RamFsNode_new_def Vnode_new_def)

text \<open>
  Listing a directory stays in the caller's buffer: \<open>Iterate\<close> succeeds, reports at most \<open>buf_len\<close>
  bytes and changes no byte outside the buffer, whatever the names and however many entries are left. (Names
  shorter than 4 GiB and a buffer below half the address space, so that the sums do not wrap.)
\<close>

theorem RamFs_Iterate_in_buffer:
  assumes "vnodes s dir = Some d" and "vtype d = Directory"
    and "\<And>c. c \<in> set (children d) \<Longrightarrow> \<exists>vn. vnodes s c = Some vn \<and> sv_size (v_name vn) < 2 ^ 32"
    and "unat buf_len < 2 ^ 63"
  shows "case RamFs_Iterate dir buf buf_len offset s of (r, s') \<Rightarrow>
    \<exists>w. r = Value w \<and> unat w \<le> unat buf_len \<and> vnodes s' = vnodes s \<and>
        (\<forall>x. x \<notin> region buf (unat buf_len) \<longrightarrow> memory s' x = memory s x)"
proof -
  obtain r m' where run: "Iterate_loop s buf buf_len offset (drop (unat offset) (children d)) 0 (memory s) = (r, m')"
    by fastforce
  have "\<exists>w. r = Value w \<and> unat w \<le> unat buf_len \<and> (\<forall>x. x \<notin> region buf (unat buf_len) \<longrightarrow> m' x = memory s x)"
    by (rule Iterate_loop_bounds [OF _ _ _ assms(4) run]) (use assms(3) in_set_dropD in fastforce)+
  then show ?thesis using assms(1,2) run by (simp add: RamFs_Iterate_def)
qed

definition ex_dir :: "((u64 \<times> u64) list, u8 list, nat) fsys" where
  "ex_dir = ex_fsys\<lparr>vnodes := (vnodes ex_fsys)(2 \<mapsto> (RamFsNode_new ex_fk Directory (Literal ''/''))\<lparr>children := [1]\<rparr>)\<rparr>"

theorem RamFs_Iterate_in_buffer_witness:
  "case RamFs_Iterate 2 0x5000 64 0 ex_dir of (r, s') \<Rightarrow> r = Value 32 \<and> memory s' 0x5040 = 7"
proof -
  have d: "vnodes ex_dir 2 = Some ((RamFsNode_new ex_fk Directory (Literal ''/''))\<lparr>children := [1]\<rparr>)"
    "\<And>c. c \<in> set (children ((RamFsNode_new ex_fk Directory (Literal ''/''))\<lparr>children := [1]\<rparr>)) \<Longrightarrow>
      \<exists>vn. vnodes ex_dir c = Some vn \<and> sv_size (v_name vn) < 2 ^ 32"
    by (simp_all add: ex_dir_def ex_fsys_def RamFsNode_new_def Vnode_new_def sv_size_def)
  have r: "fst (RamFs_Iterate 2 0x5000 64 0 ex_dir) = Value 32"
    by (simp add: RamFs_Iterate_def ex_dir_def ex_fsys_def RamFsNode_new_def Vnode_new_def sv_size_def rec_size_def
        kDirentHeader_def split: prod.split)
  have "0x5040 \<notin> region 0x5000 (unat (64 :: u64))"
    using in_region_offset [of 64 "0x5000" 64] by simp
  then have "memory (snd (RamFs_Iterate 2 0x5000 64 0 ex_dir)) 0x5040 = memory ex_dir 0x5040"
    using RamFs_Iterate_in_buffer [OF d(1) _ d(2), of 64 "0x5000" 0] by (auto simp: RamFsNode_new_def Vnode_new_def)
  then show ?thesis using r by (auto simp: ex_dir_def ex_fsys_def)
qed

text \<open>
  A file keeps no copy of its name: the name is whatever the memory of the string it was created with
  holds at the time of a lookup. In a directory with this one file, after the creator's memory has changed
  to \<open>m\<close> the file answers to the new contents only, and its old name is gone.
\<close>

theorem RamFs_name_is_view:
  assumes "vnodes s dir = Some d" and "vtype d = Directory" and "children d = []"
    and "RamFs_Create K dir (View p n) s = (Value a, s')" and "vnodes s a = None"
  shows "RamFs_Lookup dir nm (s'\<lparr>memory := m\<rparr>) =
    (if map char_of_byte (read_bytes m p n) = nm then Value a else Unexpected (- ENOENT))"
proof -
  have "a \<noteq> dir" using assms(1,5) by auto
  then show ?thesis
    using assms
    by (auto simp: RamFs_Create_def add_node_def RamFs_Lookup_def upd_vnode_def child_named_def RamFsNode_new_def
        Vnode_new_def chars_def split: prod.splits option.splits bool.splits if_splits)
qed

theorem RamFs_name_is_view_witness:
  "\<exists>s'. RamFs_Create ex_fk 2 (View 0x2000 3) ex_fsys = (Value 0x100000, s') \<and>
     RamFs_Lookup 2 [CHR 0x07, CHR 0x07, CHR 0x07] s' = Value 0x100000 \<and>
     RamFs_Lookup 2 [CHR 0x07, CHR 0x07, CHR 0x07] (s'\<lparr>memory := (\<lambda>_. 0x41)\<rparr>) = Unexpected (- 2)"
proof -
  have d: "vnodes ex_fsys 2 = Some (RamFsNode_new ex_fk Directory (Literal ''/''))" by (simp add: ex_fsys_def)
  obtain s' where run: "RamFs_Create ex_fk 2 (View 0x2000 3) ex_fsys = (Value 0x100000, s')" and m: "memory s' = (\<lambda>_. 7)"
    by (simp add: RamFs_Create_def add_node_def ex_fsys_def ex_fk_def RamFsNode_new_def Vnode_new_def upd_vnode_def)
  have cb: "char_of_byte 7 = CHR 0x07" "char_of_byte 0x41 = CHR ''A''" by code_simp+
  note L = RamFs_name_is_view [OF d _ _ run, where nm = "[CHR 0x07, CHR 0x07, CHR 0x07]"]
  have "RamFs_Lookup 2 [CHR 0x07, CHR 0x07, CHR 0x07] (s'\<lparr>memory := (\<lambda>_. 7)\<rparr>) = Value 0x100000"
    using L [where m = "\<lambda>_. 7"]
    by (simp add: RamFsNode_new_def Vnode_new_def ex_fsys_def read_bytes_def upt_rec cb)
  moreover have "s'\<lparr>memory := (\<lambda>_. 7)\<rparr> = s'" using m by simp
  moreover have "RamFs_Lookup 2 [CHR 0x07, CHR 0x07, CHR 0x07] (s'\<lparr>memory := (\<lambda>_. 0x41)\<rparr>) = Unexpected (- 2)"
    using L [where m = "\<lambda>_. 0x41"]
    by (simp add: RamFsNode_new_def Vnode_new_def ex_fsys_def read_bytes_def upt_rec cb)
  ultimately show ?thesis using run by simp
qed

end
