(* ===== verification/Vfs.thy ===== *)
theory Vfs
  imports RamFs
begin

text \<open>
  The virtual file system: the pseudo file system (\<open>include/ceryx/fs/pseudo/PseudoFs.hpp\<close>) with the
  device callbacks of \<open>init/main.cpp\<close>, the pipe vnode (\<open>include/ceryx/fs/pipe/PipeVnode.hpp\<close>), the calls
  through a vnode's operation table, path resolution (\<open>include/ceryx/fs/Vfs.hpp\<close>) and the
  initial RAM disk loader (\<open>include/ceryx/fs/CpioLoader.hpp\<close>).

  A call through a null function pointer is \<open>Bug\<close>. A read or write on a pipe may wait: its
  result is a \<open>blocking\<close> value.
\<close>

section \<open>Pseudo files\<close>

definition kVersion :: string where
  "kVersion = ''Linux version 6.1.0 (ceryx-kernel) (clang) #1'' @ [CHR 0x0A]"

fun run_read_cb :: "PseudoReadCallback \<Rightarrow> addr \<Rightarrow> u64 \<Rightarrow> u64 \<Rightarrow> mem \<Rightarrow> u64 \<times> mem" where
  "run_read_cb NullRead buf sz off m = (0, m)"
| "run_read_cb ZeroRead buf sz off m = (sz, MemoryZero m buf sz)"
| "run_read_cb TtyRead buf sz off m = (0, m)"
| "run_read_cb VersionRead buf sz off m =
     (let kLen = of_nat (length kVersion) in
      if off \<ge> kLen then (0, m)
      else
        (let n = kLen - off; n = (if n > sz then sz else n)
         in (n, write_bytes m buf (take (unat n) (drop (unat off) (map byte_of_char kVersion))))))"

definition console_write :: "addr \<Rightarrow> u64 \<Rightarrow> ('v, 'r, 'k) fsys \<Rightarrow> ('v, 'r, 'k) fsys" where
  "console_write buffer sz s =
     fold (\<lambda>i s. let ch = memory s (buffer + of_nat i);
                     (c, m) = linearfb_console_putc ch (screen_console s, memory s)
                 in s\<lparr>screen_console := c, memory := m, debug_port := debug_port s @ [ch]\<rparr>)
       [0..<unat sz] s"

fun run_write_cb :: "PseudoWriteCallback \<Rightarrow> addr \<Rightarrow> u64 \<Rightarrow> u64 \<Rightarrow> ('v, 'r, 'k) fsys \<Rightarrow> u64 \<times> ('v, 'r, 'k) fsys" where
  "run_write_cb NullWrite buf sz off s = (sz, s)"
| "run_write_cb ZeroWrite buf sz off s = (sz, s)"
| "run_write_cb TtyWrite buf sz off s = (sz, console_write buf sz s)"
| "run_write_cb StdoutWrite buf sz off s = (sz, console_write buf sz s)"

definition PseudoFsNode_new ::
  "StringView \<Rightarrow> PseudoReadCallback option \<Rightarrow> PseudoWriteCallback option \<Rightarrow> ('v, 'r) vnode" where
  "PseudoFsNode_new nm r w = (Vnode_new Regular PseudoFsOps)\<lparr>v_name := nm, read_cb := r, write_cb := w\<rparr>"

definition PseudoFs_Read ::
  "addr \<Rightarrow> addr \<Rightarrow> u64 \<Rightarrow> u64 \<Rightarrow> ('v, 'r, 'k) fsys \<Rightarrow> u64 expected \<times> ('v, 'r, 'k) fsys" where
  "PseudoFs_Read a buffer sz offset s =
     (case vnodes s a of
        None \<Rightarrow> (Bug, s)
      | Some vn \<Rightarrow>
          (case read_cb vn of
             Some cb \<Rightarrow> (case run_read_cb cb buffer sz offset (memory s) of (n, m) \<Rightarrow> (Value n, s\<lparr>memory := m\<rparr>))
           | None \<Rightarrow> (Value 0, s)))"

definition PseudoFs_Write ::
  "addr \<Rightarrow> addr \<Rightarrow> u64 \<Rightarrow> u64 \<Rightarrow> ('v, 'r, 'k) fsys \<Rightarrow> u64 expected \<times> ('v, 'r, 'k) fsys" where
  "PseudoFs_Write a buffer sz offset s =
     (case vnodes s a of
        None \<Rightarrow> (Bug, s)
      | Some vn \<Rightarrow>
          (case write_cb vn of
             Some cb \<Rightarrow> (case run_write_cb cb buffer sz offset s of (n, s) \<Rightarrow> (Value n, s))
           | None \<Rightarrow> (Unexpected (- EPERM), s)))"

section \<open>Pipe vnodes\<close>

definition kPipeRead :: u32 where "kPipeRead = 1"

definition kPipeWrite :: u32 where "kPipeWrite = 2"

definition kDefaultCapacity :: u64 where "kDefaultCapacity = 64 * 1024"

text \<open>\<open>PipeVnode::Create\<close>: two allocations, the vnode and the pipe it owns.\<close>

definition PipeVnode_Create :: "('v, 'r, 'k) fk \<Rightarrow> ('v, 'r, 'k) fsys \<Rightarrow> addr expected \<times> ('v, 'r, 'k) fsys" where
  "PipeVnode_Create K s =
     (case op_new K (kmm s) of
        (None, k) \<Rightarrow> (Bug, s\<lparr>kmm := k\<rparr>)
      | (Some a, k) \<Rightarrow>
          (case op_new K k of
             (None, k) \<Rightarrow> (Bug, s\<lparr>kmm := k\<rparr>)
           | (Some _, k) \<Rightarrow>
               (Value a,
                s\<lparr>kmm := k, vnodes := (vnodes s)(a \<mapsto> (Vnode_new Fifo PipeOps)
                    \<lparr>v_pipe := Some (Pipe_new (ring_new K kDefaultCapacity))\<rparr>)\<rparr>)))"

definition PipeVnode_Read ::
  "('v, 'r, 'k) fk \<Rightarrow> addr \<Rightarrow> addr \<Rightarrow> u64 \<Rightarrow> ('v, 'r, 'k) fsys \<Rightarrow> u64 expected blocking \<times> ('v, 'r, 'k) fsys" where
  "PipeVnode_Read K a buffer sz s =
     (case Option.bind (vnodes s a) v_pipe of
        None \<Rightarrow> (Return Bug, s)
      | Some p \<Rightarrow>
          (case Pipe_Read (ring_ops K) sz p of
             (r, p, _) \<Rightarrow>
               let s = upd_vnode a (\<lambda>vn. vn\<lparr>v_pipe := Some p\<rparr>) s in
               case r of
                 Return (Value bs) \<Rightarrow> (Return (Value (of_nat (length bs))), s\<lparr>memory := write_bytes (memory s) buffer bs\<rparr>)
               | Return (Unexpected e) \<Rightarrow> (Return (Unexpected e), s)
               | Return Bug \<Rightarrow> (Return Bug, s)
               | Wait c n \<Rightarrow> (Wait c n, s)))"

definition PipeVnode_Write ::
  "('v, 'r, 'k) fk \<Rightarrow> addr \<Rightarrow> addr \<Rightarrow> u64 \<Rightarrow> ('v, 'r, 'k) fsys \<Rightarrow> u64 expected blocking \<times> ('v, 'r, 'k) fsys" where
  "PipeVnode_Write K a buffer sz s =
     (case Option.bind (vnodes s a) v_pipe of
        None \<Rightarrow> (Return Bug, s)
      | Some p \<Rightarrow>
          (case Pipe_Write (ring_ops K) (read_bytes (memory s) buffer (unat sz)) p of
             None \<Rightarrow> (Return Bug, s)
           | Some (r, p, _) \<Rightarrow> (r, upd_vnode a (\<lambda>vn. vn\<lparr>v_pipe := Some p\<rparr>) s)))"

definition pipe_open :: "u32 \<Rightarrow> 'r pipe \<Rightarrow> 'r pipe" where
  "pipe_open flags p =
     (let p = (if flags AND kPipeRead \<noteq> 0 then IncrementReaders p else p)
      in if flags AND kPipeWrite \<noteq> 0 then IncrementWriters p else p)"

definition pipe_close :: "u32 \<Rightarrow> 'r pipe \<Rightarrow> 'r pipe" where
  "pipe_close flags p =
     (let p = (if flags AND kPipeRead \<noteq> 0 then fst (DecrementReaders p) else p)
      in if flags AND kPipeWrite \<noteq> 0 then fst (DecrementWriters p) else p)"

section \<open>Calls through the operation table\<close>

definition vnode_Read ::
  "('v, 'r, 'k) fk \<Rightarrow> addr \<Rightarrow> addr \<Rightarrow> u64 \<Rightarrow> u64 \<Rightarrow> ('v, 'r, 'k) fsys \<Rightarrow> u64 expected blocking \<times> ('v, 'r, 'k) fsys" where
  "vnode_Read K a buffer sz offset s =
     (case Option.bind (vnodes s a) ops of
        None \<Rightarrow> (Return Bug, s)
      | Some RamFsOps \<Rightarrow> apfst Return (RamFs_Read K a buffer sz offset s)
      | Some PseudoFsOps \<Rightarrow> apfst Return (PseudoFs_Read a buffer sz offset s)
      | Some PipeOps \<Rightarrow> PipeVnode_Read K a buffer sz s)"

definition vnode_Write ::
  "('v, 'r, 'k) fk \<Rightarrow> addr \<Rightarrow> addr \<Rightarrow> u64 \<Rightarrow> u64 \<Rightarrow> ('v, 'r, 'k) fsys \<Rightarrow> u64 expected blocking \<times> ('v, 'r, 'k) fsys" where
  "vnode_Write K a buffer sz offset s =
     (case Option.bind (vnodes s a) ops of
        None \<Rightarrow> (Return Bug, s)
      | Some RamFsOps \<Rightarrow> apfst Return (RamFs_Write K a buffer sz offset s)
      | Some PseudoFsOps \<Rightarrow> apfst Return (PseudoFs_Write a buffer sz offset s)
      | Some PipeOps \<Rightarrow> PipeVnode_Write K a buffer sz s)"

definition vnode_Lookup :: "addr \<Rightarrow> string \<Rightarrow> ('v, 'r, 'k) fsys \<Rightarrow> addr expected" where
  "vnode_Lookup a nm s =
     (case Option.bind (vnodes s a) ops of
        Some RamFsOps \<Rightarrow> RamFs_Lookup a nm s
      | Some PseudoFsOps \<Rightarrow> Unexpected (- ENOENT)
      | _ \<Rightarrow> Bug)"

definition vnode_Create :: "('v, 'r, 'k) fk \<Rightarrow> addr \<Rightarrow> StringView \<Rightarrow> ('v, 'r, 'k) fsys \<Rightarrow> addr expected \<times> ('v, 'r, 'k) fsys" where
  "vnode_Create K a nm s =
     (case Option.bind (vnodes s a) ops of
        Some RamFsOps \<Rightarrow> RamFs_Create K a nm s
      | Some PseudoFsOps \<Rightarrow> (Unexpected (- EPERM), s)
      | _ \<Rightarrow> (Bug, s))"

definition vnode_Mkdir :: "('v, 'r, 'k) fk \<Rightarrow> addr \<Rightarrow> StringView \<Rightarrow> ('v, 'r, 'k) fsys \<Rightarrow> addr expected \<times> ('v, 'r, 'k) fsys" where
  "vnode_Mkdir K a nm s =
     (case Option.bind (vnodes s a) ops of
        Some RamFsOps \<Rightarrow> RamFs_Mkdir K a nm s
      | Some PseudoFsOps \<Rightarrow> (Unexpected (- EPERM), s)
      | _ \<Rightarrow> (Bug, s))"

text \<open>Only the pipe table has \<open>Open\<close> and \<open>Close\<close>.\<close>

definition vnode_Open :: "addr \<Rightarrow> u32 \<Rightarrow> ('v, 'r, 'k) fsys \<Rightarrow> ('v, 'r, 'k) fsys" where
  "vnode_Open a flags s =
     (case Option.bind (vnodes s a) ops of
        Some PipeOps \<Rightarrow> upd_vnode a (\<lambda>vn. vn\<lparr>v_pipe := map_option (pipe_open flags) (v_pipe vn)\<rparr>) s
      | _ \<Rightarrow> s)"

definition vnode_Close :: "addr \<Rightarrow> u32 \<Rightarrow> ('v, 'r, 'k) fsys \<Rightarrow> ('v, 'r, 'k) fsys" where
  "vnode_Close a flags s =
     (case Option.bind (vnodes s a) ops of
        Some PipeOps \<Rightarrow> upd_vnode a (\<lambda>vn. vn\<lparr>v_pipe := map_option (pipe_close flags) (v_pipe vn)\<rparr>) s
      | _ \<Rightarrow> s)"

section \<open>Path resolution\<close>

text \<open>
  The loop of \<open>PathToVnode\<close> from a position in the path: \<open>rest\<close> is the path from the current offset
  on, cut at the next slash.
\<close>

definition next_component :: "string \<Rightarrow> string \<times> string" where
  "next_component rest =
     (case dropWhile (\<lambda>c. c \<noteq> CHR ''/'') rest of
        [] \<Rightarrow> (rest, [])
      | _ # rest' \<Rightarrow> (takeWhile (\<lambda>c. c \<noteq> CHR ''/'') rest, rest'))"

lemma next_component_shorter:
  assumes "rest \<noteq> []"
  shows "length (snd (next_component rest)) < length rest"
proof -
  have le: "length (dropWhile (\<lambda>c. c \<noteq> CHR ''/'') rest) \<le> length rest" by (rule length_dropWhile_le)
  show ?thesis
  proof (cases "dropWhile (\<lambda>c. c \<noteq> CHR ''/'') rest")
    case Nil
    then show ?thesis using assms by (simp only: next_component_def list.case snd_conv) simp
  next
    case (Cons d ds)
    have "Suc (length ds) \<le> length rest" using le unfolding Cons by simp
    then show ?thesis unfolding next_component_def Cons by simp
  qed
qed

lemma next_component_less:
  "(c, r) = next_component rest \<Longrightarrow> rest \<noteq> [] \<Longrightarrow> length r < length rest"
  "x = next_component rest \<Longrightarrow> (c, r) = x \<Longrightarrow> rest \<noteq> [] \<Longrightarrow> length r < length rest"
  using next_component_shorter [of rest] by (metis snd_conv)+

function walk :: "('v, 'r, 'k) fsys \<Rightarrow> addr \<Rightarrow> string \<Rightarrow> addr expected" where
  "walk s current rest =
     (if rest = [] then Value current
      else
        (let (component, rest') = next_component rest in
         if component = [] \<or> component = ''.'' then walk s current rest'
         else
           (case vnodes s current of
              None \<Rightarrow> Bug
            | Some vn \<Rightarrow>
                if \<not> IsDirectory vn then Unexpected (- ENOTDIR)
                else (case vnode_Lookup current component s of
                        Value c \<Rightarrow> walk s c rest'
                      | Unexpected e \<Rightarrow> Unexpected e
                      | Bug \<Rightarrow> Bug))))"
  by pat_completeness auto
termination
  by (relation "measure (\<lambda>(s, current, rest). length rest)") (simp_all add: next_component_less)

declare walk.simps [simp del]

definition PathToVnode :: "addr \<Rightarrow> string \<Rightarrow> ('v, 'r, 'k) fsys \<Rightarrow> addr expected" where
  "PathToVnode root path s =
     (case path of
        [] \<Rightarrow> Value root
      | c # cs \<Rightarrow> if c = CHR ''/'' then walk s root cs else walk s root path)"

section \<open>Resolution by components\<close>

text \<open>The abstract meaning of a path: the list of its components, without empty ones and dots,
  looked up one after the other.\<close>

fun split_path :: "string \<Rightarrow> string list" where
  "split_path [] = [[]]"
| "split_path (c # cs) =
     (if c = CHR ''/'' then [] # split_path cs
      else (case split_path cs of [] \<Rightarrow> [[c]] | x # xs \<Rightarrow> (c # x) # xs))"

definition components :: "string \<Rightarrow> string list" where
  "components path = filter (\<lambda>c. c \<noteq> [] \<and> c \<noteq> ''.'') (split_path path)"

fun resolve :: "('v, 'r, 'k) fsys \<Rightarrow> addr \<Rightarrow> string list \<Rightarrow> addr expected" where
  "resolve s current [] = Value current"
| "resolve s current (c # cs) =
     (case vnodes s current of
        None \<Rightarrow> Bug
      | Some vn \<Rightarrow>
          if \<not> IsDirectory vn then Unexpected (- ENOTDIR)
          else (case vnode_Lookup current c s of
                  Value x \<Rightarrow> resolve s x cs | Unexpected e \<Rightarrow> Unexpected e | Bug \<Rightarrow> Bug))"

definition bind_expected :: "'a expected \<Rightarrow> ('a \<Rightarrow> 'b expected) \<Rightarrow> 'b expected" where
  "bind_expected r f = (case r of Value x \<Rightarrow> f x | Unexpected e \<Rightarrow> Unexpected e | Bug \<Rightarrow> Bug)"

lemma bind_expected_Value: "bind_expected r f = Value y \<longleftrightarrow> (\<exists>x. r = Value x \<and> f x = Value y)"
  by (cases r) (simp_all add: bind_expected_def)

lemma split_path_ne: "split_path cs \<noteq> []"
  by (cases cs) (auto split: list.split)

lemma split_path_append: "split_path (p @ CHR ''/'' # q) = split_path p @ split_path q"
proof (induction p)
  case (Cons c p)
  then show ?case using split_path_ne [of p] by (cases "split_path p") simp_all
qed simp

lemma split_path_plain: "CHR ''/'' \<notin> set cs \<Longrightarrow> split_path cs = [cs]"
  by (induction cs) auto

lemma components_append: "components (p @ CHR ''/'' # q) = components p @ components q"
  by (simp add: components_def split_path_append)

lemma components_next:
  assumes "next_component rest = (c, r)" and "rest \<noteq> []"
  shows "components rest = (if c = [] \<or> c = ''.'' then components r else c # components r)"
proof (cases "dropWhile (\<lambda>x. x \<noteq> CHR ''/'') rest")
  case Nil
  have "c = rest" "r = []" using assms(1) unfolding next_component_def Nil by simp_all
  moreover have "CHR ''/'' \<notin> set rest" using Nil by (auto simp: dropWhile_eq_Nil_conv)
  ultimately show ?thesis by (simp add: components_def split_path_plain)
next
  case (Cons d ds)
  have cr: "c = takeWhile (\<lambda>x. x \<noteq> CHR ''/'') rest" "r = ds"
    using assms(1) unfolding next_component_def Cons by simp_all
  have "d = CHR ''/''" using hd_dropWhile [of "\<lambda>x. x \<noteq> CHR ''/''" rest] unfolding Cons by simp
  then have eq: "c @ CHR ''/'' # r = rest"
    using takeWhile_dropWhile_id [of "\<lambda>x. x \<noteq> CHR ''/''" rest] unfolding cr Cons by simp
  have "CHR ''/'' \<notin> set c" unfolding cr by (auto dest: set_takeWhileD)
  then have "components (c @ CHR ''/'' # r) = (if c = [] \<or> c = ''.'' then components r else c # components r)"
    unfolding components_append by (simp add: components_def split_path_plain)
  then show ?thesis unfolding eq .
qed

lemma walk_resolve: "walk s current rest = resolve s current (components rest)"
proof (induction s current rest rule: walk.induct)
  case (1 s current rest)
  show ?case
  proof (cases "rest = []")
    case True
    then show ?thesis by (simp add: walk.simps components_def)
  next
    case False
    obtain c r where nc: "next_component rest = (c, r)" by fastforce
    show ?thesis
    proof (cases "c = [] \<or> c = ''.''")
      case True
      with 1(1) [OF False nc [symmetric] refl True] False nc show ?thesis
        by (subst walk.simps) (simp add: components_next [OF nc False])
    next
      case skip: False
      note IH = 1(2) [OF False nc [symmetric] refl skip]
      show ?thesis
        unfolding components_next [OF nc False]
        using False nc skip IH
        by (subst walk.simps) (auto split: option.split expected.split)
    qed
  qed
qed

lemma PathToVnode_resolve: "PathToVnode root path s = resolve s root (components path)"
proof (cases path)
  case (Cons c cs)
  then show ?thesis
    using walk_resolve [of s root cs] walk_resolve [of s root path] components_append [of "[]" cs]
    by (simp add: PathToVnode_def components_def)
qed (simp add: PathToVnode_def components_def)

lemma resolve_append: "resolve s a (xs @ ys) = bind_expected (resolve s a xs) (\<lambda>b. resolve s b ys)"
  by (induction xs arbitrary: a) (auto simp: bind_expected_def split: option.split expected.split)

section \<open>Properties\<close>

text \<open>
  C26: Path resolution is compositional: resolving a path made of two parts joined by a slash is
  resolving the first part and then the second from there, errors included, so empty
  components, leading and repeated slashes and dots never matter. The result is the chain of
  directory lookups of the path's components.
\<close>

theorem PathToVnode_compositional:
  "PathToVnode root (p @ ''/'' @ q) s = bind_expected (PathToVnode root p s) (\<lambda>v. PathToVnode v q s) \<and>
   PathToVnode root p s = resolve s root (components p)"
  using components_append [of p q] by (simp add: PathToVnode_resolve resolve_append)

end
