(* ===== verification/Files.thy ===== *)
theory Files
  imports Vfs
begin

text \<open>
  Open files (\<open>include/ceryx/fs/FileDescription.hpp\<close>) and the file descriptor table of a process
  (\<open>AllocateFd\<close>, \<open>AllocateFdAt\<close>, \<open>GetFd\<close>, \<open>FreeFd\<close> in \<open>arch/x86_64/proc/Process.cpp\<close>).

  A \<open>FileDescription\<close> is named by its address and carries its reference count: \<open>fd_addref\<close> is the
  copy of a \<open>RefPtr\<close>, \<open>fd_release\<close> its destruction, which runs \<open>Destroy\<close> when the last one goes. A table
  is the \<open>Vector\<close> of optional pointers, so a table position is a descriptor number.
\<close>

section \<open>File descriptions\<close>

record FileDescription =
  fd_vnode :: "addr option"
  fd_offset :: u64
  fd_flags :: u32
  fd_refs :: nat

record ('v, 'r, 'k) filesys =
  fs :: "('v, 'r, 'k) fsys"
  files :: "addr \<rightharpoonup> FileDescription"

definition upd_file :: "addr \<Rightarrow> (FileDescription \<Rightarrow> FileDescription) \<Rightarrow> ('v, 'r, 'k) filesys \<Rightarrow> ('v, 'r, 'k) filesys" where
  "upd_file d f s = s\<lparr>files := (files s)(d := map_option f (files s d))\<rparr>"

definition set_fs :: "('v, 'r, 'k) fsys \<Rightarrow> ('v, 'r, 'k) filesys \<Rightarrow> ('v, 'r, 'k) filesys" where
  "set_fs t s = s\<lparr>fs := t\<rparr>"

text \<open>The constructor, held by one \<open>RefPtr\<close>.\<close>

definition FileDescription_new ::
  "('v, 'r, 'k) fk \<Rightarrow> addr option \<Rightarrow> u32 \<Rightarrow> ('v, 'r, 'k) filesys \<Rightarrow> addr expected \<times> ('v, 'r, 'k) filesys" where
  "FileDescription_new K v flags s =
     (case op_new K (kmm (fs s)) of
        (None, k) \<Rightarrow> (Bug, s\<lparr>fs := (fs s)\<lparr>kmm := k\<rparr>\<rparr>)
      | (Some d, k) \<Rightarrow>
          (Value d,
           s\<lparr>fs := (case v of Some a \<Rightarrow> vnode_Open a flags ((fs s)\<lparr>kmm := k\<rparr>) | None \<Rightarrow> (fs s)\<lparr>kmm := k\<rparr>),
             files := (files s)(d \<mapsto> \<lparr>fd_vnode = v, fd_offset = 0, fd_flags = flags, fd_refs = 1\<rparr>)\<rparr>))"

definition FileDescription_Destroy :: "addr \<Rightarrow> ('v, 'r, 'k) filesys \<Rightarrow> ('v, 'r, 'k) filesys" where
  "FileDescription_Destroy d s =
     (case files s d of
        None \<Rightarrow> s
      | Some f \<Rightarrow>
          s\<lparr>fs := (case fd_vnode f of Some a \<Rightarrow> vnode_Close a (fd_flags f) (fs s) | None \<Rightarrow> fs s),
            files := (files s)(d := None)\<rparr>)"

definition fd_addref :: "addr \<Rightarrow> ('v, 'r, 'k) filesys \<Rightarrow> ('v, 'r, 'k) filesys" where
  "fd_addref d = upd_file d (\<lambda>f. f\<lparr>fd_refs := fd_refs f + 1\<rparr>)"

definition fd_release :: "addr \<Rightarrow> ('v, 'r, 'k) filesys \<Rightarrow> ('v, 'r, 'k) filesys" where
  "fd_release d s =
     (case files s d of
        None \<Rightarrow> s
      | Some f \<Rightarrow>
          if fd_refs f \<le> 1 then FileDescription_Destroy d s
          else upd_file d (\<lambda>f. f\<lparr>fd_refs := fd_refs f - 1\<rparr>) s)"

text \<open>Reading and writing advance the offset by the result; the vnode decides what the offset means.\<close>

definition advance :: "addr \<Rightarrow> u64 expected blocking \<Rightarrow> ('v, 'r, 'k) filesys \<Rightarrow> ('v, 'r, 'k) filesys" where
  "advance d r s =
     (case r of Return (Value n) \<Rightarrow> upd_file d (\<lambda>f. f\<lparr>fd_offset := fd_offset f + n\<rparr>) s | _ \<Rightarrow> s)"

definition FileDescription_Read ::
  "('v, 'r, 'k) fk \<Rightarrow> addr \<Rightarrow> addr \<Rightarrow> u64 \<Rightarrow> ('v, 'r, 'k) filesys \<Rightarrow> u64 expected blocking \<times> ('v, 'r, 'k) filesys" where
  "FileDescription_Read K d buffer sz s =
     (case files s d of
        None \<Rightarrow> (Return Bug, s)
      | Some f \<Rightarrow>
          (case fd_vnode f of
             None \<Rightarrow> (Return (Unexpected (- EBADF)), s)
           | Some v \<Rightarrow>
               if Option.bind (vnodes (fs s) v) ops = None then (Return (Unexpected (- EBADF)), s)
               else (case vnode_Read K v buffer sz (fd_offset f) (fs s) of
                       (r, t) \<Rightarrow> (r, advance d r (set_fs t s)))))"

definition FileDescription_Write ::
  "('v, 'r, 'k) fk \<Rightarrow> addr \<Rightarrow> addr \<Rightarrow> u64 \<Rightarrow> ('v, 'r, 'k) filesys \<Rightarrow> u64 expected blocking \<times> ('v, 'r, 'k) filesys" where
  "FileDescription_Write K d buffer sz s =
     (case files s d of
        None \<Rightarrow> (Return Bug, s)
      | Some f \<Rightarrow>
          (case fd_vnode f of
             None \<Rightarrow> (Return (Unexpected (- EBADF)), s)
           | Some v \<Rightarrow>
               if Option.bind (vnodes (fs s) v) ops = None then (Return (Unexpected (- EBADF)), s)
               else (case vnode_Write K v buffer sz (fd_offset f) (fs s) of
                       (r, t) \<Rightarrow> (r, advance d r (set_fs t s)))))"

section \<open>The descriptor table\<close>

definition kMaxFds :: nat where
  "kMaxFds = 1024"

type_synonym fd_table = "addr option list"

text \<open>\<open>Vector::Resize\<close> to a larger size: the new slots are empty. Whether the memory was there is the answer of
  the allocator.\<close>

definition grow ::
  "('v, 'r, 'k) fk \<Rightarrow> nat \<Rightarrow> fd_table \<Rightarrow> ('v, 'r, 'k) filesys \<Rightarrow> bool \<times> fd_table \<times> ('v, 'r, 'k) filesys" where
  "grow K n T s =
     (if n \<le> length T then (True, T, s)
      else (case PushBack_ok K (kmm (fs s)) of
              (ok, k) \<Rightarrow> (ok, if ok then T @ replicate (n - length T) None else T, s\<lparr>fs := (fs s)\<lparr>kmm := k\<rparr>\<rparr>)))"

function AllocateFd_loop ::
  "('v, 'r, 'k) fk \<Rightarrow> addr \<Rightarrow> nat \<Rightarrow> fd_table \<Rightarrow> ('v, 'r, 'k) filesys \<Rightarrow> u32 expected \<times> fd_table \<times> ('v, 'r, 'k) filesys" where
  "AllocateFd_loop K file fd T s =
     (if fd < kMaxFds then
        (case grow K (fd + 1) T s of
           (False, T, s) \<Rightarrow> (Unexpected (- ENOMEM), T, s)
         | (True, T, s) \<Rightarrow>
             if T ! fd = None then (Value (of_nat fd), T[fd := Some file], fd_addref file s)
             else AllocateFd_loop K file (fd + 1) T s)
      else (Unexpected (- EMFILE), T, s))"
  by pat_completeness auto
termination
  by (relation "measure (\<lambda>(K, file, fd, T, s). kMaxFds - fd)") auto

declare AllocateFd_loop.simps [simp del]

definition AllocateFd ::
  "('v, 'r, 'k) fk \<Rightarrow> addr option \<Rightarrow> fd_table \<Rightarrow> ('v, 'r, 'k) filesys \<Rightarrow> u32 expected \<times> fd_table \<times> ('v, 'r, 'k) filesys" where
  "AllocateFd K file T s =
     (case file of
        None \<Rightarrow> (Unexpected (- EBADF), T, s)
      | Some d \<Rightarrow> AllocateFd_loop K d 0 T s)"

definition reset_slot :: "nat \<Rightarrow> fd_table \<Rightarrow> ('v, 'r, 'k) filesys \<Rightarrow> fd_table \<times> ('v, 'r, 'k) filesys" where
  "reset_slot fd T s =
     (case T ! fd of None \<Rightarrow> (T, s) | Some d \<Rightarrow> (T[fd := None], fd_release d s))"

definition AllocateFdAt ::
  "('v, 'r, 'k) fk \<Rightarrow> u32 \<Rightarrow> addr option \<Rightarrow> fd_table \<Rightarrow> ('v, 'r, 'k) filesys \<Rightarrow> u32 expected \<times> fd_table \<times> ('v, 'r, 'k) filesys" where
  "AllocateFdAt K fd file T s =
     (case file of
        None \<Rightarrow> (Unexpected (- EBADF), T, s)
      | Some d \<Rightarrow>
          if unat fd \<ge> kMaxFds then (Unexpected (- EBADF), T, s)
          else
            (case grow K (unat fd + 1) T s of
               (False, T, s) \<Rightarrow> (Unexpected (- ENOMEM), T, s)
             | (True, T, s) \<Rightarrow>
                 (case reset_slot (unat fd) T s of
                    (T, s) \<Rightarrow> (Value fd, T[unat fd := Some d], fd_addref d s))))"

definition GetFd :: "fd_table \<Rightarrow> u32 \<Rightarrow> addr option" where
  "GetFd T fd = (if unat fd \<ge> length T then None else T ! unat fd)"

definition FreeFd :: "u32 \<Rightarrow> fd_table \<Rightarrow> ('v, 'r, 'k) filesys \<Rightarrow> fd_table \<times> ('v, 'r, 'k) filesys" where
  "FreeFd fd T s = (if unat fd \<ge> length T then (T, s) else reset_slot (unat fd) T s)"

text \<open>Closing every slot in order and emptying the table, as \<open>Exit\<close> and \<open>Destroy\<close> do.\<close>

definition close_all :: "fd_table \<Rightarrow> ('v, 'r, 'k) filesys \<Rightarrow> fd_table \<times> ('v, 'r, 'k) filesys" where
  "close_all T s =
     apfst (\<lambda>_. []) (fold (\<lambda>fd (T, s). reset_slot fd T s) [0..<length T] (T, s))"

text \<open>The copy of the table for a forked child: each occupied slot is one more reference.\<close>

definition clone_table :: "fd_table \<Rightarrow> ('v, 'r, 'k) filesys \<Rightarrow> fd_table \<times> ('v, 'r, 'k) filesys" where
  "clone_table T s = (T, fold (\<lambda>slot s. case slot of Some d \<Rightarrow> fd_addref d s | None \<Rightarrow> s) T s)"

section \<open>Reference counting\<close>

text \<open>The contract of \<open>RefCounted\<close> and \<open>RefPtr\<close>: a count per object, raised by a copy and lowered by a
  destruction, of live objects only.\<close>

locale refcounted =
  fixes cnt :: "'s \<Rightarrow> 'o \<Rightarrow> nat"
    and addref :: "'o \<Rightarrow> 's \<Rightarrow> 's"
    and release :: "'o \<Rightarrow> 's \<Rightarrow> 's"
  assumes cnt_addref: "0 < cnt s d \<Longrightarrow> cnt (addref d s) = (cnt s)(d := cnt s d + 1)"
    and cnt_release: "0 < cnt s d \<Longrightarrow> cnt (release d s) = (cnt s)(d := cnt s d - 1)"
begin

lemma cnt_addrefs:
  "(\<And>d. d \<in> set ds \<Longrightarrow> 0 < cnt s d) \<Longrightarrow> cnt (fold addref ds s) x = cnt s x + count (mset ds) x"
proof (induction ds arbitrary: s)
  case (Cons d ds)
  have "0 < cnt (addref d s) y" if "y \<in> set ds" for y
    using Cons.prems that cnt_addref [of s d] by simp
  with Cons cnt_addref [of s d] show ?case by simp
qed simp

lemma cnt_releases:
  "(\<And>d. count (mset ds) d \<le> cnt s d) \<Longrightarrow> cnt (fold release ds s) x = cnt s x - count (mset ds) x"
proof (induction ds arbitrary: s)
  case (Cons d ds)
  have pos: "0 < cnt s d" using Cons.prems [of d] by simp
  have "count (mset ds) y \<le> cnt (release d s) y" for y
    using Cons.prems [of y] cnt_release [OF pos] by (simp split: if_splits)
  with Cons.IH [of "release d s"] cnt_release [OF pos] show ?case by simp
qed simp

text \<open>Copying a list of references and dropping the copies changes no count.\<close>

lemma copies_dropped:
  assumes "\<And>d. d \<in> set ds \<Longrightarrow> 0 < cnt s d"
  shows "cnt (fold release ds (fold addref ds s)) = cnt s"
  using cnt_addrefs [OF assms] by (auto simp: cnt_releases)

end

definition refs :: "('v, 'r, 'k) filesys \<Rightarrow> addr \<Rightarrow> nat" where
  "refs s d = (case files s d of Some f \<Rightarrow> fd_refs f | None \<Rightarrow> 0)"

lemma refs_addref: "0 < refs s d \<Longrightarrow> refs (fd_addref d s) = (refs s)(d := refs s d + 1)"
  by (auto simp: refs_def fd_addref_def upd_file_def fun_eq_iff split: option.splits)

lemma refs_release: "0 < refs s d \<Longrightarrow> refs (fd_release d s) = (refs s)(d := refs s d - 1)"
  by (auto simp: refs_def fd_release_def FileDescription_Destroy_def upd_file_def fun_eq_iff split: option.splits)

interpretation file_refs: refcounted refs fd_addref fd_release
  by unfold_locales (simp_all add: refs_addref refs_release)

text \<open>Every live description has at least one reference; a release deletes it before the count is zero.\<close>

definition live_ok :: "('v, 'r, 'k) filesys \<Rightarrow> bool" where
  "live_ok s \<longleftrightarrow> (\<forall>d f. files s d = Some f \<longrightarrow> 0 < fd_refs f)"

definition slot_refs :: "fd_table \<Rightarrow> addr \<Rightarrow> nat" where
  "slot_refs T d = count (mset T) (Some d)"

text \<open>The counts are exact: a description is referenced by the slots of this table that hold it and by
  \<open>others\<close>, the references held elsewhere, and it exists as long as there is one.\<close>

definition refs_ok :: "(addr \<Rightarrow> nat) \<Rightarrow> fd_table \<Rightarrow> ('v, 'r, 'k) filesys \<Rightarrow> bool" where
  "refs_ok others T s \<longleftrightarrow> live_ok s \<and> (\<forall>d. refs s d = others d + slot_refs T d)"

lemma live_addref [simp]: "live_ok s \<Longrightarrow> live_ok (fd_addref d s)"
  by (auto simp: live_ok_def fd_addref_def upd_file_def)

lemma live_release [simp]: "live_ok s \<Longrightarrow> live_ok (fd_release d s)"
  by (auto simp: live_ok_def fd_release_def FileDescription_Destroy_def upd_file_def split: option.splits if_splits)

lemma refs_set_fs [simp]: "refs (s\<lparr>fs := t\<rparr>) = refs s" "live_ok (s\<lparr>fs := t\<rparr>) = live_ok s"
  by (simp_all add: refs_def live_ok_def fun_eq_iff)

lemma slot_refs_update:
  assumes "i < length T"
  shows "slot_refs (T[i := x]) d = slot_refs T d - (if T ! i = Some d then 1 else 0) + (if x = Some d then 1 else 0)"
  using assms by (simp add: slot_refs_def mset_update)

lemma slot_refs_pos: "i < length T \<Longrightarrow> T ! i = Some d \<Longrightarrow> 0 < slot_refs T d"
  unfolding slot_refs_def by (metis count_greater_zero_iff nth_mem set_mset_mset)

lemma slot_refs_grow [simp]: "slot_refs (T @ replicate n None) d = slot_refs T d"
  by (simp add: slot_refs_def)

lemma grow_facts:
  assumes "grow K n T s = (ok, T', s')" and "refs_ok others T s"
  shows "refs_ok others T' s'" and "files s' = files s"
    and "ok \<Longrightarrow> n \<le> length T' \<and> (\<exists>k. T' = T @ replicate k None)" and "\<not> ok \<Longrightarrow> T' = T"
  using assms by (auto simp: grow_def refs_ok_def split: prod.splits if_splits intro: exI [of _ 0])

lemma reset_slot_refs:
  assumes "refs_ok others T s" and "i < length T" and "reset_slot i T s = (T', s')"
  shows "refs_ok others T' s'" and "T' = T[i := None]"
proof -
  have "T ! i = None \<Longrightarrow> T[i := None] = T" by (metis list_update_id)
  then show T': "T' = T[i := None]"
    using assms(3) by (cases "T ! i") (auto simp: reset_slot_def)
  show "refs_ok others T' s'"
  proof (cases "T ! i")
    case None
    then show ?thesis using assms by (simp add: reset_slot_def)
  next
    case (Some d)
    have s': "s' = fd_release d s" using Some assms(3) by (simp add: reset_slot_def)
    have "0 < slot_refs T d" using slot_refs_pos [OF assms(2) Some] .
    then have pos: "0 < refs s d" using assms(1) by (simp add: refs_ok_def)
    have sl: "slot_refs T' x = slot_refs T x - (if x = d then 1 else 0)" for x
      using slot_refs_update [OF assms(2), of None x] Some T' by auto
    show ?thesis
      using assms(1) sl refs_release [OF pos] \<open>0 < slot_refs T d\<close> unfolding s' refs_ok_def by auto
  qed
qed

lemma store_slot_refs:
  assumes "refs_ok others T s" and "i < length T" and "T ! i = None" and "0 < refs s d"
  shows "refs_ok others (T[i := Some d]) (fd_addref d s)"
  using assms slot_refs_update [OF assms(2), of "Some d"] refs_addref [OF assms(4)]
  by (auto simp: refs_ok_def)

section \<open>Allocation\<close>

text \<open>What one run of \<open>AllocateFd\<close> does, by the slot it starts at: it takes the first empty slot.\<close>

definition empty_slot :: "fd_table \<Rightarrow> nat \<Rightarrow> bool" where
  "empty_slot T i \<longleftrightarrow> i \<ge> length T \<or> T ! i = None"

lemma empty_slot_GetFd: "GetFd T fd = None \<longleftrightarrow> empty_slot T (unat fd)"
  by (simp add: GetFd_def empty_slot_def not_le)

lemma empty_slot_grow [simp]: "empty_slot (T @ replicate n None) i = empty_slot T i"
  by (cases "i < length T + n") (auto simp: empty_slot_def nth_append)

lemma AllocateFd_loop_cases:
  assumes "AllocateFd_loop K d fd T s = (r, T', s')" and "refs_ok others T s" and "0 < refs s d"
    and "\<forall>i < fd. \<not> empty_slot T i"
  shows "refs_ok others T' s' \<and>
    (case r of
       Value n \<Rightarrow> unat n < kMaxFds \<and> empty_slot T (unat n) \<and> (\<forall>i < unat n. \<not> empty_slot T i) \<and>
                 (\<exists>k. T' = (T @ replicate k None)[unat n := Some d] \<and> unat n < length T + k)
     | Unexpected e \<Rightarrow> (\<exists>k. T' = T @ replicate k None) \<and>
                 (e = - EMFILE \<and> (\<forall>i < kMaxFds. \<not> empty_slot T i) \<or> e = - ENOMEM)
     | Bug \<Rightarrow> False)"
  using assms
proof (induction "kMaxFds - fd" arbitrary: fd T s rule: less_induct)
  case less
  show ?case
  proof (cases "fd < kMaxFds")
    case False
    then have "r = Unexpected (- EMFILE)" "T' = T" "s' = s"
      using less.prems(1) by (subst (asm) AllocateFd_loop.simps, simp)+
    then show ?thesis using False less.prems by (auto intro: exI [of _ 0])
  next
    case True
    obtain ok T1 s1 where g: "grow K (fd + 1) T s = (ok, T1, s1)" by (cases "grow K (fd + 1) T s") auto
    note gf = grow_facts [OF g less.prems(2)]
    show ?thesis
    proof (cases ok)
      case False
      then have "r = Unexpected (- ENOMEM)" "T' = T1" "s' = s1"
        using less.prems(1) True g by (subst (asm) AllocateFd_loop.simps, simp)+
      then show ?thesis using gf False by (auto intro: exI [of _ 0])
    next
      case ok: True
      then obtain k where T1: "T1 = T @ replicate k None" and len: "fd < length T1" using gf(3) by auto
      have pos: "0 < refs s1 d" using less.prems(3) gf(2) by (simp add: refs_def)
      show ?thesis
      proof (cases "T1 ! fd = None")
        case empty: True
        then have res: "r = Value (of_nat fd)" "T' = T1[fd := Some d]" "s' = fd_addref d s1"
          using less.prems(1) True g ok by (subst (asm) AllocateFd_loop.simps, simp)+
        have u: "unat (of_nat fd :: u32) = fd"
          using True by (simp add: kMaxFds_def unsigned_of_nat take_bit_eq_mod)
        have "empty_slot T fd" using empty len unfolding T1 empty_slot_def by (auto simp: nth_append split: if_splits)
        then show ?thesis
          using store_slot_refs [OF gf(1) len empty pos] True less.prems(4) len
          by (auto simp: res u T1 intro!: exI [of _ k])
      next
        case full: False
        then have rec: "AllocateFd_loop K d (fd + 1) T1 s1 = (r, T', s')"
          using less.prems(1) True g ok by (subst (asm) AllocateFd_loop.simps) (auto split: if_splits)
        have "\<not> empty_slot T1 fd" using full len by (simp add: empty_slot_def)
        then have "\<forall>i < fd + 1. \<not> empty_slot T1 i" using less.prems(4) T1 by (auto simp: less_Suc_eq)
        moreover have "kMaxFds - (fd + 1) < kMaxFds - fd" using True by simp
        ultimately have IH: "refs_ok others T' s' \<and>
          (case r of
             Value n \<Rightarrow> unat n < kMaxFds \<and> empty_slot T1 (unat n) \<and> (\<forall>i < unat n. \<not> empty_slot T1 i) \<and>
                 (\<exists>k. T' = (T1 @ replicate k None)[unat n := Some d] \<and> unat n < length T1 + k)
           | Unexpected e \<Rightarrow> (\<exists>k. T' = T1 @ replicate k None) \<and>
                 (e = - EMFILE \<and> (\<forall>i < kMaxFds. \<not> empty_slot T1 i) \<or> e = - ENOMEM)
           | Bug \<Rightarrow> False)"
          using less.hyps rec gf(1) pos by blast
        show ?thesis
        proof (cases r)
          case (Value n)
          with IH show ?thesis
            by (simp add: T1 empty_slot_grow replicate_add [symmetric]) (metis add.assoc)
        next
          case (Unexpected e)
          with IH show ?thesis
            by (simp add: T1 empty_slot_grow replicate_add [symmetric]) (metis add.assoc)
        qed (use IH in simp)
      qed
    qed
  qed
qed

lemma GetFd_grow_update:
  assumes "unat fd < length T + k"
  shows "GetFd ((T @ replicate k None)[unat fd := Some d]) j = (if j = fd then Some d else GetFd T j)"
proof (cases "j = fd")
  case True
  then show ?thesis using assms by (simp add: GetFd_def)
next
  case False
  then have "unat j \<noteq> unat fd" by (simp add: word_unat_eq_iff)
  with False show ?thesis by (auto simp: GetFd_def nth_append)
qed

lemma GetFd_grow [simp]: "GetFd (T @ replicate k None) j = GetFd T j"
  by (auto simp: GetFd_def nth_append)

section \<open>Closing and cloning a table\<close>

lemma close_fold:
  assumes "refs_ok others T s" and "n \<le> length T"
    and "fold (\<lambda>fd (T, s). reset_slot fd T s) [0..<n] (T, s) = (T', s')"
  shows "refs_ok others T' s' \<and> T' = replicate n None @ drop n T"
  using assms(2,3)
proof (induction n arbitrary: T' s')
  case 0
  then show ?case using assms(1) by simp
next
  case (Suc n)
  obtain T1 s1 where 1: "fold (\<lambda>fd (T, s). reset_slot fd T s) [0..<n] (T, s) = (T1, s1)" by fastforce
  have "n \<le> length T" using Suc.prems by simp
  from Suc.IH [OF this 1] have IH: "refs_ok others T1 s1" "T1 = replicate n None @ drop n T" by blast+
  have step: "reset_slot n T1 s1 = (T', s')" using Suc.prems 1 by simp
  have len: "n < length T1" using IH(2) Suc.prems by simp
  note rs = reset_slot_refs [OF IH(1) len step]
  have "T' = replicate n None @ None # drop (Suc n) T"
    unfolding rs(2) IH(2) using Suc.prems
    by (simp add: list_update_append) (metis Cons_nth_drop_Suc Suc_le_lessD list_update_code(2))
  with rs(1) show ?case by (simp add: replicate_app_Cons_same)
qed

lemma close_all_refs:
  assumes "refs_ok others T s" and "close_all T s = (T', s')"
  shows "refs_ok others T' s'" and "T' = []"
proof -
  obtain T1 s1 where 1: "fold (\<lambda>fd (T, s). reset_slot fd T s) [0..<length T] (T, s) = (T1, s1)" by fastforce
  then have "refs_ok others T1 s1" "T1 = replicate (length T) None"
    using close_fold [OF assms(1) le_refl 1] by auto
  then show "refs_ok others T' s'" "T' = []"
    using assms(2) 1 by (auto simp: close_all_def refs_ok_def slot_refs_def)
qed

definition occupied :: "fd_table \<Rightarrow> addr list" where
  "occupied T = map the (filter (\<lambda>x. x \<noteq> None) T)"

lemma slot_refs_occupied: "slot_refs T d = count (mset (occupied T)) d"
  by (induction T) (auto simp: slot_refs_def occupied_def)

lemma clone_table_fold: "clone_table T s = (T, fold fd_addref (occupied T) s)"
proof -
  have "fold (\<lambda>slot s. case slot of Some d \<Rightarrow> fd_addref d s | None \<Rightarrow> s) T s = fold fd_addref (occupied T) s"
    by (induction T arbitrary: s) (auto simp: occupied_def)
  then show ?thesis by (simp add: clone_table_def)
qed

lemma live_addrefs: "live_ok s \<Longrightarrow> live_ok (fold fd_addref ds s)"
  by (induction ds arbitrary: s) simp_all

lemma clone_table_refs:
  assumes "refs_ok others T s" and "clone_table T s = (T', s')"
  shows "T' = T" and "refs_ok (\<lambda>d. others d + slot_refs T d) T' s'"
proof -
  have s': "T' = T" "s' = fold fd_addref (occupied T) s" using assms(2) by (auto simp: clone_table_fold)
  have "0 < refs s d" if "d \<in> set (occupied T)" for d
    using that assms(1) slot_refs_occupied [of T d] by (simp add: refs_ok_def)
  then have "refs s' d = refs s d + slot_refs T d" for d
    unfolding s' using file_refs.cnt_addrefs slot_refs_occupied by metis
  then show "T' = T" "refs_ok (\<lambda>d. others d + slot_refs T d) T' s'"
    using assms(1) s' live_addrefs by (auto simp: refs_ok_def)
qed

lemma AllocateFdAt_facts:
  assumes "refs_ok others T s" and "0 < others d" and "AllocateFdAt K fd (Some d) T s = (r, T', s')"
  shows "refs_ok others T' s'"
    and "r = Value fd \<Longrightarrow> GetFd T' j = (if j = fd then Some d else GetFd T j)"
    and "r \<noteq> Value fd \<Longrightarrow> GetFd T' j = GetFd T j"
    and "r = Value fd \<or> r = Unexpected (- EBADF) \<and> unat fd \<ge> kMaxFds \<or> r = Unexpected (- ENOMEM)"
proof -
  obtain ok T1 s1 where g: "grow K (unat fd + 1) T s = (ok, T1, s1)" by (cases "grow K (unat fd + 1) T s") auto
  obtain T2 s2 where rs: "reset_slot (unat fd) T1 s1 = (T2, s2)" by fastforce
  note gf = grow_facts [OF g assms(1)]
  have "refs_ok others T' s' \<and> (r = Value fd \<longrightarrow> GetFd T' j = (if j = fd then Some d else GetFd T j)) \<and>
      (r \<noteq> Value fd \<longrightarrow> GetFd T' j = GetFd T j) \<and>
      (r = Value fd \<or> r = Unexpected (- EBADF) \<and> unat fd \<ge> kMaxFds \<or> r = Unexpected (- ENOMEM))"
  proof (cases "unat fd < kMaxFds \<and> ok")
    case False
    then show ?thesis using assms(1,3) g gf by (auto simp: AllocateFdAt_def split: if_splits)
  next
    case True
    then obtain k where T1: "T1 = T @ replicate k None" and len: "unat fd < length T1" using gf(3) by auto
    note rf = reset_slot_refs [OF gf(1) len rs]
    have res: "r = Value fd" "T' = T1[unat fd := Some d]" "s' = fd_addref d s2"
      using True assms(3) g rs rf(2) by (auto simp: AllocateFdAt_def)
    have "0 < refs s2 d" using rf(1) assms(2) by (simp add: refs_ok_def)
    then have "refs_ok others (T2[unat fd := Some d]) (fd_addref d s2)"
      using store_slot_refs [OF rf(1), of "unat fd" d] len rf(2) by simp
    moreover have "GetFd T' j = (if j = fd then Some d else GetFd T j)"
      unfolding res T1 by (rule GetFd_grow_update) (use len T1 in simp)
    ultimately show ?thesis using res rf(2) by simp
  qed
  then show "refs_ok others T' s'"
    and "r = Value fd \<Longrightarrow> GetFd T' j = (if j = fd then Some d else GetFd T j)"
    and "r \<noteq> Value fd \<Longrightarrow> GetFd T' j = GetFd T j"
    and "r = Value fd \<or> r = Unexpected (- EBADF) \<and> unat fd \<ge> kMaxFds \<or> r = Unexpected (- ENOMEM)" by blast+
qed

lemma FreeFd_facts:
  assumes "refs_ok others T s" and "FreeFd fd T s = (T', s')"
  shows "refs_ok others T' s'" and "GetFd T' j = (if j = fd then None else GetFd T j)"
proof -
  have "refs_ok others T' s' \<and> GetFd T' j = (if j = fd then None else GetFd T j)"
  proof (cases "unat fd < length T")
    case True
    then have "reset_slot (unat fd) T s = (T', s')" using assms(2) by (simp add: FreeFd_def)
    note rf = reset_slot_refs [OF assms(1) True this]
    have "GetFd (T[unat fd := None]) j = (if j = fd then None else GetFd T j)"
      by (cases "j = fd") (auto simp: GetFd_def word_unat_eq_iff)
    then show ?thesis using rf by simp
  qed (use assms in \<open>auto simp: FreeFd_def GetFd_def\<close>)
  then show "refs_ok others T' s'" and "GetFd T' j = (if j = fd then None else GetFd T j)" by blast+
qed

section \<open>The ends of a pipe\<close>

text \<open>The open descriptions of a vnode whose flags have a given access bit.\<close>

definition open_ends :: "u32 \<Rightarrow> addr \<Rightarrow> ('v, 'r, 'k) filesys \<Rightarrow> addr set" where
  "open_ends flag v s = {d. \<exists>f. files s d = Some f \<and> fd_vnode f = Some v \<and> fd_flags f AND flag \<noteq> 0}"

text \<open>The reader and writer counts of every pipe are the numbers of its open read and write ends.\<close>

definition ends_ok :: "('v, 'r, 'k) filesys \<Rightarrow> bool" where
  "ends_ok s \<longleftrightarrow> finite (dom (files s)) \<and>
     (\<forall>v vn p. vnodes (fs s) v = Some vn \<longrightarrow> ops vn = Some PipeOps \<longrightarrow> v_pipe vn = Some p \<longrightarrow>
        m_readers p = of_nat (card (open_ends kPipeRead v s)) \<and>
        m_writers p = of_nat (card (open_ends kPipeWrite v s)))"

text \<open>\<open>F_SETFL\<close> of \<open>fcntl\<close>: the access bits stay.\<close>

definition set_flags :: "addr \<Rightarrow> u32 \<Rightarrow> ('v, 'r, 'k) filesys \<Rightarrow> ('v, 'r, 'k) filesys" where
  "set_flags d arg = upd_file d (\<lambda>f. f\<lparr>fd_flags := (fd_flags f AND 3) OR (arg AND NOT 3)\<rparr>)"

lemma finite_open_ends: "finite (dom (files s)) \<Longrightarrow> finite (open_ends flag v s)"
  by (rule finite_subset [of _ "dom (files s)"]) (auto simp: open_ends_def)

lemma pipe_open_counts:
  "m_readers (pipe_open flags p) = m_readers p + (if flags AND kPipeRead \<noteq> 0 then 1 else 0)"
  "m_writers (pipe_open flags p) = m_writers p + (if flags AND kPipeWrite \<noteq> 0 then 1 else 0)"
  by (simp_all add: pipe_open_def IncrementReaders_def IncrementWriters_def Let_def)

lemma pipe_close_counts:
  "m_readers (pipe_close flags p) = m_readers p - (if flags AND kPipeRead \<noteq> 0 then 1 else 0)"
  "m_writers (pipe_close flags p) = m_writers p - (if flags AND kPipeWrite \<noteq> 0 then 1 else 0)"
  by (simp_all add: pipe_close_def DecrementReaders_def DecrementWriters_def Let_def)

lemma vnode_Open_pipe:
  assumes "vnodes (vnode_Open a flags t) v = Some vn" and "ops vn = Some PipeOps" and "v_pipe vn = Some p"
  shows "\<exists>vn0 p0. vnodes t v = Some vn0 \<and> ops vn0 = Some PipeOps \<and> v_pipe vn0 = Some p0 \<and>
           p = (if v = a then pipe_open flags p0 else p0)"
  using assms by (auto simp: vnode_Open_def upd_vnode_def bind_eq_Some_conv split: option.splits VnodeOps.splits if_splits)

lemma vnode_Close_pipe:
  assumes "vnodes (vnode_Close a flags t) v = Some vn" and "ops vn = Some PipeOps" and "v_pipe vn = Some p"
  shows "\<exists>vn0 p0. vnodes t v = Some vn0 \<and> ops vn0 = Some PipeOps \<and> v_pipe vn0 = Some p0 \<and>
           p = (if v = a then pipe_close flags p0 else p0)"
  using assms by (auto simp: vnode_Close_def upd_vnode_def bind_eq_Some_conv split: option.splits VnodeOps.splits if_splits)

lemma ends_new:
  assumes "ends_ok s" and "FileDescription_new K v flags s = (Value d, s')" and "files s d = None"
  shows "ends_ok s'"
proof -
  obtain k where f': "files s' = (files s)(d \<mapsto> \<lparr>fd_vnode = v, fd_offset = 0, fd_flags = flags, fd_refs = 1\<rparr>)"
    and fs': "fs s' = (case v of Some a \<Rightarrow> vnode_Open a flags ((fs s)\<lparr>kmm := k\<rparr>) | None \<Rightarrow> (fs s)\<lparr>kmm := k\<rparr>)"
    using assms(2) by (auto simp: FileDescription_new_def split: prod.splits option.splits)
  have fin: "finite (dom (files s))" using assms(1) by (simp add: ends_ok_def)
  have E: "open_ends flag w s' = (if v = Some w \<and> flags AND flag \<noteq> 0 then insert d (open_ends flag w s) else open_ends flag w s)" for flag w
    using assms(3) by (auto simp: open_ends_def f')
  have "d \<notin> open_ends flag w s" for flag w using assms(3) by (simp add: open_ends_def)
  then have C: "card (open_ends flag w s') = card (open_ends flag w s) + (if v = Some w \<and> flags AND flag \<noteq> 0 then 1 else 0)" for flag w
    unfolding E using finite_open_ends [OF fin] by simp
  show ?thesis
    unfolding ends_ok_def
  proof (intro conjI allI impI)
    show "finite (dom (files s'))" using fin by (simp add: f')
    fix w vn p
    assume h: "vnodes (fs s') w = Some vn" "ops vn = Some PipeOps" "v_pipe vn = Some p"
    obtain vn0 p0 where old: "vnodes (fs s) w = Some vn0" "ops vn0 = Some PipeOps" "v_pipe vn0 = Some p0"
      and p: "p = (if v = Some w then pipe_open flags p0 else p0)"
    proof (cases v)
      case None
      then show thesis using h fs' that by simp
    next
      case (Some a)
      then have "vnodes (vnode_Open a flags ((fs s)\<lparr>kmm := k\<rparr>)) w = Some vn" using h(1) fs' by simp
      from vnode_Open_pipe [OF this h(2,3)] Some show thesis using that by auto
    qed
    have "m_readers p0 = of_nat (card (open_ends kPipeRead w s)) \<and> m_writers p0 = of_nat (card (open_ends kPipeWrite w s))"
      using assms(1) old unfolding ends_ok_def by blast
    then show "m_readers p = of_nat (card (open_ends kPipeRead w s'))" "m_writers p = of_nat (card (open_ends kPipeWrite w s'))"
      unfolding C p by (simp_all add: pipe_open_counts)
  qed
qed

lemma ends_destroy:
  assumes "ends_ok s"
  shows "ends_ok (FileDescription_Destroy d s)"
proof (cases "files s d")
  case None
  then show ?thesis using assms by (simp add: FileDescription_Destroy_def)
next
  case (Some f)
  define s' where "s' = FileDescription_Destroy d s"
  have f': "files s' = (files s)(d := None)"
    and fs': "fs s' = (case fd_vnode f of Some a \<Rightarrow> vnode_Close a (fd_flags f) (fs s) | None \<Rightarrow> fs s)"
    using Some by (simp_all add: s'_def FileDescription_Destroy_def)
  have fin: "finite (dom (files s))" using assms by (simp add: ends_ok_def)
  have E: "open_ends flag w s' = open_ends flag w s - {d}" for flag w by (auto simp: open_ends_def f')
  have mem: "d \<in> open_ends flag w s \<longleftrightarrow> fd_vnode f = Some w \<and> fd_flags f AND flag \<noteq> 0" for flag w
    using Some by (simp add: open_ends_def)
  have C: "of_nat (card (open_ends flag w s')) =
      (of_nat (card (open_ends flag w s)) - (if fd_vnode f = Some w \<and> fd_flags f AND flag \<noteq> 0 then 1 else 0) :: u64)" for flag w
  proof (cases "d \<in> open_ends flag w s")
    case True
    then have "card (open_ends flag w s) = Suc (card (open_ends flag w s'))"
      unfolding E using card_Suc_Diff1 [OF finite_open_ends [OF fin] True] by simp
    then show ?thesis using True mem by simp
  next
    case False
    then have "open_ends flag w s' = open_ends flag w s" unfolding E by simp
    moreover have "\<not> (fd_vnode f = Some w \<and> fd_flags f AND flag \<noteq> 0)" using False mem by blast
    ultimately show ?thesis by simp
  qed
  have "ends_ok s'"
    unfolding ends_ok_def
  proof (intro conjI allI impI)
    show "finite (dom (files s'))" using fin by (simp add: f')
    fix w vn p
    assume h: "vnodes (fs s') w = Some vn" "ops vn = Some PipeOps" "v_pipe vn = Some p"
    obtain vn0 p0 where old: "vnodes (fs s) w = Some vn0" "ops vn0 = Some PipeOps" "v_pipe vn0 = Some p0"
      and p: "p = (if fd_vnode f = Some w then pipe_close (fd_flags f) p0 else p0)"
    proof (cases "fd_vnode f")
      case None
      then show thesis using h fs' that by simp
    next
      case (Some a)
      then have "vnodes (vnode_Close a (fd_flags f) (fs s)) w = Some vn" using h(1) fs' by simp
      from vnode_Close_pipe [OF this h(2,3)] Some show thesis using that by auto
    qed
    have "m_readers p0 = of_nat (card (open_ends kPipeRead w s)) \<and> m_writers p0 = of_nat (card (open_ends kPipeWrite w s))"
      using assms(1) old unfolding ends_ok_def by blast
    then show "m_readers p = of_nat (card (open_ends kPipeRead w s'))" "m_writers p = of_nat (card (open_ends kPipeWrite w s'))"
      unfolding C p by (simp_all add: pipe_close_counts)
  qed
  then show ?thesis by (simp add: s'_def)
qed

text \<open>Updates of a description that keep its vnode and its access bits change nothing here.\<close>

lemma ends_upd_file:
  assumes "ends_ok s" and "\<And>f. fd_vnode (g f) = fd_vnode f"
    and "\<And>f. fd_flags (g f) AND kPipeRead = fd_flags f AND kPipeRead"
    and "\<And>f. fd_flags (g f) AND kPipeWrite = fd_flags f AND kPipeWrite"
  shows "ends_ok (upd_file d g s)"
proof -
  have "open_ends kPipeRead w (upd_file d g s) = open_ends kPipeRead w s" for w
    using assms(2,3) by (auto simp: open_ends_def upd_file_def)
  moreover have "open_ends kPipeWrite w (upd_file d g s) = open_ends kPipeWrite w s" for w
    using assms(2,4) by (auto simp: open_ends_def upd_file_def)
  moreover have "finite (dom (files (upd_file d g s)))"
  proof (rule finite_subset)
    show "dom (files (upd_file d g s)) \<subseteq> dom (files s)" by (auto simp: upd_file_def split: if_splits)
  qed (use assms(1) in \<open>simp add: ends_ok_def\<close>)
  ultimately show ?thesis using assms(1) by (simp add: ends_ok_def upd_file_def)
qed

lemma access_bits_kept:
  "((w AND 3) OR (arg AND NOT 3)) AND kPipeRead = w AND kPipeRead"
  "((w AND 3) OR (arg AND NOT 3)) AND kPipeWrite = w AND kPipeWrite" for w arg :: u32
proof -
  have "(3 :: u32) AND 1 = 1" "(NOT 3 :: u32) AND 1 = 0" "(3 :: u32) AND 2 = 2" "(NOT 3 :: u32) AND 2 = 0" by simp_all
  then show "((w AND 3) OR (arg AND NOT 3)) AND kPipeRead = w AND kPipeRead"
    "((w AND 3) OR (arg AND NOT 3)) AND kPipeWrite = w AND kPipeWrite"
    unfolding kPipeRead_def kPipeWrite_def by (simp_all only: bit.conj_disj_distrib2 and.assoc and_zero_eq or.right_neutral)
qed

section \<open>Properties\<close>

text \<open>
  \<open>AllocateFd\<close> gives the lowest descriptor number not in use and below 1024, stores the file there and
  changes no other descriptor. It fails with \<open>EMFILE\<close> exactly when all 1024 are in use, or with \<open>ENOMEM\<close> when the
  table cannot grow, and then every descriptor is as before. The reference counts stay exact.
\<close>

theorem AllocateFd_lowest:
  assumes "refs_ok others T s" and "0 < refs s d"
  shows "case AllocateFd K (Some d) T s of (r, T', s') \<Rightarrow>
    refs_ok others T' s' \<and>
    (case r of
       Value fd \<Rightarrow> unat fd < kMaxFds \<and> GetFd T fd = None \<and> (\<forall>j. j < fd \<longrightarrow> GetFd T j \<noteq> None) \<and>
         (\<forall>j. GetFd T' j = (if j = fd then Some d else GetFd T j))
     | Unexpected e \<Rightarrow> (\<forall>j. GetFd T' j = GetFd T j) \<and>
         (e = - EMFILE \<and> (\<forall>j. unat j < kMaxFds \<longrightarrow> GetFd T j \<noteq> None) \<or> e = - ENOMEM)
     | Bug \<Rightarrow> False)"
proof -
  obtain r T' s' where run: "AllocateFd_loop K d 0 T s = (r, T', s')" by (metis prod_cases3)
  note L = AllocateFd_loop_cases [OF run assms] 
  have "AllocateFd K (Some d) T s = (r, T', s')" using run by (simp add: AllocateFd_def)
  moreover have "refs_ok others T' s'" using L by simp
  moreover have "case r of
       Value fd \<Rightarrow> unat fd < kMaxFds \<and> GetFd T fd = None \<and> (\<forall>j. j < fd \<longrightarrow> GetFd T j \<noteq> None) \<and>
         (\<forall>j. GetFd T' j = (if j = fd then Some d else GetFd T j))
     | Unexpected e \<Rightarrow> (\<forall>j. GetFd T' j = GetFd T j) \<and>
         (e = - EMFILE \<and> (\<forall>j. unat j < kMaxFds \<longrightarrow> GetFd T j \<noteq> None) \<or> e = - ENOMEM)
     | Bug \<Rightarrow> False"
  proof (cases r)
    case (Value fd)
    then show ?thesis using L by (auto simp: empty_slot_GetFd word_less_nat_alt GetFd_grow_update)
  next
    case (Unexpected e)
    then show ?thesis using L by (auto simp: empty_slot_GetFd)
  qed (use L in simp)
  ultimately show ?thesis by simp
qed

text \<open>Two open files and a pipe, for the concrete instances: the table holds the first file twice.\<close>

definition ex_filesys :: "((u64 \<times> u64) list, u8 list, nat) filesys" where
  "ex_filesys = \<lparr>fs = ex_fsys,
     files = [100 \<mapsto> \<lparr>fd_vnode = Some 1, fd_offset = 0, fd_flags = 0, fd_refs = 3\<rparr>,
              200 \<mapsto> \<lparr>fd_vnode = Some 2, fd_offset = 0, fd_flags = 0, fd_refs = 1\<rparr>]\<rparr>"

definition ex_table :: fd_table where
  "ex_table = [Some 100, None, Some 200, Some 100]"

definition ex_others :: "addr \<Rightarrow> nat" where
  "ex_others d = (if d = 100 then 1 else 0)"

lemma ex_refs_ok: "refs_ok ex_others ex_table ex_filesys" "0 < refs ex_filesys 100" "0 < ex_others 100"
  by (auto simp: refs_ok_def live_ok_def refs_def ex_filesys_def ex_table_def ex_others_def slot_refs_def split: if_splits)

theorem AllocateFd_lowest_witness:
  "refs_ok ex_others ex_table ex_filesys \<and> 0 < refs ex_filesys 100 \<and>
   (case AllocateFd ex_fk (Some 100) ex_table ex_filesys of (r, T', s') \<Rightarrow>
      refs_ok ex_others T' s' \<and> r = Value 1 \<and> GetFd T' 1 = Some 100)"
proof -
  have r: "fst (AllocateFd ex_fk (Some 100) ex_table ex_filesys) = Value 1"
    by (simp add: AllocateFd_def AllocateFd_loop.simps [of _ _ "0"] AllocateFd_loop.simps [of _ _ "Suc 0"]
        kMaxFds_def grow_def ex_table_def)
  then show ?thesis
    using AllocateFd_lowest [OF ex_refs_ok(1,2), of ex_fk] ex_refs_ok(1,2)
    by (auto split: prod.splits)
qed

text \<open>
  C11: The reference counts of open files are exact under every operation on a descriptor table:
  the count of a file is the number of slots that hold it plus the references held elsewhere, and a
  file exists exactly while that number is positive. \<open>AllocateFd\<close> puts an open file into the lowest free descriptor, or
  fails and changes no descriptor: with \<open>EMFILE\<close> when all 1024 are taken, with \<open>ENOMEM\<close> when the table cannot grow. \<open>AllocateFdAt\<close> (dup2) replaces one descriptor, closing what
  it held, \<open>FreeFd\<close> empties one, the loop of \<open>Exit\<close> empties all, and \<open>Fork\<close> copies the table, counting
  each occupied slot once more; other descriptors keep their file.
\<close>

theorem fd_table_refcounts:
  assumes "refs_ok others T s"
  shows "(0 < refs s d \<longrightarrow>
           (case AllocateFd K (Some d) T s of (r, T', s') \<Rightarrow> refs_ok others T' s' \<and>
              (case r of
                 Value n \<Rightarrow> unat n < kMaxFds \<and> GetFd T n = None \<and> (\<forall>j. j < n \<longrightarrow> GetFd T j \<noteq> None) \<and>
                   (\<forall>j. GetFd T' j = (if j = n then Some d else GetFd T j))
               | Unexpected e \<Rightarrow> (\<forall>j. GetFd T' j = GetFd T j) \<and>
                   (e = - EMFILE \<and> (\<forall>j. unat j < kMaxFds \<longrightarrow> GetFd T j \<noteq> None) \<or> e = - ENOMEM)
               | Bug \<Rightarrow> False))) \<and>
         (0 < others d \<longrightarrow>
           (case AllocateFdAt K fd (Some d) T s of (r, T', s') \<Rightarrow> refs_ok others T' s' \<and>
              (if r = Value fd then \<forall>j. GetFd T' j = (if j = fd then Some d else GetFd T j)
               else (\<forall>j. GetFd T' j = GetFd T j) \<and>
                    (r = Unexpected (- EBADF) \<and> kMaxFds \<le> unat fd \<or> r = Unexpected (- ENOMEM))))) \<and>
         (case FreeFd fd T s of (T', s') \<Rightarrow> refs_ok others T' s' \<and>
              (\<forall>j. GetFd T' j = (if j = fd then None else GetFd T j))) \<and>
         (case close_all T s of (T', s') \<Rightarrow> T' = [] \<and> refs_ok others [] s') \<and>
         (case clone_table T s of (T', s') \<Rightarrow> T' = T \<and> refs_ok (\<lambda>x. others x + slot_refs T x) T' s')"
proof (intro conjI impI)
  assume "0 < refs s d"
  from AllocateFd_lowest [OF assms this, of K] show "case AllocateFd K (Some d) T s of (r, T', s') \<Rightarrow> refs_ok others T' s' \<and>
      (case r of
         Value n \<Rightarrow> unat n < kMaxFds \<and> GetFd T n = None \<and> (\<forall>j. j < n \<longrightarrow> GetFd T j \<noteq> None) \<and>
           (\<forall>j. GetFd T' j = (if j = n then Some d else GetFd T j))
       | Unexpected e \<Rightarrow> (\<forall>j. GetFd T' j = GetFd T j) \<and>
           (e = - EMFILE \<and> (\<forall>j. unat j < kMaxFds \<longrightarrow> GetFd T j \<noteq> None) \<or> e = - ENOMEM)
       | Bug \<Rightarrow> False)" .
next
  assume pos: "0 < others d"
  obtain r T' s' where run: "AllocateFdAt K fd (Some d) T s = (r, T', s')" by (metis prod_cases3)
  note A = AllocateFdAt_facts [OF assms pos run]
  show "case AllocateFdAt K fd (Some d) T s of (r, T', s') \<Rightarrow> refs_ok others T' s' \<and>
          (if r = Value fd then \<forall>j. GetFd T' j = (if j = fd then Some d else GetFd T j)
           else (\<forall>j. GetFd T' j = GetFd T j) \<and>
                (r = Unexpected (- EBADF) \<and> kMaxFds \<le> unat fd \<or> r = Unexpected (- ENOMEM)))"
    unfolding run prod.case using A by metis
next
  show "case FreeFd fd T s of (T', s') \<Rightarrow> refs_ok others T' s' \<and>
          (\<forall>j. GetFd T' j = (if j = fd then None else GetFd T j))"
    using FreeFd_facts [OF assms] by (cases "FreeFd fd T s") simp
  show "case close_all T s of (T', s') \<Rightarrow> T' = [] \<and> refs_ok others [] s'"
    using close_all_refs [OF assms] by (cases "close_all T s") auto
  show "case clone_table T s of (T', s') \<Rightarrow> T' = T \<and> refs_ok (\<lambda>x. others x + slot_refs T x) T' s'"
    using clone_table_refs [OF assms] by (cases "clone_table T s") simp
qed

theorem fd_table_refcounts_witness:
  "refs_ok ex_others ex_table ex_filesys \<and> 0 < ex_others 100 \<and>
   (case AllocateFd ex_fk (Some 100) ex_table ex_filesys of (r, T', s') \<Rightarrow> refs_ok ex_others T' s') \<and>
   (case AllocateFdAt ex_fk 2 (Some 100) ex_table ex_filesys of (r, T', s') \<Rightarrow> refs_ok ex_others T' s') \<and>
   (case close_all ex_table ex_filesys of (T', s') \<Rightarrow> T' = [] \<and> refs_ok ex_others [] s')"
  using fd_table_refcounts [OF ex_refs_ok(1), where d = 100 and K = ex_fk and fd = 2] ex_refs_ok by (auto split: prod.splits)

text \<open>
  The reader and writer counts of a pipe are exact: they stay equal to the number of open
  descriptions of its vnode with the read or the write bit when a description is opened, shared,
  dropped (the last reference closes it) or has its flags changed by \<open>F_SETFL\<close>. So a pipe has no
  writers left, and its readers see the end of file, exactly when its last write end is closed.
\<close>

theorem pipe_ends_counted:
  assumes "ends_ok s"
  shows "(\<forall>d s'. FileDescription_new K v flags s = (Value d, s') \<longrightarrow> files s d = None \<longrightarrow> ends_ok s') \<and>
         ends_ok (fd_addref d s) \<and> ends_ok (fd_release d s) \<and> ends_ok (set_flags d arg s)"
proof (intro conjI allI impI)
  show "ends_ok s'" if "FileDescription_new K v flags s = (Value d, s')" "files s d = None" for d s'
    using ends_new [OF assms that] .
  show "ends_ok (fd_addref d s)"
    unfolding fd_addref_def by (rule ends_upd_file [OF assms]) simp_all
  show "ends_ok (fd_release d s)"
    unfolding fd_release_def using assms
    by (auto split: option.split intro: ends_destroy ends_upd_file)
  show "ends_ok (set_flags d arg s)"
    unfolding set_flags_def by (rule ends_upd_file [OF assms]) (use access_bits_kept [of _ arg] in simp_all)
qed

definition ex_pipe_sys :: "((u64 \<times> u64) list, u8 list, nat) filesys" where
  "ex_pipe_sys = \<lparr>fs = ex_fsys\<lparr>vnodes := [3 \<mapsto> (Vnode_new Fifo PipeOps)\<lparr>v_pipe := Some (Pipe_new [])\<rparr>]\<rparr>, files = Map.empty\<rparr>"

theorem pipe_ends_counted_witness:
  "ends_ok ex_pipe_sys \<and>
   (case FileDescription_new ex_fk (Some 3) kPipeWrite ex_pipe_sys of (r, s') \<Rightarrow>
      r = Value 0x100000 \<and> ends_ok s' \<and> map_option m_writers (Option.bind (vnodes (fs s') 3) v_pipe) = Some 1)"
proof -
  have ok: "ends_ok ex_pipe_sys"
    by (auto simp: ends_ok_def ex_pipe_sys_def open_ends_def Pipe_new_def split: if_splits)
  moreover have run: "FileDescription_new ex_fk (Some 3) kPipeWrite ex_pipe_sys =
      (Value 0x100000, snd (FileDescription_new ex_fk (Some 3) kPipeWrite ex_pipe_sys))"
    by (simp add: FileDescription_new_def ex_fk_def ex_pipe_sys_def ex_fsys_def)
  moreover have w: "map_option m_writers (Option.bind (vnodes (fs (snd (FileDescription_new ex_fk (Some 3) kPipeWrite ex_pipe_sys))) 3) v_pipe) = Some 1"
    by (simp add: FileDescription_new_def ex_fk_def ex_pipe_sys_def ex_fsys_def vnode_Open_def upd_vnode_def
        Vnode_new_def pipe_open_counts kPipeWrite_def Pipe_new_def)
  moreover have "files ex_pipe_sys 0x100000 = None" by (simp add: ex_pipe_sys_def)
  then have "ends_ok (snd (FileDescription_new ex_fk (Some 3) kPipeWrite ex_pipe_sys))"
    using pipe_ends_counted [OF ok, of ex_fk "Some 3" kPipeWrite] run by blast
  ultimately show ?thesis using w by (simp add: case_prod_beta) (metis fst_conv)
qed

end
