(* ===== verification/Threads.thy ===== *)
theory Threads
  imports Prelude
begin

text \<open>
  The thread object (\<open>include/ceryx/proc/Thread.hpp\<close>, \<open>arch/x86_64/proc/Thread.cpp\<close>) and
  the register frame (\<open>include/ceryx/cpu/InterruptFrame.hpp\<close>). Kernel stacks live in a
  memory of 8-byte slots, \<open>kmem = addr \<Rightarrow> u64\<close>, so that the stack images the constructors
  build can be read back by the pops of \<open>SwitchContext\<close> and \<open>ForkReturn\<close> (\<open>Switch.asm\<close>).

  What is not under \<open>src/\<close> enters as an argument: the address \<open>AllocateKernel\<close> returned for a
  kernel stack, and the addresses of the assembly entry points.
\<close>

section \<open>Registers\<close>

record InterruptFrame =
  r15 :: u64
  r14 :: u64
  r13 :: u64
  r12 :: u64
  r11 :: u64
  r10 :: u64
  r9 :: u64
  r8 :: u64
  rbp :: u64
  rdi :: u64
  rsi :: u64
  rdx :: u64
  rcx :: u64
  rbx :: u64
  rax :: u64
  interrupt_number :: u64
  error_code :: u64
  rip :: u64
  cs :: u64
  rflags :: u64
  rsp :: u64
  ss :: u64

definition zero_frame :: InterruptFrame where
  "zero_frame = \<lparr>r15 = 0, r14 = 0, r13 = 0, r12 = 0, r11 = 0, r10 = 0, r9 = 0, r8 = 0,
     rbp = 0, rdi = 0, rsi = 0, rdx = 0, rcx = 0, rbx = 0, rax = 0,
     interrupt_number = 0, error_code = 0, rip = 0, cs = 0, rflags = 0, rsp = 0, ss = 0\<rparr>"

section \<open>Threads\<close>

datatype ThreadState = Ready | Running | Blocked | Terminated | Zombie

record thread =
  m_process :: "addr option"
  m_tid :: u64
  m_name :: "char list"
  m_regs :: InterruptFrame
  m_kernel_stack :: u64
  m_state :: ThreadState
  m_mlfq_level :: int
  m_ticks_remaining :: int
  m_total_ticks :: u64
  m_pending_signals :: u64
  m_blocked_signals :: u64
  wait_channel :: addr

definition kStackSize :: u64 where
  "kStackSize = 32768"

text \<open>
  The constructor. \<open>stack\<close> is what \<open>AllocateKernel\<close> returned; a failure is a panic. The
  second component is the value \<open>s_next_tid\<close> has afterwards.
\<close>

definition Thread_new :: "addr option \<Rightarrow> u64 \<Rightarrow> addr option \<Rightarrow> (thread \<times> u64) expected" where
  "Thread_new process next_tid stack =
     (case stack of
        None \<Rightarrow> Bug
      | Some base \<Rightarrow>
          Value (\<lparr>m_process = process, m_tid = next_tid, m_name = replicate 32 (CHR 0x00),
                  m_regs = zero_frame\<lparr>rsp := base + kStackSize\<rparr>, m_kernel_stack = base,
                  m_state = Ready, m_mlfq_level = 0, m_ticks_remaining = 5, m_total_ticks = 0,
                  m_pending_signals = 0, m_blocked_signals = 0, wait_channel = 0\<rparr>,
                 next_tid + 1))"

fun SetName_loop :: "nat \<Rightarrow> char list \<Rightarrow> char list \<Rightarrow> char list" where
  "SetName_loop i [] buf = buf[i := CHR 0x00]"
| "SetName_loop i (c # str) buf =
     (if i < 31 \<and> c \<noteq> CHR 0x00 then SetName_loop (Suc i) str (buf[i := c])
      else buf[i := CHR 0x00])"

definition SetName :: "char list option \<Rightarrow> thread \<Rightarrow> thread" where
  "SetName name t =
     (case name of
        None \<Rightarrow> t\<lparr>m_name := (m_name t)[0 := CHR 0x00]\<rparr>
      | Some str \<Rightarrow> t\<lparr>m_name := SetName_loop 0 str (m_name t)\<rparr>)"

definition ConsumeOneTick :: "thread \<Rightarrow> bool \<times> thread" where
  "ConsumeOneTick t =
     (let left = m_ticks_remaining t - 1 in (left \<le> 0, t\<lparr>m_ticks_remaining := left\<rparr>))"

section \<open>Initial kernel stacks\<close>

type_synonym kmem = "addr \<Rightarrow> u64"

definition push64 :: "u64 \<Rightarrow> kmem \<times> addr \<Rightarrow> kmem \<times> addr" where
  "push64 v ms = (case ms of (m, sp) \<Rightarrow> (m(sp - 8 := v), sp - 8))"

fun push_all :: "u64 list \<Rightarrow> kmem \<times> addr \<Rightarrow> kmem \<times> addr" where
  "push_all [] ms = ms"
| "push_all (v # vs) ms = push_all vs (push64 v ms)"

definition InitializeStack :: "addr \<Rightarrow> addr \<Rightarrow> u64 \<Rightarrow> u64 \<Rightarrow> thread \<Rightarrow> kmem \<Rightarrow> thread \<times> kmem" where
  "InitializeStack ThreadTrampoline this entry_point arg t m =
     (let (m', sp) = push_all [ThreadTrampoline, 0, 0, entry_point, arg, this, 0] (m, rsp (m_regs t))
      in (t\<lparr>m_regs := (m_regs t)\<lparr>rsp := sp\<rparr>\<rparr>, m'))"

definition InitializeUserStack :: "addr \<Rightarrow> u64 \<Rightarrow> u64 \<Rightarrow> thread \<Rightarrow> kmem \<Rightarrow> thread \<times> kmem" where
  "InitializeUserStack UserspaceTrampoline user_rip user_rsp t m =
     (let (m', sp) = push_all [UserspaceTrampoline, 0, 0, user_rip, user_rsp, 0, 0] (m, rsp (m_regs t))
      in (t\<lparr>m_regs := (m_regs t)\<lparr>rsp := sp\<rparr>\<rparr>, m'))"

definition InitializeForkStack :: "addr \<Rightarrow> InterruptFrame \<Rightarrow> thread \<Rightarrow> kmem \<Rightarrow> thread \<times> kmem" where
  "InitializeForkStack ForkReturn f t m =
     (let (m', sp) =
        push_all [ss f, rsp f, rflags f, cs f, rip f, 0, 0, 0, rbx f, rcx f, rdx f, rsi f, rdi f,
                  rbp f, r8 f, r9 f, r10 f, r11 f, r12 f, r13 f, r14 f, r15 f,
                  ForkReturn, 0, 0, 0, 0, 0, 0] (m, m_kernel_stack t + kStackSize)
      in (t\<lparr>m_regs := (m_regs t)\<lparr>rsp := sp\<rparr>\<rparr>, m'))"

text \<open>
  The consumers of those images in \<open>Switch.asm\<close>: \<open>SwitchContext\<close> pops r15, r14, r13, r12,
  rbx, rbp and returns to the next slot; \<open>ForkReturn\<close> pops the general registers, skips two
  slots and \<open>iretq\<close>s through the five that remain.
\<close>

definition SwitchContext_pops :: "kmem \<Rightarrow> addr \<Rightarrow> u64 list \<times> addr" where
  "SwitchContext_pops m sp = (map (\<lambda>i. m (sp + 8 * of_nat i)) [0..<7], sp + 56)"

definition ForkReturn_frame :: "kmem \<Rightarrow> addr \<Rightarrow> InterruptFrame" where
  "ForkReturn_frame m sp =
     (let at = (\<lambda>i. m (sp + 8 * i)) in
      \<lparr>r15 = at 0, r14 = at 1, r13 = at 2, r12 = at 3, r11 = at 4, r10 = at 5, r9 = at 6, r8 = at 7,
       rbp = at 8, rdi = at 9, rsi = at 10, rdx = at 11, rcx = at 12, rbx = at 13, rax = at 14,
       interrupt_number = at 15, error_code = at 16,
       rip = at 17, cs = at 18, rflags = at 19, rsp = at 20, ss = at 21\<rparr>)"

text \<open>
  The landing sites of new threads, from what \<open>SwitchContext\<close> popped: \<open>ThreadTrampoline\<close> enables interrupts and calls the function
  with its argument (the thread is the argument of \<open>ThreadDestroy\<close> should the function return), \<open>UserspaceTrampoline\<close> clears the registers it did
  not use and leaves for user mode through \<open>iretq\<close>.
\<close>

definition ThreadTrampoline_call :: "u64 list \<Rightarrow> u64 \<times> u64 \<times> u64" where
  "ThreadTrampoline_call regs = (regs ! 3, regs ! 2, regs ! 1)"

definition UserspaceTrampoline_frame :: "u64 list \<Rightarrow> InterruptFrame" where
  "UserspaceTrampoline_frame regs =
     zero_frame\<lparr>r15 := regs ! 0, r14 := regs ! 1, r13 := regs ! 2, r12 := regs ! 3,
       rip := regs ! 3, cs := 0x23, rflags := 0x202, rsp := regs ! 2, ss := 0x1B\<rparr>"

section \<open>Lemmas\<close>

lemma SetName_loop_eq:
  assumes "i \<le> 31" and "length buf = 32"
  shows "SetName_loop i str buf =
    (let p = take (31 - i) (takeWhile (\<lambda>c. c \<noteq> CHR 0x00) str)
     in take i buf @ p @ CHR 0x00 # drop (Suc (i + length p)) buf)"
  using assms
proof (induction i str buf rule: SetName_loop.induct)
  case (1 i buf)
  then show ?case by (simp add: upd_conv_take_nth_drop)
next
  case (2 i c str buf)
  show ?case
  proof (cases "i < 31 \<and> c \<noteq> CHR 0x00")
    case True
    then have "take (31 - i) (takeWhile (\<lambda>c. c \<noteq> CHR 0x00) (c # str)) =
        c # take (31 - Suc i) (takeWhile (\<lambda>c. c \<noteq> CHR 0x00) str)"
      by (simp add: take_Cons' )
    with True 2 show ?thesis
      by (simp add: Let_def take_Suc_conv_app_nth)
  next
    case False
    with 2 show ?thesis
      by (auto simp: upd_conv_take_nth_drop Let_def not_less)
  qed
qed

text \<open>A thread name is the given string cut at 31 characters, and always terminated.\<close>

lemma SetName_prefix:
  assumes "length (m_name t) = 32"
  shows "takeWhile (\<lambda>c. c \<noteq> CHR 0x00) (m_name (SetName (Some str) t))
      = take 31 (takeWhile (\<lambda>c. c \<noteq> CHR 0x00) str)"
    and "length (m_name (SetName (Some str) t)) = 32"
proof -
  define w where "w = take 31 (takeWhile (\<lambda>c. c \<noteq> CHR 0x00) str)"
  have len: "length w \<le> 31" by (simp add: w_def)
  have eq: "m_name (SetName (Some str) t) = w @ CHR 0x00 # drop (Suc (length w)) (m_name t)"
    using SetName_loop_eq [OF le0 assms, of str] unfolding SetName_def w_def Let_def by simp
  have "\<And>c. c \<in> set w \<Longrightarrow> c \<noteq> CHR 0x00"
    unfolding w_def by (blast dest: in_set_takeD set_takeWhileD)
  then have "takeWhile (\<lambda>c. c \<noteq> CHR 0x00) (w @ CHR 0x00 # drop (Suc (length w)) (m_name t)) = w"
    by (subst takeWhile_append2) simp_all
  then show "takeWhile (\<lambda>c. c \<noteq> CHR 0x00) (m_name (SetName (Some str) t)) = take 31 (takeWhile (\<lambda>c. c \<noteq> CHR 0x00) str)"
    unfolding eq w_def .
  show "length (m_name (SetName (Some str) t)) = 32"
    unfolding eq using len assms by simp
qed

section \<open>Properties\<close>

text \<open>
  C5: A forked child resumes in its parent's user context. The kernel stack image that
  \<open>InitializeForkStack\<close> builds is consumed by \<open>SwitchContext\<close> (six zeroed callee-saved
  registers, return address \<open>ForkReturn\<close>) and then by \<open>ForkReturn\<close>, which reads back the
  parent's frame with \<open>rax = 0\<close> and cleared metadata; the image ends exactly at the top of
  the 32 KiB stack.
\<close>

theorem fork_stack_roundtrip:
  "case InitializeForkStack ForkReturn f t m of (t', m') \<Rightarrow>
     (case SwitchContext_pops m' (rsp (m_regs t')) of (regs, sp) \<Rightarrow>
        regs = [0, 0, 0, 0, 0, 0, ForkReturn] \<and>
        ForkReturn_frame m' sp = f\<lparr>rax := 0, interrupt_number := 0, error_code := 0\<rparr> \<and>
        sp + 22 * 8 = m_kernel_stack t + kStackSize)"
  by (simp add: InitializeForkStack_def SwitchContext_pops_def ForkReturn_frame_def push64_def
      Let_def upt_rec)

text \<open>
  New threads start where they were told to. \<open>SwitchContext\<close> pops the image of \<open>InitializeUserStack\<close> and returns into \<open>UserspaceTrampoline\<close>, which enters
  user mode at the given address with the given stack pointer, interrupts on, and no register that holds anything but these two values; the
  image of \<open>InitializeStack\<close> makes \<open>ThreadTrampoline\<close> call the given function with its argument. Both leave the stack pointer where the
  constructor had put it.
\<close>

theorem user_stack_roundtrip:
  "case InitializeUserStack Trampoline user_rip user_rsp t m of (t', m') \<Rightarrow>
     (case SwitchContext_pops m' (rsp (m_regs t')) of (regs, sp) \<Rightarrow>
        regs ! 6 = Trampoline \<and> sp = rsp (m_regs t) \<and>
        UserspaceTrampoline_frame regs = zero_frame\<lparr>r13 := user_rsp, r12 := user_rip, rip := user_rip, cs := 0x23, rflags := 0x202, rsp := user_rsp, ss := 0x1B\<rparr>)"
  by (simp add: InitializeUserStack_def SwitchContext_pops_def UserspaceTrampoline_frame_def push64_def Let_def upt_rec zero_frame_def)

theorem kernel_stack_roundtrip:
  "case InitializeStack Trampoline this entry_point arg t m of (t', m') \<Rightarrow>
     (case SwitchContext_pops m' (rsp (m_regs t')) of (regs, sp) \<Rightarrow>
        regs ! 6 = Trampoline \<and> sp = rsp (m_regs t) \<and> ThreadTrampoline_call regs = (entry_point, arg, this))"
  by (simp add: InitializeStack_def SwitchContext_pops_def ThreadTrampoline_call_def push64_def Let_def upt_rec)

end
