(* ===== verification/Scheduler.thy ===== *)
theory Scheduler
  imports Threads
begin

text \<open>
  The multi-level feedback queue scheduler (\<open>include/ceryx/proc/Scheduler.hpp\<close>,
  \<open>arch/x86_64/proc/Scheduler.cpp\<close>) and the reaper (\<open>arch/x86_64/proc/Reaper.cpp\<close>).

  A thread is named by its address; \<open>threads\<close> is the heap of thread objects. The record
  \<open>sched\<close> gathers the statics of the scheduler (\<open>queues\<close>, \<open>g_wait_queue\<close>, \<open>s_tick_counter\<close>),
  the reaper's statics, \<open>Thread::s_next_tid\<close>, the fields of \<open>CpuData\<close> they use, and the CPU
  registers a switch writes (\<open>cr3\<close>, the TSS stack, the kernel stack pointer \<open>cpu_rsp\<close>). An
  intrusive list is the list of the threads whose nodes it links. Each operation runs
  under \<open>s_lock\<close> with interrupts off, so it is one atomic step.

  \<open>root_of\<close>, an argument of the operations that switch, gives the page-table root of a
  process, or the kernel's own root for a thread without a process.
\<close>

section \<open>State\<close>

record sched =
  threads :: "addr \<rightharpoonup> thread"
  s_next_tid :: u64
  queues :: "addr list list"
  g_wait_queue :: "addr list"
  s_tick_counter :: u64
  current_thread :: "addr option"
  idle_thread :: "addr option"
  kernel_stack :: u64
  tss_rsp0 :: u64
  cr3 :: u64
  cpu_rsp :: u64
  reaper_thread :: "addr option"
  dead_list :: "addr list"

definition kNumLevels :: nat where
  "kNumLevels = 3"

definition kQuantum :: "int list" where
  "kQuantum = [5, 10, 20]"

definition kBoostInterval :: u64 where
  "kBoostInterval = 100"

definition null_thread :: thread where
  "null_thread = \<lparr>m_process = None, m_tid = 0, m_name = [], m_regs = zero_frame, m_kernel_stack = 0,
     m_state = Terminated, m_mlfq_level = 0, m_ticks_remaining = 0, m_total_ticks = 0,
     m_pending_signals = 0, m_blocked_signals = 0, wait_channel = 0\<rparr>"

definition thr :: "sched \<Rightarrow> addr \<Rightarrow> thread" where
  "thr s t = (case threads s t of Some th \<Rightarrow> th | None \<Rightarrow> null_thread)"

definition upd_thread :: "addr \<Rightarrow> (thread \<Rightarrow> thread) \<Rightarrow> sched \<Rightarrow> sched" where
  "upd_thread t f s = s\<lparr>threads := (threads s)(t := map_option f (threads s t))\<rparr>"

definition push_back :: "nat \<Rightarrow> addr \<Rightarrow> sched \<Rightarrow> sched" where
  "push_back i t s = s\<lparr>queues := (queues s)[i := queues s ! i @ [t]]\<rparr>"

section \<open>MlfqImpl\<close>

definition Mlfq_Push :: "addr \<Rightarrow> sched \<Rightarrow> sched" where
  "Mlfq_Push t s =
     (let lvl = m_mlfq_level (thr s t);
          lvl = (if lvl < 0 then 0 else lvl);
          lvl = (if lvl \<ge> int kNumLevels then int kNumLevels - 1 else lvl)
      in push_back (nat lvl) t s)"

fun pop_first :: "addr list list \<Rightarrow> (addr \<times> addr list list) option" where
  "pop_first [] = None"
| "pop_first ([] # qs) = map_option (\<lambda>(t, qs'). (t, [] # qs')) (pop_first qs)"
| "pop_first ((t # ts) # qs) = Some (t, ts # qs)"

definition Mlfq_PopBest :: "sched \<Rightarrow> addr option \<times> sched" where
  "Mlfq_PopBest s =
     (case pop_first (queues s) of
        None \<Rightarrow> (None, s)
      | Some (t, qs) \<Rightarrow> (Some t, s\<lparr>queues := qs\<rparr>))"

definition Mlfq_Empty :: "sched \<Rightarrow> bool" where
  "Mlfq_Empty s = list_all (\<lambda>q. q = []) (queues s)"

text \<open>The inner loop of \<open>Boost\<close>: pop level \<open>i\<close> until it is empty; \<open>ts\<close> is what level \<open>i\<close> holds.\<close>

fun Boost_level :: "nat \<Rightarrow> addr list \<Rightarrow> sched \<Rightarrow> sched" where
  "Boost_level i [] s = s"
| "Boost_level i (t # ts) s =
     Boost_level i ts
       (push_back 0 t
         (upd_thread t (\<lambda>th. th\<lparr>m_mlfq_level := 0, m_ticks_remaining := kQuantum ! 0\<rparr>)
           (s\<lparr>queues := (queues s)[i := ts]\<rparr>)))"

definition Mlfq_Boost :: "sched \<Rightarrow> sched" where
  "Mlfq_Boost s = fold (\<lambda>i s. Boost_level i (queues s ! i) s) [1..<kNumLevels] s"

section \<open>Scheduler\<close>

definition GetCurrentThread :: "sched \<Rightarrow> addr option" where
  "GetCurrentThread s = current_thread s"

text \<open>
  \<open>SwitchContext\<close> (\<open>Switch.asm\<close>): its call pushes the return address and it pushes six registers,
  saves the stack pointer in the previous thread (a dummy variable when there is none), loads
  the next thread's and pops as much.
\<close>

definition SwitchContext :: "addr option \<Rightarrow> u64 \<Rightarrow> sched \<Rightarrow> sched" where
  "SwitchContext prev next_stack s =
     (case prev of
        Some p \<Rightarrow> upd_thread p (\<lambda>th. th\<lparr>m_regs := (m_regs th)\<lparr>rsp := cpu_rsp s - 56\<rparr>\<rparr>) s
      | None \<Rightarrow> s)\<lparr>cpu_rsp := next_stack + 56\<rparr>"

definition PerformSwitch :: "(addr option \<Rightarrow> u64) \<Rightarrow> addr option \<Rightarrow> addr \<Rightarrow> sched \<Rightarrow> sched" where
  "PerformSwitch root_of prev next s =
     (let s = upd_thread next (\<lambda>th. th\<lparr>m_state := Running\<rparr>) (s\<lparr>current_thread := Some next\<rparr>);
          stack_top = m_kernel_stack (thr s next) + kStackSize;
          s = s\<lparr>tss_rsp0 := stack_top, kernel_stack := stack_top\<rparr>;
          root_pa = root_of (m_process (thr s next));
          s = (if cr3 s \<noteq> root_pa then s\<lparr>cr3 := root_pa\<rparr> else s)
      in SwitchContext prev (rsp (m_regs (thr s next))) s)"

definition ScheduleLocked :: "(addr option \<Rightarrow> u64) \<Rightarrow> sched \<Rightarrow> sched" where
  "ScheduleLocked root_of s =
     (let prev = current_thread s;
          (best, s) = Mlfq_PopBest s;
          next = (case best of Some t \<Rightarrow> Some t | None \<Rightarrow> idle_thread s)
      in case next of
           None \<Rightarrow> s
         | Some n \<Rightarrow> if next = prev then s else PerformSwitch root_of prev n s)"

definition AddThread :: "addr \<Rightarrow> int \<Rightarrow> sched \<Rightarrow> sched expected" where
  "AddThread t level s =
     (if level < 0 \<or> level \<ge> int kNumLevels then Bug
      else Value (push_back (nat level) t
             (upd_thread t (\<lambda>th. th\<lparr>m_mlfq_level := level, m_ticks_remaining := kQuantum ! nat level,
                                     m_state := Ready\<rparr>) s)))"

definition BoostAll :: "sched \<Rightarrow> sched" where
  "BoostAll s = Mlfq_Boost s"

definition Tick :: "(addr option \<Rightarrow> u64) \<Rightarrow> sched \<Rightarrow> sched" where
  "Tick root_of s =
     (let s = s\<lparr>s_tick_counter := s_tick_counter s + 1\<rparr>;
          s = (if s_tick_counter s mod kBoostInterval = 0 then BoostAll s else s)
      in case current_thread s of
           Some cur \<Rightarrow>
             if Some cur \<noteq> idle_thread s then
               (let s = upd_thread cur (\<lambda>th. th\<lparr>m_total_ticks := m_total_ticks th + 1\<rparr>) s;
                    (expired, th) = ConsumeOneTick (thr s cur);
                    s = upd_thread cur (\<lambda>_. th) s
                in if expired then
                     (let new_level = m_mlfq_level (thr s cur) + 1;
                          new_level = (if new_level \<ge> int kNumLevels then int kNumLevels - 1 else new_level);
                          s = upd_thread cur (\<lambda>th. th\<lparr>m_mlfq_level := new_level,
                                 m_ticks_remaining := kQuantum ! nat new_level, m_state := Ready\<rparr>) s
                      in ScheduleLocked root_of (push_back (nat new_level) cur s))
                   else s)
             else if \<not> Mlfq_Empty s then ScheduleLocked root_of s else s
         | None \<Rightarrow> if \<not> Mlfq_Empty s then ScheduleLocked root_of s else s)"

definition Yield :: "(addr option \<Rightarrow> u64) \<Rightarrow> sched \<Rightarrow> sched" where
  "Yield root_of s =
     (let s = (case current_thread s of
                 Some cur \<Rightarrow>
                   if Some cur \<noteq> idle_thread s \<and> m_state (thr s cur) = Running then
                     (let lvl = m_mlfq_level (thr s cur) in
                      push_back (nat lvl) cur
                        (upd_thread cur (\<lambda>th. th\<lparr>m_state := Ready, m_ticks_remaining := kQuantum ! nat lvl\<rparr>) s))
                   else s
               | None \<Rightarrow> s)
      in ScheduleLocked root_of s)"

definition Block :: "(addr option \<Rightarrow> u64) \<Rightarrow> addr \<Rightarrow> sched \<Rightarrow> sched" where
  "Block root_of channel s =
     (case GetCurrentThread s of
        None \<Rightarrow> s
      | Some t \<Rightarrow>
          ScheduleLocked root_of
            ((upd_thread t (\<lambda>th. th\<lparr>m_state := Blocked, wait_channel := channel\<rparr>) s)
               \<lparr>g_wait_queue := g_wait_queue s @ [t]\<rparr>))"

definition wake_thread :: "addr \<Rightarrow> sched \<Rightarrow> sched" where
  "wake_thread t s =
     (let lvl = m_mlfq_level (thr s t) in
      push_back (nat lvl) t
        (upd_thread t (\<lambda>th. th\<lparr>wait_channel := 0, m_state := Ready, m_ticks_remaining := kQuantum ! nat lvl\<rparr>)
          (s\<lparr>g_wait_queue := remove1 t (g_wait_queue s)\<rparr>)))"

fun Wake_loop :: "addr \<Rightarrow> bool \<Rightarrow> addr list \<Rightarrow> sched \<Rightarrow> sched" where
  "Wake_loop channel wake_all [] s = s"
| "Wake_loop channel wake_all (t # ts) s =
     (if wait_channel (thr s t) = channel
      then (if wake_all then Wake_loop channel wake_all ts (wake_thread t s) else wake_thread t s)
      else Wake_loop channel wake_all ts s)"

definition Wake :: "addr \<Rightarrow> bool \<Rightarrow> sched \<Rightarrow> sched" where
  "Wake channel wake_all s = Wake_loop channel wake_all (g_wait_queue s) s"

text \<open>
  \<open>Start\<close> creates the idle thread (at address \<open>idle\<close>, its constructed object \<open>th\<close> coming from
  \<open>Thread_new\<close> and \<open>InitializeStack\<close>) and makes it current. \<open>Reaper::Initialize\<close> follows.
\<close>

definition Start :: "addr \<Rightarrow> thread \<Rightarrow> sched \<Rightarrow> sched" where
  "Start idle th s =
     (let th = th\<lparr>m_state := Running, m_mlfq_level := int kNumLevels - 1\<rparr>;
          stack_top = m_kernel_stack th + kStackSize
      in s\<lparr>threads := (threads s)(idle \<mapsto> th), idle_thread := Some idle, current_thread := Some idle,
           tss_rsp0 := stack_top, kernel_stack := stack_top\<rparr>)"

section \<open>Reaper\<close>

definition Reaper_Initialize :: "addr \<Rightarrow> thread \<Rightarrow> sched \<Rightarrow> sched expected" where
  "Reaper_Initialize t th s =
     AddThread t (int kNumLevels - 1) (s\<lparr>threads := (threads s)(t \<mapsto> th), reaper_thread := Some t\<rparr>)"

definition Reaper_Enqueue :: "addr \<Rightarrow> sched \<Rightarrow> sched expected" where
  "Reaper_Enqueue t s =
     (if reaper_thread s = Some t then Bug
      else if m_state (thr s t) \<noteq> Terminated then Bug
      else Value (s\<lparr>dead_list := dead_list s @ [t]\<rparr>))"

text \<open>One pass of \<open>Reaper::ThreadFunc\<close>: move the dead list away, delete every thread, yield.\<close>

definition delete_threads :: "addr list \<Rightarrow> sched \<Rightarrow> sched" where
  "delete_threads ts s = fold (\<lambda>t s. s\<lparr>threads := (threads s)(t := None)\<rparr>) ts s"

definition Reaper_pass :: "(addr option \<Rightarrow> u64) \<Rightarrow> sched \<Rightarrow> sched" where
  "Reaper_pass root_of s =
     (let local_dead = dead_list s in
      Yield root_of (delete_threads local_dead (s\<lparr>dead_list := []\<rparr>)))"

section \<open>The ready queue interface\<close>

text \<open>
  What the scheduler relies on of \<open>MlfqImpl\<close>: it holds threads in a service order \<open>elems\<close>;
  a pop takes the first, a push adds one, \<open>Empty\<close> tells whether there is one.
\<close>

locale ready_queue =
  fixes elems :: "'s \<Rightarrow> 'a list"
    and push :: "'a \<Rightarrow> 's \<Rightarrow> 's"
    and pop :: "'s \<Rightarrow> 'a option \<times> 's"
    and is_empty :: "'s \<Rightarrow> bool"
    and invar :: "'s \<Rightarrow> bool"
  assumes pop_nil: "elems s = [] \<Longrightarrow> pop s = (None, s)"
    and pop_cons: "elems s = t # ts \<Longrightarrow> \<exists>s'. pop s = (Some t, s') \<and> elems s' = ts \<and> invar s' = invar s"
    and is_empty_iff: "is_empty s \<longleftrightarrow> elems s = []"
    and push_elems: "invar s \<Longrightarrow> mset (elems (push t s)) = add_mset t (mset (elems s))"
    and push_invar: "invar s \<Longrightarrow> invar (push t s)"
begin

fun drain :: "nat \<Rightarrow> 's \<Rightarrow> 'a list \<times> 's" where
  "drain 0 s = ([], s)"
| "drain (Suc n) s =
     (case pop s of
        (None, s') \<Rightarrow> ([], s')
      | (Some t, s') \<Rightarrow> (case drain n s' of (ts, s'') \<Rightarrow> (t # ts, s'')))"

lemma drain_take: "fst (drain n s) = take n (elems s)"
proof (induction n arbitrary: s)
  case 0
  then show ?case by simp
next
  case (Suc n)
  show ?case
  proof (cases "elems s")
    case Nil
    then show ?thesis by (simp add: pop_nil)
  next
    case (Cons t ts)
    then obtain s' where "pop s = (Some t, s')" "elems s' = ts"
      using pop_cons by blast
    with Suc.IH [of s'] Cons show ?thesis by (cases "drain n s'") simp
  qed
qed

lemma drain_all: "length (elems s) \<le> n \<Longrightarrow> fst (drain n s) = elems s"
  by (simp add: drain_take)

lemma pop_SomeD:
  assumes "pop s = (Some t, s')"
  shows "elems s = t # elems s' \<and> invar s' = invar s"
proof (cases "elems s")
  case Nil
  with pop_nil [of s] assms show ?thesis by simp
next
  case (Cons u us)
  with pop_cons [OF Cons] assms show ?thesis by auto
qed

lemma pop_NoneD: "pop s = (None, s') \<Longrightarrow> elems s = [] \<and> s' = s"
  using pop_nil [of s] pop_cons [of s] by (cases "elems s") auto

lemma push_not_empty: "invar s \<Longrightarrow> \<not> is_empty (push t s)"
  using push_elems [of s t] by (auto simp: is_empty_iff)

end

definition ready :: "sched \<Rightarrow> addr list" where
  "ready s = concat (queues s)"

definition three_levels :: "sched \<Rightarrow> bool" where
  "three_levels s \<longleftrightarrow> length (queues s) = kNumLevels"

lemma pop_first_None: "pop_first qs = None \<longleftrightarrow> concat qs = []"
  by (induction qs rule: pop_first.induct) auto

lemma pop_first_Some:
  "pop_first qs = Some (t, qs') \<Longrightarrow> concat qs = t # concat qs' \<and> length qs' = length qs"
  by (induction qs arbitrary: qs' rule: pop_first.induct) auto

lemma PopBest_cons:
  assumes "ready s = t # ts"
  shows "\<exists>s'. Mlfq_PopBest s = (Some t, s') \<and> ready s' = ts \<and> three_levels s' = three_levels s"
proof -
  from assms have "pop_first (queues s) \<noteq> None"
    by (simp only: pop_first_None ready_def) simp
  then obtain u qs where qs: "pop_first (queues s) = Some (u, qs)" by auto
  with pop_first_Some [OF qs] assms show ?thesis
    by (simp add: Mlfq_PopBest_def ready_def three_levels_def)
qed

interpretation mlfq: ready_queue ready Mlfq_Push Mlfq_PopBest Mlfq_Empty three_levels
proof unfold_locales
  show "ready s = [] \<Longrightarrow> Mlfq_PopBest s = (None, s)" for s
    using pop_first_None [of "queues s"] by (simp only: Mlfq_PopBest_def ready_def) simp
  show "ready s = t # ts \<Longrightarrow> \<exists>s'. Mlfq_PopBest s = (Some t, s') \<and> ready s' = ts \<and> three_levels s' = three_levels s"
    for s t ts by (rule PopBest_cons)
  show "Mlfq_Empty s \<longleftrightarrow> ready s = []" for s
    by (auto simp: Mlfq_Empty_def ready_def list_all_iff)
  show "three_levels s \<Longrightarrow> mset (ready (Mlfq_Push t s)) = add_mset t (mset (ready s))" for s t
    by (auto simp: Mlfq_Push_def Let_def push_back_def ready_def three_levels_def kNumLevels_def
        intro!: mset_concat_snoc)
  show "three_levels s \<Longrightarrow> three_levels (Mlfq_Push t s)" for s t
    by (simp add: Mlfq_Push_def Let_def push_back_def three_levels_def)
qed

section \<open>Well-formed scheduler states\<close>

definition thread_ok :: "thread \<Rightarrow> bool" where
  "thread_ok th \<longleftrightarrow> 0 \<le> m_mlfq_level th \<and> m_mlfq_level th < int kNumLevels \<and>
     1 \<le> m_ticks_remaining th \<and> m_ticks_remaining th \<le> kQuantum ! nat (m_mlfq_level th)"

text \<open>
  \<open>queues_wf\<close>: three levels; no thread is linked twice; a thread in level \<open>i\<close> is Ready and has
  MLFQ level \<open>i\<close>; a thread in the wait queue is Blocked; levels and quanta are in range.
  \<open>off s t\<close>: thread \<open>t\<close> exists and neither its run node nor its wait node is linked.
\<close>

definition queues_wf :: "sched \<Rightarrow> bool" where
  "queues_wf s \<longleftrightarrow> three_levels s \<and> distinct (ready s) \<and>
     (\<forall>i < kNumLevels. \<forall>t \<in> set (queues s ! i). \<exists>th. threads s t = Some th \<and>
        m_state th = Ready \<and> m_mlfq_level th = int i) \<and>
     distinct (g_wait_queue s) \<and>
     (\<forall>t \<in> set (g_wait_queue s). \<exists>th. threads s t = Some th \<and> m_state th = Blocked) \<and>
     (\<forall>t th. threads s t = Some th \<longrightarrow> thread_ok th)"

definition off :: "sched \<Rightarrow> addr \<Rightarrow> bool" where
  "off s t \<longleftrightarrow> threads s t \<noteq> None \<and> t \<notin> set (ready s) \<and> t \<notin> set (g_wait_queue s)"

definition sched_wf :: "sched \<Rightarrow> bool" where
  "sched_wf s \<longleftrightarrow> queues_wf s \<and> (\<exists>i. idle_thread s = Some i \<and> off s i) \<and>
     (\<forall>c. current_thread s = Some c \<longrightarrow> off s c)"

subsection \<open>Frame facts of the primitives\<close>

lemma upd_thread_simps [simp]:
  "queues (upd_thread t f s) = queues s"
  "ready (upd_thread t f s) = ready s"
  "three_levels (upd_thread t f s) = three_levels s"
  "g_wait_queue (upd_thread t f s) = g_wait_queue s"
  "current_thread (upd_thread t f s) = current_thread s"
  "idle_thread (upd_thread t f s) = idle_thread s"
  "s_tick_counter (upd_thread t f s) = s_tick_counter s"
  "dead_list (upd_thread t f s) = dead_list s"
  "cpu_rsp (upd_thread t f s) = cpu_rsp s"
  "reaper_thread (upd_thread t f s) = reaper_thread s"
  "threads (upd_thread t f s) = (threads s)(t := map_option f (threads s t))"
  by (simp_all add: upd_thread_def ready_def three_levels_def)

lemma push_back_simps [simp]:
  "threads (push_back i t s) = threads s"
  "g_wait_queue (push_back i t s) = g_wait_queue s"
  "current_thread (push_back i t s) = current_thread s"
  "idle_thread (push_back i t s) = idle_thread s"
  "s_tick_counter (push_back i t s) = s_tick_counter s"
  "dead_list (push_back i t s) = dead_list s"
  "cpu_rsp (push_back i t s) = cpu_rsp s"
  "reaper_thread (push_back i t s) = reaper_thread s"
  "three_levels (push_back i t s) = three_levels s"
  "thr (push_back i t s) = thr s"
  by (simp_all add: push_back_def three_levels_def thr_def fun_eq_iff)

lemma thr_upd_thread [simp]:
  "thr (upd_thread t f s) u = (if u = t \<and> threads s t \<noteq> None then f (thr s t) else thr s u)"
  by (auto simp: thr_def)

lemma thr_Some [simp]: "threads s t = Some th \<Longrightarrow> thr s t = th"
  by (simp add: thr_def)

lemma push_back_ready:
  "three_levels s \<Longrightarrow> i < kNumLevels \<Longrightarrow> set (ready (push_back i t s)) = insert t (set (ready s))"
  by (simp add: push_back_def ready_def three_levels_def set_concat_snoc del: set_concat)

lemma off_frame [simp]:
  "off (upd_thread t f s) u = off s u"
  by (simp add: off_def)

lemma off_push_back:
  "three_levels s \<Longrightarrow> i < kNumLevels \<Longrightarrow> off (push_back i t s) u \<longleftrightarrow> off s u \<and> u \<noteq> t"
  by (auto simp: off_def push_back_ready)

lemma ready_iff:
  "three_levels s \<Longrightarrow> t \<in> set (ready s) \<longleftrightarrow> (\<exists>i < kNumLevels. t \<in> set (queues s ! i))"
  by (auto simp: ready_def three_levels_def in_set_conv_nth) (metis nth_mem, metis nth_mem)

subsection \<open>Preservation by the primitives\<close>

lemma queues_wf_three: "queues_wf s \<Longrightarrow> three_levels s"
  by (simp add: queues_wf_def)

lemma queues_wf_thread_ok: "queues_wf s \<Longrightarrow> threads s t = Some th \<Longrightarrow> thread_ok th"
  by (simp add: queues_wf_def)

lemma queues_wf_upd_off:
  assumes "queues_wf s" and "off s t" and "thread_ok (f (thr s t))"
  shows "queues_wf (upd_thread t f s)"
  using assms unfolding queues_wf_def by (auto simp: off_def ready_iff)

lemma queues_wf_upd_same:
  assumes "queues_wf s"
    and "\<And>th. m_state (f th) = m_state th" "\<And>th. m_mlfq_level (f th) = m_mlfq_level th"
      "\<And>th. m_ticks_remaining (f th) = m_ticks_remaining th"
  shows "queues_wf (upd_thread t f s)"
proof -
  have f: "m_state (f th) = m_state th" "m_mlfq_level (f th) = m_mlfq_level th"
    "thread_ok (f th) = thread_ok th" for th
    using assms(2-4) by (simp_all add: thread_ok_def)
  have "\<exists>th. threads (upd_thread t f s) u = Some th \<and> P (m_state th) (m_mlfq_level th)"
    if "\<exists>th. threads s u = Some th \<and> P (m_state th) (m_mlfq_level th)" for u P
    using that f by auto
  from this [where P = "\<lambda>st l. st = Ready \<and> l = _"] this [where P = "\<lambda>st _. st = Blocked"]
  have "\<forall>i < kNumLevels. \<forall>u \<in> set (queues s ! i). \<exists>th. threads (upd_thread t f s) u = Some th \<and>
        m_state th = Ready \<and> m_mlfq_level th = int i"
    "\<forall>u \<in> set (g_wait_queue s). \<exists>th. threads (upd_thread t f s) u = Some th \<and> m_state th = Blocked"
    using assms(1) unfolding queues_wf_def by blast+
  moreover have "thread_ok th" if "threads (upd_thread t f s) u = Some th" for u th
    using that assms(1) f(3) by (auto simp: queues_wf_def split: if_splits)
  ultimately show ?thesis
    using assms(1) unfolding queues_wf_def by simp
qed

lemma queues_wf_push_back:
  assumes "queues_wf s" and "off s t" and "m_state (thr s t) = Ready"
    and "m_mlfq_level (thr s t) = int i" and "i < kNumLevels"
  shows "queues_wf (push_back i t s)"
proof -
  have len: "i < length (queues s)" "length (queues s) = kNumLevels"
    using assms by (auto simp: queues_wf_def three_levels_def)
  have "distinct (ready (push_back i t s))"
    using assms(1,2) len by (simp add: push_back_def ready_def distinct_concat_snoc queues_wf_def off_def del: set_concat)
  moreover have "\<exists>th. threads s u = Some th \<and> m_state th = Ready \<and> m_mlfq_level th = int j"
    if "j < kNumLevels" "u \<in> set (queues (push_back i t s) ! j)" for j u
    using that assms len by (auto simp: push_back_def nth_snoc_update queues_wf_def off_def split: if_splits)
  ultimately show ?thesis
    using assms(1) unfolding queues_wf_def by simp
qed

lemma pop_first_subset:
  "pop_first qs = Some (t, qs') \<Longrightarrow> i < length qs \<Longrightarrow> set (qs' ! i) \<subseteq> set (qs ! i)"
proof (induction qs arbitrary: qs' i)
  case (Cons q qs)
  then show ?case by (cases q; cases i) fastforce+
qed simp

lemma PopBest_Some:
  assumes "queues_wf s" and "Mlfq_PopBest s = (Some t, s')"
  shows "queues_wf s'" and "off s' t" and "\<And>u. off s u \<Longrightarrow> off s' u"
    and "ready s = t # ready s'" and "threads s' = threads s" and "g_wait_queue s' = g_wait_queue s"
    and "current_thread s' = current_thread s" and "idle_thread s' = idle_thread s"
    and "m_state (thr s t) = Ready" and "dead_list s' = dead_list s" and "cpu_rsp s' = cpu_rsp s"
proof -
  from assms(2) obtain qs where qs: "pop_first (queues s) = Some (t, qs)" "s' = s\<lparr>queues := qs\<rparr>"
    by (auto simp: Mlfq_PopBest_def split: option.splits)
  show eqs: "threads s' = threads s" "g_wait_queue s' = g_wait_queue s"
    "current_thread s' = current_thread s" "idle_thread s' = idle_thread s"
    "dead_list s' = dead_list s" "cpu_rsp s' = cpu_rsp s"
    by (simp_all add: qs)
  show rd: "ready s = t # ready s'"
    using pop_first_Some [OF qs(1)] qs(2) by (simp add: ready_def)
  have t: "\<exists>th. threads s t = Some th \<and> m_state th = Ready"
  proof -
    have "t \<in> set (ready s)" using rd by simp
    then obtain i where "i < kNumLevels" "t \<in> set (queues s ! i)"
      using ready_iff [OF queues_wf_three [OF assms(1)]] by blast
    then show ?thesis using assms(1) unfolding queues_wf_def by blast
  qed
  then show st: "m_state (thr s t) = Ready" by auto
  have len: "length qs = kNumLevels" "length (queues s) = kNumLevels"
    using assms(1) pop_first_Some [OF qs(1)] by (auto simp: queues_wf_def three_levels_def)
  have "\<forall>i < kNumLevels. \<forall>u \<in> set (queues s' ! i). \<exists>th. threads s' u = Some th \<and>
        m_state th = Ready \<and> m_mlfq_level th = int i"
    using assms(1) pop_first_subset [OF qs(1)] len qs(2) unfolding queues_wf_def by (simp add: subset_iff)
  then show "queues_wf s'"
    using assms(1) rd len qs(2) eqs unfolding queues_wf_def three_levels_def by simp
  have "distinct (t # ready s')" using assms(1) rd by (simp add: queues_wf_def)
  moreover have "t \<notin> set (g_wait_queue s)"
    using assms(1) t by (auto simp: queues_wf_def)
  ultimately show "off s' t"
    using t eqs by (auto simp: off_def)
  show "off s u \<Longrightarrow> off s' u" for u
    using rd eqs by (auto simp: off_def)
qed

lemma PopBest_None: "Mlfq_PopBest s = (None, s') \<Longrightarrow> s' = s \<and> ready s = []"
  using mlfq.pop_NoneD by blast

lemma queues_wf_cong:
  "threads s' = threads s \<Longrightarrow> queues s' = queues s \<Longrightarrow> g_wait_queue s' = g_wait_queue s \<Longrightarrow>
     queues_wf s' = queues_wf s"
  by (simp add: queues_wf_def three_levels_def ready_def)

lemma off_cong:
  "threads s' = threads s \<Longrightarrow> queues s' = queues s \<Longrightarrow> g_wait_queue s' = g_wait_queue s \<Longrightarrow>
     off s' t = off s t"
  by (simp add: off_def ready_def)

lemma upd_thread_comp: "upd_thread t g (upd_thread t f s) = upd_thread t (\<lambda>th. g (f th)) s"
  by (simp add: upd_thread_def fun_eq_iff option.map_comp comp_def)

lemma SwitchContext_simps [simp]:
  "queues (SwitchContext p r s) = queues s"
  "g_wait_queue (SwitchContext p r s) = g_wait_queue s"
  "current_thread (SwitchContext p r s) = current_thread s"
  "idle_thread (SwitchContext p r s) = idle_thread s"
  "s_tick_counter (SwitchContext p r s) = s_tick_counter s"
  "dead_list (SwitchContext p r s) = dead_list s"
  "reaper_thread (SwitchContext p r s) = reaper_thread s"
  "cpu_rsp (SwitchContext p r s) = r + 56"
  by (simp_all add: SwitchContext_def split: option.split)

lemma PerformSwitch_simps [simp]:
  "queues (PerformSwitch root p n s) = queues s"
  "g_wait_queue (PerformSwitch root p n s) = g_wait_queue s"
  "current_thread (PerformSwitch root p n s) = Some n"
  "idle_thread (PerformSwitch root p n s) = idle_thread s"
  "s_tick_counter (PerformSwitch root p n s) = s_tick_counter s"
  "dead_list (PerformSwitch root p n s) = dead_list s"
  "reaper_thread (PerformSwitch root p n s) = reaper_thread s"
  by (simp_all add: PerformSwitch_def Let_def)

text \<open>The thread objects after a switch: the next one is Running, the previous one has its stack
  pointer saved; nothing else of any thread changes.\<close>

lemma PerformSwitch_threads:
  "threads (PerformSwitch root p n s) =
     (\<lambda>u. map_option (\<lambda>th. (if Some u = p then (\<lambda>th. th\<lparr>m_regs := (m_regs th)\<lparr>rsp := cpu_rsp s - 56\<rparr>\<rparr>) else id)
         ((if u = n then (\<lambda>th. th\<lparr>m_state := Running\<rparr>) else id) th)) (threads s u))"
  by (cases p)
    (auto simp: PerformSwitch_def SwitchContext_def Let_def fun_eq_iff upd_thread_def map_option_case
      split: option.splits)

lemma PerformSwitch_ready [simp]: "ready (PerformSwitch root p n s) = ready s"
  by (simp add: ready_def)

lemma PerformSwitch_off [simp]: "off (PerformSwitch root p n s) u = off s u"
  by (simp add: off_def PerformSwitch_threads)

lemma queues_wf_PerformSwitch:
  assumes "queues_wf s" and "off s n"
  shows "queues_wf (PerformSwitch root p n s)"
proof -
  let ?run = "upd_thread n (\<lambda>th. th\<lparr>m_state := Running\<rparr>) s"
  let ?save = "\<lambda>th. th\<lparr>m_regs := (m_regs th)\<lparr>rsp := cpu_rsp s - 56\<rparr>\<rparr>"
  obtain th where th: "threads s n = Some th" using assms(2) by (auto simp: off_def)
  have "thread_ok th" using queues_wf_thread_ok [OF assms(1) th] .
  then have wf: "queues_wf ?run"
    using th by (intro queues_wf_upd_off assms) (simp add: thread_ok_def)
  have eq: "threads (PerformSwitch root p n s) =
      threads (case p of None \<Rightarrow> ?run | Some q \<Rightarrow> upd_thread q ?save ?run)"
    by (auto simp: PerformSwitch_threads fun_eq_iff option.map_comp comp_def map_option_case split: option.splits)
  have "queues_wf (case p of None \<Rightarrow> ?run | Some q \<Rightarrow> upd_thread q ?save ?run)"
    using wf by (auto intro: queues_wf_upd_same split: option.split)
  then show ?thesis
    using queues_wf_cong [OF eq] by (simp split: option.splits)
qed

lemma sched_wfI:
  "queues_wf s \<Longrightarrow> idle_thread s = Some i \<Longrightarrow> off s i \<Longrightarrow>
     (\<And>c. current_thread s = Some c \<Longrightarrow> off s c) \<Longrightarrow> sched_wf s"
  by (auto simp: sched_wf_def)

text \<open>What \<open>ScheduleLocked\<close> picks: the first ready thread, or idle; it keeps the running thread if
  that is the one picked, and switches otherwise.\<close>

lemma ScheduleLocked_pick:
  assumes "queues_wf s" and "idle_thread s = Some i" and "off s i"
  obtains n s1 where
      "ScheduleLocked root s =
         (if current_thread s = Some n then s1 else PerformSwitch root (current_thread s) n s1)"
      "ready s = [] \<and> n = i \<or> ready s = n # ready s1"
      "queues_wf s1" "off s1 n" "\<And>u. off s u \<Longrightarrow> off s1 u" "\<And>u. off s1 u \<Longrightarrow> off s u \<or> u = n"
      "threads s1 = threads s" "current_thread s1 = current_thread s" "idle_thread s1 = idle_thread s"
proof (cases "Mlfq_PopBest s")
  case (Pair best s1)
  show ?thesis
  proof (cases best)
    case None
    with Pair PopBest_None have s1: "s1 = s" "ready s = []" by blast+
    show ?thesis
    proof (rule that [of i s])
      show "ScheduleLocked root s =
         (if current_thread s = Some i then s else PerformSwitch root (current_thread s) i s)"
        using assms(2) Pair None s1 by (auto simp: ScheduleLocked_def Let_def)
    qed (use assms s1 in simp_all)
  next
    case (Some t)
    note pop = PopBest_Some [OF assms(1) Pair [unfolded Some]]
    show ?thesis
    proof (rule that [of t s1])
      show "ScheduleLocked root s =
         (if current_thread s = Some t then s1 else PerformSwitch root (current_thread s) t s1)"
        using Pair Some by (auto simp: ScheduleLocked_def Let_def)
      show "off s u \<or> u = t" if "off s1 u" for u
        using that pop by (auto simp: off_def)
    qed (use pop in simp_all)
  qed
qed

lemma ScheduleLocked_wf:
  assumes "queues_wf s" and "idle_thread s = Some i" and "off s i"
  shows "sched_wf (ScheduleLocked root s)"
proof -
  obtain n s1 where pick: "ScheduleLocked root s =
        (if current_thread s = Some n then s1 else PerformSwitch root (current_thread s) n s1)"
      "ready s = [] \<and> n = i \<or> ready s = n # ready s1"
      "queues_wf s1" "off s1 n" "\<And>u. off s u \<Longrightarrow> off s1 u" "\<And>u. off s1 u \<Longrightarrow> off s u \<or> u = n"
      "threads s1 = threads s" "current_thread s1 = current_thread s" "idle_thread s1 = idle_thread s"
    by (rule ScheduleLocked_pick [OF assms(1-3), where root = root]) blast
  show ?thesis
  proof (cases "current_thread s = Some n")
    case True
    then show ?thesis using pick assms by (intro sched_wfI [of _ i]) auto
  next
    case False
    then show ?thesis using pick assms by (intro sched_wfI [of _ i]) (auto intro: queues_wf_PerformSwitch)
  qed
qed

subsection \<open>Threads that no queue holds\<close>

text \<open>A live thread is \<open>lost\<close> when nothing can ever run it again: it is in no queue and is neither
  the running nor the idle thread.\<close>

definition alive :: "thread \<Rightarrow> bool" where
  "alive th \<longleftrightarrow> m_state th \<noteq> Terminated \<and> m_state th \<noteq> Zombie"

definition lost :: "sched \<Rightarrow> addr \<Rightarrow> bool" where
  "lost s t \<longleftrightarrow> off s t \<and> alive (thr s t) \<and> current_thread s \<noteq> Some t \<and> idle_thread s \<noteq> Some t"

lemma thr_PerformSwitch_state:
  "u \<noteq> n \<Longrightarrow> alive (thr (PerformSwitch root p n s) u) = alive (thr s u)"
  by (auto simp: thr_def PerformSwitch_threads alive_def split: option.split)

lemma ScheduleLocked_lost:
  assumes "queues_wf s" and "idle_thread s = Some i" and "off s i"
    and cur: "\<And>c. current_thread s = Some c \<Longrightarrow> off s c \<Longrightarrow> c \<noteq> i \<Longrightarrow> \<not> alive (thr s c)"
    and lost: "lost (ScheduleLocked root s) t"
  shows "lost s t"
proof -
  obtain n s1 where pick: "ScheduleLocked root s =
        (if current_thread s = Some n then s1 else PerformSwitch root (current_thread s) n s1)"
      "ready s = [] \<and> n = i \<or> ready s = n # ready s1"
      "queues_wf s1" "off s1 n" "\<And>u. off s u \<Longrightarrow> off s1 u" "\<And>u. off s1 u \<Longrightarrow> off s u \<or> u = n"
      "threads s1 = threads s" "current_thread s1 = current_thread s" "idle_thread s1 = idle_thread s"
    by (rule ScheduleLocked_pick [OF assms(1-3), where root = root]) blast
  have thr: "thr s1 = thr s" using pick(7) by (simp add: thr_def fun_eq_iff)
  show ?thesis
  proof (cases "current_thread s = Some n")
    case True
    then show ?thesis using lost pick thr assms(2) by (auto simp: lost_def)
  next
    case False
    then have "t \<noteq> n" "off s1 t" "i \<noteq> t" using lost pick assms(2) by (auto simp: lost_def)
    moreover have "alive (thr s t)"
      using lost False pick(1) thr_PerformSwitch_state [OF \<open>t \<noteq> n\<close>] thr by (simp add: lost_def)
    ultimately show ?thesis
      using cur [of t] pick(6) [of t] assms(2) by (auto simp: lost_def)
  qed
qed

subsection \<open>Preservation by the operations\<close>

lemma requeue_wf:
  assumes "queues_wf s" and "off s t" and "0 \<le> m_mlfq_level (f (thr s t))"
    and "m_mlfq_level (f (thr s t)) < int kNumLevels"
    and "m_ticks_remaining (f (thr s t)) = kQuantum ! nat (m_mlfq_level (f (thr s t)))"
    and "m_state (f (thr s t)) = Ready"
  shows "queues_wf (push_back (nat (m_mlfq_level (f (thr s t)))) t (upd_thread t f s))"
proof -
  let ?l = "m_mlfq_level (f (thr s t))"
  have "?l = 0 \<or> ?l = 1 \<or> ?l = 2" using assms(3,4) by (auto simp: kNumLevels_def)
  then have "thread_ok (f (thr s t))"
    using assms(5) by (auto simp: thread_ok_def kQuantum_def kNumLevels_def)
  then have "queues_wf (upd_thread t f s)" by (intro queues_wf_upd_off assms)
  moreover have "threads s t \<noteq> None" using assms(2) by (simp add: off_def)
  ultimately show ?thesis
    using assms by (intro queues_wf_push_back) auto
qed

lemma thr_level:
  assumes "queues_wf s" and "off s t"
  shows "0 \<le> m_mlfq_level (thr s t)" "m_mlfq_level (thr s t) < int kNumLevels" "thread_ok (thr s t)"
proof -
  obtain th where "threads s t = Some th" using assms(2) by (auto simp: off_def)
  with queues_wf_thread_ok [OF assms(1)]
  show "0 \<le> m_mlfq_level (thr s t)" "m_mlfq_level (thr s t) < int kNumLevels" "thread_ok (thr s t)"
    by (auto simp: thread_ok_def)
qed

lemma requeue_off:
  assumes "queues_wf s" and "l < kNumLevels"
  shows "off (push_back l t (upd_thread t f s)) u \<longleftrightarrow> off s u \<and> u \<noteq> t"
  using assms by (simp add: off_push_back queues_wf_three)

lemma requeue_lost:
  assumes "queues_wf s" and "l < kNumLevels" and "off s t"
  shows "lost (push_back l t (upd_thread t f s)) u \<longleftrightarrow> lost s u \<and> u \<noteq> t"
  using requeue_off [OF assms(1,2)] by (auto simp: lost_def)

text \<open>A running thread is put back at the tail of a level, then the next one is scheduled: the
  common tail of \<open>Tick\<close> and \<open>Yield\<close>.\<close>

lemma requeue_schedule:
  assumes "sched_wf s" and "current_thread s = Some c" and "idle_thread s \<noteq> Some c"
    and "m_mlfq_level (f (thr s c)) = int l" and "l < kNumLevels"
    and "m_ticks_remaining (f (thr s c)) = kQuantum ! l" and "m_state (f (thr s c)) = Ready"
  shows "sched_wf (ScheduleLocked root (push_back l c (upd_thread c f s)))"
    and "lost (ScheduleLocked root (push_back l c (upd_thread c f s))) t \<Longrightarrow> lost s t"
proof -
  let ?s = "push_back l c (upd_thread c f s)"
  obtain i where i: "idle_thread s = Some i" "off s i" "off s c" and wf: "queues_wf s"
    using assms(1,2) by (auto simp: sched_wf_def)
  then have ne: "i \<noteq> c" using assms(3) by auto
  have "queues_wf ?s"
    using requeue_wf [OF wf i(3), of f] assms(4-7) by simp
  moreover have off: "off ?s u \<longleftrightarrow> off s u \<and> u \<noteq> c" for u
    by (rule requeue_off [OF wf assms(5)])
  ultimately show "sched_wf (ScheduleLocked root ?s)"
    using i ne by (intro ScheduleLocked_wf [of _ i]) auto
  assume "lost (ScheduleLocked root ?s) t"
  then have "lost ?s t"
    using \<open>queues_wf ?s\<close> off i ne assms(2) by (intro ScheduleLocked_lost [of ?s i root t]) auto
  then show "lost s t"
    by (simp add: requeue_lost [OF wf assms(5) i(3)])
qed

lemma Yield_wf: "sched_wf s \<Longrightarrow> sched_wf (Yield root s)"
proof (cases "\<exists>c. current_thread s = Some c \<and> idle_thread s \<noteq> Some c \<and> m_state (thr s c) = Running")
  case True
  assume wf: "sched_wf s"
  from True obtain c where c: "current_thread s = Some c" "idle_thread s \<noteq> Some c" "m_state (thr s c) = Running" by blast
  with wf have "0 \<le> m_mlfq_level (thr s c)" "m_mlfq_level (thr s c) < int kNumLevels"
    using thr_level [of s c] by (auto simp: sched_wf_def)
  with c wf show ?thesis
    unfolding Yield_def Let_def by (auto intro!: requeue_schedule)
next
  case False
  assume "sched_wf s"
  then obtain i where "queues_wf s" "idle_thread s = Some i" "off s i" by (auto simp: sched_wf_def)
  with False ScheduleLocked_wf [of s i root] show ?thesis
    by (auto simp: Yield_def Let_def split: option.splits)
qed

lemma Yield_lost:
  assumes wf: "sched_wf s"
    and cur: "\<And>c. current_thread s = Some c \<Longrightarrow> idle_thread s \<noteq> Some c \<Longrightarrow>
      m_state (thr s c) = Running \<or> \<not> alive (thr s c)"
    and lost: "lost (Yield root s) t"
  shows "lost s t"
proof (cases "\<exists>c. current_thread s = Some c \<and> idle_thread s \<noteq> Some c \<and> m_state (thr s c) = Running")
  case True
  then obtain c where c: "current_thread s = Some c" "idle_thread s \<noteq> Some c" "m_state (thr s c) = Running" by blast
  with wf have lvl: "0 \<le> m_mlfq_level (thr s c)" "m_mlfq_level (thr s c) < int kNumLevels"
    using thr_level [of s c] by (auto simp: sched_wf_def)
  from lost c have "lost (ScheduleLocked root (push_back (nat (m_mlfq_level (thr s c))) c
      (upd_thread c (\<lambda>th. th\<lparr>m_state := Ready, m_ticks_remaining := kQuantum ! nat (m_mlfq_level (thr s c))\<rparr>) s))) t"
    by (simp add: Yield_def Let_def)
  then show ?thesis
    by (rule requeue_schedule(2) [OF wf c(1,2), rotated -1]) (use lvl in auto)
next
  case False
  obtain i where i: "queues_wf s" "idle_thread s = Some i" "off s i" using wf by (auto simp: sched_wf_def)
  have "Yield root s = ScheduleLocked root s"
    using False by (auto simp: Yield_def Let_def split: option.splits)
  with lost False cur i show ?thesis
    by (intro ScheduleLocked_lost [OF i, of root t]) auto
qed

lemma queues_wf_wait_snoc:
  assumes "queues_wf s" and "off s t" and "m_state (thr s t) = Blocked"
  shows "queues_wf (s\<lparr>g_wait_queue := g_wait_queue s @ [t]\<rparr>)"
  using assms by (auto simp: queues_wf_def off_def ready_def three_levels_def)

lemma block_schedule:
  assumes wf: "sched_wf s" and cur: "current_thread s = Some c" "idle_thread s \<noteq> Some c"
    and s2: "s2 = (upd_thread c (\<lambda>th. th\<lparr>m_state := Blocked, wait_channel := ch\<rparr>) s)
      \<lparr>g_wait_queue := g_wait_queue s @ [c]\<rparr>"
  shows "queues_wf s2" and "off s2 u \<longleftrightarrow> off s u \<and> u \<noteq> c"
proof -
  let ?u = "upd_thread c (\<lambda>th. th\<lparr>m_state := Blocked, wait_channel := ch\<rparr>) s"
  have c: "off s c" "queues_wf s" using wf cur by (auto simp: sched_wf_def)
  then have "thread_ok (thr s c)" by (rule thr_level [rotated])
  then have "queues_wf ?u" using c by (intro queues_wf_upd_off) (auto simp: thread_ok_def)
  moreover have "threads s c \<noteq> None" using c(1) by (simp add: off_def)
  ultimately show "queues_wf s2"
    using c(1) queues_wf_wait_snoc [of ?u c] by (simp add: s2)
  show "off s2 u \<longleftrightarrow> off s u \<and> u \<noteq> c"
    by (auto simp: s2 off_def ready_def)
qed

lemma Block_wf:
  assumes wf: "sched_wf s" and cur: "current_thread s \<noteq> idle_thread s"
  shows "sched_wf (Block root ch s)"
proof (cases "current_thread s")
  case None
  with wf show ?thesis by (simp add: Block_def GetCurrentThread_def)
next
  case (Some c)
  obtain i where i: "idle_thread s = Some i" "off s i" using wf by (auto simp: sched_wf_def)
  with Some cur have "idle_thread s \<noteq> Some c" "i \<noteq> c" by auto
  with block_schedule [OF wf Some this(1) refl] i Some show ?thesis
    by (auto simp: Block_def GetCurrentThread_def intro!: ScheduleLocked_wf [of _ i])
qed

lemma Block_lost:
  assumes wf: "sched_wf s" and cur: "current_thread s \<noteq> idle_thread s"
    and lost: "lost (Block root ch s) t"
  shows "lost s t"
proof (cases "current_thread s")
  case None
  with lost show ?thesis by (simp add: Block_def GetCurrentThread_def)
next
  case (Some c)
  obtain i where i: "idle_thread s = Some i" "off s i" using wf by (auto simp: sched_wf_def)
  with Some cur have ne: "idle_thread s \<noteq> Some c" "i \<noteq> c" by auto
  define s2 where "s2 = (upd_thread c (\<lambda>th. th\<lparr>m_state := Blocked, wait_channel := ch\<rparr>) s)
      \<lparr>g_wait_queue := g_wait_queue s @ [c]\<rparr>"
  note s2 = block_schedule [OF wf Some ne(1) s2_def]
  have "lost (ScheduleLocked root s2) t"
    using lost Some by (simp add: Block_def GetCurrentThread_def s2_def)
  then have "lost s2 t"
    using s2 i ne Some by (intro ScheduleLocked_lost [of s2 i root t]) (auto simp: s2_def)
  then have "off s t" "t \<noteq> c" "current_thread s \<noteq> Some t" "idle_thread s \<noteq> Some t" "alive (thr s2 t)"
    using s2 by (auto simp: lost_def s2_def)
  moreover from this have "thr s2 t = thr s t" by (simp add: s2_def thr_def)
  ultimately show ?thesis by (simp add: lost_def)
qed

subsection \<open>Wake\<close>

text \<open>The threads \<open>Wake\<close> moves: every waiter on the channel, or the first one.\<close>

definition woken :: "addr \<Rightarrow> bool \<Rightarrow> addr list \<Rightarrow> sched \<Rightarrow> addr list" where
  "woken ch wake_all ts s =
     (let m = filter (\<lambda>t. wait_channel (thr s t) = ch) ts in if wake_all then m else take 1 m)"

lemma wake_thread_unfold:
  "wake_thread t s =
     push_back (nat (m_mlfq_level (thr s t))) t
        (upd_thread t (\<lambda>th. th\<lparr>wait_channel := 0, m_state := Ready,
            m_ticks_remaining := kQuantum ! nat (m_mlfq_level (thr s t))\<rparr>)
          (s\<lparr>g_wait_queue := remove1 t (g_wait_queue s)\<rparr>))"
  by (simp add: wake_thread_def Let_def)

lemma thr_wait_upd [simp]: "thr (s\<lparr>g_wait_queue := q\<rparr>) = thr s"
  by (simp add: thr_def fun_eq_iff)

lemma ready_wait_upd [simp]: "ready (s\<lparr>g_wait_queue := q\<rparr>) = ready s"
  by (simp add: ready_def)

lemma queues_wf_wait_remove:
  "queues_wf s \<Longrightarrow> queues_wf (s\<lparr>g_wait_queue := remove1 t (g_wait_queue s)\<rparr>)"
  by (auto simp: queues_wf_def ready_def three_levels_def dest: notin_set_remove1)

lemma waiting_off:
  assumes "queues_wf s" and "t \<in> set (g_wait_queue s)"
  shows "off (s\<lparr>g_wait_queue := remove1 t (g_wait_queue s)\<rparr>) t" and "t \<notin> set (ready s)"
proof -
  obtain th where th: "threads s t = Some th" "m_state th = Blocked"
    using assms by (auto simp: queues_wf_def)
  show nr: "t \<notin> set (ready s)"
  proof
    assume "t \<in> set (ready s)"
    then obtain i where "i < kNumLevels" "t \<in> set (queues s ! i)"
      using ready_iff [OF queues_wf_three [OF assms(1)]] by blast
    then obtain th' where "threads s t = Some th'" "m_state th' = Ready"
      using assms(1) unfolding queues_wf_def by blast
    with th show False by simp
  qed
  have "distinct (g_wait_queue s)" using assms(1) by (simp add: queues_wf_def)
  with nr th show "off (s\<lparr>g_wait_queue := remove1 t (g_wait_queue s)\<rparr>) t"
    by (simp add: off_def ready_def)
qed

lemma wake_thread_effect:
  assumes wf: "queues_wf s" and t: "t \<in> set (g_wait_queue s)"
  shows "queues_wf (wake_thread t s)"
    and "off (wake_thread t s) u \<longleftrightarrow> off s u"
    and "g_wait_queue (wake_thread t s) = remove1 t (g_wait_queue s)"
    and "set (ready (wake_thread t s)) = insert t (set (ready s))"
    and "u \<noteq> t \<Longrightarrow> threads (wake_thread t s) u = threads s u"
    and "m_state (thr (wake_thread t s) t) = Ready"
    and "current_thread (wake_thread t s) = current_thread s" "idle_thread (wake_thread t s) = idle_thread s"
proof -
  let ?s = "s\<lparr>g_wait_queue := remove1 t (g_wait_queue s)\<rparr>"
  let ?l = "nat (m_mlfq_level (thr s t))"
  note off = waiting_off [OF wf t]
  have wf': "queues_wf ?s" by (rule queues_wf_wait_remove [OF wf])
  note lvl = thr_level [OF wf' off(1), simplified]
  have l: "?l < kNumLevels" using lvl by simp
  show "queues_wf (wake_thread t s)"
    using requeue_wf [OF wf' off(1), of "\<lambda>th. th\<lparr>wait_channel := 0, m_state := Ready,
            m_ticks_remaining := kQuantum ! ?l\<rparr>"] lvl
    by (simp add: wake_thread_unfold)
  have "off ?s u \<and> u \<noteq> t \<longleftrightarrow> off s u"
    using t by (auto simp: off_def dest: notin_set_remove1)
  then show "off (wake_thread t s) u \<longleftrightarrow> off s u"
    unfolding wake_thread_unfold requeue_off [OF wf' l] .
  show "set (ready (wake_thread t s)) = insert t (set (ready s))"
    using l queues_wf_three [OF wf'] by (simp add: wake_thread_unfold push_back_ready)
  have "threads s t \<noteq> None" using off(1) by (simp add: off_def)
  then show "m_state (thr (wake_thread t s) t) = Ready" by (simp add: wake_thread_unfold)
  show "g_wait_queue (wake_thread t s) = remove1 t (g_wait_queue s)"
    "u \<noteq> t \<Longrightarrow> threads (wake_thread t s) u = threads s u"
    "current_thread (wake_thread t s) = current_thread s" "idle_thread (wake_thread t s) = idle_thread s"
    by (simp_all add: wake_thread_unfold)
qed

lemma Wake_loop_fold:
  assumes "queues_wf s" and "set ts \<subseteq> set (g_wait_queue s)" and "distinct ts"
  shows "Wake_loop ch wake_all ts s = fold wake_thread (woken ch wake_all ts s) s"
  using assms
proof (induction ts arbitrary: s)
  case Nil
  then show ?case by (simp add: woken_def)
next
  case (Cons t ts)
  have t: "t \<in> set (g_wait_queue s)" using Cons.prems by simp
  note w = wake_thread_effect [OF Cons.prems(1) t]
  have same: "thr (wake_thread t s) u = thr s u" if "u \<in> set ts" for u
    using w(5) [of u] that Cons.prems(3) by (cases "u = t") (simp_all add: thr_def)
  have sub: "set ts \<subseteq> set (g_wait_queue (wake_thread t s))"
    using Cons.prems by (auto simp: w(3) set_remove1_eq queues_wf_def)
  have "filter (\<lambda>u. wait_channel (thr (wake_thread t s) u) = ch) ts = filter (\<lambda>u. wait_channel (thr s u) = ch) ts"
    using same by (intro filter_cong) auto
  with Cons.IH [OF w(1) sub] Cons.IH [of s] Cons.prems show ?case
    by (auto simp: woken_def Let_def)
qed

lemma wake_all_effect:
  assumes "queues_wf s" and "distinct ts" and "set ts \<subseteq> set (g_wait_queue s)"
  shows "queues_wf (fold wake_thread ts s) \<and>
    (\<forall>u. off (fold wake_thread ts s) u \<longleftrightarrow> off s u) \<and>
    set (g_wait_queue (fold wake_thread ts s)) = set (g_wait_queue s) - set ts \<and>
    set (ready (fold wake_thread ts s)) = set ts \<union> set (ready s) \<and>
    (\<forall>u. u \<notin> set ts \<longrightarrow> threads (fold wake_thread ts s) u = threads s u) \<and>
    current_thread (fold wake_thread ts s) = current_thread s \<and>
    idle_thread (fold wake_thread ts s) = idle_thread s"
  using assms
proof (induction ts arbitrary: s)
  case (Cons t ts)
  have t: "t \<in> set (g_wait_queue s)" using Cons.prems by simp
  note w = wake_thread_effect [OF Cons.prems(1) t]
  have wq: "set (g_wait_queue (wake_thread t s)) = set (g_wait_queue s) - {t}"
    using Cons.prems(1) by (simp add: w(3) set_remove1_eq queues_wf_def)
  have "set ts \<subseteq> set (g_wait_queue (wake_thread t s))" "distinct ts"
    using Cons.prems by (auto simp: wq)
  from Cons.IH [OF w(1) this(2,1)] show ?case
    by (auto simp: w(2,4-8) wq)
qed simp

lemma woken_sub:
  "set (woken ch wa ts s) \<subseteq> set ts" "distinct ts \<Longrightarrow> distinct (woken ch wa ts s)"
  by (auto simp: woken_def Let_def dest: in_set_takeD)

text \<open>\<open>Wake\<close> as one fold, with its effect.\<close>

lemma Wake_fold:
  assumes "queues_wf s"
  shows "Wake ch wa s = fold wake_thread (woken ch wa (g_wait_queue s) s) s"
  using assms Wake_loop_fold [OF assms, of "g_wait_queue s"] by (simp add: Wake_def queues_wf_def)

lemma Wake_effect:
  assumes "queues_wf s" and "W = set (woken ch wa (g_wait_queue s) s)"
  shows "queues_wf (Wake ch wa s)" and "off (Wake ch wa s) u \<longleftrightarrow> off s u"
    and "set (g_wait_queue (Wake ch wa s)) = set (g_wait_queue s) - W"
    and "set (ready (Wake ch wa s)) = W \<union> set (ready s)"
    and "u \<notin> W \<Longrightarrow> threads (Wake ch wa s) u = threads s u"
    and "current_thread (Wake ch wa s) = current_thread s" "idle_thread (Wake ch wa s) = idle_thread s"
  using wake_all_effect [OF assms(1) woken_sub(2) woken_sub(1), of ch wa s] assms
  by (auto simp: Wake_fold queues_wf_def)

lemma sched_wf_transfer:
  assumes "sched_wf s" and "queues_wf s'" and "\<And>u. off s u \<Longrightarrow> off s' u"
    and "current_thread s' = current_thread s" and "idle_thread s' = idle_thread s"
  shows "sched_wf s'"
  using assms by (auto simp: sched_wf_def)

lemma Wake_wf: "sched_wf s \<Longrightarrow> sched_wf (Wake ch wa s)"
  using Wake_effect [OF _ refl] by (rule_tac sched_wf_transfer [of s]) (auto simp: sched_wf_def)

lemma off_not_waiting: "off s u \<Longrightarrow> u \<notin> set (g_wait_queue s)"
  by (simp add: off_def)

lemma Wake_lost:
  assumes "sched_wf s"
  shows "lost (Wake ch wa s) t \<longleftrightarrow> lost s t"
proof -
  have wf: "queues_wf s" using assms by (simp add: sched_wf_def)
  note w = Wake_effect [OF wf refl, where ch = ch and wa = wa]
  have "thr (Wake ch wa s) t = thr s t" if "off s t"
  proof -
    have "t \<notin> set (woken ch wa (g_wait_queue s) s)"
      using woken_sub(1) off_not_waiting [OF that] by blast
    then show ?thesis by (simp add: thr_def w(5))
  qed
  then show ?thesis using w by (auto simp: lost_def)
qed

subsection \<open>Boost\<close>

definition boosted :: "thread \<Rightarrow> thread" where
  "boosted th = th\<lparr>m_mlfq_level := 0, m_ticks_remaining := kQuantum ! 0\<rparr>"

definition boost_set :: "addr set \<Rightarrow> sched \<Rightarrow> sched" where
  "boost_set A s = s\<lparr>threads := (\<lambda>u. if u \<in> A then map_option boosted (threads s u) else threads s u)\<rparr>"

lemma boosted_idem [simp]: "boosted (boosted th) = boosted th"
  by (simp add: boosted_def)

lemma boost_set_queues: "boost_set A (s\<lparr>queues := q\<rparr>) = (boost_set A s)\<lparr>queues := q\<rparr>"
  by (simp add: boost_set_def cong: if_cong)

lemma boost_set_boost_set: "boost_set A (boost_set B s) = boost_set (B \<union> A) s"
proof -
  have "threads (boost_set A (boost_set B s)) = threads (boost_set (B \<union> A) s)"
    by (auto simp: boost_set_def fun_eq_iff option.map_comp comp_def)
  then show ?thesis by (simp add: boost_set_def)
qed

lemma Boost_level_eq:
  assumes "0 < i" and "i < length (queues s)" and "queues s ! i = ts"
  shows "Boost_level i ts s =
     (boost_set (set ts) s)\<lparr>queues := (queues s)[0 := queues s ! 0 @ ts, i := []]\<rparr>"
  using assms
proof (induction ts arbitrary: s)
  case Nil
  then have "(queues s)[i := []] = queues s" by (metis list_update_id)
  then show ?case by (simp add: boost_set_def)
next
  case (Cons t ts)
  let ?s = "push_back 0 t (upd_thread t boosted (s\<lparr>queues := (queues s)[i := ts]\<rparr>))"
  have l: "0 < length (queues s)" using Cons.prems by linarith
  have q: "queues ?s = (queues s)[0 := queues s ! 0 @ [t], i := ts]"
    using Cons.prems by (simp add: push_back_def list_update_swap)
  have th: "threads ?s = (threads s)(t := map_option boosted (threads s t))"
    by simp
  have "Boost_level i (t # ts) s = Boost_level i ts ?s"
    by (simp add: boosted_def [abs_def])
  also have "\<dots> = (boost_set (set ts) ?s)\<lparr>queues := (queues ?s)[0 := queues ?s ! 0 @ ts, i := []]\<rparr>"
    using Cons.prems by (intro Cons.IH) (simp_all add: q)
  also have "(queues ?s)[0 := queues ?s ! 0 @ ts, i := []] = (queues s)[0 := queues s ! 0 @ (t # ts), i := []]"
    using Cons.prems l unfolding q by (simp add: list_update_swap [of 0 i])
  also have "(boost_set (set ts) ?s)\<lparr>queues := (queues s)[0 := queues s ! 0 @ (t # ts), i := []]\<rparr>
      = (boost_set (set (t # ts)) s)\<lparr>queues := (queues s)[0 := queues s ! 0 @ (t # ts), i := []]\<rparr>"
  proof -
    have "(\<lambda>u. if u \<in> set ts then map_option boosted (threads ?s u) else threads ?s u)
        = (\<lambda>u. if u \<in> set (t # ts) then map_option boosted (threads s u) else threads s u)"
      by (auto simp: fun_eq_iff option.map_comp comp_def)
    then show ?thesis unfolding boost_set_def by (simp add: push_back_def upd_thread_def)
  qed
  finally show ?case .
qed

lemma three_levelsE:
  assumes "three_levels s"
  obtains q0 q1 q2 where "queues s = [q0, q1, q2]"
  using assms by (auto simp: three_levels_def kNumLevels_def numeral_3_eq_3 length_Suc_conv)

lemma Mlfq_Boost_eq:
  assumes "queues s = [q0, q1, q2]"
  shows "Mlfq_Boost s = (boost_set (set q1 \<union> set q2) s)\<lparr>queues := [q0 @ q1 @ q2, [], []]\<rparr>"
proof -
  have lv: "[1..<kNumLevels] = [1, 2]" by (simp add: kNumLevels_def upt_rec)
  define s1 where "s1 = Boost_level 1 q1 s"
  have s1: "s1 = (boost_set (set q1) s)\<lparr>queues := [q0 @ q1, [], q2]\<rparr>"
    using Boost_level_eq [of 1 s q1] assms by (simp add: s1_def)
  have q: "queues s1 = [q0 @ q1, [], q2]" by (simp add: s1)
  have "Mlfq_Boost s = Boost_level 2 q2 s1"
    unfolding Mlfq_Boost_def lv using assms q by (simp add: s1_def)
  also have "\<dots> = (boost_set (set q2) s1)\<lparr>queues := [(q0 @ q1) @ q2, [], []]\<rparr>"
    using Boost_level_eq [of 2 s1 q2] q by (simp add: numeral_2_eq_2)
  also have "\<dots> = (boost_set (set q1 \<union> set q2) s)\<lparr>queues := [q0 @ q1 @ q2, [], []]\<rparr>"
    by (simp add: s1 boost_set_queues boost_set_boost_set)
  finally show ?thesis .
qed

lemma Boost_effect:
  assumes "queues_wf s"
  shows "queues_wf (Mlfq_Boost s)" and "off (Mlfq_Boost s) u \<longleftrightarrow> off s u"
    and "off s u \<Longrightarrow> threads (Mlfq_Boost s) u = threads s u"
    and "current_thread (Mlfq_Boost s) = current_thread s" "idle_thread (Mlfq_Boost s) = idle_thread s"
    and "ready (Mlfq_Boost s) = ready s"
proof -
  obtain q0 q1 q2 where q: "queues s = [q0, q1, q2]"
    using three_levelsE [OF queues_wf_three [OF assms]] by blast
  note eq = Mlfq_Boost_eq [OF q]
  show rd: "ready (Mlfq_Boost s) = ready s" by (simp add: eq ready_def q)
  have boost_ok: "thread_ok (boosted th)" for th
    by (simp add: thread_ok_def boosted_def kNumLevels_def kQuantum_def)
  have lv: "\<exists>th. threads s t = Some th \<and> m_state th = Ready \<and> m_mlfq_level th = int i"
    if "i < 3" "t \<in> set ([q0, q1, q2] ! i)" for i t
    using that assms q unfolding queues_wf_def kNumLevels_def by metis
  have r0: "\<exists>th. threads (Mlfq_Boost s) t = Some th \<and> m_state th = Ready \<and> m_mlfq_level th = 0"
    if "t \<in> set (q0 @ q1 @ q2)" for t
    using that lv [of 0 t] lv [of 1 t] lv [of 2 t] by (auto simp: eq boost_set_def boosted_def)
  have "\<forall>i < kNumLevels. \<forall>t \<in> set (queues (Mlfq_Boost s) ! i). \<exists>th. threads (Mlfq_Boost s) t = Some th \<and>
        m_state th = Ready \<and> m_mlfq_level th = int i"
  proof (intro allI impI ballI)
    fix i t assume "i < kNumLevels" "t \<in> set (queues (Mlfq_Boost s) ! i)"
    then have "i = 0" "t \<in> set (q0 @ q1 @ q2)"
      by (auto simp: eq kNumLevels_def less_Suc_eq numeral_3_eq_3)
    with r0 show "\<exists>th. threads (Mlfq_Boost s) t = Some th \<and> m_state th = Ready \<and> m_mlfq_level th = int i"
      by simp
  qed
  moreover have "\<exists>th. threads (Mlfq_Boost s) t = Some th \<and> m_state th = Blocked" if "t \<in> set (g_wait_queue s)" for t
    using that assms by (auto simp: eq boost_set_def boosted_def queues_wf_def)
  moreover have "thread_ok th" if "threads (Mlfq_Boost s) t = Some th" for t th
    using that assms boost_ok by (auto simp: eq boost_set_def queues_wf_def split: if_splits)
  moreover have "g_wait_queue (Mlfq_Boost s) = g_wait_queue s" "three_levels (Mlfq_Boost s)"
    by (simp_all add: eq boost_set_def three_levels_def kNumLevels_def)
  ultimately show "queues_wf (Mlfq_Boost s)"
    using assms rd unfolding queues_wf_def by simp
  show "off (Mlfq_Boost s) u \<longleftrightarrow> off s u"
    unfolding off_def rd by (auto simp: eq boost_set_def)
  show "off s u \<Longrightarrow> threads (Mlfq_Boost s) u = threads s u"
    by (auto simp: eq boost_set_def off_def ready_def q)
  show "current_thread (Mlfq_Boost s) = current_thread s" "idle_thread (Mlfq_Boost s) = idle_thread s"
    by (simp_all add: eq boost_set_def)
qed

subsection \<open>Tick\<close>

text \<open>The state a tick starts from: the counter is advanced and, every hundredth tick, the ready
  threads are boosted.\<close>

definition tick_start :: "sched \<Rightarrow> sched" where
  "tick_start s =
     (let s = s\<lparr>s_tick_counter := s_tick_counter s + 1\<rparr>
      in if s_tick_counter s mod kBoostInterval = 0 then BoostAll s else s)"

lemma tick_start_effect:
  assumes "queues_wf s"
  shows "queues_wf (tick_start s)" and "off (tick_start s) u \<longleftrightarrow> off s u"
    and "off s u \<Longrightarrow> thr (tick_start s) u = thr s u"
    and "current_thread (tick_start s) = current_thread s" "idle_thread (tick_start s) = idle_thread s"
    and "ready (tick_start s) = ready s"
proof -
  let ?s = "s\<lparr>s_tick_counter := s_tick_counter s + 1\<rparr>"
  have "queues_wf ?s" using assms by (simp add: queues_wf_def ready_def three_levels_def)
  note b = Boost_effect [OF this]
  have off: "off ?s v = off s v" for v by (simp add: off_def ready_def)
  show "queues_wf (tick_start s)" using b(1) \<open>queues_wf ?s\<close> by (simp add: tick_start_def Let_def BoostAll_def)
  show "off (tick_start s) u \<longleftrightarrow> off s u" using b(2) off by (simp add: tick_start_def Let_def BoostAll_def)
  show "off s u \<Longrightarrow> thr (tick_start s) u = thr s u"
    using b(3) off by (simp add: tick_start_def Let_def BoostAll_def thr_def)
  show "current_thread (tick_start s) = current_thread s" "idle_thread (tick_start s) = idle_thread s"
    using b(4,5) by (simp_all add: tick_start_def Let_def BoostAll_def)
  show "ready (tick_start s) = ready s"
    using b(6) by (simp add: tick_start_def Let_def BoostAll_def) (simp add: ready_def)
qed

text \<open>What a tick does to the running thread when its quantum lasts, and when it expires.\<close>

definition charge :: "thread \<Rightarrow> thread" where
  "charge th = th\<lparr>m_total_ticks := m_total_ticks th + 1, m_ticks_remaining := m_ticks_remaining th - 1\<rparr>"

definition demote :: "thread \<Rightarrow> thread" where
  "demote th = (let l = min (m_mlfq_level th + 1) (int kNumLevels - 1)
     in th\<lparr>m_mlfq_level := l, m_ticks_remaining := kQuantum ! nat l, m_state := Ready\<rparr>)"

lemma Tick_unfold:
  "Tick root s = (let s = tick_start s in
     case current_thread s of
       Some c \<Rightarrow>
         if Some c \<noteq> idle_thread s then
           (let s = upd_thread c (\<lambda>th. th\<lparr>m_total_ticks := m_total_ticks th + 1\<rparr>) s;
                (expired, th) = ConsumeOneTick (thr s c);
                s = upd_thread c (\<lambda>_. th) s
            in if expired then
                 (let new_level = m_mlfq_level (thr s c) + 1;
                      new_level = (if new_level \<ge> int kNumLevels then int kNumLevels - 1 else new_level);
                      s = upd_thread c (\<lambda>th. th\<lparr>m_mlfq_level := new_level,
                             m_ticks_remaining := kQuantum ! nat new_level, m_state := Ready\<rparr>) s
                  in ScheduleLocked root (push_back (nat new_level) c s))
               else s)
         else if \<not> Mlfq_Empty s then ScheduleLocked root s else s
     | None \<Rightarrow> if \<not> Mlfq_Empty s then ScheduleLocked root s else s)"
  unfolding Tick_def tick_start_def Let_def by (rule refl)

lemma Tick_running:
  assumes "sched_wf s" and "current_thread s = Some c" and "idle_thread s \<noteq> Some c"
  shows "Tick root s =
    (if m_ticks_remaining (thr s c) \<le> 1
     then ScheduleLocked root (push_back (nat (m_mlfq_level (demote (thr s c)))) c
            (upd_thread c (\<lambda>_. demote (charge (thr s c))) (tick_start s)))
     else upd_thread c (\<lambda>_. charge (thr s c)) (tick_start s))"
proof -
  have wf: "queues_wf s" and off: "off s c" using assms by (auto simp: sched_wf_def)
  note ts = tick_start_effect [OF wf]
  have ex: "threads (tick_start s) c \<noteq> None" using ts(2) [of c] off by (simp add: off_def)
  have thr: "thr (tick_start s) c = thr s c" by (rule ts(3) [OF off])
  show ?thesis
    unfolding Tick_unfold Let_def ConsumeOneTick_def using ts(4,5) assms(2,3)
    by (auto simp add: upd_thread_comp thr ex charge_def demote_def Let_def min_def)
qed

lemma demote_charge [simp]:
  "m_mlfq_level (demote (charge th)) = m_mlfq_level (demote th)"
  "m_ticks_remaining (demote (charge th)) = m_ticks_remaining (demote th)"
  "m_state (demote th) = Ready"
  by (simp_all add: demote_def charge_def Let_def)

lemma demote_level:
  assumes "thread_ok th"
  shows "m_mlfq_level (demote th) = int (nat (m_mlfq_level (demote th)))"
    and "nat (m_mlfq_level (demote th)) < kNumLevels"
    and "m_ticks_remaining (demote th) = kQuantum ! nat (m_mlfq_level (demote th))"
  using assms by (auto simp: demote_def Let_def thread_ok_def kNumLevels_def)

lemma upd_same_lost:
  assumes "alive (f (thr s c)) = alive (thr s c)"
  shows "lost (upd_thread c f s) t \<longleftrightarrow> lost s t"
  using assms by (auto simp: lost_def)

lemma tick_start_wf: "sched_wf s \<Longrightarrow> sched_wf (tick_start s)"
  using tick_start_effect by (rule_tac sched_wf_transfer [of s]) (auto simp: sched_wf_def)

lemma tick_start_lost: "sched_wf s \<Longrightarrow> lost (tick_start s) t \<longleftrightarrow> lost s t"
  using tick_start_effect(2-5) [of s] by (auto simp: lost_def sched_wf_def)

lemma Tick_idle:
  assumes "sched_wf s" and "\<not> (\<exists>c. current_thread s = Some c \<and> idle_thread s \<noteq> Some c)"
  shows "Tick root s = (if ready s = [] then tick_start s else ScheduleLocked root (tick_start s))"
proof -
  have "queues_wf s" using assms(1) by (simp add: sched_wf_def)
  note ts = tick_start_effect [OF this]
  have T: "Tick root s =
      (if \<not> Mlfq_Empty (tick_start s) then ScheduleLocked root (tick_start s) else tick_start s)"
    unfolding Tick_unfold Let_def using ts(4,5) assms(2)
    by (cases "current_thread s") auto
  show ?thesis unfolding T mlfq.is_empty_iff ts(6) by simp
qed

lemma Tick_wf_lost:
  assumes wf: "sched_wf s"
  shows "sched_wf (Tick root s) \<and> (lost (Tick root s) t \<longrightarrow> lost s t)"
proof (cases "\<exists>c. current_thread s = Some c \<and> idle_thread s \<noteq> Some c")
  case True
  then obtain c where c: "current_thread s = Some c" "idle_thread s \<noteq> Some c" by blast
  have off: "off s c" "queues_wf s" using wf c by (auto simp: sched_wf_def)
  note ts = tick_start_effect [OF off(2)]
  have wf': "sched_wf (tick_start s)" by (rule tick_start_wf [OF wf])
  have ok: "thread_ok (thr s c)" by (rule thr_level(3) [OF off(2,1)])
  have thr: "thr (tick_start s) c = thr s c" by (rule ts(3) [OF off(1)])
  show ?thesis
  proof (cases "m_ticks_remaining (thr s c) \<le> 1")
    case True
    note rq = requeue_schedule [OF wf', of c "\<lambda>_. demote (charge (thr s c))" "nat (m_mlfq_level (demote (thr s c)))" root]
    show ?thesis
      using rq c ts(4,5) demote_level [OF ok] True tick_start_lost [OF wf]
      unfolding Tick_running [OF wf c] by auto
  next
    case False
    then have "thread_ok (charge (thr s c))" using ok by (auto simp: charge_def thread_ok_def)
    then have "queues_wf (upd_thread c (\<lambda>_. charge (thr s c)) (tick_start s))"
      using ts(1,2) off by (intro queues_wf_upd_off) auto
    then have "sched_wf (upd_thread c (\<lambda>_. charge (thr s c)) (tick_start s))"
      by (intro sched_wf_transfer [OF wf']) auto
    moreover have "alive (charge (thr s c)) = alive (thr s c)" by (simp add: alive_def charge_def)
    ultimately show ?thesis
      using False tick_start_lost [OF wf] thr unfolding Tick_running [OF wf c] by (simp add: upd_same_lost)
  qed
next
  case False
  have wf': "sched_wf (tick_start s)" by (rule tick_start_wf [OF wf])
  then obtain i where i: "queues_wf (tick_start s)" "idle_thread (tick_start s) = Some i" "off (tick_start s) i"
    by (auto simp: sched_wf_def)
  have cur: "current_thread (tick_start s) = Some c \<Longrightarrow> c = i" for c
    using False i(2) tick_start_effect(4,5) [of s] wf
    by (cases "current_thread s") (auto simp: sched_wf_def)
  show ?thesis
    using ScheduleLocked_wf [OF i, of root] ScheduleLocked_lost [OF i, of root t] cur wf'
      tick_start_lost [OF wf, of t]
    unfolding Tick_idle [OF wf False] by auto
qed

subsection \<open>Quantum accounting\<close>

lemma Tick_keeps:
  assumes "sched_wf s" and "current_thread s = Some c" and "idle_thread s \<noteq> Some c"
    and "1 < m_ticks_remaining (thr s c)"
  shows "current_thread (Tick root s) = Some c" "idle_thread (Tick root s) = idle_thread s"
    "thr (Tick root s) c = charge (thr s c)"
proof -
  have wf: "queues_wf s" "off s c" using assms by (auto simp: sched_wf_def)
  note ts = tick_start_effect [OF wf(1)]
  have "threads (tick_start s) c \<noteq> None" using wf(2) ts(2) by (auto simp: off_def)
  then show "current_thread (Tick root s) = Some c" "idle_thread (Tick root s) = idle_thread s"
    "thr (Tick root s) c = charge (thr s c)"
    using assms(4) ts(4,5) assms(2) unfolding Tick_running [OF assms(1-3)] by simp_all
qed

lemma charge_pow:
  "m_ticks_remaining ((charge ^^ j) th) = m_ticks_remaining th - int j"
  "m_mlfq_level ((charge ^^ j) th) = m_mlfq_level th"
  "m_total_ticks ((charge ^^ j) th) = m_total_ticks th + of_nat j"
  by (induction j) (simp_all add: charge_def)

lemma Tick_pow_keeps:
  assumes "sched_wf s" and "current_thread s = Some c" and "idle_thread s \<noteq> Some c"
    and "int k < m_ticks_remaining (thr s c)"
  shows "sched_wf ((Tick root ^^ k) s) \<and> current_thread ((Tick root ^^ k) s) = Some c \<and>
     idle_thread ((Tick root ^^ k) s) = idle_thread s \<and>
     thr ((Tick root ^^ k) s) c = (charge ^^ k) (thr s c)"
  using assms
proof (induction k)
  case (Suc k)
  let ?s = "(Tick root ^^ k) s"
  have IH: "sched_wf ?s" "current_thread ?s = Some c" "idle_thread ?s = idle_thread s"
    "thr ?s c = (charge ^^ k) (thr s c)"
    using Suc by auto
  have "1 < m_ticks_remaining (thr ?s c)" using Suc.prems(4) by (simp add: IH(4) charge_pow)
  with Tick_keeps [OF IH(1,2)] Tick_wf_lost [OF IH(1), of root] IH Suc.prems(3) show ?case
    by auto
qed simp

text \<open>The thread a reschedule leaves is still queued, with the level and quantum it was given.\<close>

lemma thr_PerformSwitch:
  "m_mlfq_level (thr (PerformSwitch root p n s) u) = m_mlfq_level (thr s u)"
  "m_ticks_remaining (thr (PerformSwitch root p n s) u) = m_ticks_remaining (thr s u)"
  "m_total_ticks (thr (PerformSwitch root p n s) u) = m_total_ticks (thr s u)"
  "u \<noteq> n \<Longrightarrow> m_state (thr (PerformSwitch root p n s) u) = m_state (thr s u)"
  by (auto simp: thr_def PerformSwitch_threads split: option.split)

lemma ScheduleLocked_frame:
  assumes "queues_wf s" and "idle_thread s = Some i" and "off s i"
  shows "m_mlfq_level (thr (ScheduleLocked root s) u) = m_mlfq_level (thr s u)"
    and "m_ticks_remaining (thr (ScheduleLocked root s) u) = m_ticks_remaining (thr s u)"
    and "m_total_ticks (thr (ScheduleLocked root s) u) = m_total_ticks (thr s u)"
    and "u \<in> set (ready s) \<Longrightarrow>
      u \<in> set (ready (ScheduleLocked root s)) \<or> current_thread (ScheduleLocked root s) = Some u"
    and "current_thread (ScheduleLocked root s) = Some (if ready s = [] then i else hd (ready s))"
proof -
  obtain n s1 where pick: "ScheduleLocked root s =
        (if current_thread s = Some n then s1 else PerformSwitch root (current_thread s) n s1)"
      "ready s = [] \<and> n = i \<or> ready s = n # ready s1"
      "queues_wf s1" "off s1 n" "\<And>u. off s u \<Longrightarrow> off s1 u" "\<And>u. off s1 u \<Longrightarrow> off s u \<or> u = n"
      "threads s1 = threads s" "current_thread s1 = current_thread s" "idle_thread s1 = idle_thread s"
    by (rule ScheduleLocked_pick [OF assms(1-3), where root = root]) blast
  have thr: "thr s1 = thr s" using pick(7) by (simp add: thr_def fun_eq_iff)
  show "m_mlfq_level (thr (ScheduleLocked root s) u) = m_mlfq_level (thr s u)"
    "m_ticks_remaining (thr (ScheduleLocked root s) u) = m_ticks_remaining (thr s u)"
    "m_total_ticks (thr (ScheduleLocked root s) u) = m_total_ticks (thr s u)"
    using pick(1) thr by (simp_all add: thr_PerformSwitch)
  show "u \<in> set (ready s) \<Longrightarrow>
      u \<in> set (ready (ScheduleLocked root s)) \<or> current_thread (ScheduleLocked root s) = Some u"
    using pick(1,2,8) by auto
  show "current_thread (ScheduleLocked root s) = Some (if ready s = [] then i else hd (ready s))"
    using pick(1,2,8) by auto
qed

lemma Tick_expires:
  assumes wf: "sched_wf s" and c: "current_thread s = Some c" "idle_thread s \<noteq> Some c"
    and q: "m_ticks_remaining (thr s c) = 1" and s': "s' = Tick root s"
  shows "m_mlfq_level (thr s' c) = min (m_mlfq_level (thr s c) + 1) (int kNumLevels - 1)"
    and "m_ticks_remaining (thr s' c) = kQuantum ! nat (m_mlfq_level (thr s' c))"
    and "m_total_ticks (thr s' c) = m_total_ticks (thr s c) + 1"
    and "c \<in> set (ready s') \<or> current_thread s' = Some c"
proof -
  let ?d = "demote (charge (thr s c))" and ?l = "nat (m_mlfq_level (demote (thr s c)))"
  let ?u = "push_back ?l c (upd_thread c (\<lambda>_. ?d) (tick_start s))"
  obtain i where i: "queues_wf s" "idle_thread s = Some i" "off s i" "off s c"
    using wf c by (auto simp: sched_wf_def)
  note ts = tick_start_effect [OF i(1)]
  have ex: "threads (tick_start s) c \<noteq> None" using i(4) ts(2) by (auto simp: off_def)
  have l: "?l < kNumLevels" "int ?l = m_mlfq_level (demote (thr s c))"
    using demote_level [OF thr_level(3) [OF i(1,4)]] by simp_all
  have "queues_wf ?u"
    using requeue_wf [of "tick_start s" c "\<lambda>_. ?d"] ts i demote_level [OF thr_level(3) [OF i(1,4)]] by auto
  moreover have "off ?u i" using requeue_off [OF ts(1) l(1)] i ts(2) c(2) by auto
  moreover have "idle_thread ?u = Some i" using i(2) ts(5) by simp
  ultimately have f1: "m_mlfq_level (thr (ScheduleLocked root ?u) c) = m_mlfq_level (thr ?u c)"
      and f2: "m_ticks_remaining (thr (ScheduleLocked root ?u) c) = m_ticks_remaining (thr ?u c)"
      and f3: "m_total_ticks (thr (ScheduleLocked root ?u) c) = m_total_ticks (thr ?u c)"
      and f4: "c \<in> set (ready ?u) \<Longrightarrow> c \<in> set (ready (ScheduleLocked root ?u)) \<or>
        current_thread (ScheduleLocked root ?u) = Some c"
    using ScheduleLocked_frame(1-4) [where s = "?u" and i = i and root = root and u = c] by blast+
  have s'': "s' = ScheduleLocked root ?u" unfolding s' Tick_running [OF wf c] using q by simp
  have u: "thr ?u c = ?d" using ex by simp
  show "m_mlfq_level (thr s' c) = min (m_mlfq_level (thr s c) + 1) (int kNumLevels - 1)"
    unfolding s'' f1 u by (simp add: demote_def Let_def charge_def)
  show "m_ticks_remaining (thr s' c) = kQuantum ! nat (m_mlfq_level (thr s' c))"
    unfolding s'' f1 f2 u by (simp add: demote_def Let_def)
  show "m_total_ticks (thr s' c) = m_total_ticks (thr s c) + 1"
    unfolding s'' f3 u by (simp add: demote_def Let_def charge_def)
  show "c \<in> set (ready s') \<or> current_thread s' = Some c"
    unfolding s'' using f4 push_back_ready [of "upd_thread c (\<lambda>_. ?d) (tick_start s)" ?l c] l ts(1)
    by (auto dest: queues_wf_three)
qed

subsection \<open>The dead list\<close>

definition dead_ok :: "sched \<Rightarrow> bool" where
  "dead_ok s \<longleftrightarrow> (\<forall>t \<in> set (dead_list s). off s t \<and> current_thread s \<noteq> Some t \<and> idle_thread s \<noteq> Some t)"

lemma delete_threads_eq:
  "delete_threads ts s = s\<lparr>threads := (\<lambda>u. if u \<in> set ts then None else threads s u)\<rparr>"
proof (induction ts arbitrary: s)
  case Nil
  then show ?case by (simp add: delete_threads_def)
next
  case (Cons t ts)
  have "(\<lambda>u. if u \<in> set ts then None else ((threads s)(t := None)) u) =
      (\<lambda>u. if u \<in> set (t # ts) then None else threads s u)"
    by (auto simp: fun_eq_iff)
  with Cons [of "s\<lparr>threads := (threads s)(t := None)\<rparr>"] show ?case
    by (simp add: delete_threads_def cong: if_cong)
qed

lemma delete_dead_wf:
  assumes "sched_wf s" and "dead_ok s" and "s' = delete_threads (dead_list s) (s\<lparr>dead_list := []\<rparr>)"
  shows "sched_wf s'" and "dead_list s' = []" and "t \<in> set (dead_list s) \<Longrightarrow> threads s' t = None"
    and "t \<notin> set (dead_list s) \<Longrightarrow> threads s' t = threads s t"
proof -
  have rd: "ready s' = ready s" "three_levels s' = three_levels s" "queues s' = queues s"
    "g_wait_queue s' = g_wait_queue s" "current_thread s' = current_thread s" "idle_thread s' = idle_thread s"
    by (simp_all add: assms(3) delete_threads_eq ready_def three_levels_def)
  have th: "threads s' u = (if u \<in> set (dead_list s) then None else threads s u)" for u
    by (simp add: assms(3) delete_threads_eq)
  have wf: "queues_wf s" using assms(1) by (simp add: sched_wf_def)
  have keep: "threads s' u = threads s u" if "u \<in> set (ready s) \<or> u \<in> set (g_wait_queue s)" for u
    using that assms(2) by (auto simp: th dead_ok_def off_def)
  have rk: "u \<in> set (ready s)" if "i < kNumLevels" "u \<in> set (queues s ! i)" for i u
    using that ready_iff [OF queues_wf_three [OF wf]] by blast
  have "queues_wf s'"
    unfolding queues_wf_def rd
  proof (intro conjI allI impI ballI)
    show "three_levels s" "distinct (ready s)" "distinct (g_wait_queue s)" using wf by (auto simp: queues_wf_def)
    show "\<exists>th. threads s' u = Some th \<and> m_state th = Ready \<and> m_mlfq_level th = int i"
      if "i < kNumLevels" "u \<in> set (queues s ! i)" for i u
      using that keep rk [OF that] wf by (auto simp: queues_wf_def)
    show "\<exists>th. threads s' u = Some th \<and> m_state th = Blocked" if "u \<in> set (g_wait_queue s)" for u
      using that keep [of u] wf by (auto simp: queues_wf_def)
    show "thread_ok x" if "threads s' u = Some x" for u x
      using that wf by (auto simp: th queues_wf_def split: if_splits)
  qed
  moreover have "off s' u" if "off s u" "u \<notin> set (dead_list s)" for u
    using that rd by (simp add: off_def th)
  ultimately show "sched_wf s'"
    using assms(1,2) rd by (auto simp: sched_wf_def dead_ok_def)
  show "dead_list s' = []" by (simp add: assms(3) delete_threads_eq)
  show "t \<in> set (dead_list s) \<Longrightarrow> threads s' t = None" "t \<notin> set (dead_list s) \<Longrightarrow> threads s' t = threads s t"
    by (simp_all add: th)
qed

lemma ScheduleLocked_dead [simp]: "dead_list (ScheduleLocked root s) = dead_list s"
  by (auto simp: ScheduleLocked_def Let_def Mlfq_PopBest_def split: option.splits prod.splits)

lemma Yield_dead [simp]: "dead_list (Yield root s) = dead_list s"
  by (auto simp: Yield_def Let_def split: option.splits)

lemma dom_ScheduleLocked: "threads (ScheduleLocked root s) t = None \<longleftrightarrow> threads s t = None"
  by (auto simp: ScheduleLocked_def Let_def Mlfq_PopBest_def PerformSwitch_threads split: option.splits prod.splits)

lemma dom_Yield: "threads (Yield root s) t = None \<longleftrightarrow> threads s t = None"
  by (auto simp: Yield_def Let_def dom_ScheduleLocked split: option.splits)

section \<open>Example state\<close>

text \<open>A state with an idle thread, a running thread, two ready threads and a sleeping one, for the
  concrete instances of the properties.\<close>

definition ex_thread :: "ThreadState \<Rightarrow> int \<Rightarrow> int \<Rightarrow> addr \<Rightarrow> thread" where
  "ex_thread st lvl ticks ch = null_thread\<lparr>m_state := st, m_mlfq_level := lvl, m_ticks_remaining := ticks, wait_channel := ch\<rparr>"

definition ex_sched :: sched where
  "ex_sched = \<lparr>threads = [1 \<mapsto> ex_thread Running 2 5 0, 2 \<mapsto> ex_thread Running 0 3 0, 3 \<mapsto> ex_thread Ready 1 10 0,
       4 \<mapsto> ex_thread Ready 2 20 0, 5 \<mapsto> ex_thread Blocked 1 4 99],
     s_next_tid = 6, queues = [[], [3], [4]], g_wait_queue = [5], s_tick_counter = 0,
     current_thread = Some 2, idle_thread = Some 1, kernel_stack = 0, tss_rsp0 = 0, cr3 = 0,
     cpu_rsp = 4096, reaper_thread = Some 4, dead_list = []\<rparr>"

lemma ex_sched_wf [simp]: "sched_wf ex_sched"
proof -
  have "\<forall>i < kNumLevels. \<forall>t \<in> set (queues ex_sched ! i). \<exists>th. threads ex_sched t = Some th \<and>
        m_state th = Ready \<and> m_mlfq_level th = int i"
    by (auto simp: ex_sched_def kNumLevels_def ex_thread_def less_Suc_eq numeral_3_eq_3)
  moreover have "\<forall>t th. threads ex_sched t = Some th \<longrightarrow> thread_ok th"
    by (auto simp: ex_sched_def ex_thread_def thread_ok_def kNumLevels_def kQuantum_def split: if_splits)
  moreover have "g_wait_queue ex_sched = [5]" "threads ex_sched 5 = Some (ex_thread Blocked 1 4 99)"
    "ready ex_sched = [3, 4]" "three_levels ex_sched"
    by (simp_all add: ex_sched_def ready_def three_levels_def kNumLevels_def)
  ultimately have "queues_wf ex_sched"
    by (simp add: queues_wf_def ex_thread_def)
  then show ?thesis
    by (intro sched_wfI [of _ 1]) (auto simp: ex_sched_def off_def ready_def)
qed

lemma ex_sched_facts [simp]:
  "current_thread ex_sched = Some 2" "idle_thread ex_sched = Some 1"
  "thr ex_sched 2 = ex_thread Running 0 3 0" "ready ex_sched = [3, 4]"
  "g_wait_queue ex_sched = [5]" "thr ex_sched 5 = ex_thread Blocked 1 4 99"
  "queues ex_sched = [[], [3], [4]]"
  by (simp_all add: ex_sched_def thr_def ready_def)

section \<open>Properties\<close>

text \<open>
  C2: Every scheduler operation keeps the queues well formed: three levels, no thread linked
  twice, a thread in level i Ready at MLFQ level i, a waiting thread Blocked, levels and
  remaining ticks in range, the running and the idle thread linked nowhere. \<open>Block\<close> needs a
  caller that is not the idle thread, \<open>AddThread\<close> a thread that is linked nowhere and a
  valid level.
\<close>

theorem scheduler_preserves_wf:
  assumes "sched_wf s"
  shows "sched_wf (Tick root s) \<and> sched_wf (Yield root s) \<and> sched_wf (Wake ch wake_all s) \<and>
    (current_thread s \<noteq> idle_thread s \<longrightarrow> sched_wf (Block root ch s)) \<and>
    (off s t \<and> current_thread s \<noteq> Some t \<and> idle_thread s \<noteq> Some t \<and> 0 \<le> level \<and> level < int kNumLevels \<longrightarrow>
       (\<exists>s'. AddThread t level s = Value s' \<and> sched_wf s'))"
proof -
  have "\<exists>s'. AddThread t level s = Value s' \<and> sched_wf s'"
    if t: "off s t" "current_thread s \<noteq> Some t" "idle_thread s \<noteq> Some t" and l: "0 \<le> level" "level < int kNumLevels"
  proof -
    let ?f = "\<lambda>th. th\<lparr>m_mlfq_level := level, m_ticks_remaining := kQuantum ! nat level, m_state := Ready\<rparr>"
    have wf: "queues_wf s" using assms by (simp add: sched_wf_def)
    have "queues_wf (push_back (nat level) t (upd_thread t ?f s))"
      using requeue_wf [OF wf t(1), of ?f] l by simp
    moreover have "off (push_back (nat level) t (upd_thread t ?f s)) u \<longleftrightarrow> off s u \<and> u \<noteq> t" for u
      by (rule requeue_off [OF wf]) (use l in simp)
    ultimately show ?thesis
      using assms l t by (auto simp: AddThread_def sched_wf_def)
  qed
  then show ?thesis
    using Tick_wf_lost [OF assms] Yield_wf [OF assms] Wake_wf [OF assms] Block_wf [OF assms] by blast
qed

theorem scheduler_preserves_wf_witness:
  "sched_wf (Tick (\<lambda>_. 0) ex_sched) \<and> sched_wf (Block (\<lambda>_. 0) 7 ex_sched)"
  using scheduler_preserves_wf [OF ex_sched_wf, of "\<lambda>_. 0" 7] by simp

text \<open>
  C3: No live thread drops out of the scheduler: a live thread that is neither running nor
  idle and in no queue after a \<open>Tick\<close>, a \<open>Wake\<close>, a \<open>Block\<close> (of a non-idle thread), or a \<open>Yield\<close>
  (of a thread whose state is Running, or that has terminated) was already so before it.
\<close>

theorem no_thread_lost:
  assumes "sched_wf s"
  shows "(lost (Tick root s) t \<longrightarrow> lost s t) \<and> (lost (Wake ch wake_all s) t \<longrightarrow> lost s t) \<and>
    (current_thread s \<noteq> idle_thread s \<and> lost (Block root ch s) t \<longrightarrow> lost s t) \<and>
    ((\<forall>c. current_thread s = Some c \<and> idle_thread s \<noteq> Some c \<longrightarrow>
         m_state (thr s c) = Running \<or> \<not> alive (thr s c)) \<and> lost (Yield root s) t \<longrightarrow> lost s t)"
  using Tick_wf_lost [OF assms] Wake_lost [OF assms] Block_lost [OF assms] Yield_lost [OF assms] by blast

theorem no_thread_lost_witness:
  "\<not> lost (Tick (\<lambda>_. 0) ex_sched) 3 \<and> \<not> lost (Block (\<lambda>_. 0) 7 ex_sched) 2"
  using no_thread_lost [OF ex_sched_wf, of "\<lambda>_. 0" 3 7] no_thread_lost [OF ex_sched_wf, of "\<lambda>_. 0" 2 7]
  by (auto simp: lost_def off_def)

text \<open>
  C6: Scheduling is by strict priority, first in first out within a level. When some thread is
  ready, \<open>ScheduleLocked\<close> makes the head of the highest non-empty level run: every level above
  it is empty, and no ready thread has a smaller level. When none is ready it runs the idle
  thread.
\<close>

theorem ScheduleLocked_priority:
  assumes "sched_wf s"
  shows "(ready s = [] \<longrightarrow> current_thread (ScheduleLocked root s) = idle_thread s) \<and>
    (ready s \<noteq> [] \<longrightarrow>
      (\<exists>n i q. i < kNumLevels \<and> queues s ! i = n # q \<and> (\<forall>j < i. queues s ! j = []) \<and>
         current_thread (ScheduleLocked root s) = Some n \<and> m_mlfq_level (thr s n) = int i \<and>
         (\<forall>t \<in> set (ready s). int i \<le> m_mlfq_level (thr s t))))"
proof -
  obtain i where i: "queues_wf s" "idle_thread s = Some i" "off s i"
    using assms by (auto simp: sched_wf_def)
  note cur = ScheduleLocked_frame(5) [OF i, of root]
  obtain q0 q1 q2 where q: "queues s = [q0, q1, q2]"
    using three_levelsE [OF queues_wf_three [OF i(1)]] by blast
  have lv: "m_mlfq_level (thr s t) = int j" if "j < 3" "t \<in> set (queues s ! j)" for j t
    using i(1) that unfolding queues_wf_def kNumLevels_def by fastforce
  have "\<exists>n i r. i < kNumLevels \<and> queues s ! i = n # r \<and> (\<forall>j < i. queues s ! j = []) \<and> hd (ready s) = n \<and>
      (\<forall>t \<in> set (ready s). int i \<le> m_mlfq_level (thr s t))" if ne: "ready s \<noteq> []"
  proof -
    consider n r where "q0 = n # r" | n r where "q0 = []" "q1 = n # r" | n r where "q0 = []" "q1 = []" "q2 = n # r"
      using ne by (cases q0; cases q1; cases q2) (auto simp: ready_def q)
    then show ?thesis
    proof cases
      case 1
      then show ?thesis
        using q lv [of 0] lv [of 1] lv [of 2] by (intro exI [of _ n] exI [of _ 0] exI [of _ r]) (auto simp: ready_def kNumLevels_def)
    next
      case 2
      then show ?thesis
        using q lv [of 1] lv [of 2] by (intro exI [of _ n] exI [of _ 1] exI [of _ r]) (auto simp: ready_def kNumLevels_def)
    next
      case 3
      then show ?thesis
        using q lv [of 2]
        by (intro exI [of _ n] exI [of _ 2] exI [of _ r]) (auto simp: ready_def kNumLevels_def less_Suc_eq numeral_2_eq_2)
    qed
  qed
  then show ?thesis using cur i(2) lv [unfolded kNumLevels_def [symmetric]]
    by (auto simp: kNumLevels_def)
qed

theorem ScheduleLocked_priority_witness:
  "current_thread (ScheduleLocked (\<lambda>_. 0) ex_sched) = Some 3"
proof -
  obtain n i q where h: "i < kNumLevels" "queues ex_sched ! i = n # q" "\<forall>j < i. queues ex_sched ! j = []"
    "current_thread (ScheduleLocked (\<lambda>_. 0) ex_sched) = Some n"
    using ScheduleLocked_priority [OF ex_sched_wf, of "\<lambda>_. 0"] by auto
  have "i = 1"
    using h(1,2) h(3) [rule_format, of 1] by (cases "i = 0"; cases "i = 2") (auto simp: kNumLevels_def)
  with h show ?thesis by simp
qed

text \<open>
  C4: A running thread keeps the CPU for exactly its quantum. From a state where a non-idle
  thread runs with q ticks left, it is still the current thread after every k < q ticks, with
  q - k ticks left and k more ticks on its account; the q-th tick demotes it by one level (the
  lowest level is its own successor), refills its quantum from the table and queues it, unless
  it is at once picked again.
\<close>

theorem Tick_quantum:
  assumes "sched_wf s" and "current_thread s = Some c" and "idle_thread s \<noteq> Some c"
    and "m_ticks_remaining (thr s c) = int q"
  shows "(\<forall>k < q. current_thread ((Tick root ^^ k) s) = Some c \<and>
      m_ticks_remaining (thr ((Tick root ^^ k) s) c) = int (q - k) \<and>
      m_total_ticks (thr ((Tick root ^^ k) s) c) = m_total_ticks (thr s c) + of_nat k) \<and>
    (let s' = (Tick root ^^ q) s; l = min (m_mlfq_level (thr s c) + 1) (int kNumLevels - 1) in
      m_mlfq_level (thr s' c) = l \<and> m_ticks_remaining (thr s' c) = kQuantum ! nat l \<and>
      (c \<in> set (ready s') \<or> current_thread s' = Some c))"
proof -
  have "off s c" "queues_wf s" using assms(1,2) by (auto simp: sched_wf_def)
  then have "1 \<le> m_ticks_remaining (thr s c)" using thr_level(3) by (auto simp: thread_ok_def)
  then obtain k where k: "q = Suc k" using assms(4) by (cases q) auto
  let ?s = "(Tick root ^^ k) s"
  have h: "sched_wf ?s" "current_thread ?s = Some c" "idle_thread ?s \<noteq> Some c" "thr ?s c = (charge ^^ k) (thr s c)"
    using Tick_pow_keeps [OF assms(1-3), of k root] assms(3,4) k by auto
  have "m_ticks_remaining (thr ?s c) = 1" using h(4) assms(4) k by (simp add: charge_pow)
  note ex = Tick_expires [OF h(1-3) this refl, of root]
  have pre: "current_thread ((Tick root ^^ j) s) = Some c \<and>
      m_ticks_remaining (thr ((Tick root ^^ j) s) c) = int (q - j) \<and>
      m_total_ticks (thr ((Tick root ^^ j) s) c) = m_total_ticks (thr s c) + of_nat j" if "j < q" for j
    using Tick_pow_keeps [OF assms(1-3), of j root] that assms(4) by (simp add: charge_pow of_nat_diff)
  have "(Tick root ^^ q) s = Tick root ?s" by (simp add: k)
  with ex pre h(4) show ?thesis by (simp add: charge_pow Let_def)
qed

theorem Tick_quantum_witness:
  "m_mlfq_level (thr ((Tick (\<lambda>_. 0) ^^ 3) ex_sched) 2) = 1 \<and>
   m_ticks_remaining (thr ((Tick (\<lambda>_. 0) ^^ 3) ex_sched) 2) = 10"
  using Tick_quantum [OF ex_sched_wf, of 2 3 "\<lambda>_. 0"]
  by (simp add: ex_thread_def Let_def kNumLevels_def kQuantum_def)

text \<open>
  The priority boost empties the two lower levels onto the end of level 0, in level order
  and first in first out, and gives every moved thread level 0 and a fresh level-0 quantum. All
  other threads, the running and the blocked ones in particular, keep their level.
\<close>

theorem Boost_moves_ready:
  assumes "queues s = [q0, q1, q2]"
  shows "queues (BoostAll s) = [q0 @ q1 @ q2, [], []] \<and>
    (\<forall>t th. threads s t = Some th \<longrightarrow>
       threads (BoostAll s) t =
         Some (if t \<in> set q1 \<union> set q2 then th\<lparr>m_mlfq_level := 0, m_ticks_remaining := 5\<rparr> else th)) \<and>
    g_wait_queue (BoostAll s) = g_wait_queue s \<and> current_thread (BoostAll s) = current_thread s"
  by (auto simp: BoostAll_def Mlfq_Boost_eq [OF assms] boost_set_def boosted_def kQuantum_def)

theorem Boost_moves_ready_witness:
  "queues (BoostAll ex_sched) = [[3, 4], [], []]"
  using Boost_moves_ready [of ex_sched "[]" "[3]" "[4]"] by simp

text \<open>
  \<open>Wake\<close> releases exactly the sleepers of its channel. With \<open>wake_all\<close> every waiter on the
  channel, otherwise only the one that has waited longest, leaves the wait queue, enters the
  ready queue and is Ready; every other thread and every other waiter is untouched.
\<close>

theorem Wake_channel:
  assumes "sched_wf s"
  shows "(let m = filter (\<lambda>t. wait_channel (thr s t) = ch) (g_wait_queue s);
              W = (if wake_all then set m else set (take 1 m)); s' = Wake ch wake_all s in
     set (g_wait_queue s') = set (g_wait_queue s) - W \<and> set (ready s') = set (ready s) \<union> W \<and>
     (\<forall>t \<in> W. m_state (thr s' t) = Ready) \<and>
     (\<forall>t. t \<notin> W \<longrightarrow> threads s' t = threads s t) \<and> current_thread s' = current_thread s)"
proof -
  have wf: "queues_wf s" using assms(1) by (simp add: sched_wf_def)
  let ?m = "filter (\<lambda>t. wait_channel (thr s t) = ch) (g_wait_queue s)"
  have W: "(if wake_all then set ?m else set (take 1 ?m)) = set (woken ch wake_all (g_wait_queue s) s)"
    by (simp add: woken_def Let_def)
  note w = Wake_effect [OF wf W]
  have "m_state (thr s' t) = Ready" if "t \<in> set (ready s')" "queues_wf s'" for t s'
    using that ready_iff [OF queues_wf_three [OF that(2)], of t] unfolding queues_wf_def by fastforce
  then show ?thesis
    using w(1,3-6) unfolding Let_def by blast
qed

theorem Wake_channel_witness:
  "5 \<in> set (ready (Wake 99 False ex_sched)) \<and> g_wait_queue (Wake 99 False ex_sched) = []"
  using Wake_channel [OF ex_sched_wf, of 99 False] by (simp add: ex_thread_def Let_def)

text \<open>
  A thread that is alone cannot yield twice. When the only runnable thread yields, the
  scheduler pops it again and returns early, leaving it running in state Ready; its next \<open>Yield\<close>
  then does not requeue it (it is not Running) and switches to the idle thread, so the thread
  is in no queue and never runs again: the last clause says no further tick brings it back.
\<close>

theorem second_Yield_loses_thread:
  assumes "sched_wf s" and "current_thread s = Some c" and "idle_thread s = Some i" and "c \<noteq> i"
    and "m_state (thr s c) = Running" and "ready s = []"
  shows "(let s1 = Yield root s; s2 = Yield root s1 in
     current_thread s1 = Some c \<and> m_state (thr s1 c) = Ready \<and>
     current_thread s2 = Some i \<and> lost s2 c \<and>
     (\<forall>n. current_thread ((Tick root ^^ n) s2) = Some i))"
proof -
  obtain wf: "queues_wf s" "off s i" "off s c" using assms(1-3) by (auto simp: sched_wf_def)
  let ?l = "nat (m_mlfq_level (thr s c))"
  let ?f = "\<lambda>th. th\<lparr>m_state := Ready, m_ticks_remaining := kQuantum ! ?l\<rparr>"
  let ?u = "push_back ?l c (upd_thread c ?f s)"
  have l: "?l < kNumLevels" using thr_level(1,2) [OF wf(1,3)] by simp
  have rd: "set (ready ?u) = {c}" using push_back_ready [of "upd_thread c ?f s" ?l c] l assms(6) wf(1)
    by (simp add: queues_wf_three)
  moreover have "mset (ready ?u) = {#c#}"
    using mset_concat_snoc [of ?l "queues s" c] l assms(6) queues_wf_three [OF wf(1)]
    by (simp add: ready_def push_back_def three_levels_def)
  ultimately have rd: "ready ?u = [c]" by simp
  have y1: "Yield root s = ScheduleLocked root ?u"
    using assms(2-5) by (simp add: Yield_def Let_def)
  obtain v where v: "Mlfq_PopBest ?u = (Some c, v)" "ready v = []"
    using PopBest_cons [OF rd] by blast
  then have s1: "Yield root s = v"
    unfolding y1 ScheduleLocked_def using assms(2) by (simp add: Let_def)
  have vw: "queues_wf ?u"
    using requeue_wf [OF wf(1,3), of ?f] thr_level(1,2) [OF wf(1,3)] by simp
  note pop = PopBest_Some [OF vw v(1)]
  have ex: "threads s c \<noteq> None" using wf(3) by (simp add: off_def)
  have vc: "current_thread v = Some c" "idle_thread v = Some i" "m_state (thr v c) = Ready"
    using pop ex assms(2,3) by (auto simp: thr_def)
  have s2: "Yield root v = PerformSwitch root (Some c) i v"
    using vc v(2) mlfq.pop_nil [OF v(2)] assms(4) by (simp add: Yield_def ScheduleLocked_def Let_def)
  have offv: "off v c" "off v i" using pop(2,3) requeue_off [OF wf(1) l] wf assms(4) by auto
  have "lost (Yield root v) c"
    unfolding s2 using offv vc assms(4) thr_PerformSwitch_state [of c i] by (auto simp: lost_def alive_def)
  moreover have "sched_wf ((Tick root ^^ n) (Yield root v)) \<and> ready ((Tick root ^^ n) (Yield root v)) = [] \<and>
      current_thread ((Tick root ^^ n) (Yield root v)) = Some i \<and> idle_thread ((Tick root ^^ n) (Yield root v)) = Some i" for n
  proof (induction n)
    case 0
    show ?case using v(2) vc Yield_wf [OF Yield_wf [OF assms(1)], of root root] s1 by (simp add: s2)
  next
    case (Suc n)
    then have "Tick root ((Tick root ^^ n) (Yield root v)) = tick_start ((Tick root ^^ n) (Yield root v))"
      by (subst Tick_idle) auto
    with Suc tick_start_effect [of "(Tick root ^^ n) (Yield root v)"] tick_start_wf show ?case
      by (auto simp: sched_wf_def)
  qed
  ultimately show ?thesis using vc assms(4) unfolding Let_def s1 by (auto simp: s2)
qed

definition ex_lone :: sched where
  "ex_lone = \<lparr>threads = [1 \<mapsto> ex_thread Running 2 5 0, 2 \<mapsto> ex_thread Running 0 3 0],
     s_next_tid = 3, queues = [[], [], []], g_wait_queue = [], s_tick_counter = 0,
     current_thread = Some 2, idle_thread = Some 1, kernel_stack = 0, tss_rsp0 = 0, cr3 = 0,
     cpu_rsp = 4096, reaper_thread = None, dead_list = []\<rparr>"

lemma ex_lone_wf: "sched_wf ex_lone"
  by (intro sched_wfI [of _ 1])
    (auto simp: ex_lone_def queues_wf_def off_def ready_def three_levels_def kNumLevels_def ex_thread_def
      thread_ok_def kQuantum_def less_Suc_eq numeral_3_eq_3 split: if_splits)

theorem second_Yield_loses_thread_witness:
  "lost (Yield (\<lambda>_. 0) (Yield (\<lambda>_. 0) ex_lone)) 2"
  using second_Yield_loses_thread [OF ex_lone_wf, of 2 1 "\<lambda>_. 0"]
  by (simp add: ex_lone_def thr_def ex_thread_def ready_def Let_def)

text \<open>
  A context switch is transparent to the thread it suspends. If thread p is switched out
  for n and later n (or another thread) is switched out for p, the CPU stack pointer is again
  the one p was suspended with, CR3 is p's page-table root and the ring-0 stack is the top of
  p's own kernel stack.
\<close>

theorem switch_roundtrip:
  assumes "threads s p = Some th" and "p \<noteq> n" and "p \<noteq> q" and "threads s n \<noteq> None"
  shows "(let s1 = PerformSwitch root (Some p) n s;
              s2 = PerformSwitch root (Some q) p (s1\<lparr>cpu_rsp := r\<rparr>) in
     cpu_rsp s2 = cpu_rsp s \<and> cr3 s2 = root (m_process th) \<and>
     tss_rsp0 s2 = m_kernel_stack th + kStackSize \<and> kernel_stack s2 = tss_rsp0 s2 \<and>
     current_thread s2 = Some p)"
  using assms
  by (auto simp: PerformSwitch_def SwitchContext_def Let_def upd_thread_def thr_def)

theorem switch_roundtrip_witness:
  "cpu_rsp (PerformSwitch (\<lambda>_. 0) (Some 3) 2
     ((PerformSwitch (\<lambda>_. 0) (Some 2) 3 ex_sched)\<lparr>cpu_rsp := 64\<rparr>)) = 4096"
proof -
  have "threads ex_sched 2 = Some (ex_thread Running 0 3 0)" "threads ex_sched 3 \<noteq> None" "cpu_rsp ex_sched = 4096"
    by (simp_all add: ex_sched_def)
  then show ?thesis
    using switch_roundtrip [of ex_sched 2 _ 3 3 "\<lambda>_. 0" 64] by (simp add: Let_def)
qed

text \<open>
  A terminated thread leaves the scheduler and is reclaimed. When a terminated, non-idle
  current thread that is not the reaper is enqueued on the reaper and yields, it is in the dead
  list, linked in no queue and no longer current; the reaper's next pass, from any well-formed
  state whose dead threads are out of the queues, frees exactly the threads of the dead list,
  empties it and leaves the scheduler well formed.
\<close>

theorem reaper_reclaims:
  assumes "sched_wf s"
  shows "(current_thread s = Some c \<and> idle_thread s \<noteq> Some c \<and> reaper_thread s \<noteq> Some c \<and>
      m_state (thr s c) = Terminated \<longrightarrow>
      (\<exists>s1. Reaper_Enqueue c s = Value s1 \<and>
         (let s2 = Yield root s1 in sched_wf s2 \<and> c \<in> set (dead_list s2) \<and> off s2 c \<and> current_thread s2 \<noteq> Some c))) \<and>
    (dead_ok s \<longrightarrow>
      (let s' = Reaper_pass root s in sched_wf s' \<and> dead_list s' = [] \<and>
         (\<forall>t. threads s' t = None \<longleftrightarrow> threads s t = None \<or> t \<in> set (dead_list s))))"
proof (intro conjI impI)
  assume c: "current_thread s = Some c \<and> idle_thread s \<noteq> Some c \<and> reaper_thread s \<noteq> Some c \<and>
      m_state (thr s c) = Terminated"
  let ?s = "s\<lparr>dead_list := dead_list s @ [c]\<rparr>"
  have off: "off ?s u = off s u" for u by (simp add: off_def ready_def)
  obtain i where i: "queues_wf s" "idle_thread s = Some i" "off s i" "off s c"
    using assms c by (auto simp: sched_wf_def)
  have wf: "queues_wf ?s" using i(1) by (simp add: queues_wf_def ready_def three_levels_def)
  have y: "Yield root ?s = ScheduleLocked root ?s"
    using c by (simp add: Yield_def Let_def thr_def)
  obtain n s1 where pick: "ScheduleLocked root ?s =
        (if current_thread ?s = Some n then s1 else PerformSwitch root (current_thread ?s) n s1)"
      "ready ?s = [] \<and> n = i \<or> ready ?s = n # ready s1"
      "queues_wf s1" "off s1 n" "\<And>u. off ?s u \<Longrightarrow> off s1 u" "\<And>u. off s1 u \<Longrightarrow> off ?s u \<or> u = n"
      "threads s1 = threads ?s" "current_thread s1 = current_thread ?s" "idle_thread s1 = idle_thread ?s"
    by (rule ScheduleLocked_pick [of ?s i root]) (use wf i off in auto)
  have "ready ?s = ready s" by (simp add: ready_def)
  then have "n \<noteq> c" using pick(2) i c by (auto simp: off_def)
  then have "off (Yield root ?s) c" "current_thread (Yield root ?s) \<noteq> Some c"
    unfolding y using pick(1) pick(5) [of c] off i(4) c by auto
  moreover have "sched_wf (Yield root ?s)"
    unfolding y by (rule ScheduleLocked_wf [OF wf, of i]) (use i off in auto)
  ultimately show "\<exists>s1. Reaper_Enqueue c s = Value s1 \<and>
         (let s2 = Yield root s1 in sched_wf s2 \<and> c \<in> set (dead_list s2) \<and> off s2 c \<and> current_thread s2 \<noteq> Some c)"
    using c by (simp add: Reaper_Enqueue_def Let_def)
next
  assume "dead_ok s"
  note d = delete_dead_wf [OF assms this refl]
  show "let s' = Reaper_pass root s in sched_wf s' \<and> dead_list s' = [] \<and>
         (\<forall>t. threads s' t = None \<longleftrightarrow> threads s t = None \<or> t \<in> set (dead_list s))"
    using d(1,2) Yield_wf [OF d(1)]
    by (auto simp: Reaper_pass_def Let_def dom_Yield delete_threads_eq)
qed

theorem reaper_reclaims_witness:
  "threads (Reaper_pass (\<lambda>_. 0) (ex_lone\<lparr>threads := (threads ex_lone)(7 \<mapsto> ex_thread Terminated 0 5 0), dead_list := [7]\<rparr>)) 7 = None"
proof -
  let ?s = "ex_lone\<lparr>threads := (threads ex_lone)(7 \<mapsto> ex_thread Terminated 0 5 0), dead_list := [7]\<rparr>"
  have "sched_wf ?s"
    by (intro sched_wfI [of _ 1])
      (auto simp: ex_lone_def queues_wf_def off_def ready_def three_levels_def kNumLevels_def ex_thread_def
        thread_ok_def kQuantum_def less_Suc_eq numeral_3_eq_3 split: if_splits)
  moreover have "dead_ok ?s" by (simp add: dead_ok_def off_def ready_def ex_lone_def)
  ultimately show ?thesis using reaper_reclaims [of ?s 0 "\<lambda>_. 0"] by (auto simp: Let_def)
qed

end
