(* ===== verification/Kernel.thy ===== *)
theory Kernel
  imports Files Scheduler
begin

text \<open>
  The kernel state the process layer works on, and user address spaces
  (\<open>include/ceryx/mm/UserAddressSpace.hpp\<close>, \<open>arch/x86_64/mm/UserAddressSpace.cpp\<close>).

  The record \<open>kernel\<close> gathers the open files and the file systems (\<open>io\<close>), the scheduler (\<open>sch\<close>), the slots of
  the kernel stacks, the processes and address spaces by address, and the model-specific
  registers. \<open>memory\<close> (in \<open>io\<close>) is what the CPU sees through the page table in \<open>cr3\<close>: the upper half is
  the kernel's and shared, the lower half belongs to the current root; \<open>views\<close> keeps the lower
  halves of the others, and \<open>WriteCr3\<close> exchanges them.

  The record \<open>plat\<close> holds what is outside \<open>src/\<close>: besides the library record \<open>fk\<close> of the file systems, the
  process id bitmap, the \<open>AddressSpace\<close> of FoundationKit (an abstract \<open>'a\<close>), the allocator of kernel stacks, the
  clocks and the addresses of assembly entry points.
\<close>

section \<open>Data\<close>

record sigaction =
  sa_handler :: u64
  sa_sigaction :: u64
  sa_mask :: u64
  sa_flags :: u32
  sa_restorer :: u64

definition zero_sigaction :: sigaction where
  "zero_sigaction = \<lparr>sa_handler = 0, sa_sigaction = 0, sa_mask = 0, sa_flags = 0, sa_restorer = 0\<rparr>"

datatype ProcessState = ProcRunning | ProcZombie

text \<open>A C \<open>int\<close> such as \<open>m_exit_status\<close> is kept as its 32 bits.\<close>

record Process =
  m_pid :: u64
  m_heap_start :: u64
  m_heap_end :: u64
  m_address_space :: addr
  m_root :: addr
  m_cwd :: addr
  m_fd_table :: fd_table
  m_signal_actions :: "sigaction list"
  m_parent :: "addr option"
  m_children :: "addr list"
  m_proc_state :: ProcessState
  m_exit_status :: u32

definition NSIG :: nat where
  "NSIG = 64"

definition Process_new :: "u64 \<Rightarrow> addr \<Rightarrow> addr \<Rightarrow> addr \<Rightarrow> Process" where
  "Process_new pid uas root cwd =
     \<lparr>m_pid = pid, m_heap_start = 0, m_heap_end = 0, m_address_space = uas, m_root = root, m_cwd = cwd,
      m_fd_table = [], m_signal_actions = replicate NSIG zero_sigaction, m_parent = None, m_children = [],
      m_proc_state = ProcRunning, m_exit_status = 0\<rparr>"

datatype VmaProt = ProtUser | ProtRead | ProtWrite | ProtExecute

datatype VmaFlags = FlagShared | FlagPrivate | FlagFixed | FlagAnonymous

record 'a UserAddressSpace =
  m_inner :: 'a
  root_pa :: u64
  va_base :: u64
  va_top :: u64

record ('v, 'r, 'k, 'a) plat =
  lib :: "('v, 'r, 'k) fk"
  pid_FindFirstUnsetAndSet :: "'k \<Rightarrow> u64 \<times> 'k"
  pid_Set :: "u64 \<Rightarrow> 'k \<Rightarrow> 'k"
  pid_Reset :: "u64 \<Rightarrow> 'k \<Rightarrow> 'k"
  FreePages :: "u64 \<Rightarrow> 'k \<Rightarrow> 'k"
  PhysicalToPfn :: "u64 \<Rightarrow> u64"
  Cr3PhysBase :: "u64 \<Rightarrow> u64"
  paging_level5 :: bool
  as_new :: "u64 \<Rightarrow> u64 \<Rightarrow> u64 \<Rightarrow> 'a"
  as_MapAnonymous :: "u64 \<Rightarrow> u64 \<Rightarrow> VmaProt set \<Rightarrow> VmaFlags set \<Rightarrow> 'a \<times> mem \<times> 'k \<Rightarrow> u64 option \<times> 'a \<times> mem \<times> 'k"
  as_Unmap :: "u64 \<Rightarrow> u64 \<Rightarrow> 'a \<times> mem \<times> 'k \<Rightarrow> bool \<times> 'a \<times> mem \<times> 'k"
  as_Protect :: "u64 \<Rightarrow> u64 \<Rightarrow> VmaProt set \<Rightarrow> 'a \<times> mem \<times> 'k \<Rightarrow> bool \<times> 'a \<times> mem \<times> 'k"
  as_WriteFault :: "u64 \<Rightarrow> 'a \<times> mem \<times> 'k \<Rightarrow> bool \<times> 'a \<times> mem \<times> 'k"
  as_Fork :: "'a \<Rightarrow> 'a \<Rightarrow> mem \<Rightarrow> 'k \<Rightarrow> bool \<times> 'a \<times> 'a \<times> mem \<times> 'k"
  AllocateKernel :: "'k \<Rightarrow> addr option \<times> 'k"
  UserspaceTrampoline :: addr
  ForkReturn :: addr
  kernel_root :: u64
  NowNanoseconds :: "'k \<Rightarrow> u64 \<times> 'k"
  NowWallClock :: "'k \<Rightarrow> u64 \<times> 'k"

record ('v, 'r, 'k, 'a) kernel =
  io :: "('v, 'r, 'k) filesys"
  sch :: sched
  kstacks :: kmem
  procs :: "addr \<rightharpoonup> Process"
  spaces :: "addr \<rightharpoonup> 'a UserAddressSpace"
  views :: "u64 \<Rightarrow> mem"
  msrs :: "u32 \<Rightarrow> u64"
  boot_init :: bool

section \<open>Access to parts of the state\<close>

definition kmem_of :: "('v, 'r, 'k, 'a) kernel \<Rightarrow> mem" where
  "kmem_of k = memory (fs (io k))"

definition set_mem :: "mem \<Rightarrow> ('v, 'r, 'k, 'a) kernel \<Rightarrow> ('v, 'r, 'k, 'a) kernel" where
  "set_mem m k = k\<lparr>io := (io k)\<lparr>fs := (fs (io k))\<lparr>memory := m\<rparr>\<rparr>\<rparr>"

definition kmm_of :: "('v, 'r, 'k, 'a) kernel \<Rightarrow> 'k" where
  "kmm_of k = kmm (fs (io k))"

definition set_kmm :: "'k \<Rightarrow> ('v, 'r, 'k, 'a) kernel \<Rightarrow> ('v, 'r, 'k, 'a) kernel" where
  "set_kmm m k = k\<lparr>io := (io k)\<lparr>fs := (fs (io k))\<lparr>kmm := m\<rparr>\<rparr>\<rparr>"

definition upd_proc :: "addr \<Rightarrow> (Process \<Rightarrow> Process) \<Rightarrow> ('v, 'r, 'k, 'a) kernel \<Rightarrow> ('v, 'r, 'k, 'a) kernel" where
  "upd_proc p f k = k\<lparr>procs := (procs k)(p := map_option f (procs k p))\<rparr>"

lemma kernel_access [simp]:
  "kmem_of (set_mem m k) = m" "kmem_of (set_kmm l k) = kmem_of k" "kmm_of (set_kmm l k) = l" "kmm_of (set_mem m k) = kmm_of k"
  "procs (set_mem m k) = procs k" "procs (set_kmm l k) = procs k" "sch (set_mem m k) = sch k" "sch (set_kmm l k) = sch k"
  "spaces (set_mem m k) = spaces k" "spaces (set_kmm l k) = spaces k"
  "files (io (set_mem m k)) = files (io k)" "files (io (set_kmm l k)) = files (io k)"
  "vnodes (fs (io (set_mem m k))) = vnodes (fs (io k))" "vnodes (fs (io (set_kmm l k))) = vnodes (fs (io k))"
  "kstacks (set_mem m k) = kstacks k" "kstacks (set_kmm l k) = kstacks k"
  by (simp_all add: kmem_of_def set_mem_def kmm_of_def set_kmm_def)

lemma upd_proc_access [simp]:
  "procs (upd_proc p f k) = (procs k)(p := map_option f (procs k p))" "io (upd_proc p f k) = io k"
  "sch (upd_proc p f k) = sch k" "spaces (upd_proc p f k) = spaces k" "kmem_of (upd_proc p f k) = kmem_of k"
  "kmm_of (upd_proc p f k) = kmm_of k" "kstacks (upd_proc p f k) = kstacks k"
  by (simp_all add: upd_proc_def kmem_of_def kmm_of_def)

text \<open>Running a scheduler operation, which may load another page table.\<close>

definition user_half :: "addr \<Rightarrow> bool" where
  "user_half a \<longleftrightarrow> \<not> bit a 63"

definition show_view :: "u64 \<Rightarrow> u64 \<Rightarrow> ('v, 'r, 'k, 'a) kernel \<Rightarrow> ('v, 'r, 'k, 'a) kernel" where
  "show_view old new k =
     (let m = kmem_of k; vs = (views k)(old := m) in
      set_mem (\<lambda>a. if user_half a then vs new a else m a) (k\<lparr>views := vs\<rparr>))"

definition WriteCr3 :: "u64 \<Rightarrow> ('v, 'r, 'k, 'a) kernel \<Rightarrow> ('v, 'r, 'k, 'a) kernel" where
  "WriteCr3 v k = show_view (cr3 (sch k)) v (k\<lparr>sch := (sch k)\<lparr>cr3 := v\<rparr>\<rparr>)"

definition run_sched :: "(sched \<Rightarrow> sched) \<Rightarrow> ('v, 'r, 'k, 'a) kernel \<Rightarrow> ('v, 'r, 'k, 'a) kernel" where
  "run_sched f k = (let s = f (sch k) in show_view (cr3 (sch k)) (cr3 s) (k\<lparr>sch := s\<rparr>))"

definition root_of_proc :: "('v, 'r, 'k, 'a) plat \<Rightarrow> ('v, 'r, 'k, 'a) kernel \<Rightarrow> addr option \<Rightarrow> u64" where
  "root_of_proc P k p =
     (case Option.bind (Option.bind p (procs k)) (\<lambda>pr. spaces k (m_address_space pr)) of
        Some u \<Rightarrow> root_pa u
      | None \<Rightarrow> kernel_root P)"

section \<open>User address spaces\<close>

text \<open>The new root: zeroed, then the entries 256 to 511 copied from the current one.\<close>

definition mirror_kernel :: "addr \<Rightarrow> addr \<Rightarrow> mem \<Rightarrow> mem" where
  "mirror_kernel uroot kroot m =
     fold (\<lambda>i m. store64 m (uroot + 8 * of_nat i) (load64 m (kroot + 8 * of_nat i))) [256..<512] m"

text \<open>A \<open>MemoryError\<close> of \<open>Create\<close> or \<open>Fork\<close> is always turned into \<open>ENOMEM\<close> by the callers, and is that here.\<close>

text \<open>
  The three \<open>new\<close> of \<open>Create\<close>: the page table manager, the address space inside, and the object around both, whose address is the result.
  The code checks none of them; a null one is \<open>Bug\<close> at once.
\<close>

definition new_space_objects :: "('v, 'r, 'k) fk \<Rightarrow> 'k \<Rightarrow> addr option \<times> 'k" where
  "new_space_objects K k =
     (case op_new K k of
        (None, k) \<Rightarrow> (None, k)
      | (Some ptm, k) \<Rightarrow>
          (case op_new K k of
             (None, k) \<Rightarrow> (None, k)
           | (Some inner, k) \<Rightarrow> op_new K k))"

definition UserAddressSpace_Create ::
  "('v, 'r, 'k, 'a) plat \<Rightarrow> ('v, 'r, 'k, 'a) kernel \<Rightarrow> addr expected \<times> ('v, 'r, 'k, 'a) kernel" where
  "UserAddressSpace_Create P k =
     (let K = lib P in
      case AllocatePage K (kmm_of k) of
        (None, l) \<Rightarrow> (Unexpected (- ENOMEM), set_kmm l k)
      | (Some pfn, l) \<Rightarrow>
          (let rpa = PfnToPhysical K pfn;
               root_va = hhdm K + rpa;
               k = set_kmm l k;
               m = MemoryZero (kmem_of k) root_va kPageSize;
               kernel_root_va = hhdm K + Cr3PhysBase P (cr3 (sch k));
               m = mirror_kernel root_va kernel_root_va m;
               vbase = 0x1000;
               vtop = (if paging_level5 P then 0x00FFFFFFFFFFF000 else 0x00007FFFFFFFF000)
           in case new_space_objects K (kmm_of k) of
                (None, l) \<Rightarrow> (Bug, set_kmm l (set_mem m k))
              | (Some u, l) \<Rightarrow>
                  (Value u,
                   (set_kmm l (set_mem m k))
                     \<lparr>spaces := (spaces k)(u \<mapsto> \<lparr>m_inner = as_new P rpa vbase vtop, root_pa = rpa, va_base = vbase, va_top = vtop\<rparr>)\<rparr>)))"

text \<open>A call on the inner address space of \<open>u\<close>, with the current memory and allocator.\<close>

definition on_space ::
  "addr \<Rightarrow> ('a \<times> mem \<times> 'k \<Rightarrow> 'b \<times> 'a \<times> mem \<times> 'k) \<Rightarrow> ('v, 'r, 'k, 'a) kernel \<Rightarrow> 'b option \<times> ('v, 'r, 'k, 'a) kernel" where
  "on_space u f k =
     (case spaces k u of
        None \<Rightarrow> (None, k)
      | Some sp \<Rightarrow>
          (case f (m_inner sp, kmem_of k, kmm_of k) of
             (b, a, m, l) \<Rightarrow> (Some b, (set_kmm l (set_mem m k))\<lparr>spaces := (spaces k)(u \<mapsto> sp\<lparr>m_inner := a\<rparr>)\<rparr>)))"

definition UserAddressSpace_Destroy ::
  "('v, 'r, 'k, 'a) plat \<Rightarrow> addr \<Rightarrow> ('v, 'r, 'k, 'a) kernel \<Rightarrow> ('v, 'r, 'k, 'a) kernel" where
  "UserAddressSpace_Destroy P u k =
     (case spaces k u of
        None \<Rightarrow> k
      | Some sp \<Rightarrow>
          (let k = snd (on_space u (as_Unmap P (va_base sp) (va_top sp - va_base sp)) k);
               k = set_kmm (FreePages P (PhysicalToPfn P (root_pa sp)) (kmm_of k)) k
           in k\<lparr>spaces := (spaces k)(u := None)\<rparr>))"

definition UserAddressSpace_Fork ::
  "('v, 'r, 'k, 'a) plat \<Rightarrow> addr \<Rightarrow> ('v, 'r, 'k, 'a) kernel \<Rightarrow> addr expected \<times> ('v, 'r, 'k, 'a) kernel" where
  "UserAddressSpace_Fork P u k =
     (case UserAddressSpace_Create P k of
        (Value c, k) \<Rightarrow>
          (case (spaces k u, spaces k c) of
             (Some sp, Some csp) \<Rightarrow>
               (case as_Fork P (m_inner sp) (m_inner csp) (kmem_of k) (kmm_of k) of
                  (ok, a, a', child_view, l) \<Rightarrow>
                    (let k = (set_kmm l k)
                           \<lparr>spaces := (spaces k)(u \<mapsto> sp\<lparr>m_inner := a\<rparr>, c \<mapsto> csp\<lparr>m_inner := a'\<rparr>),
                            views := (views k)(root_pa csp := child_view)\<rparr>
                     in if ok then (Value c, k)
                        else (Unexpected (- ENOMEM), UserAddressSpace_Destroy P c k)))
           | _ \<Rightarrow> (Bug, k))
      | (Unexpected e, k) \<Rightarrow> (Unexpected e, k)
      | (Bug, k) \<Rightarrow> (Bug, k))"

section \<open>The kernel half of a new page table\<close>

lemma slot_region: "j < 512 \<Longrightarrow> region (a + 8 * of_nat j) 8 \<subseteq> region a 4096"
  using region_sub [of "8 * j" 8 4096 a] by simp

lemma slots_disjoint:
  "i < 512 \<Longrightarrow> j < 512 \<Longrightarrow> i \<noteq> j \<Longrightarrow> region (a + 8 * of_nat i) 8 \<inter> region (a + 8 * of_nat j) 8 = {}"
  using region_offsets_disjoint [of "8 * i" 8 "8 * j" 8 a] region_offsets_disjoint [of "8 * j" 8 "8 * i" 8 a]
  by (cases "i < j") auto

lemma load64_cong: "(\<And>x. x \<in> region a 8 \<Longrightarrow> m x = m' x) \<Longrightarrow> load64 m a = load64 m' a"
  unfolding load64_def by (intro arg_cong [where f = of_bytes] read_bytes_cong)

lemma mirror_prefix:
  fixes m :: mem and uroot kroot :: addr
  assumes "region uroot 4096 \<inter> region kroot 4096 = {}" and "256 \<le> n" and "n \<le> 512"
  defines "m' \<equiv> fold (\<lambda>i m. store64 m (uroot + 8 * of_nat i) (load64 m (kroot + 8 * of_nat i))) [256..<n] m"
  shows "(\<forall>j < 512. load64 m' (uroot + 8 * of_nat j) =
            (if 256 \<le> j \<and> j < n then load64 m (kroot + 8 * of_nat j) else load64 m (uroot + 8 * of_nat j))) \<and>
         (\<forall>x. x \<notin> region uroot 4096 \<longrightarrow> m' x = m x)"
  unfolding m'_def using assms(2,3)
proof (induction n rule: dec_induct)
  case base
  show ?case by simp (intro allI impI, linarith)
next
  case (step n)
  let ?m = "fold (\<lambda>i m. store64 m (uroot + 8 * of_nat i) (load64 m (kroot + 8 * of_nat i))) [256..<n] m"
  let ?w = "load64 ?m (kroot + 8 * of_nat n)"
  have IH: "\<forall>j < 512. load64 ?m (uroot + 8 * of_nat j) =
            (if 256 \<le> j \<and> j < n then load64 m (kroot + 8 * of_nat j) else load64 m (uroot + 8 * of_nat j))"
    "\<forall>x. x \<notin> region uroot 4096 \<longrightarrow> ?m x = m x" using step by simp_all
  have n: "n < 512" using step by simp
  have out: "x \<notin> region uroot 4096" if "x \<in> region (kroot + 8 * of_nat n) 8" for x
    using that slot_region [OF n, of kroot] assms(1) by blast
  have w: "?w = load64 m (kroot + 8 * of_nat n)"
    by (intro load64_cong IH(2) [rule_format] out)
  have st: "fold (\<lambda>i m. store64 m (uroot + 8 * of_nat i) (load64 m (kroot + 8 * of_nat i))) [256..<Suc n] m =
      store64 ?m (uroot + 8 * of_nat n) ?w" using step(1) by simp
  have "load64 (store64 ?m (uroot + 8 * of_nat n) ?w) (uroot + 8 * of_nat j) =
      (if 256 \<le> j \<and> j < Suc n then load64 m (kroot + 8 * of_nat j) else load64 m (uroot + 8 * of_nat j))"
    if "j < 512" for j
  proof (cases "j = n")
    case True
    then show ?thesis using w step(1) by simp
  next
    case False
    then have "load64 (store64 ?m (uroot + 8 * of_nat n) ?w) (uroot + 8 * of_nat j) = load64 ?m (uroot + 8 * of_nat j)"
      using slots_disjoint [OF n that] by (intro load64_store64_other) simp
    then show ?thesis using IH(1) that False by (simp add: less_Suc_eq)
  qed
  moreover have "store64 ?m (uroot + 8 * of_nat n) ?w x = m x" if "x \<notin> region uroot 4096" for x
  proof -
    have "x \<notin> region (uroot + 8 * of_nat n) 8" using that slot_region [OF n, of uroot] by blast
    then have "store64 ?m (uroot + 8 * of_nat n) ?w x = ?m x"
      unfolding store64_def by (intro write_bytes_other) simp
    then show ?thesis using IH(2) that by simp
  qed
  ultimately show ?case unfolding st by blast
qed

lemma mirror_kernel_entries:
  assumes "region uroot 4096 \<inter> region kroot 4096 = {}"
  shows "(\<forall>j < 512. load64 (mirror_kernel uroot kroot m) (uroot + 8 * of_nat j) =
            (if 256 \<le> j \<and> j < 512 then load64 m (kroot + 8 * of_nat j) else load64 m (uroot + 8 * of_nat j))) \<and>
         (\<forall>x. x \<notin> region uroot 4096 \<longrightarrow> mirror_kernel uroot kroot m x = m x)"
  unfolding mirror_kernel_def by (rule mirror_prefix [OF assms]) simp_all

lemma user_half_iff: "user_half a \<longleftrightarrow> unat a < 2 ^ 63"
proof -
  have "bit a 63 \<longleftrightarrow> odd (unat a div 2 ^ 63)"
    by (metis bit_iff_odd bit_unsigned_iff possible_bit_nat bit_imp_le_length impossible_bit)
  moreover have "unat a div 2 ^ 63 < 2" using unat_lt_2p [of a] by (simp add: less_mult_imp_div_less)
  ultimately show ?thesis unfolding user_half_def by (auto simp: less_2_cases_iff div_eq_0_iff)
qed

lemma load64_zeroed:
  assumes "j < 512"
  shows "load64 (MemoryZero m a kPageSize) (a + 8 * of_nat j) = 0"
proof -
  have "read_bytes (MemoryZero m a kPageSize) a 4096 = replicate 4096 0"
    by (simp add: MemoryZero_def kPageSize_def read_write_same)
  then have "read_bytes (MemoryZero m a kPageSize) (a + of_nat (8 * j)) 8 = replicate 8 0"
    using read_bytes_sub [of "8 * j" 8 4096 "MemoryZero m a kPageSize" a] assms by simp
  then show ?thesis by (simp add: load64_def numeral_eq_Suc)
qed

text \<open>
  C29: A new user address space shares exactly the kernel's half: in its root page table the
  entries 256 to 511 are those of the page table in use and the entries 0 to 255 are empty, no
  other memory changes, and its user range ends below the kernel half. The hypothesis says that the
  page allocator did not return the page table in use.
\<close>

theorem UserAddressSpace_mirrors_kernel:
  assumes "UserAddressSpace_Create P k = (Value u, k')" and "AllocatePage (lib P) (kmm_of k) = (Some pfn, l)"
    and "region (hhdm (lib P) + PfnToPhysical (lib P) pfn) 4096 \<inter>
         region (hhdm (lib P) + Cr3PhysBase P (cr3 (sch k))) 4096 = {}"
  shows "\<exists>sp. spaces k' u = Some sp \<and> root_pa sp = PfnToPhysical (lib P) pfn \<and> user_half (va_top sp) \<and>
     (\<forall>j < 256. load64 (kmem_of k') (hhdm (lib P) + root_pa sp + 8 * of_nat j) = 0) \<and>
     (\<forall>j. 256 \<le> j \<and> j < 512 \<longrightarrow> load64 (kmem_of k') (hhdm (lib P) + root_pa sp + 8 * of_nat j) =
        load64 (kmem_of k) (hhdm (lib P) + Cr3PhysBase P (cr3 (sch k)) + 8 * of_nat j)) \<and>
     (\<forall>x. x \<notin> region (hhdm (lib P) + root_pa sp) 4096 \<longrightarrow> kmem_of k' x = kmem_of k x)"
proof -
  let ?rv = "hhdm (lib P) + PfnToPhysical (lib P) pfn" and ?kv = "hhdm (lib P) + Cr3PhysBase P (cr3 (sch k))"
  let ?z = "MemoryZero (kmem_of k) ?rv kPageSize"
  have mem: "kmem_of k' = mirror_kernel ?rv ?kv ?z"
    using assms(1,2) by (auto simp: UserAddressSpace_Create_def Let_def kmem_of_def set_mem_def set_kmm_def kmm_of_def split: prod.splits option.splits)
  obtain sp where sp: "spaces k' u = Some sp" "root_pa sp = PfnToPhysical (lib P) pfn"
    "va_top sp = (if paging_level5 P then 0x00FFFFFFFFFFF000 else 0x00007FFFFFFFF000)"
    using assms(1,2) by (auto simp: UserAddressSpace_Create_def Let_def split: prod.splits option.splits)
  have z_other: "?z x = kmem_of k x" if "x \<notin> region ?rv 4096" for x
    unfolding MemoryZero_def using that by (subst write_bytes_other) (simp_all add: kPageSize_def)
  have out: "x \<notin> region ?rv 4096" if "j < 512" "x \<in> region (?kv + 8 * of_nat j) 8" for x and j :: nat
    using that(2) slot_region [OF that(1), of ?kv] assms(3) by blast
  have kz: "load64 ?z (?kv + 8 * of_nat j) = load64 (kmem_of k) (?kv + 8 * of_nat j)" if "j < 512" for j
    by (intro load64_cong z_other out [OF that])
  note M = mirror_kernel_entries [OF assms(3), where m = ?z]
  have "user_half (va_top sp)" unfolding sp(3) by (simp add: user_half_iff)
  moreover have "load64 (kmem_of k') (?rv + 8 * of_nat j) = 0" if "j < 256" for j
    unfolding mem using M load64_zeroed that by simp
  moreover have "load64 (kmem_of k') (?rv + 8 * of_nat j) = load64 (kmem_of k) (?kv + 8 * of_nat j)"
    if "256 \<le> j \<and> j < 512" for j
    unfolding mem using M kz that by simp
  moreover have "kmem_of k' x = kmem_of k x" if "x \<notin> region ?rv 4096" for x
    unfolding mem using M z_other that by simp
  ultimately have "spaces k' u = Some sp \<and> root_pa sp = PfnToPhysical (lib P) pfn \<and> user_half (va_top sp) \<and>
     (\<forall>j < 256. load64 (kmem_of k') (?rv + 8 * of_nat j) = 0) \<and>
     (\<forall>j. 256 \<le> j \<and> j < 512 \<longrightarrow> load64 (kmem_of k') (?rv + 8 * of_nat j) = load64 (kmem_of k) (?kv + 8 * of_nat j)) \<and>
     (\<forall>x. x \<notin> region ?rv 4096 \<longrightarrow> kmem_of k' x = kmem_of k x)"
    using sp(1,2) by blast
  then show ?thesis unfolding sp(2) [symmetric] by blast
qed

text \<open>A platform and a kernel with a process and its child, for the concrete instances. An address space is
  the list of its mapped ranges.\<close>

definition ex_plat :: "((u64 \<times> u64) list, u8 list, nat, (u64 \<times> u64) list) plat" where
  "ex_plat = \<lparr>lib = ex_fk, pid_FindFirstUnsetAndSet = (\<lambda>k. (of_nat k + 3, Suc k)), pid_Set = (\<lambda>_ k. k), pid_Reset = (\<lambda>_ k. k),
     FreePages = (\<lambda>_ k. k), PhysicalToPfn = (\<lambda>p. p div 4096), Cr3PhysBase = (\<lambda>c. c AND NOT 0xFFF), paging_level5 = False,
     as_new = (\<lambda>_ _ _. []), as_MapAnonymous = (\<lambda>a n _ _ (v, m, l). (Some a, (a, n) # v, m, l)),
     as_Unmap = (\<lambda>a n (v, m, l). (True, filter (\<lambda>r. r \<noteq> (a, n)) v, m, l)),
     as_Protect = (\<lambda>_ _ _ s. (True, s)), as_WriteFault = (\<lambda>_ s. (True, s)),
     as_Fork = (\<lambda>a _ m l. (True, a, a, m, l)), AllocateKernel = (\<lambda>k. (Some (0x700000 + 0x8000 * of_nat k), Suc k)),
     UserspaceTrampoline = 0x111, ForkReturn = 0x222, kernel_root = 0x8000,
     NowNanoseconds = (\<lambda>k. (0, k)), NowWallClock = (\<lambda>k. (0, k))\<rparr>"

definition ex_ksched :: sched where
  "ex_ksched = ex_sched\<lparr>threads := [1 \<mapsto> ex_thread Running 2 5 0, 2 \<mapsto> (ex_thread Running 0 3 0)\<lparr>m_process := Some 0x500\<rparr>,
       5 \<mapsto> (ex_thread Blocked 1 4 0x600)\<lparr>m_process := Some 0x500\<rparr>],
     queues := [[], [], []], cr3 := 0x8000\<rparr>"

definition ex_kernel :: "((u64 \<times> u64) list, u8 list, nat, (u64 \<times> u64) list) kernel" where
  "ex_kernel = \<lparr>io = ex_filesys, sch = ex_ksched, kstacks = (\<lambda>_. 0),
     procs = [0x500 \<mapsto> (Process_new 1 0x510 2 2)\<lparr>m_fd_table := ex_table, m_children := [0x600], m_heap_start := 0x30000, m_heap_end := 0x30800\<rparr>,
              0x600 \<mapsto> (Process_new 2 0x610 2 2)\<lparr>m_parent := Some 0x500, m_proc_state := ProcZombie, m_exit_status := 7\<rparr>],
     spaces = [0x510 \<mapsto> \<lparr>m_inner = [], root_pa = 0x9000, va_base = 0x1000, va_top = 0x00007FFFFFFFF000\<rparr>,
               0x610 \<mapsto> \<lparr>m_inner = [], root_pa = 0xA000, va_base = 0x1000, va_top = 0x00007FFFFFFFF000\<rparr>],
     views = (\<lambda>_ _. 0), msrs = (\<lambda>_. 0), boot_init = True\<rparr>"

theorem UserAddressSpace_mirrors_kernel_witness:
  "\<exists>u k'. UserAddressSpace_Create ex_plat ex_kernel = (Value u, k') \<and>
     AllocatePage (lib ex_plat) (kmm_of ex_kernel) = (Some 0, 1) \<and>
     (\<exists>sp. spaces k' u = Some sp \<and> load64 (kmem_of k') (0x10000000 + root_pa sp) = 0)"
proof -
  have alloc: "AllocatePage (lib ex_plat) (kmm_of ex_kernel) = (Some 0, 1)"
    by (simp add: ex_plat_def ex_fk_def ex_kernel_def kmm_of_def ex_filesys_def ex_fsys_def)
  have new: "new_space_objects (lib ex_plat) k = (Some (0x100000 + 256 * of_nat (k + 2)), k + 3)" for k
    by (simp add: ex_plat_def ex_fk_def new_space_objects_def)
  have "\<exists>u k'. UserAddressSpace_Create ex_plat ex_kernel = (Value u, k')"
    unfolding UserAddressSpace_Create_def Let_def alloc by (simp only: prod.case option.case new) blast
  then obtain u k' where run: "UserAddressSpace_Create ex_plat ex_kernel = (Value u, k')" by blast
  have hh: "hhdm (lib ex_plat) = 0x10000000" "PfnToPhysical (lib ex_plat) 0 = 0"
    by (simp_all add: ex_plat_def ex_fk_def)
  have "Cr3PhysBase ex_plat (cr3 (sch ex_kernel)) = 0x8000" by (simp add: ex_plat_def ex_kernel_def ex_ksched_def)
  then have "region (hhdm (lib ex_plat) + PfnToPhysical (lib ex_plat) 0) 4096 \<inter>
      region (hhdm (lib ex_plat) + Cr3PhysBase ex_plat (cr3 (sch ex_kernel))) 4096 = {}"
    unfolding hh by (simp only: add_0_right) (rule region_disjoint, simp_all)
  from UserAddressSpace_mirrors_kernel [OF run alloc this] obtain sp where
    sp: "spaces k' u = Some sp" and z: "\<forall>j < 256. load64 (kmem_of k') (hhdm (lib ex_plat) + root_pa sp + 8 * of_nat j) = 0"
    by (elim exE conjE)
  have "load64 (kmem_of k') (0x10000000 + root_pa sp) = 0"
    using z [rule_format, of 0] hh(1) by simp
  with run alloc sp show ?thesis by (intro exI conjI)
qed

end
