(* ===== verification/SysFiles.thy ===== *)
theory SysFiles
  imports Kernel
begin

text \<open>
  The system calls on files (\<open>Syscall::Dispatch\<close> in \<open>arch/x86_64/cpu/SyscallDispatch.cpp\<close>, one definition per \<open>case\<close>).

  A handler takes the process (an address), the register frame and the kernel state. Its result is a return
  value (\<open>Ret\<close>), or the thread does not come back from it now: it sleeps in a pipe or on a child, it
  yields until a deadline, it has ended, or the kernel panicked (\<open>Crash\<close>, also for a null pointer used by the
  kernel). User memory is accessed directly, as the code does, and such an access does not fault.

  The local \<open>RefPtr\<close> of a handler is a reference taken by \<open>fd_addref\<close> and released on return: \<open>with_fd\<close>.
\<close>

section \<open>Results\<close>

datatype sysret = Ret u64 | WaitPipe cond_var nat | WaitChild addr | Sleep u64 | Gone | Crash

definition err :: "int \<Rightarrow> u64" where
  "err e = word_of_int e"

definition of_expected :: "('b \<Rightarrow> u64) \<Rightarrow> 'b expected \<Rightarrow> sysret" where
  "of_expected f r = (case r of Value x \<Rightarrow> Ret (f x) | Unexpected e \<Rightarrow> Ret (err e) | Bug \<Rightarrow> Crash)"

definition of_blocking :: "u64 expected blocking \<Rightarrow> sysret" where
  "of_blocking r = (case r of Return e \<Rightarrow> of_expected (\<lambda>w. w) e | Wait cv n \<Rightarrow> WaitPipe cv n)"

text \<open>A C \<open>int\<close> argument is the low half of its register.\<close>

definition cint :: "u64 \<Rightarrow> int" where
  "cint w = sint (ucast w :: u32)"

section \<open>Access to the descriptor table\<close>

definition on_io :: "(('v, 'r, 'k) filesys \<Rightarrow> ('v, 'r, 'k) filesys) \<Rightarrow> ('v, 'r, 'k, 'a) kernel \<Rightarrow> ('v, 'r, 'k, 'a) kernel" where
  "on_io f k = k\<lparr>io := f (io k)\<rparr>"

definition on_table ::
  "addr \<Rightarrow> (fd_table \<Rightarrow> ('v, 'r, 'k) filesys \<Rightarrow> 'b expected \<times> fd_table \<times> ('v, 'r, 'k) filesys) \<Rightarrow>
   ('v, 'r, 'k, 'a) kernel \<Rightarrow> 'b expected \<times> ('v, 'r, 'k, 'a) kernel" where
  "on_table p f k =
     (case procs k p of
        None \<Rightarrow> (Bug, k)
      | Some pr \<Rightarrow>
          (case f (m_fd_table pr) (io k) of
             (r, T, s) \<Rightarrow> (r, upd_proc p (\<lambda>pr. pr\<lparr>m_fd_table := T\<rparr>) (k\<lparr>io := s\<rparr>))))"

definition with_fd ::
  "addr \<Rightarrow> u32 \<Rightarrow> (addr \<Rightarrow> ('v, 'r, 'k, 'a) kernel \<Rightarrow> sysret \<times> ('v, 'r, 'k, 'a) kernel) \<Rightarrow>
   ('v, 'r, 'k, 'a) kernel \<Rightarrow> sysret \<times> ('v, 'r, 'k, 'a) kernel" where
  "with_fd p fd body k =
     (case procs k p of
        None \<Rightarrow> (Crash, k)
      | Some pr \<Rightarrow>
          (case GetFd (m_fd_table pr) fd of
             None \<Rightarrow> (Ret (err (- EBADF)), k)
           | Some d \<Rightarrow>
               (case body d (on_io (fd_addref d) k) of
                  (Ret w, k) \<Rightarrow> (Ret w, on_io (fd_release d) k)
                | (r, k) \<Rightarrow> (r, k))))"

text \<open>The file description and its vnode, as the handlers read them through the pointer.\<close>

definition the_file :: "addr \<Rightarrow> ('v, 'r, 'k, 'a) kernel \<Rightarrow> FileDescription option" where
  "the_file d k = files (io k) d"

definition vnode_of :: "addr \<Rightarrow> ('v, 'r, 'k, 'a) kernel \<Rightarrow> ('v, 'r) vnode option" where
  "vnode_of v k = vnodes (fs (io k)) v"

definition set_offset :: "addr \<Rightarrow> u64 \<Rightarrow> ('v, 'r, 'k, 'a) kernel \<Rightarrow> ('v, 'r, 'k, 'a) kernel" where
  "set_offset d w = on_io (upd_file d (\<lambda>f. f\<lparr>fd_offset := w\<rparr>))"

text \<open>Resolution of a path given as a C string in user memory, from the root of the process.\<close>

definition user_path :: "addr \<Rightarrow> addr \<Rightarrow> ('v, 'r, 'k, 'a) kernel \<Rightarrow> addr expected" where
  "user_path p ptr k =
     (case (procs k p, cstr (kmem_of k) ptr) of
        (Some pr, Some path) \<Rightarrow> PathToVnode (m_root pr) path (fs (io k))
      | _ \<Rightarrow> Bug)"

section \<open>Reading and writing\<close>

definition sys_read :: "('v, 'r, 'k, 'a) plat \<Rightarrow> addr \<Rightarrow> InterruptFrame \<Rightarrow> ('v, 'r, 'k, 'a) kernel \<Rightarrow> sysret \<times> ('v, 'r, 'k, 'a) kernel" where
  "sys_read P p regs =
     with_fd p (ucast (rdi regs)) (\<lambda>d k.
       case FileDescription_Read (lib P) d (rsi regs) (rdx regs) (io k) of (r, s) \<Rightarrow> (of_blocking r, k\<lparr>io := s\<rparr>))"

definition sys_write :: "('v, 'r, 'k, 'a) plat \<Rightarrow> addr \<Rightarrow> InterruptFrame \<Rightarrow> ('v, 'r, 'k, 'a) kernel \<Rightarrow> sysret \<times> ('v, 'r, 'k, 'a) kernel" where
  "sys_write P p regs =
     with_fd p (ucast (rdi regs)) (\<lambda>d k.
       case FileDescription_Write (lib P) d (rsi regs) (rdx regs) (io k) of (r, s) \<Rightarrow> (of_blocking r, k\<lparr>io := s\<rparr>))"

text \<open>The loops of \<open>writev\<close> and \<open>readv\<close> over the entries of 16 bytes from \<open>iov\<close>, with the bytes moved so far. Each entry
  is read from memory when it is used; \<open>readv\<close> reads the length again after the transfer.\<close>

fun writev_loop ::
  "('v, 'r, 'k, 'a) plat \<Rightarrow> addr \<Rightarrow> addr \<Rightarrow> nat \<Rightarrow> u64 \<Rightarrow> ('v, 'r, 'k, 'a) kernel \<Rightarrow> sysret \<times> ('v, 'r, 'k, 'a) kernel" where
  "writev_loop P d iov 0 tot k = (Ret tot, k)"
| "writev_loop P d iov (Suc n) tot k =
     (if load64 (kmem_of k) (iov + 8) = 0 then writev_loop P d (iov + 16) n tot k
      else
        (case FileDescription_Write (lib P) d (load64 (kmem_of k) iov) (load64 (kmem_of k) (iov + 8)) (io k) of
           (Return (Value w), s) \<Rightarrow> writev_loop P d (iov + 16) n (tot + w) (k\<lparr>io := s\<rparr>)
         | (r, s) \<Rightarrow> (of_blocking r, k\<lparr>io := s\<rparr>)))"

fun readv_loop ::
  "('v, 'r, 'k, 'a) plat \<Rightarrow> addr \<Rightarrow> addr \<Rightarrow> nat \<Rightarrow> u64 \<Rightarrow> ('v, 'r, 'k, 'a) kernel \<Rightarrow> sysret \<times> ('v, 'r, 'k, 'a) kernel" where
  "readv_loop P d iov 0 tot k = (Ret tot, k)"
| "readv_loop P d iov (Suc n) tot k =
     (if load64 (kmem_of k) (iov + 8) = 0 then readv_loop P d (iov + 16) n tot k
      else
        (case FileDescription_Read (lib P) d (load64 (kmem_of k) iov) (load64 (kmem_of k) (iov + 8)) (io k) of
           (Return (Value w), s) \<Rightarrow>
             (let k = k\<lparr>io := s\<rparr> in
              if w < load64 (kmem_of k) (iov + 8) then (Ret (tot + w), k)
              else readv_loop P d (iov + 16) n (tot + w) k)
         | (r, s) \<Rightarrow> (of_blocking r, k\<lparr>io := s\<rparr>)))"

definition sys_writev :: "('v, 'r, 'k, 'a) plat \<Rightarrow> addr \<Rightarrow> InterruptFrame \<Rightarrow> ('v, 'r, 'k, 'a) kernel \<Rightarrow> sysret \<times> ('v, 'r, 'k, 'a) kernel" where
  "sys_writev P p regs =
     with_fd p (ucast (rdi regs)) (\<lambda>d k.
       if rsi regs = 0 \<or> cint (rdx regs) \<le> 0 then (Ret (err (- EINVAL)), k)
       else writev_loop P d (rsi regs) (nat (cint (rdx regs))) 0 k)"

definition sys_readv :: "('v, 'r, 'k, 'a) plat \<Rightarrow> addr \<Rightarrow> InterruptFrame \<Rightarrow> ('v, 'r, 'k, 'a) kernel \<Rightarrow> sysret \<times> ('v, 'r, 'k, 'a) kernel" where
  "sys_readv P p regs =
     with_fd p (ucast (rdi regs)) (\<lambda>d k.
       if rsi regs = 0 \<or> cint (rdx regs) \<le> 0 then (Ret (err (- EINVAL)), k)
       else readv_loop P d (rsi regs) (nat (cint (rdx regs))) 0 k)"

definition sys_lseek :: "addr \<Rightarrow> InterruptFrame \<Rightarrow> ('v, 'r, 'k, 'a) kernel \<Rightarrow> sysret \<times> ('v, 'r, 'k, 'a) kernel" where
  "sys_lseek p regs =
     with_fd p (ucast (rdi regs)) (\<lambda>d k.
       case the_file d k of
         None \<Rightarrow> (Crash, k)
       | Some f \<Rightarrow>
           (let offset = rsi regs; whence = cint (rdx regs) in
            if whence = 0 then
              (if sint offset < 0 then (Ret (err (- EINVAL)), k)
               else (Ret offset, set_offset d offset k))
            else if whence = 1 then
              (if sint offset < 0 \<and> - offset > fd_offset f then (Ret (err (- EINVAL)), k)
               else (Ret (fd_offset f + offset), set_offset d (fd_offset f + offset) k))
            else if whence = 2 then
              (case fd_vnode f of
                 None \<Rightarrow> (Ret (err (- EBADF)), k)
               | Some v \<Rightarrow>
                   (case vnode_of v k of
                      None \<Rightarrow> (Crash, k)
                    | Some vn \<Rightarrow> (Ret (v_size vn + offset), set_offset d (v_size vn + offset) k)))
            else (Ret (err (- EINVAL)), k)))"

section \<open>Descriptors\<close>

definition sys_close :: "addr \<Rightarrow> InterruptFrame \<Rightarrow> ('v, 'r, 'k, 'a) kernel \<Rightarrow> sysret \<times> ('v, 'r, 'k, 'a) kernel" where
  "sys_close p regs k =
     apfst (of_expected (\<lambda>_. 0)) (on_table p (\<lambda>T s. (Value (), FreeFd (ucast (rdi regs)) T s)) k)"

definition sys_dup :: "('v, 'r, 'k, 'a) plat \<Rightarrow> addr \<Rightarrow> InterruptFrame \<Rightarrow> ('v, 'r, 'k, 'a) kernel \<Rightarrow> sysret \<times> ('v, 'r, 'k, 'a) kernel" where
  "sys_dup P p regs =
     with_fd p (ucast (rdi regs)) (\<lambda>d k. apfst (of_expected ucast) (on_table p (AllocateFd (lib P) (Some d)) k))"

definition sys_dup2 :: "('v, 'r, 'k, 'a) plat \<Rightarrow> addr \<Rightarrow> InterruptFrame \<Rightarrow> ('v, 'r, 'k, 'a) kernel \<Rightarrow> sysret \<times> ('v, 'r, 'k, 'a) kernel" where
  "sys_dup2 P p regs k =
     (let old_fd = ucast (rdi regs); new_fd_num = ucast (rsi regs) :: u32 in
      if old_fd = new_fd_num then (Ret (ucast new_fd_num), k)
      else with_fd p old_fd (\<lambda>d k. apfst (of_expected ucast) (on_table p (AllocateFdAt (lib P) new_fd_num (Some d)) k)) k)"

text \<open>The loop of \<open>F_DUPFD\<close>: the first free number from \<open>new_fd\<close> on at which the installation succeeds.\<close>

function dupfd_loop ::
  "('v, 'r, 'k) fk \<Rightarrow> addr \<Rightarrow> u32 \<Rightarrow> fd_table \<Rightarrow> ('v, 'r, 'k) filesys \<Rightarrow> u32 expected \<times> fd_table \<times> ('v, 'r, 'k) filesys" where
  "dupfd_loop K d new_fd T s =
     (if unat new_fd < kMaxFds then
        (if GetFd T new_fd = None then
           (case AllocateFdAt K new_fd (Some d) T s of
              (Value fd, T, s) \<Rightarrow> (Value fd, T, s)
            | (_, T, s) \<Rightarrow> dupfd_loop K d (new_fd + 1) T s)
         else dupfd_loop K d (new_fd + 1) T s)
      else (Unexpected (- EMFILE), T, s))"
  by pat_completeness auto
termination
  by (relation "measure (\<lambda>(K, d, new_fd, T, s). 2 ^ 32 - unat new_fd)")
    (auto simp: kMaxFds_def unat_word_ariths take_bit_nat_eq_self)

declare dupfd_loop.simps [simp del]

definition sys_fcntl :: "('v, 'r, 'k, 'a) plat \<Rightarrow> addr \<Rightarrow> InterruptFrame \<Rightarrow> ('v, 'r, 'k, 'a) kernel \<Rightarrow> sysret \<times> ('v, 'r, 'k, 'a) kernel" where
  "sys_fcntl P p regs =
     with_fd p (ucast (rdi regs)) (\<lambda>d k.
       let cmd = cint (rsi regs); arg = rdx regs in
       if cmd = 0 \<or> cmd = 1030 then apfst (of_expected ucast) (on_table p (dupfd_loop (lib P) d (ucast arg)) k)
       else if cmd = 1 \<or> cmd = 2 then (Ret 0, k)
       else if cmd = 3 then (case the_file d k of None \<Rightarrow> (Crash, k) | Some f \<Rightarrow> (Ret (ucast (fd_flags f)), k))
       else if cmd = 4 then (Ret 0, on_io (set_flags d (ucast arg)) k)
       else (Ret (err (- EINVAL)), k))"

section \<open>Opening\<close>

definition RFind :: "char \<Rightarrow> string \<Rightarrow> nat option" where
  "RFind c str =
     (if c \<in> set str then Some (length str - 1 - length (takeWhile (\<lambda>x. x \<noteq> c) (rev str))) else None)"

text \<open>The directory and the name view for a file that does not exist yet. A path whose only slash is the first
  character is taken as a whole.\<close>

definition open_parent :: "addr \<Rightarrow> addr \<Rightarrow> ('v, 'r, 'k, 'a) kernel \<Rightarrow> (addr \<times> StringView) expected" where
  "open_parent p ptr k =
     (case (procs k p, cstr (kmem_of k) ptr) of
        (Some pr, Some path) \<Rightarrow>
          (case RFind CHR ''/'' path of
             None \<Rightarrow> Value (m_cwd pr, View ptr (length path))
           | Some last_slash \<Rightarrow>
               if last_slash = 0 then Value (m_cwd pr, View ptr (length path))
               else
                 (case PathToVnode (m_root pr) (take last_slash path) (fs (io k)) of
                    Value v \<Rightarrow> Value (v, View (ptr + of_nat (last_slash + 1)) (length path - (last_slash + 1)))
                  | Unexpected e \<Rightarrow> Unexpected e
                  | Bug \<Rightarrow> Bug))
      | _ \<Rightarrow> Bug)"

definition open_create ::
  "('v, 'r, 'k, 'a) plat \<Rightarrow> addr \<Rightarrow> addr \<Rightarrow> ('v, 'r, 'k, 'a) kernel \<Rightarrow> addr expected \<times> ('v, 'r, 'k, 'a) kernel" where
  "open_create P p ptr k =
     (case open_parent p ptr k of
        Bug \<Rightarrow> (Bug, k)
      | Unexpected e \<Rightarrow> (Unexpected e, k)
      | Value (dir, filename) \<Rightarrow>
          (case vnode_of dir k of
             None \<Rightarrow> (Bug, k)
           | Some dn \<Rightarrow>
               if ops dn = None \<or> ops dn = Some PipeOps then (Unexpected (- ENOENT), k)
               else (case vnode_Create (lib P) dir filename (fs (io k)) of (r, t) \<Rightarrow> (r, on_io (set_fs t) k))))"

text \<open>The vnode of the path: the existing one, cut to size 0 under \<open>O_TRUNC\<close>, or a new one under \<open>O_CREAT\<close>.\<close>

definition open_target ::
  "('v, 'r, 'k, 'a) plat \<Rightarrow> addr \<Rightarrow> addr \<Rightarrow> u32 \<Rightarrow> ('v, 'r, 'k, 'a) kernel \<Rightarrow> addr expected \<times> ('v, 'r, 'k, 'a) kernel" where
  "open_target P p ptr flags k =
     (case user_path p ptr k of
        Bug \<Rightarrow> (Bug, k)
      | Value v \<Rightarrow>
          (Value v,
           if flags AND 0x200 \<noteq> 0 then on_io (\<lambda>s. set_fs (upd_vnode v (\<lambda>vn. vn\<lparr>v_size := 0\<rparr>) (fs s)) s) k else k)
      | Unexpected e \<Rightarrow> if flags AND 0x40 \<noteq> 0 then open_create P p ptr k else (Unexpected e, k))"

definition sys_open :: "('v, 'r, 'k, 'a) plat \<Rightarrow> addr \<Rightarrow> InterruptFrame \<Rightarrow> ('v, 'r, 'k, 'a) kernel \<Rightarrow> sysret \<times> ('v, 'r, 'k, 'a) kernel" where
  "sys_open P p regs k =
     (let flags = ucast (rsi regs) in
      case open_target P p (rdi regs) flags k of
        (Bug, k) \<Rightarrow> (Crash, k)
      | (Unexpected e, k) \<Rightarrow> (Ret (err e), k)
      | (Value v, k) \<Rightarrow>
          (case FileDescription_new (lib P) (Some v) flags (io k) of
             (Value d, s) \<Rightarrow>
               (let k = k\<lparr>io := s\<rparr>;
                    k = (if flags AND 0x400 \<noteq> 0
                         then (case vnode_of v k of Some vn \<Rightarrow> set_offset d (v_size vn) k | None \<Rightarrow> k) else k);
                    (r, k) = on_table p (AllocateFd (lib P) (Some d)) k
                in (of_expected ucast r, on_io (fd_release d) k))
           | (_, s) \<Rightarrow> (Crash, k\<lparr>io := s\<rparr>)))"

text \<open>\<open>openat\<close> ignores its directory, rewrites the registers and dispatches again as \<open>open\<close>.\<close>

definition openat_regs :: "InterruptFrame \<Rightarrow> InterruptFrame" where
  "openat_regs regs = regs\<lparr>rdi := rsi regs, rsi := ucast (ucast (rdx regs) :: u32), rax := 2\<rparr>"

definition sys_pipe :: "('v, 'r, 'k, 'a) plat \<Rightarrow> addr \<Rightarrow> InterruptFrame \<Rightarrow> ('v, 'r, 'k, 'a) kernel \<Rightarrow> sysret \<times> ('v, 'r, 'k, 'a) kernel" where
  "sys_pipe P p regs k =
     (case PipeVnode_Create (lib P) (fs (io k)) of
        (Bug, t) \<Rightarrow> (Crash, on_io (set_fs t) k)
      | (Unexpected _, t) \<Rightarrow> (Ret (err (- ENOMEM)), on_io (set_fs t) k)
      | (Value v, t) \<Rightarrow>
          (case FileDescription_new (lib P) (Some v) kPipeRead (set_fs t (io k)) of
             (Value rd_desc, s) \<Rightarrow>
               (case FileDescription_new (lib P) (Some v) kPipeWrite s of
                  (Value wr_desc, s) \<Rightarrow>
                    (let (fd1, k) = on_table p (AllocateFd (lib P) (Some rd_desc)) (k\<lparr>io := s\<rparr>);
                         (fd2, k) = on_table p (AllocateFd (lib P) (Some wr_desc)) k;
                         drop = (\<lambda>k. on_io (fd_release rd_desc) (on_io (fd_release wr_desc) k));
                         free = (\<lambda>fd k. case fd of Value n \<Rightarrow> snd (on_table p (\<lambda>T s. (Value (), FreeFd n T s)) k) | _ \<Rightarrow> k)
                     in case (fd1, fd2) of
                          (Value a, Value b) \<Rightarrow>
                            (Ret 0, drop (set_mem (store32 (store32 (kmem_of k) (rdi regs) a) (rdi regs + 4) b) k))
                        | _ \<Rightarrow> if fd1 = Bug \<or> fd2 = Bug then (Crash, k)
                               else (Ret (err (- ENOMEM)), drop (free fd2 (free fd1 k))))
                | (_, s) \<Rightarrow> (Crash, k\<lparr>io := s\<rparr>))
           | (_, s) \<Rightarrow> (Crash, k\<lparr>io := s\<rparr>)))"

section \<open>Metadata\<close>

definition put_stat :: "addr \<Rightarrow> addr \<Rightarrow> ('v, 'r, 'k, 'a) kernel \<Rightarrow> sysret \<times> ('v, 'r, 'k, 'a) kernel" where
  "put_stat v user_stat k =
     (case vnode_of v k of
        None \<Rightarrow> (Crash, k)
      | Some vn \<Rightarrow> (Ret 0, set_mem (write_bytes (kmem_of k) user_stat (stat_bytes (VnodeToStat v vn))) k))"

text \<open>\<open>stat\<close>, \<open>lstat\<close> and \<open>newfstatat\<close> differ in the registers of the path and the buffer.\<close>

definition sys_stat :: "addr \<Rightarrow> addr \<Rightarrow> addr \<Rightarrow> ('v, 'r, 'k, 'a) kernel \<Rightarrow> sysret \<times> ('v, 'r, 'k, 'a) kernel" where
  "sys_stat p ptr user_stat k =
     (case user_path p ptr k of
        Bug \<Rightarrow> (Crash, k) | Unexpected e \<Rightarrow> (Ret (err e), k) | Value v \<Rightarrow> put_stat v user_stat k)"

definition sys_fstat :: "addr \<Rightarrow> InterruptFrame \<Rightarrow> ('v, 'r, 'k, 'a) kernel \<Rightarrow> sysret \<times> ('v, 'r, 'k, 'a) kernel" where
  "sys_fstat p regs =
     with_fd p (ucast (rdi regs)) (\<lambda>d k.
       case the_file d k of
         None \<Rightarrow> (Crash, k)
       | Some f \<Rightarrow> (case fd_vnode f of None \<Rightarrow> (Ret (err (- EBADF)), k) | Some v \<Rightarrow> put_stat v (rsi regs) k))"

definition sys_access :: "addr \<Rightarrow> InterruptFrame \<Rightarrow> ('v, 'r, 'k, 'a) kernel \<Rightarrow> sysret \<times> ('v, 'r, 'k, 'a) kernel" where
  "sys_access p regs k = (of_expected (\<lambda>_. 0) (user_path p (rdi regs) k), k)"

text \<open>The walk over the records just written, to the cookie of the last one. A record length of 0 does not advance,
  so the loop need not end (\<open>None\<close>).\<close>

partial_function (option) cookie_loop :: "mem \<Rightarrow> addr \<Rightarrow> addr \<Rightarrow> u64 \<Rightarrow> u64 option" where
  "cookie_loop m ptr stop offset =
     (if ptr < stop then cookie_loop m (ptr + ucast (load16 m (ptr + 16))) stop (load64 m (ptr + 8))
      else Some offset)"

definition sys_getdents64 :: "addr \<Rightarrow> InterruptFrame \<Rightarrow> ('v, 'r, 'k, 'a) kernel \<Rightarrow> sysret \<times> ('v, 'r, 'k, 'a) kernel" where
  "sys_getdents64 p regs =
     with_fd p (ucast (rdi regs)) (\<lambda>d k.
       case the_file d k of
         None \<Rightarrow> (Crash, k)
       | Some f \<Rightarrow>
           (case (fd_vnode f, Option.bind (fd_vnode f) (\<lambda>v. vnode_of v k)) of
              (None, _) \<Rightarrow> (Ret (err (- ENOTDIR)), k)
            | (Some _, None) \<Rightarrow> (Crash, k)
            | (Some v, Some vn) \<Rightarrow>
                if vtype vn \<noteq> Directory then (Ret (err (- ENOTDIR)), k)
                else if ops vn \<noteq> Some RamFsOps then (Ret 0, k)
                else
                  (case RamFs_Iterate v (rsi regs) (rdx regs) (fd_offset f) (fs (io k)) of
                     (Bug, t) \<Rightarrow> (Crash, on_io (set_fs t) k)
                   | (Unexpected e, t) \<Rightarrow> (Ret (err e), on_io (set_fs t) k)
                   | (Value w, t) \<Rightarrow>
                       (let k = on_io (set_fs t) k in
                        if w = 0 then (Ret w, k)
                        else (case cookie_loop (kmem_of k) (rsi regs) (rsi regs + w) (fd_offset f) of
                                None \<Rightarrow> (Crash, k)
                              | Some cookie \<Rightarrow> (Ret w, set_offset d cookie k))))))"

text \<open>\<open>ioctl\<close>: the window size, ignored terminal attributes, and no bytes available.\<close>

definition sys_ioctl :: "addr \<Rightarrow> InterruptFrame \<Rightarrow> ('v, 'r, 'k, 'a) kernel \<Rightarrow> sysret \<times> ('v, 'r, 'k, 'a) kernel" where
  "sys_ioctl p regs =
     with_fd p (ucast (rdi regs)) (\<lambda>d k.
       let request = rsi regs; arg = rdx regs in
       if request = 0x5413 then
         (Ret 0, if arg \<noteq> 0 then set_mem (write_bytes (kmem_of k) arg [25, 0, 80, 0, 0, 0, 0, 0]) k else k)
       else if request = 0x5401 \<or> request = 0x5402 then (Ret 0, k)
       else if request = 0x541B then (Ret 0, if arg \<noteq> 0 then set_mem (store32 (kmem_of k) arg 0) k else k)
       else (Ret (err (- ENOTTY)), k))"

end
