(* ===== verification/ProcessModel.thy ===== *)
theory ProcessModel
  imports Kernel
begin

text \<open>
  Processes (\<open>include/ceryx/proc/Process.hpp\<close>, \<open>arch/x86_64/proc/Process.cpp\<close>): the process id pool, creation, fork,
  exit and reaping, and the process tree.

  A process is named by its address. \<open>delete\<close> of a process destroys its members, so the references of a
  descriptor table that is still filled are released. Removing a node from an intrusive list it is not
  on is a violation of the list's contract and is \<open>Bug\<close>.
\<close>

section \<open>Process ids\<close>

definition kMaxPid :: u64 where
  "kMaxPid = 32768"

definition PidFree :: "('v, 'r, 'k, 'a) plat \<Rightarrow> u32 \<Rightarrow> ('v, 'r, 'k, 'a) kernel \<Rightarrow> ('v, 'r, 'k, 'a) kernel" where
  "PidFree P pid k =
     (if pid < 2 \<or> ucast pid \<ge> kMaxPid then k else set_kmm (pid_Reset P (ucast pid) (kmm_of k)) k)"

definition PidAlloc :: "('v, 'r, 'k, 'a) plat \<Rightarrow> ('v, 'r, 'k, 'a) kernel \<Rightarrow> u32 expected \<times> ('v, 'r, 'k, 'a) kernel" where
  "PidAlloc P k =
     (case pid_FindFirstUnsetAndSet P (kmm_of k) of
        (b, l) \<Rightarrow> (if b \<ge> kMaxPid then Unexpected (- EAGAIN) else Value (ucast b), set_kmm l k))"

section \<open>Creation and teardown\<close>

definition Process_Create ::
  "('v, 'r, 'k, 'a) plat \<Rightarrow> addr \<Rightarrow> addr \<Rightarrow> ('v, 'r, 'k, 'a) kernel \<Rightarrow> addr expected \<times> ('v, 'r, 'k, 'a) kernel" where
  "Process_Create P root cwd k =
     (case UserAddressSpace_Create P k of
        (Value u, k) \<Rightarrow>
          (let k = (if boot_init k then k else (set_kmm (pid_Set P 0 (kmm_of k)) k)\<lparr>boot_init := True\<rparr>) in
           case PidAlloc P k of
             (pid_res, k) \<Rightarrow>
               (let pid = (case pid_res of Value p \<Rightarrow> p | _ \<Rightarrow> 0) in
                case op_new (lib P) (kmm_of k) of
                  (None, l) \<Rightarrow> (Bug, set_kmm l k)
                | (Some p, l) \<Rightarrow>
                    (Value p, (set_kmm l k)\<lparr>procs := (procs k)(p \<mapsto> Process_new (ucast pid) u root cwd)\<rparr>)))
      | (Unexpected e, k) \<Rightarrow> (Unexpected e, k)
      | (Bug, k) \<Rightarrow> (Bug, k))"

text \<open>Closing the descriptors of a process: \<open>Reset\<close> on every slot, then \<open>Clear\<close>.\<close>

definition close_fds :: "addr \<Rightarrow> ('v, 'r, 'k, 'a) kernel \<Rightarrow> ('v, 'r, 'k, 'a) kernel" where
  "close_fds p k =
     (case procs k p of
        None \<Rightarrow> k
      | Some pr \<Rightarrow>
          (case close_all (m_fd_table pr) (io k) of
             (T, s) \<Rightarrow> upd_proc p (\<lambda>pr. pr\<lparr>m_fd_table := T\<rparr>) (k\<lparr>io := s\<rparr>)))"

definition delete_process :: "addr \<Rightarrow> ('v, 'r, 'k, 'a) kernel \<Rightarrow> ('v, 'r, 'k, 'a) kernel" where
  "delete_process p k = (let k = close_fds p k in k\<lparr>procs := (procs k)(p := None)\<rparr>)"

definition Process_Exit :: "addr \<Rightarrow> u32 \<Rightarrow> ('v, 'r, 'k, 'a) kernel \<Rightarrow> ('v, 'r, 'k, 'a) kernel" where
  "Process_Exit p status k =
     (let k = close_fds p k;
          k = upd_proc p (\<lambda>pr. pr\<lparr>m_proc_state := ProcZombie, m_exit_status := status\<rparr>) k
      in case Option.bind (procs k p) m_parent of
           Some _ \<Rightarrow> k\<lparr>sch := Wake p False (sch k)\<rparr>
         | None \<Rightarrow> k)"

definition Process_Reap :: "('v, 'r, 'k, 'a) plat \<Rightarrow> addr \<Rightarrow> ('v, 'r, 'k, 'a) kernel \<Rightarrow> ('v, 'r, 'k, 'a) kernel" where
  "Process_Reap P p k =
     (case procs k p of
        None \<Rightarrow> k
      | Some pr \<Rightarrow>
          (let k = PidFree P (ucast (m_pid pr)) k;
               k = UserAddressSpace_Destroy P (m_address_space pr) k
           in delete_process p k))"

definition Process_Destroy :: "('v, 'r, 'k, 'a) plat \<Rightarrow> addr \<Rightarrow> ('v, 'r, 'k, 'a) kernel \<Rightarrow> ('v, 'r, 'k, 'a) kernel" where
  "Process_Destroy P p k =
     (case procs k p of
        None \<Rightarrow> k
      | Some pr \<Rightarrow>
          (let k = PidFree P (ucast (m_pid pr)) k;
               k = close_fds p k;
               k = UserAddressSpace_Destroy P (m_address_space pr) k
           in delete_process p k))"

section \<open>The process tree\<close>

definition FindChild :: "addr \<Rightarrow> u64 \<Rightarrow> ('v, 'r, 'k, 'a) kernel \<Rightarrow> addr option" where
  "FindChild p pid k =
     (case procs k p of
        None \<Rightarrow> None
      | Some pr \<Rightarrow> List.find (\<lambda>c. pid = 0 \<or> map_option m_pid (procs k c) = Some pid) (m_children pr))"

definition RemoveChild :: "addr \<Rightarrow> addr \<Rightarrow> ('v, 'r, 'k, 'a) kernel \<Rightarrow> ('v, 'r, 'k, 'a) kernel expected" where
  "RemoveChild p c k =
     (case procs k p of
        None \<Rightarrow> Bug
      | Some pr \<Rightarrow>
          if c \<in> set (m_children pr) then Value (upd_proc p (\<lambda>pr. pr\<lparr>m_children := remove1 c (m_children pr)\<rparr>) k)
          else Bug)"

section \<open>New threads\<close>

text \<open>\<open>new Thread(process, false)\<close>: the object, its kernel stack and its id.\<close>

definition new_thread ::
  "('v, 'r, 'k, 'a) plat \<Rightarrow> addr \<Rightarrow> ('v, 'r, 'k, 'a) kernel \<Rightarrow> (addr \<times> thread) option expected \<times> ('v, 'r, 'k, 'a) kernel" where
  "new_thread P p k =
     (case op_new (lib P) (kmm_of k) of
        (None, l) \<Rightarrow> (Value None, set_kmm l k)
      | (Some t, l) \<Rightarrow>
          (case AllocateKernel P l of
             (stack, l) \<Rightarrow>
               (case Thread_new (Some p) (s_next_tid (sch k)) stack of
                  Value (th, tid) \<Rightarrow> (Value (Some (t, th)), (set_kmm l k)\<lparr>sch := (sch k)\<lparr>s_next_tid := tid\<rparr>\<rparr>)
                | _ \<Rightarrow> (Bug, set_kmm l k))))"

text \<open>The constructed thread, named, with its stack image, put on the ready queue of level 0.\<close>

definition start_thread ::
  "addr \<Rightarrow> thread \<times> kmem \<Rightarrow> ('v, 'r, 'k, 'a) kernel \<Rightarrow> unit expected \<times> ('v, 'r, 'k, 'a) kernel" where
  "start_thread t thm k =
     (case thm of (th, m) \<Rightarrow>
        (let s = (sch k)\<lparr>threads := (threads (sch k))(t \<mapsto> th)\<rparr> in
         case AddThread t 0 s of
           Value s \<Rightarrow> (Value (), k\<lparr>sch := s, kstacks := m\<rparr>)
         | _ \<Rightarrow> (Bug, k)))"

section \<open>Fork\<close>

text \<open>The members of the child that \<open>Fork\<close> copies: steps 5 to 7.\<close>

definition inherit :: "addr \<Rightarrow> Process \<Rightarrow> fd_table \<Rightarrow> Process \<Rightarrow> Process" where
  "inherit p pr T child =
     child\<lparr>m_fd_table := T, m_signal_actions := m_signal_actions pr, m_heap_start := m_heap_start pr,
           m_heap_end := m_heap_end pr, m_parent := Some p\<rparr>"

definition Process_Fork ::
  "('v, 'r, 'k, 'a) plat \<Rightarrow> addr \<Rightarrow> InterruptFrame \<Rightarrow> ('v, 'r, 'k, 'a) kernel \<Rightarrow> addr expected \<times> ('v, 'r, 'k, 'a) kernel" where
  "Process_Fork P p regs k =
     (case procs k p of
        None \<Rightarrow> (Bug, k)
      | Some pr \<Rightarrow>
          (case UserAddressSpace_Fork P (m_address_space pr) k of
             (Bug, k) \<Rightarrow> (Bug, k)
           | (Unexpected _, k) \<Rightarrow> (Unexpected (- ENOMEM), k)
           | (Value u, k) \<Rightarrow>
               (case PidAlloc P k of
                  (Bug, k) \<Rightarrow> (Bug, k)
                | (Unexpected e, k) \<Rightarrow> (Unexpected e, UserAddressSpace_Destroy P u k)
                | (Value pid, k) \<Rightarrow>
                    (case op_new (lib P) (kmm_of k) of
                       (None, l) \<Rightarrow>
                         (Unexpected (- ENOMEM), UserAddressSpace_Destroy P u (PidFree P pid (set_kmm l k)))
                     | (Some c, l) \<Rightarrow>
                         (let k = (set_kmm l k)\<lparr>procs := (procs k)(c \<mapsto> Process_new (ucast pid) u (m_root pr) (m_cwd pr))\<rparr> in
                          case grow (lib P) (length (m_fd_table pr)) [] (io k) of
                            (False, _, s) \<Rightarrow>
                              (case RemoveChild p c (k\<lparr>io := s\<rparr>) of
                                 Value k \<Rightarrow> (Unexpected (- ENOMEM), Process_Reap P c k)
                               | _ \<Rightarrow> (Bug, k))
                          | (True, _, s) \<Rightarrow>
                              (case clone_table (m_fd_table pr) s of
                                 (T, s) \<Rightarrow>
                                   (let k = upd_proc c (inherit p pr T) (k\<lparr>io := s\<rparr>);
                                        k = upd_proc p (\<lambda>pr. pr\<lparr>m_children := m_children pr @ [c]\<rparr>) k
                                    in case new_thread P c k of
                                         (Value (Some (t, th)), k) \<Rightarrow>
                                           (let th = SetName (Some ''fork_child'') th;
                                                (r, k) = start_thread t (InitializeForkStack (ForkReturn P) regs th (kstacks k)) k
                                            in (case r of Value _ \<Rightarrow> Value c | _ \<Rightarrow> Bug, k))
                                       | (Value None, k) \<Rightarrow>
                                           (case RemoveChild p c k of
                                              Value k \<Rightarrow> (Unexpected (- ENOMEM), Process_Reap P c k)
                                            | _ \<Rightarrow> (Bug, k))
                                       | (_, k) \<Rightarrow> (Bug, k))))))))"

section \<open>What the parts leave alone\<close>

text \<open>\<open>same_base k k'\<close>: the processes, threads and open files are the same.\<close>

definition same_base :: "('v, 'r, 'k, 'a) kernel \<Rightarrow> ('v, 'r, 'k, 'a) kernel \<Rightarrow> bool" where
  "same_base k k' \<longleftrightarrow> procs k' = procs k \<and> sch k' = sch k \<and> files (io k') = files (io k) \<and>
     vnodes (fs (io k')) = vnodes (fs (io k)) \<and> kstacks k' = kstacks k"

lemma same_base_refl [simp]: "same_base k k"
  by (simp add: same_base_def)

lemma same_base_trans: "same_base k k' \<Longrightarrow> same_base k' k'' \<Longrightarrow> same_base k k''"
  by (simp add: same_base_def)

lemma same_base_set [simp]:
  "same_base k (set_kmm l k') = same_base k k'" "same_base k (set_mem m k') = same_base k k'"
  "same_base k (k'\<lparr>spaces := x\<rparr>) = same_base k k'" "same_base k (k'\<lparr>views := y\<rparr>) = same_base k k'"
  by (simp_all add: same_base_def)

lemma same_base_on_space: "same_base k (snd (on_space u f k))"
  by (simp add: on_space_def split: option.split prod.split)

lemma same_base_Create:
  assumes "UserAddressSpace_Create P k = (r, k')"
  shows "same_base k k'"
  using assms by (auto simp: UserAddressSpace_Create_def Let_def split: prod.splits option.splits)

lemma same_base_Destroy: "same_base k (UserAddressSpace_Destroy P u k)"
  by (simp add: UserAddressSpace_Destroy_def Let_def same_base_on_space split: option.split)

lemma same_base_UFork:
  assumes "UserAddressSpace_Fork P u k = (r, k')"
  shows "same_base k k'"
proof -
  obtain r1 k1 where c: "UserAddressSpace_Create P k = (r1, k1)" by fastforce
  have b: "same_base k k1" by (rule same_base_Create [OF c])
  have "same_base k1 k'" if "r1 = Value x" for x
    using assms c that
    by (auto simp: UserAddressSpace_Fork_def Let_def split: prod.splits option.splits if_splits
        intro: same_base_trans [OF _ same_base_Destroy])
  then show ?thesis
    using assms c b same_base_trans by (cases r1) (auto simp: UserAddressSpace_Fork_def)
qed

lemma same_base_PidAlloc: "same_base k (snd (PidAlloc P k))"
  by (simp add: PidAlloc_def split: prod.split)

lemma same_base_PidFree: "same_base k (PidFree P pid k)"
  by (simp add: PidFree_def)

lemma refs_ok_files: "files s' = files s \<Longrightarrow> refs_ok others T s' = refs_ok others T s"
  by (simp add: refs_ok_def live_ok_def refs_def)

section \<open>A successful fork\<close>

lemma Process_Fork_success:
  assumes "procs k p = Some pr" and "Process_Fork P p regs k = (Value c, k')"
  obtains u k1 pid k2 l k3 G s1 T s2 k4 t th k5 where
    "UserAddressSpace_Fork P (m_address_space pr) k = (Value u, k1)"
    and "PidAlloc P k1 = (Value pid, k2)"
    and "op_new (lib P) (kmm_of k2) = (Some c, l)"
    and "k3 = (set_kmm l k2)\<lparr>procs := (procs k2)(c \<mapsto> Process_new (ucast pid) u (m_root pr) (m_cwd pr))\<rparr>"
    and "grow (lib P) (length (m_fd_table pr)) [] (io k3) = (True, G, s1)"
    and "clone_table (m_fd_table pr) s1 = (T, s2)"
    and "k4 = upd_proc p (\<lambda>pr. pr\<lparr>m_children := m_children pr @ [c]\<rparr>) (upd_proc c (inherit p pr T) (k3\<lparr>io := s2\<rparr>))"
    and "new_thread P c k4 = (Value (Some (t, th)), k5)"
    and "start_thread t (InitializeForkStack (ForkReturn P) regs (SetName (Some ''fork_child'') th) (kstacks k5)) k5 = (Value (), k')"
  using assms
  by (auto simp: Process_Fork_def Let_def split: prod.splits expected.splits option.splits bool.splits)

lemma same_fields:
  assumes "same_base k k'"
  shows "procs k' = procs k" "sch k' = sch k" "files (io k') = files (io k)" "kstacks k' = kstacks k"
  using assms by (simp_all add: same_base_def)

lemma new_thread_facts:
  assumes "new_thread P c k = (Value (Some (t, th)), k')"
  shows "procs k' = procs k" "files (io k') = files (io k)" "m_process th = Some c"
    "queues (sch k') = queues (sch k)" "threads (sch k') = threads (sch k)" "current_thread (sch k') = current_thread (sch k)"
  using assms
  by (auto simp: new_thread_def Thread_new_def split: prod.splits option.splits expected.splits)

lemma start_thread_facts:
  assumes "start_thread t (th, m) k = (Value (), k')"
  shows "procs k' = procs k" "io k' = io k" "kstacks k' = m"
    "queues (sch k') = (queues (sch k))[0 := queues (sch k) ! 0 @ [t]]"
    "\<exists>th'. threads (sch k') t = Some th' \<and> m_process th' = m_process th \<and> m_regs th' = m_regs th \<and> m_state th' = Ready"
  using assms by (auto simp: start_thread_def AddThread_def push_back_def upd_thread_def Let_def split: if_splits)

lemma SetName_process [simp]: "m_process (SetName n th) = m_process th" "m_kernel_stack (SetName n th) = m_kernel_stack th"
  by (simp_all add: SetName_def split: option.split)

lemma InitializeForkStack_process: "m_process (fst (InitializeForkStack F regs th m)) = m_process th"
  by (simp add: InitializeForkStack_def Let_def split: prod.split)

text \<open>The image of \<open>InitializeForkStack\<close> read back at the saved stack pointer.\<close>

lemma fork_image:
  assumes "InitializeForkStack F regs th m = (th', m')"
  shows "ForkReturn_frame m' (rsp (m_regs th') + 56) = regs\<lparr>rax := 0, interrupt_number := 0, error_code := 0\<rparr>"
    and "m' (rsp (m_regs th') + 48) = F"
  using assms
  by (auto simp: InitializeForkStack_def ForkReturn_frame_def push64_def Let_def)

section \<open>Exit\<close>

lemma close_fds_facts:
  assumes "procs k p = Some pr" and "refs_ok others (m_fd_table pr) (io k)"
  shows "procs (close_fds p k) = (procs k)(p \<mapsto> pr\<lparr>m_fd_table := []\<rparr>)" "refs_ok others [] (io (close_fds p k))"
    "sch (close_fds p k) = sch k" "kstacks (close_fds p k) = kstacks k" "spaces (close_fds p k) = spaces k"
proof -
  obtain T s where c: "close_all (m_fd_table pr) (io k) = (T, s)" by fastforce
  note ca = close_all_refs [OF assms(2) c]
  show "procs (close_fds p k) = (procs k)(p \<mapsto> pr\<lparr>m_fd_table := []\<rparr>)" "refs_ok others [] (io (close_fds p k))"
    "sch (close_fds p k) = sch k" "kstacks (close_fds p k) = kstacks k" "spaces (close_fds p k) = spaces k"
    using assms(1) c ca by (simp_all add: close_fds_def)
qed

lemma PidFree_io [simp]: "files (io (PidFree P pid k)) = files (io k)" "procs (PidFree P pid k) = procs k"
  "sch (PidFree P pid k) = sch k" "spaces (PidFree P pid k) = spaces k"
  by (simp_all add: PidFree_def)

lemma Process_Reap_facts:
  assumes "procs k p = Some pr" and "refs_ok others (m_fd_table pr) (io k)"
  shows "procs (Process_Reap P p k) = (procs k)(p := None)" and "refs_ok others [] (io (Process_Reap P p k))"
    and "sch (Process_Reap P p k) = sch k"
proof -
  let ?k1 = "UserAddressSpace_Destroy P (m_address_space pr) (PidFree P (ucast (m_pid pr)) k)"
  note b = same_fields [OF same_base_Destroy [of "PidFree P (ucast (m_pid pr)) k" P "m_address_space pr"]]
  have p1: "procs ?k1 p = Some pr" and r1: "refs_ok others (m_fd_table pr) (io ?k1)"
    using assms b refs_ok_files [of "io ?k1" "io k"] by simp_all
  note cf = close_fds_facts [OF p1 r1]
  have "Process_Reap P p k = delete_process p ?k1" using assms(1) by (simp add: Process_Reap_def Let_def)
  then show "procs (Process_Reap P p k) = (procs k)(p := None)" "refs_ok others [] (io (Process_Reap P p k))"
    "sch (Process_Reap P p k) = sch k"
    using cf b by (simp_all add: delete_process_def Let_def)
qed

section \<open>Properties\<close>

text \<open>
  C12: A successful fork makes exactly one new process: the child has the parent's descriptor table, signal
  actions, heap bounds and directories, and the parent as its parent; it is appended to the
  parent's children, and no other process changes. The counts of the open files grow by one per
  occupied slot. The child's one thread is queued ready at level 0, and the kernel stack it starts on
  makes it return to user space with the parent's registers and \<open>rax = 0\<close>.
\<close>

theorem Process_Fork_child:
  assumes "procs k p = Some pr" and "Process_Fork P p regs k = (Value c, k')"
    and "procs k c = None" and "refs_ok others (m_fd_table pr) (io k)"
  shows "\<exists>ch t th. procs k' = (procs k)(c \<mapsto> ch, p \<mapsto> pr\<lparr>m_children := m_children pr @ [c]\<rparr>) \<and>
      m_fd_table ch = m_fd_table pr \<and> m_signal_actions ch = m_signal_actions pr \<and>
      m_heap_start ch = m_heap_start pr \<and> m_heap_end ch = m_heap_end pr \<and> m_root ch = m_root pr \<and> m_cwd ch = m_cwd pr \<and>
      m_parent ch = Some p \<and> m_children ch = [] \<and> m_proc_state ch = ProcRunning \<and>
      refs_ok (\<lambda>d. others d + slot_refs (m_fd_table pr) d) (m_fd_table pr) (io k') \<and>
      queues (sch k') = (queues (sch k))[0 := queues (sch k) ! 0 @ [t]] \<and>
      threads (sch k') t = Some th \<and> m_process th = Some c \<and> m_state th = Ready \<and>
      kstacks k' (rsp (m_regs th) + 48) = ForkReturn P \<and>
      ForkReturn_frame (kstacks k') (rsp (m_regs th) + 56) = regs\<lparr>rax := 0, interrupt_number := 0, error_code := 0\<rparr>"
  using assms(1,2)
proof (rule Process_Fork_success)
  fix u k1 pid k2 l k3 G s1 T s2 k4 t th k5
  assume 1: "UserAddressSpace_Fork P (m_address_space pr) k = (Value u, k1)"
    and 2: "PidAlloc P k1 = (Value pid, k2)"
    and k3: "k3 = (set_kmm l k2)\<lparr>procs := (procs k2)(c \<mapsto> Process_new (ucast pid) u (m_root pr) (m_cwd pr))\<rparr>"
    and g: "grow (lib P) (length (m_fd_table pr)) [] (io k3) = (True, G, s1)"
    and cl: "clone_table (m_fd_table pr) s1 = (T, s2)"
    and k4: "k4 = upd_proc p (\<lambda>pr. pr\<lparr>m_children := m_children pr @ [c]\<rparr>) (upd_proc c (inherit p pr T) (k3\<lparr>io := s2\<rparr>))"
    and nt: "new_thread P c k4 = (Value (Some (t, th)), k5)"
    and st: "start_thread t (InitializeForkStack (ForkReturn P) regs (SetName (Some ''fork_child'') th) (kstacks k5)) k5 = (Value (), k')"
  have "same_base k k2"
    using same_base_trans [OF same_base_UFork [OF 1]] same_base_PidAlloc [of k1 P] 2 by simp
  note b = same_fields [OF this]
  have cp: "c \<noteq> p" using assms(1,3) by auto
  have "files s1 = files (io k)" using g b(3) by (auto simp: grow_def k3 split: prod.splits if_splits)
  then have "refs_ok others (m_fd_table pr) s1" using refs_ok_files assms(4) by metis
  note cr = clone_table_refs [OF this cl]
  obtain th' m' where im: "InitializeForkStack (ForkReturn P) regs (SetName (Some ''fork_child'') th) (kstacks k5) = (th', m')"
    by fastforce
  note nf = new_thread_facts [OF nt] and sf = start_thread_facts [OF st [unfolded im]] and fi = fork_image [OF im]
  have proc: "m_process th' = Some c" using InitializeForkStack_process nf(3) im by (metis SetName_process(1) fst_conv)
  let ?ch = "inherit p pr (m_fd_table pr) (Process_new (ucast pid) u (m_root pr) (m_cwd pr))"
  have "procs k4 = (procs k)(c \<mapsto> ?ch, p \<mapsto> pr\<lparr>m_children := m_children pr @ [c]\<rparr>)"
    using assms(1) cp b(1) cr(1) by (auto simp: k4 k3)
  then have P: "procs k' = (procs k)(c \<mapsto> ?ch, p \<mapsto> pr\<lparr>m_children := m_children pr @ [c]\<rparr>)" using nf(1) sf(1) by simp
  have R: "refs_ok (\<lambda>d. others d + slot_refs (m_fd_table pr) d) (m_fd_table pr) (io k')"
    using cr nf(2) sf(2) refs_ok_files [of "io k5" s2] by (simp add: k4 k3)
  have Q: "queues (sch k') = (queues (sch k))[0 := queues (sch k) ! 0 @ [t]]" using sf(4) nf(4) b(2) by (simp add: k4 k3)
  obtain th2 where T: "threads (sch k') t = Some th2" "m_process th2 = m_process th'" "m_regs th2 = m_regs th'" "m_state th2 = Ready"
    using sf(5) by blast
  show ?thesis
    using P R Q T proc fi sf(3)
    by (intro exI [of _ ?ch] exI [of _ t] exI [of _ th2]) (simp add: inherit_def Process_new_def)
qed

text \<open>Exiting closes every descriptor, giving up exactly the references of the table, and leaves a zombie; no other
  process changes, and a thread that waits for it is woken if it has a parent.\<close>

lemma Process_Exit_facts:
  assumes "procs k p = Some pr" and "refs_ok others (m_fd_table pr) (io k)"
  shows "procs (Process_Exit p status k) =
           (procs k)(p \<mapsto> pr\<lparr>m_fd_table := [], m_proc_state := ProcZombie, m_exit_status := status\<rparr>)"
    and "refs_ok others [] (io (Process_Exit p status k))"
    and "sch (Process_Exit p status k) = (if m_parent pr = None then sch k else Wake p False (sch k))"
  using close_fds_facts [OF assms] by (auto simp: Process_Exit_def Let_def split: option.split)

section \<open>Concrete instances\<close>

lemma ex_plat_simps:
  "lib ex_plat = ex_fk" "op_new ex_fk k = (Some (0x100000 + 256 * of_nat k), Suc k)"
  "AllocatePage ex_fk 0 = (Some 0, Suc 0)" "PushBack_ok ex_fk k = (True, k)"
  "pid_FindFirstUnsetAndSet ex_plat k = (of_nat k + 3, Suc k)" "as_Fork ex_plat a b m k = (True, a, a, m, k)"
  "AllocateKernel ex_plat k = (Some (0x700000 + 0x8000 * of_nat k), Suc k)"
  by (simp_all add: ex_plat_def ex_fk_def)

lemma ex_kernel_kmm: "kmm_of ex_kernel = 0"
  by (simp add: ex_kernel_def kmm_of_def ex_filesys_def ex_fsys_def)

lemma kmm_of_upd [simp]:
  "kmm_of (k\<lparr>spaces := x\<rparr>) = kmm_of k" "kmm_of (k\<lparr>views := y\<rparr>) = kmm_of k" "kmm_of (k\<lparr>procs := z\<rparr>) = kmm_of k"
  by (simp_all add: kmm_of_def)

lemma ex_space_fork:
  "\<exists>k1. UserAddressSpace_Fork ex_plat 0x510 ex_kernel = (Value 0x100300, k1) \<and> kmm_of k1 = 4"
proof -
  have "\<exists>k1 sp. UserAddressSpace_Create ex_plat ex_kernel = (Value 0x100300, k1) \<and> kmm_of k1 = 4 \<and>
      spaces k1 = (spaces ex_kernel)(0x100300 \<mapsto> sp)"
    by (simp add: UserAddressSpace_Create_def new_space_objects_def Let_def ex_kernel_kmm ex_plat_simps) blast
  then obtain k1 sp where c: "UserAddressSpace_Create ex_plat ex_kernel = (Value 0x100300, k1)" "kmm_of k1 = 4"
    "spaces k1 = (spaces ex_kernel)(0x100300 \<mapsto> sp)" by blast
  have "spaces k1 0x510 \<noteq> None" "spaces k1 0x100300 = Some sp" using c(3) by (simp_all add: ex_kernel_def)
  then show ?thesis
    using c(1,2) by (auto simp: UserAddressSpace_Fork_def Let_def ex_plat_simps)
qed

lemma ex_fork:
  "\<exists>k'. Process_Fork ex_plat 0x500 zero_frame ex_kernel = (Value 0x100500, k')"
proof -
  obtain k1 where f: "UserAddressSpace_Fork ex_plat 0x510 ex_kernel = (Value 0x100300, k1)" "kmm_of k1 = 4"
    using ex_space_fork by blast
  have pr: "procs ex_kernel 0x500 = Some ((Process_new 1 0x510 2 2)
      \<lparr>m_fd_table := ex_table, m_children := [0x600], m_heap_start := 0x30000, m_heap_end := 0x30800\<rparr>)"
    by (simp add: ex_kernel_def)
  have pid: "PidAlloc ex_plat k1 = (Value 7, set_kmm 5 k1)"
    using f(2) by (simp add: PidAlloc_def ex_plat_simps kMaxPid_def)
  show ?thesis
    using f pid
    by (simp add: Process_Fork_def pr Process_new_def Let_def ex_plat_simps grow_def clone_table_def new_thread_def
        Thread_new_def start_thread_def AddThread_def kNumLevels_def upd_proc_def split: prod.split)
qed

theorem Process_Fork_child_witness:
  "\<exists>k' ch. Process_Fork ex_plat 0x500 zero_frame ex_kernel = (Value 0x100500, k') \<and>
     procs k' 0x100500 = Some ch \<and> m_fd_table ch = ex_table \<and> m_parent ch = Some 0x500"
proof -
  obtain k' where run: "Process_Fork ex_plat 0x500 zero_frame ex_kernel = (Value 0x100500, k')" using ex_fork by blast
  let ?pr = "(Process_new 1 0x510 2 2)
      \<lparr>m_fd_table := ex_table, m_children := [0x600], m_heap_start := 0x30000, m_heap_end := 0x30800\<rparr>"
  have pr: "procs ex_kernel 0x500 = Some ?pr" "procs ex_kernel 0x100500 = None" by (simp_all add: ex_kernel_def)
  have io: "refs_ok ex_others (m_fd_table ?pr) (io ex_kernel)"
    using ex_refs_ok(1) by (simp add: ex_kernel_def)
  from Process_Fork_child [OF pr(1) run pr(2) io] obtain ch where
    "procs k' = (procs ex_kernel)(0x100500 \<mapsto> ch, 0x500 \<mapsto> ?pr\<lparr>m_children := m_children ?pr @ [0x100500]\<rparr>)"
    "m_fd_table ch = m_fd_table ?pr" "m_parent ch = Some 0x500" by (elim exE conjE)
  then have "procs k' 0x100500 = Some ch \<and> m_fd_table ch = ex_table \<and> m_parent ch = Some 0x500" by simp
  with run show ?thesis by blast
qed

end
