(* ===== verification/Signals.thy ===== *)
theory Signals
  imports ProcessModel
begin

text \<open>
  Signals (\<open>include/ceryx/proc/Signal.hpp\<close>, \<open>arch/x86_64/proc/Signal.cpp\<close>) and the return from a signal handler
  (\<open>rt_sigreturn\<close> in \<open>arch/x86_64/cpu/SyscallDispatch.cpp\<close>).

  The signal frame on the user stack is 34 words: the \<open>ucontext_t\<close> (4 words, the 26 words of \<open>mcontext_t\<close> in
  declaration order, the signal mask) and the \<open>siginfo_t\<close> (24 bytes). A signal number is a natural number
  where the code keeps it between 1 and 63.
\<close>

section \<open>Sending\<close>

definition SIGKILL :: nat where "SIGKILL = 9"

definition SIGSTOP :: nat where "SIGSTOP = 19"

definition sig_bit :: "nat \<Rightarrow> u64" where
  "sig_bit i = push_bit (i - 1) 1"

text \<open>\<open>Send\<close> takes a C \<open>int\<close>.\<close>

definition Signal_Send :: "addr option \<Rightarrow> int \<Rightarrow> ('v, 'r, 'k, 'a) kernel \<Rightarrow> ('v, 'r, 'k, 'a) kernel" where
  "Signal_Send t sig k =
     (case t of
        None \<Rightarrow> k
      | Some t \<Rightarrow>
          if sig < 1 \<or> sig \<ge> int NSIG then k
          else k\<lparr>sch := upd_thread t (\<lambda>th. th\<lparr>m_pending_signals := m_pending_signals th OR sig_bit (nat sig)\<rparr>) (sch k)\<rparr>)"

definition Signal_Raise :: "int \<Rightarrow> ('v, 'r, 'k, 'a) kernel \<Rightarrow> ('v, 'r, 'k, 'a) kernel" where
  "Signal_Raise sig k = Signal_Send (GetCurrentThread (sch k)) sig k"

definition GetSignalAction :: "Process \<Rightarrow> int \<Rightarrow> sigaction" where
  "GetSignalAction pr sig =
     (if sig < 1 \<or> sig \<ge> int NSIG then m_signal_actions pr ! 0 else m_signal_actions pr ! (nat sig - 1))"

section \<open>The signal frame\<close>

definition kSigframeSize :: u64 where "kSigframeSize = 272"

definition kMcontext :: u64 where "kMcontext = 32"

definition kSigmask :: u64 where "kSigmask = 240"

definition kSiginfo :: u64 where "kSiginfo = 248"

definition SA_SIGINFO :: u32 where "SA_SIGINFO = 4"

text \<open>The fields of \<open>mcontext_t\<close> that are filled, which are its first 19 words.\<close>

definition mcontext_words :: "InterruptFrame \<Rightarrow> u64 list" where
  "mcontext_words f =
     [r8 f, r9 f, r10 f, r11 f, r12 f, r13 f, r14 f, r15 f, rdi f, rsi f, rbp f, rbx f, rdx f, rax f, rcx f,
      rsp f, rip f, rflags f, cs f]"

definition SetupFrame :: "InterruptFrame \<Rightarrow> nat \<Rightarrow> sigaction \<Rightarrow> mem \<Rightarrow> InterruptFrame \<times> mem" where
  "SetupFrame fr sig action m =
     (let sp = (rsp fr - kSigframeSize) AND NOT 15;
          m = MemoryZero m sp kSigframeSize;
          m = store32 m (sp + kSiginfo) (of_nat sig);
          m = write_words m (sp + kMcontext) (mcontext_words fr);
          fr = fr\<lparr>rip := (if sa_sigaction action \<noteq> 0 then sa_sigaction action else sa_handler action),
                        rsp := sp, rdi := of_nat sig\<rparr>;
          fr = (if sa_flags action AND SA_SIGINFO \<noteq> 0 then fr\<lparr>rsi := sp + kSiginfo, rdx := sp\<rparr>
                   else fr\<lparr>rsi := 0, rdx := 0\<rparr>);
          m = store64 m (sp - 8) (sa_restorer action)
      in (fr\<lparr>rsp := rsp fr - 8\<rparr>, m))"

text \<open>\<open>rt_sigreturn\<close>: the registers come back from the frame at the user stack pointer, and the mask with them.\<close>

definition sigreturn_regs :: "mem \<Rightarrow> u64 \<Rightarrow> InterruptFrame \<Rightarrow> InterruptFrame" where
  "sigreturn_regs m user_rsp regs =
     (let at = (\<lambda>i. load64 m (user_rsp + kMcontext + 8 * i)) in
      regs\<lparr>r15 := at 7, r14 := at 6, r13 := at 5, r12 := at 4, r11 := at 3, r10 := at 2, r9 := at 1, r8 := at 0,
           rbp := at 10, rdi := at 8, rsi := at 9, rdx := at 12, rcx := at 14, rbx := at 11, rax := at 13,
           rsp := at 15, rip := at 16, rflags := at 17, cs := at 18\<rparr>)"

definition sys_rt_sigreturn ::
  "u64 \<Rightarrow> addr \<Rightarrow> InterruptFrame \<Rightarrow> ('v, 'r, 'k, 'a) kernel \<Rightarrow> u64 \<times> InterruptFrame \<times> ('v, 'r, 'k, 'a) kernel" where
  "sys_rt_sigreturn user_rsp t regs k =
     (let m = kmem_of k;
          regs = sigreturn_regs m user_rsp regs;
          k = k\<lparr>sch := upd_thread t (\<lambda>th. th\<lparr>m_blocked_signals := load64 m (user_rsp + kSigmask)\<rparr>) (sch k)\<rparr>
      in (rax regs, regs, k))"

section \<open>Delivery\<close>

text \<open>The outcome of the check on the way back to user space: the thread resumes with this frame, or it
  was terminated and its \<open>Yield\<close> does not return.\<close>

datatype delivery = Resume InterruptFrame | Killed | Panic

definition fatal_default :: "nat \<Rightarrow> bool" where
  "fatal_default i \<longleftrightarrow> i \<in> {9, 11, 4, 8, 7, 6}"

definition clear_pending :: "addr \<Rightarrow> nat \<Rightarrow> ('v, 'r, 'k, 'a) kernel \<Rightarrow> ('v, 'r, 'k, 'a) kernel" where
  "clear_pending t i k =
     k\<lparr>sch := upd_thread t (\<lambda>th. th\<lparr>m_pending_signals := m_pending_signals th AND NOT (sig_bit i)\<rparr>) (sch k)\<rparr>"

text \<open>Ending the current thread: terminated, handed to the reaper, switched away from.\<close>

definition end_thread :: "('v, 'r, 'k, 'a) plat \<Rightarrow> addr \<Rightarrow> ('v, 'r, 'k, 'a) kernel \<Rightarrow> unit expected \<times> ('v, 'r, 'k, 'a) kernel" where
  "end_thread P t k =
     (let k = k\<lparr>sch := upd_thread t (\<lambda>th. th\<lparr>m_state := Terminated\<rparr>) (sch k)\<rparr> in
      case Reaper_Enqueue t (sch k) of
        Value s \<Rightarrow> (let k = k\<lparr>sch := s\<rparr> in (Value (), run_sched (Yield (root_of_proc P k)) k))
      | _ \<Rightarrow> (Bug, k))"

fun signal_loop ::
  "('v, 'r, 'k, 'a) plat \<Rightarrow> addr \<Rightarrow> addr \<Rightarrow> u64 \<Rightarrow> InterruptFrame \<Rightarrow> nat list \<Rightarrow> ('v, 'r, 'k, 'a) kernel \<Rightarrow> delivery \<times> ('v, 'r, 'k, 'a) kernel" where
  "signal_loop P t p pending fr [] k = (Resume fr, k)"
| "signal_loop P t p pending fr (i # is) k =
     (if pending AND sig_bit i = 0 then signal_loop P t p pending fr is k
      else
        (let k = clear_pending t i k in
         case procs k p of
           None \<Rightarrow> (Panic, k)
         | Some pr \<Rightarrow>
             (let action = GetSignalAction pr (int i) in
              if sa_handler action = 1 then signal_loop P t p pending fr is k
              else if sa_handler action = 0 then
                (if fatal_default i then
                   (case end_thread P t (Process_Exit p (- of_nat i) k) of
                      (Value _, k) \<Rightarrow> (Killed, k)
                    | (_, k) \<Rightarrow> (Panic, k))
                 else signal_loop P t p pending fr is k)
              else
                (case SetupFrame fr i action (kmem_of k) of
                   (fr, m) \<Rightarrow> (Resume fr, set_mem m k)))))"

definition DoPendingSignals ::
  "('v, 'r, 'k, 'a) plat \<Rightarrow> InterruptFrame \<Rightarrow> ('v, 'r, 'k, 'a) kernel \<Rightarrow> delivery \<times> ('v, 'r, 'k, 'a) kernel" where
  "DoPendingSignals P fr k =
     (case GetCurrentThread (sch k) of
        None \<Rightarrow> (Resume fr, k)
      | Some t \<Rightarrow>
          if cs fr AND 3 = 0 then (Resume fr, k)
          else
            (let th = thr (sch k) t;
                 pending = m_pending_signals th AND NOT (m_blocked_signals th)
             in if pending = 0 then (Resume fr, k)
                else
                  (case m_process th of
                     None \<Rightarrow> (Resume fr, k)
                   | Some p \<Rightarrow>
                       if map_option m_proc_state (procs k p) = Some ProcZombie then (Resume fr, k)
                       else if m_state th = Terminated then (Resume fr, k)
                       else signal_loop P t p pending fr [1..<NSIG] k)))"

section \<open>The frame round trip\<close>

lemma length_mcontext: "length (mcontext_words f) = 19"
  by (simp add: mcontext_words_def)

text \<open>The memory after \<open>SetupFrame\<close>: the saved registers and the (zero) mask.\<close>

lemma SetupFrame_memory:
  assumes "SetupFrame f sig action m = (f', m')"
  shows "i < 19 \<Longrightarrow> load64 m' (rsp f' + 8 + kMcontext + of_nat (8 * i)) = mcontext_words f ! i"
    and "load64 m' (rsp f' + 8 + kSigmask) = 0"
proof -
  define sp where "sp = (rsp f - kSigframeSize) AND NOT 15"
  define m1 where "m1 = MemoryZero m sp kSigframeSize"
  define m2 where "m2 = store32 m1 (sp + kSiginfo) (of_nat sig)"
  define m3 where "m3 = write_words m2 (sp + kMcontext) (mcontext_words f)"
  have m': "m' = store64 m3 (sp - 8) (sa_restorer action)" and sp': "rsp f' = sp - 8"
    using assms by (auto simp: SetupFrame_def Let_def sp_def m1_def m2_def m3_def)
  have base: "rsp f' + 8 = sp" by (simp add: sp')
  have dis: "region (sp - 8) 8 \<inter> region (sp + of_nat j) 8 = {}" if "j + 16 \<le> 2 ^ 64" for j
    using region_offsets_disjoint(1) [of 0 8 "8 + j" 8 "sp - 8"] that by simp
  show "load64 m' (rsp f' + 8 + kMcontext + of_nat (8 * i)) = mcontext_words f ! i" if "i < 19"
  proof -
    have "load64 m' (sp + of_nat (32 + 8 * i)) = load64 m3 (sp + of_nat (32 + 8 * i))"
      unfolding m' using that by (intro load64_store64_other dis) simp
    also have "\<dots> = mcontext_words f ! i"
      using load64_write_words [of "mcontext_words f" i m2 "sp + kMcontext"] that
      by (simp add: m3_def length_mcontext kMcontext_def add.assoc)
    finally show ?thesis unfolding base by (simp add: kMcontext_def add.assoc)
  qed
  have "load64 m' (sp + of_nat 240) = load64 m3 (sp + of_nat 240)"
    unfolding m' by (intro load64_store64_other dis) simp
  also have "\<dots> = load64 m2 (sp + of_nat 240)"
    unfolding m3_def write_words_def
    by (intro load64_cong write_bytes_other)
      (use region_offsets_disjoint(1) [of 32 152 240 8 sp] in \<open>auto simp: length_mcontext kMcontext_def\<close>)
  also have "\<dots> = load64 m1 (sp + of_nat 240)"
    unfolding m2_def store32_def
    by (intro load64_cong write_bytes_other)
      (use region_offsets_disjoint(1) [of 240 8 248 4 sp] in \<open>auto simp: kSiginfo_def\<close>)
  also have "\<dots> = 0"
  proof -
    have "read_bytes m1 sp 272 = replicate 272 0"
      by (simp add: m1_def MemoryZero_def kSigframeSize_def read_write_same)
    then have "read_bytes m1 (sp + of_nat 240) 8 = replicate 8 0"
      using read_bytes_sub [of 240 8 272 m1 sp] by simp
    then show ?thesis by (simp add: load64_def numeral_eq_Suc)
  qed
  finally show "load64 m' (rsp f' + 8 + kSigmask) = 0" unfolding base by (simp add: kSigmask_def)
qed

lemma sig_bit_bit: "1 \<le> i \<Longrightarrow> i < 64 \<Longrightarrow> bit (sig_bit i) n \<longleftrightarrow> n = i - 1"
  by (auto simp: sig_bit_def bit_simps)

lemma and_sig_bit:
  assumes "1 \<le> i" and "i < 64"
  shows "w AND sig_bit i = 0 \<longleftrightarrow> \<not> bit w (i - 1)"
proof -
  have "w AND sig_bit i = 0 \<longleftrightarrow> (\<forall>n. \<not> bit (w AND sig_bit i) n)"
    by (metis bit_0_eq bit_word_eqI bot_apply bot_bool_def)
  also have "\<dots> \<longleftrightarrow> \<not> bit w (i - 1)" using assms by (auto simp: bit_and_iff sig_bit_bit)
  finally show ?thesis .
qed

lemma sigreturn_restores:
  assumes "SetupFrame f sig action m = (f', m')" and "kmem_of k = m'"
  shows "sys_rt_sigreturn (rsp f' + 8) t regs k =
    (rax f, f\<lparr>interrupt_number := interrupt_number regs, error_code := error_code regs, ss := ss regs\<rparr>,
     k\<lparr>sch := upd_thread t (\<lambda>th. th\<lparr>m_blocked_signals := 0\<rparr>) (sch k)\<rparr>)"
proof -
  note M = SetupFrame_memory [OF assms(1)]
  have at: "load64 m' (rsp f' + 8 + kMcontext + 8 * of_nat i) = mcontext_words f ! i" if "i < 19" for i
    using M(1) [OF that] by simp
  have "sigreturn_regs m' (rsp f' + 8) regs =
      f\<lparr>interrupt_number := interrupt_number regs, error_code := error_code regs, ss := ss regs\<rparr>"
    using at [of 0] at [of 1] at [of 2] at [of 3] at [of 4] at [of 5] at [of 6] at [of 7] at [of 8] at [of 9]
      at [of 10] at [of 11] at [of 12] at [of 13] at [of 14] at [of 15] at [of 16] at [of 17] at [of 18]
    by (simp add: sigreturn_regs_def Let_def mcontext_words_def)
  then show ?thesis
    using M(2) assms(2) by (simp add: sys_rt_sigreturn_def Let_def)
qed

lemma SetupFrame_stack: "SetupFrame f sig action m = (f', m') \<Longrightarrow> rsp f' + 8 = (rsp f - kSigframeSize) AND NOT 15"
  by (auto simp: SetupFrame_def Let_def)

section \<open>The delivery loop\<close>

text \<open>A signal the loop passes over: ignored explicitly, or by a default action that is not fatal.\<close>

definition ignored :: "Process \<Rightarrow> nat \<Rightarrow> bool" where
  "ignored pr i \<longleftrightarrow> sa_handler (GetSignalAction pr (int i)) = 1 \<or>
     sa_handler (GetSignalAction pr (int i)) = 0 \<and> \<not> fatal_default i"

text \<open>What the loop does at the first signal that it does not pass over.\<close>

definition act_on ::
  "('v, 'r, 'k, 'a) plat \<Rightarrow> addr \<Rightarrow> addr \<Rightarrow> Process \<Rightarrow> InterruptFrame \<Rightarrow> nat \<Rightarrow> ('v, 'r, 'k, 'a) kernel \<Rightarrow> delivery \<times> ('v, 'r, 'k, 'a) kernel" where
  "act_on P t p pr fr i k =
     (let action = GetSignalAction pr (int i) in
      if sa_handler action = 0 then
        (case end_thread P t (Process_Exit p (- of_nat i) k) of (Value _, k) \<Rightarrow> (Killed, k) | (_, k) \<Rightarrow> (Panic, k))
      else (case SetupFrame fr i action (kmem_of k) of (fr, m) \<Rightarrow> (Resume fr, set_mem m k)))"

lemma clear_pending_facts [simp]:
  "procs (clear_pending t i k) = procs k" "kmem_of (clear_pending t i k) = kmem_of k" "io (clear_pending t i k) = io k"
  by (simp_all add: clear_pending_def kmem_of_def)

lemma clear_all_facts [simp]:
  "procs (fold (clear_pending t) L k) = procs k" "kmem_of (fold (clear_pending t) L k) = kmem_of k"
  "io (fold (clear_pending t) L k) = io k"
  by (induction L arbitrary: k) simp_all

lemma signal_loop_eq:
  assumes "procs k p = Some pr"
  shows "signal_loop P t p pending fr is k =
    (let S = filter (\<lambda>i. pending AND sig_bit i \<noteq> 0) is;
         k1 = fold (clear_pending t) (takeWhile (ignored pr) S) k
     in case dropWhile (ignored pr) S of [] \<Rightarrow> (Resume fr, k1) | i # _ \<Rightarrow> act_on P t p pr fr i (clear_pending t i k1))"
  using assms
proof (induction "is" arbitrary: k)
  case (Cons i "is")
  have IH: "signal_loop P t p pending fr is (clear_pending t i k) =
    (let S = filter (\<lambda>i. pending AND sig_bit i \<noteq> 0) is;
         k1 = fold (clear_pending t) (takeWhile (ignored pr) S) (clear_pending t i k)
     in case dropWhile (ignored pr) S of [] \<Rightarrow> (Resume fr, k1) | i # _ \<Rightarrow> act_on P t p pr fr i (clear_pending t i k1))"
    using Cons by simp
  show ?case
  proof (cases "pending AND sig_bit i = 0")
    case True
    then show ?thesis using Cons by (simp add: Let_def)
  next
    case False
    show ?thesis
    proof (cases "ignored pr i")
      case True
      then have "sa_handler (GetSignalAction pr (int i)) = 1 \<or>
          sa_handler (GetSignalAction pr (int i)) = 0 \<and> \<not> fatal_default i" by (simp only: ignored_def)
      then have "signal_loop P t p pending fr (i # is) k = signal_loop P t p pending fr is (clear_pending t i k)"
        using False Cons.prems by (auto simp: Let_def)
      then show ?thesis unfolding IH using False True by (simp add: Let_def cong: list.case_cong)
    next
      case nig: False
      then have "sa_handler (GetSignalAction pr (int i)) \<noteq> 1"
        "sa_handler (GetSignalAction pr (int i)) = 0 \<Longrightarrow> fatal_default i" by (auto simp: ignored_def)
      then have "signal_loop P t p pending fr (i # is) k = act_on P t p pr fr i (clear_pending t i k)"
        using False Cons.prems by (auto simp: Let_def act_on_def)
      then show ?thesis using False nig by (simp only: Let_def filter.simps if_False if_True simp_thms takeWhile.simps dropWhile.simps list.case fold_simps)
    qed
  qed
qed simp

definition pending_of :: "addr \<Rightarrow> ('v, 'r, 'k, 'a) kernel \<Rightarrow> u64" where
  "pending_of t k = m_pending_signals (thr (sch k) t)"

lemma pending_clear:
  assumes "1 \<le> i" and "i < 64" and "threads (sch k) t \<noteq> None"
  shows "bit (pending_of t (clear_pending t i k)) n \<longleftrightarrow> bit (pending_of t k) n \<and> n \<noteq> i - 1"
    and "threads (sch (clear_pending t i k)) t \<noteq> None"
  using assms bit_imp_le_length [of "pending_of t k" n]
  by (auto simp: pending_of_def clear_pending_def thr_def upd_thread_def bit_and_iff bit_not_iff sig_bit_bit)

lemma pending_clear_all:
  assumes "\<And>i. i \<in> set L \<Longrightarrow> 1 \<le> i \<and> i < 64" and "threads (sch k) t \<noteq> None"
  shows "bit (pending_of t (fold (clear_pending t) L k)) n \<longleftrightarrow> bit (pending_of t k) n \<and> Suc n \<notin> set L"
  using assms
proof (induction L arbitrary: k)
  case (Cons i L)
  have i: "1 \<le> i" "i < 64" using Cons.prems(1) [of i] by simp_all
  note pc = pending_clear [OF i Cons.prems(2)]
  have "bit (pending_of t (fold (clear_pending t) L (clear_pending t i k))) n \<longleftrightarrow>
      bit (pending_of t (clear_pending t i k)) n \<and> Suc n \<notin> set L"
    using Cons.prems(1) pc(2) by (intro Cons.IH) auto
  moreover have "n \<noteq> i - 1 \<longleftrightarrow> Suc n \<noteq> i" using i by auto
  ultimately show ?case using pc(1) by auto
qed simp

lemma find_dropWhile:
  "List.find (\<lambda>x. Q x \<and> \<not> P x) xs = (case dropWhile P (filter Q xs) of [] \<Rightarrow> None | y # _ \<Rightarrow> Some y)"
  by (induction xs) auto

lemma takeWhile_sorted:
  assumes "sorted_wrt (<) S" and "dropWhile P S = i # rest"
  shows "x \<in> set (takeWhile P S) \<or> x = i \<longleftrightarrow> x \<in> set S \<and> x \<le> (i :: nat)"
proof -
  have S: "S = takeWhile P S @ i # rest" using takeWhile_dropWhile_id [of P S] assms(2) by simp
  then have "sorted_wrt (<) (takeWhile P S @ i # rest)" using assms(1) by simp
  then have "\<forall>y \<in> set (takeWhile P S). y < i" "\<forall>y \<in> set rest. i < y" by (auto simp: sorted_wrt_append)
  moreover have "set S = set (takeWhile P S) \<union> insert i (set rest)" by (subst S) simp
  ultimately show ?thesis by fastforce
qed

lemma Process_Exit_state:
  "procs k p = Some pr \<Longrightarrow> \<exists>pr'. procs (Process_Exit p st k) p = Some pr' \<and> m_proc_state pr' = ProcZombie \<and> m_exit_status pr' = st"
  by (auto simp: Process_Exit_def close_fds_def Let_def split: option.splits prod.splits)

lemma run_sched_procs [simp]: "procs (run_sched f k) = procs k"
  by (simp add: run_sched_def show_view_def Let_def)

lemma end_thread_procs: "procs (snd (end_thread P t k)) = procs k"
  by (simp add: end_thread_def Let_def split: expected.split)

lemma DoPendingSignals_loop:
  assumes "GetCurrentThread (sch k) = Some t" and "threads (sch k) t = Some th" and "m_process th = Some p"
    and "procs k p = Some pr" and "cs fr AND 3 \<noteq> 0" and "m_proc_state pr \<noteq> ProcZombie" and "m_state th \<noteq> Terminated"
  shows "DoPendingSignals P fr k =
    (let S = filter (\<lambda>i. bit (m_pending_signals th AND NOT (m_blocked_signals th)) (i - 1)) [1..<NSIG];
         k1 = fold (clear_pending t) (takeWhile (ignored pr) S) k
     in case dropWhile (ignored pr) S of [] \<Rightarrow> (Resume fr, k1) | i # _ \<Rightarrow> act_on P t p pr fr i (clear_pending t i k1))"
proof -
  let ?p = "m_pending_signals th AND NOT (m_blocked_signals th)"
  have eq: "filter (\<lambda>i. ?p AND sig_bit i \<noteq> 0) [1..<NSIG] = filter (\<lambda>i. bit ?p (i - 1)) [1..<NSIG]"
    by (rule filter_cong) (auto simp: and_sig_bit NSIG_def)
  show ?thesis
  proof (cases "?p = 0")
    case True
    then have "filter (\<lambda>i. bit ?p (i - 1)) [1..<NSIG] = []" by (simp only: bit_0_eq) simp
    moreover have "DoPendingSignals P fr k = (Resume fr, k)"
      using assms True by (simp add: DoPendingSignals_def thr_def Let_def)
    ultimately show ?thesis by (simp only: Let_def takeWhile.simps dropWhile.simps list.case fold_simps)
  next
    case False
    then have "DoPendingSignals P fr k = signal_loop P t p ?p fr [1..<NSIG] k"
      using assms by (simp add: DoPendingSignals_def thr_def Let_def)
    then show ?thesis using signal_loop_eq [OF assms(4), of P t ?p fr "[1..<NSIG]"] unfolding eq by (simp only:)
  qed
qed

text \<open>
  Ending a thread: no scheduler operation changes the signals of a thread, the reaper or the list of dead threads, so a thread
  that is not the reaper is always accepted by it.
\<close>

definition sig_view :: "sched \<Rightarrow> addr \<Rightarrow> (u64 \<times> u64) option" where
  "sig_view s = (\<lambda>t. map_option (\<lambda>th. (m_pending_signals th, m_blocked_signals th)) (threads s t))"

definition same_signals :: "sched \<Rightarrow> sched \<Rightarrow> bool" where
  "same_signals s s' \<longleftrightarrow> sig_view s' = sig_view s \<and> reaper_thread s' = reaper_thread s \<and> dead_list s' = dead_list s"

lemma same_signals_refl [simp]: "same_signals s s"
  by (simp add: same_signals_def)

lemma same_signals_trans: "same_signals s s' \<Longrightarrow> same_signals s' s'' \<Longrightarrow> same_signals s s''"
  by (simp add: same_signals_def)

lemma same_signals_upd:
  assumes "same_signals s s'" and "\<And>th. m_pending_signals (f th) = m_pending_signals th \<and> m_blocked_signals (f th) = m_blocked_signals th"
  shows "same_signals s (upd_thread t f s')"
proof -
  have "sig_view (upd_thread t f s') = sig_view s'"
    using assms(2) by (simp add: sig_view_def fun_eq_iff option.map_comp comp_def)
  then show ?thesis using assms(1) by (simp add: same_signals_def)
qed

lemma same_signals_ScheduleLocked: "same_signals s (ScheduleLocked root s)"
  by (auto simp: same_signals_def sig_view_def ScheduleLocked_def Let_def Mlfq_PopBest_def PerformSwitch_threads option.map_comp comp_def
      fun_eq_iff split: option.splits prod.splits intro!: option.map_cong0)

lemma same_signals_Yield: "same_signals s (Yield root s)"
proof -
  have "same_signals s (push_back l cur (upd_thread cur (\<lambda>th. th\<lparr>m_state := Ready, m_ticks_remaining := q\<rparr>) s))" for l cur q
    using same_signals_upd [of s s "\<lambda>th. th\<lparr>m_state := Ready, m_ticks_remaining := q\<rparr>" cur] by (simp add: same_signals_def sig_view_def)
  then show ?thesis
    using same_signals_trans [OF _ same_signals_ScheduleLocked] same_signals_ScheduleLocked
    by (auto simp: Yield_def Let_def split: option.split)
qed

lemma same_signals_wake: "same_signals s (wake_thread u s)"
proof -
  let ?s = "s\<lparr>g_wait_queue := remove1 u (g_wait_queue s)\<rparr>"
  have "same_signals s ?s" by (simp add: same_signals_def sig_view_def)
  then have "same_signals s (upd_thread u (\<lambda>th. th\<lparr>wait_channel := 0, m_state := Ready, m_ticks_remaining := q\<rparr>) ?s)" for q
    by (rule same_signals_upd) simp
  then show ?thesis by (simp add: wake_thread_def Let_def same_signals_def sig_view_def)
qed

lemma same_signals_Wake_loop: "same_signals s (Wake_loop c all ts s)"
proof (induction ts arbitrary: s)
  case (Cons t ts)
  show ?case using same_signals_trans [OF same_signals_wake Cons.IH] Cons.IH by (cases all) (simp_all add: same_signals_wake)
qed simp

lemma same_signals_Exit: "same_signals (sch k) (sch (Process_Exit p st k))"
proof -
  have "sch (close_fds p k) = sch k" by (simp add: close_fds_def Let_def split: option.split prod.split)
  then show ?thesis by (simp add: Process_Exit_def Let_def Wake_def same_signals_Wake_loop split: option.split)
qed

lemma end_thread_ends:
  assumes "reaper_thread (sch k) \<noteq> Some t" and "threads (sch k) t \<noteq> None"
  shows "\<exists>k'. end_thread P t k = (Value (), k') \<and> sig_view (sch k') = sig_view (sch k) \<and> dead_list (sch k') = dead_list (sch k) @ [t]"
proof -
  let ?s = "upd_thread t (\<lambda>th. th\<lparr>m_state := Terminated\<rparr>) (sch k)"
  let ?s2 = "?s\<lparr>dead_list := dead_list ?s @ [t]\<rparr>"
  have "Reaper_Enqueue t ?s = Value ?s2" using assms by (simp add: Reaper_Enqueue_def)
  moreover have "same_signals (sch k) ?s" by (rule same_signals_upd) simp_all
  moreover have "same_signals ?s2 (Yield r ?s2)" for r by (rule same_signals_Yield)
  ultimately show ?thesis
    by (simp add: end_thread_def Let_def run_sched_def show_view_def same_signals_def) (simp add: sig_view_def)
qed

text \<open>Acting on a signal with the default action ends the process and the thread.\<close>

lemma act_on_fatal:
  assumes "procs k p = Some pr" and "sa_handler (GetSignalAction pr (int i)) = 0"
    and "reaper_thread (sch k) \<noteq> Some t" and "threads (sch k) t \<noteq> None"
  shows "case act_on P t p pr fr i k of (d, k') \<Rightarrow> d = Killed \<and>
     map_option (\<lambda>pr. (m_proc_state pr, m_exit_status pr)) (procs k' p) = Some (ProcZombie, - of_nat i) \<and>
     dead_list (sch k') = dead_list (sch k) @ [t] \<and> pending_of t k' = pending_of t k"
proof -
  let ?k1 = "Process_Exit p (- of_nat i) k"
  from Process_Exit_state [OF assms(1), of "- of_nat i"] obtain pr' where
    ex: "procs ?k1 p = Some pr'" "m_proc_state pr' = ProcZombie" "m_exit_status pr' = - of_nat i" by blast
  have same: "same_signals (sch k) (sch ?k1)" by (rule same_signals_Exit)
  then have "reaper_thread (sch ?k1) \<noteq> Some t" "threads (sch ?k1) t \<noteq> None"
    using assms(3,4) by (auto simp: same_signals_def sig_view_def dest!: fun_cong [of _ _ t])
  from end_thread_ends [OF this, of P] obtain k2 where et: "end_thread P t ?k1 = (Value (), k2)"
    and k2: "sig_view (sch k2) = sig_view (sch ?k1)" "dead_list (sch k2) = dead_list (sch ?k1) @ [t]" by blast
  have "procs k2 p = Some pr'" using end_thread_procs [of P t] et ex(1) by (metis snd_conv)
  moreover have "sig_view (sch k2) t = sig_view (sch k) t" using k2(1) same by (simp add: same_signals_def)
  then have "pending_of t k2 = pending_of t k" using assms(4) by (auto simp: pending_of_def sig_view_def thr_def)
  ultimately show ?thesis using assms(2) et ex(2,3) k2(2) same by (simp add: act_on_def Let_def same_signals_def)
qed

lemma clear_all_sched [simp]:
  fixes k :: "('v, 'r, 'k, 'a) kernel"
  shows
  "reaper_thread (sch (clear_pending t i k)) = reaper_thread (sch k)" "dead_list (sch (clear_pending t i k)) = dead_list (sch k)"
  "threads (sch (clear_pending t i k)) u = None \<longleftrightarrow> threads (sch k) u = None"
  "reaper_thread (sch (fold (clear_pending t) L k)) = reaper_thread (sch k)" "dead_list (sch (fold (clear_pending t) L k)) = dead_list (sch k)"
  "threads (sch (fold (clear_pending t) L k)) u = None \<longleftrightarrow> threads (sch k) u = None"
proof -
  show one: "reaper_thread (sch (clear_pending t i k)) = reaper_thread (sch k)" "dead_list (sch (clear_pending t i k)) = dead_list (sch k)"
    "threads (sch (clear_pending t i k)) u = None \<longleftrightarrow> threads (sch k) u = None"
    for k :: "('v, 'r, 'k, 'a) kernel" and i
    by (simp_all add: clear_pending_def)
  show "reaper_thread (sch (fold (clear_pending t) L k)) = reaper_thread (sch k)" "dead_list (sch (fold (clear_pending t) L k)) = dead_list (sch k)"
    "threads (sch (fold (clear_pending t) L k)) u = None \<longleftrightarrow> threads (sch k) u = None"
    by (induction L arbitrary: k) (simp_all add: one)
qed

lemma DoPendingSignals_fatal:
  assumes "GetCurrentThread (sch k) = Some t" and "threads (sch k) t = Some th" and "m_process th = Some p"
    and "procs k p = Some pr" and "cs fr AND 3 \<noteq> 0" and "m_proc_state pr \<noteq> ProcZombie" and "m_state th \<noteq> Terminated"
    and "List.find (\<lambda>i. bit (m_pending_signals th AND NOT (m_blocked_signals th)) (i - 1) \<and> \<not> ignored pr i) [1..<NSIG] = Some i"
    and "sa_handler (GetSignalAction pr (int i)) = 0" and "reaper_thread (sch k) \<noteq> Some t"
  shows "case DoPendingSignals P fr k of (d, k') \<Rightarrow> d = Killed \<and>
     map_option (\<lambda>pr. (m_proc_state pr, m_exit_status pr)) (procs k' p) = Some (ProcZombie, - of_nat i) \<and>
     dead_list (sch k') = dead_list (sch k) @ [t]"
proof -
  let ?S = "filter (\<lambda>i. bit (m_pending_signals th AND NOT (m_blocked_signals th)) (i - 1)) [1..<NSIG]"
  let ?k1 = "fold (clear_pending t) (takeWhile (ignored pr) ?S) k"
  obtain rest where d: "dropWhile (ignored pr) ?S = i # rest"
    using assms(8) unfolding find_dropWhile
    by (cases "dropWhile (ignored pr) ?S") (simp_all only: list.case option.inject option.distinct)
  have "DoPendingSignals P fr k = act_on P t p pr fr i (clear_pending t i ?k1)"
    unfolding DoPendingSignals_loop [OF assms(1-7)] Let_def d by simp
  then show ?thesis using act_on_fatal [of "clear_pending t i ?k1" p pr i t P fr] assms(2,4,9,10) by (auto split: prod.splits)
qed

section \<open>Properties\<close>

text \<open>
  C31: The signal frame gives back what it saved. Whatever the handler did with its registers,
  when it returns through the restorer the user stack pointer is 8 above the one it was entered with, and
  \<open>rt_sigreturn\<close> then restores, in the register frame of the call, every general register, the stack pointer, \<open>rip\<close>, the flags and
  \<open>cs\<close> of the interrupted frame. (\<open>ss\<close> and the interrupt metadata are those of the system call.) The
  blocked mask it restores is always empty, because the frame never saved one.
\<close>

theorem signal_frame_roundtrip:
  assumes "SetupFrame f sig action m = (f', m')" and "kmem_of k = m'"
  shows "case sys_rt_sigreturn (rsp f' + 8) t regs k of (ret, g, k') \<Rightarrow>
    g = f\<lparr>interrupt_number := interrupt_number regs, error_code := error_code regs, ss := ss regs\<rparr> \<and> ret = rax f \<and>
    (\<forall>th. threads (sch k) t = Some th \<longrightarrow> threads (sch k') t = Some (th\<lparr>m_blocked_signals := 0\<rparr>))"
  unfolding sigreturn_restores [OF assms] by (simp add: upd_thread_def)

text \<open>
  C40: On the way back to user mode the lowest-numbered pending signal that is neither blocked nor ignored is
  the one acted on: its handler is entered on a signal frame, or its default action makes the
  process a zombie with the negated signal number as its status, and the thread is handed to the reaper and does not return. In both cases it and
  the ignored lower ones are no longer pending, higher ones and
  all blocked ones stay pending; with a handler nothing else of the process changes; with none to act on, the
  frame is untouched and only the discarded bits are cleared. (The thread is not the reaper, which has no process in the code.)
\<close>

theorem signal_delivery:
  assumes "GetCurrentThread (sch k) = Some t" and "threads (sch k) t = Some th" and "m_process th = Some p"
    and "procs k p = Some pr" and "cs fr AND 3 \<noteq> 0" and "m_proc_state pr \<noteq> ProcZombie" and "m_state th \<noteq> Terminated"
    and "reaper_thread (sch k) \<noteq> Some t"
  shows "case DoPendingSignals P fr k of (d, k') \<Rightarrow>
    (case List.find (\<lambda>i. bit (m_pending_signals th AND NOT (m_blocked_signals th)) (i - 1) \<and> \<not> ignored pr i) [1..<NSIG] of
       None \<Rightarrow> d = Resume fr \<and> procs k' = procs k \<and> io k' = io k \<and>
         (\<forall>n < 63. bit (pending_of t k') n \<longleftrightarrow> bit (m_pending_signals th) n \<and> bit (m_blocked_signals th) n)
     | Some i \<Rightarrow>
         if sa_handler (GetSignalAction pr (int i)) = 0
         then d = Killed \<and> dead_list (sch k') = dead_list (sch k) @ [t] \<and>
              map_option (\<lambda>pr. (m_proc_state pr, m_exit_status pr)) (procs k' p) = Some (ProcZombie, - of_nat i) \<and>
              (\<forall>n < 63. bit (pending_of t k') n \<longleftrightarrow>
                 bit (m_pending_signals th) n \<and> (bit (m_blocked_signals th) n \<or> i \<le> n))
         else d = Resume (fst (SetupFrame fr i (GetSignalAction pr (int i)) (kmem_of k))) \<and>
              kmem_of k' = snd (SetupFrame fr i (GetSignalAction pr (int i)) (kmem_of k)) \<and> procs k' = procs k \<and>
              (\<forall>n < 63. bit (pending_of t k') n \<longleftrightarrow>
                 bit (m_pending_signals th) n \<and> (bit (m_blocked_signals th) n \<or> i \<le> n)))"
proof -
  let ?w = "m_pending_signals th AND NOT (m_blocked_signals th)"
  define S where "S = filter (\<lambda>i. bit ?w (i - 1)) [1..<NSIG]"
  define k1 where "k1 = fold (clear_pending t) (takeWhile (ignored pr) S) k"
  have run: "DoPendingSignals P fr k =
      (case dropWhile (ignored pr) S of [] \<Rightarrow> (Resume fr, k1) | i # _ \<Rightarrow> act_on P t p pr fr i (clear_pending t i k1))"
    unfolding k1_def S_def by (rule DoPendingSignals_loop [OF assms(1-7), unfolded Let_def])
  have find: "List.find (\<lambda>i. bit ?w (i - 1) \<and> \<not> ignored pr i) [1..<NSIG] =
      (case dropWhile (ignored pr) S of [] \<Rightarrow> None | y # _ \<Rightarrow> Some y)"
    unfolding S_def by (rule find_dropWhile)
  have inS: "Suc n \<in> set S \<longleftrightarrow> bit (m_pending_signals th) n \<and> \<not> bit (m_blocked_signals th) n" if "n < 63" for n
    using that by (auto simp: S_def NSIG_def bit_and_iff bit_not_iff)
  have rng: "1 \<le> i \<and> i < 64" if "i \<in> set S" for i using that by (simp add: S_def NSIG_def)
  have pk: "pending_of t k = m_pending_signals th" "threads (sch k) t \<noteq> None"
    using assms(2) by (simp_all add: pending_of_def thr_def)
  have sub: "set (takeWhile (ignored pr) S) \<subseteq> set S" by (auto dest: set_takeWhileD)
  have cleared: "bit (pending_of t (fold (clear_pending t) L k)) n \<longleftrightarrow> bit (m_pending_signals th) n \<and> Suc n \<notin> set L"
    if "set L \<subseteq> set S" for L n
    using pending_clear_all [of L k t n] that rng pk by auto
  show ?thesis
  proof (cases "dropWhile (ignored pr) S")
    case Nil
    then have all: "takeWhile (ignored pr) S = S" using takeWhile_dropWhile_id [of "ignored pr" S] by simp
    have "bit (pending_of t k1) n \<longleftrightarrow> bit (m_pending_signals th) n \<and> bit (m_blocked_signals th) n" if "n < 63" for n
      using cleared [of S n] inS [OF that] by (auto simp: k1_def all)
    then show ?thesis unfolding run find Nil by (simp add: k1_def)
  next
    case (Cons i rest)
    have srt: "sorted_wrt (<) S" unfolding S_def by (rule sorted_wrt_filter) (rule sorted_wrt_upt)
    note tw = takeWhile_sorted [OF srt Cons]
    have iS: "i \<in> set S" using tw [of i] by blast
    have act: "DoPendingSignals P fr k = act_on P t p pr fr i (clear_pending t i k1)" unfolding run Cons by simp
    have k2: "clear_pending t i k1 = fold (clear_pending t) (takeWhile (ignored pr) S @ [i]) k" by (simp add: k1_def)
    have bits: "bit (pending_of t (clear_pending t i k1)) n \<longleftrightarrow>
        bit (m_pending_signals th) n \<and> (bit (m_blocked_signals th) n \<or> i \<le> n)" if "n < 63" for n
      unfolding k2 using cleared [of "takeWhile (ignored pr) S @ [i]" n] sub iS tw [of "Suc n"] inS [OF that] by auto
    show ?thesis
    proof (cases "sa_handler (GetSignalAction pr (int i)) = 0")
      case True
      then show ?thesis using act_on_fatal [of "clear_pending t i k1" p pr i t P fr] assms(2,4,8) bits
        unfolding act find Cons by (auto simp: k1_def split: prod.splits)
    next
      case False
      with bits show ?thesis
        unfolding act find Cons using False
        by (simp add: act_on_def Let_def pending_of_def k1_def split: prod.split)
    qed
  qed
qed

section \<open>Concrete instances\<close>

theorem signal_frame_roundtrip_witness:
  "\<exists>f' k. fst (SetupFrame (zero_frame\<lparr>rsp := 0x8000, rip := 0x1234\<rparr>) 10 (zero_sigaction\<lparr>sa_handler := 0x4000\<rparr>) (\<lambda>_. 1)) = f' \<and>
     rip f' = 0x4000 \<and> rip (fst (snd (sys_rt_sigreturn (rsp f' + 8) 2 zero_frame (k :: ((u64 \<times> u64) list, u8 list, nat, (u64 \<times> u64) list) kernel)))) = 0x1234"
proof -
  let ?f = "zero_frame\<lparr>rsp := 0x8000, rip := 0x1234\<rparr>" and ?a = "zero_sigaction\<lparr>sa_handler := 0x4000\<rparr>"
  obtain f' m' where sf: "SetupFrame ?f 10 ?a (\<lambda>_. 1) = (f', m')" by fastforce
  let ?k = "set_mem m' ex_kernel"
  have "rip f' = 0x4000" using sf by (auto simp: SetupFrame_def Let_def zero_sigaction_def)
  moreover have "rip (fst (snd (sys_rt_sigreturn (rsp f' + 8) 2 zero_frame ?k))) = 0x1234"
    using signal_frame_roundtrip [OF sf, of ?k zero_frame 2] by (auto split: prod.splits)
  ultimately show ?thesis using sf by (intro exI [of _ f'] exI [of _ ?k]) simp
qed

definition ex_signalled :: "((u64 \<times> u64) list, u8 list, nat, (u64 \<times> u64) list) kernel" where
  "ex_signalled = ex_kernel\<lparr>sch := upd_thread 2 (\<lambda>th. th\<lparr>m_pending_signals := 0x600\<rparr>) ex_ksched\<rparr>"

theorem signal_delivery_witness:
  "case DoPendingSignals ex_plat (zero_frame\<lparr>cs := 0x23\<rparr>) ex_signalled of (d, k') \<Rightarrow>
     d = Killed \<and> dead_list (sch k') = [2] \<and> map_option (\<lambda>pr. (m_proc_state pr, m_exit_status pr)) (procs k' 0x500) = Some (ProcZombie, - 11)"
proof -
  let ?th = "(ex_thread Running 0 3 0)\<lparr>m_process := Some 0x500, m_pending_signals := 0x600\<rparr>"
  let ?pr = "(Process_new 1 0x510 2 2)
      \<lparr>m_fd_table := ex_table, m_children := [0x600], m_heap_start := 0x30000, m_heap_end := 0x30800\<rparr>"
  have h: "GetCurrentThread (sch ex_signalled) = Some 2" "threads (sch ex_signalled) 2 = Some ?th"
    "m_process ?th = Some 0x500" "procs ex_signalled 0x500 = Some ?pr" "cs (zero_frame\<lparr>cs := 0x23\<rparr>) AND 3 \<noteq> 0"
    "m_proc_state ?pr \<noteq> ProcZombie" "m_state ?th \<noteq> Terminated"
    by (simp_all add: ex_signalled_def ex_ksched_def ex_sched_def upd_thread_def GetCurrentThread_def ex_kernel_def
        Process_new_def ex_thread_def null_thread_def)
  have act: "GetSignalAction ?pr (int i) = zero_sigaction" if "1 \<le> i" "i < 64" for i
    using that by (simp add: GetSignalAction_def Process_new_def NSIG_def)
  have ig: "ignored ?pr i \<longleftrightarrow> \<not> fatal_default i" if "1 \<le> i" "i < 64" for i
    using act [OF that] by (simp add: ignored_def zero_sigaction_def)
  have f: "List.find (\<lambda>i. bit (m_pending_signals ?th AND NOT (m_blocked_signals ?th)) (i - 1) \<and> \<not> ignored ?pr i) [1..<NSIG] = Some 11"
  proof -
    have "List.find (\<lambda>i. bit (m_pending_signals ?th AND NOT (m_blocked_signals ?th)) (i - 1) \<and> \<not> ignored ?pr i) [1..<NSIG] =
        List.find (\<lambda>i. bit (0x600 :: u64) (i - 1) \<and> fatal_default i) [1..<64]"
      unfolding NSIG_def by (rule find_cong_on) (use ig in \<open>auto simp: ex_thread_def null_thread_def bit_and_iff bit_not_iff dest: bit_imp_le_length\<close>)
    also have "\<dots> = Some 11" unfolding fatal_default_def by code_simp
    finally show ?thesis .
  qed
  have "sa_handler (GetSignalAction ?pr (int 11)) = 0" using act [of 11] by (simp add: zero_sigaction_def)
  moreover have "reaper_thread (sch ex_signalled) \<noteq> Some 2" "dead_list (sch ex_signalled) = []"
    by (simp_all add: ex_signalled_def ex_ksched_def ex_sched_def)
  ultimately show ?thesis using signal_delivery [OF h, of ex_plat] f by (simp split: prod.splits)
qed

end
