(* ===== verification/Elf.thy ===== *)
theory Elf
  imports ProcessModel
begin

text \<open>
  The ELF loader (\<open>include/ceryx/proc/ElfLoader.hpp\<close>) and \<open>Process::Spawn\<close> (\<open>arch/x86_64/proc/Process.cpp\<close>).

  \<open>buf\<close> is the address of the loader's local variables \<open>header\<close> and \<open>phdr\<close> on the kernel stack, which the vnode
  reads fill. An executable is a file of the tree, never a pipe, so a read that would wait is \<open>Bug\<close>.
\<close>

section \<open>Headers\<close>

record Elf64_Ehdr =
  e_ident :: "u8 list"
  e_type :: u16
  e_machine :: u16
  e_version :: u32
  e_entry :: u64
  e_phoff :: u64
  e_shoff :: u64
  e_flags :: u32
  e_ehsize :: u16
  e_phentsize :: u16
  e_phnum :: u16
  e_shentsize :: u16
  e_shnum :: u16
  e_shstrndx :: u16

record Elf64_Phdr =
  p_type :: u32
  p_flags :: u32
  p_offset :: u64
  p_vaddr :: u64
  p_paddr :: u64
  p_filesz :: u64
  p_memsz :: u64
  p_align :: u64

record LoadResult =
  entry_point :: u64
  stack_top :: u64
  heap_base :: u64

definition get_ehdr :: "mem \<Rightarrow> addr \<Rightarrow> Elf64_Ehdr" where
  "get_ehdr m a =
     \<lparr>e_ident = read_bytes m a 16, e_type = load16 m (a + 16), e_machine = load16 m (a + 18), e_version = load32 m (a + 20),
      e_entry = load64 m (a + 24), e_phoff = load64 m (a + 32), e_shoff = load64 m (a + 40), e_flags = load32 m (a + 48),
      e_ehsize = load16 m (a + 52), e_phentsize = load16 m (a + 54), e_phnum = load16 m (a + 56),
      e_shentsize = load16 m (a + 58), e_shnum = load16 m (a + 60), e_shstrndx = load16 m (a + 62)\<rparr>"

definition get_phdr :: "mem \<Rightarrow> addr \<Rightarrow> Elf64_Phdr" where
  "get_phdr m a =
     \<lparr>p_type = load32 m a, p_flags = load32 m (a + 4), p_offset = load64 m (a + 8), p_vaddr = load64 m (a + 16),
      p_paddr = load64 m (a + 24), p_filesz = load64 m (a + 32), p_memsz = load64 m (a + 40), p_align = load64 m (a + 48)\<rparr>"

definition page_up :: "u64 \<Rightarrow> u64" where
  "page_up w = (w + 0xFFF) AND NOT 0xFFF"

section \<open>Reading the file\<close>

definition read_file ::
  "('v, 'r, 'k, 'a) plat \<Rightarrow> addr \<Rightarrow> addr \<Rightarrow> u64 \<Rightarrow> u64 \<Rightarrow> ('v, 'r, 'k, 'a) kernel \<Rightarrow> u64 expected \<times> ('v, 'r, 'k, 'a) kernel" where
  "read_file P v buffer sz pos k =
     (case vnode_Read (lib P) v buffer sz pos (fs (io k)) of
        (r, t) \<Rightarrow> (case r of Return e \<Rightarrow> e | Wait _ _ \<Rightarrow> Bug, k\<lparr>io := set_fs t (io k)\<rparr>))"

section \<open>Segments\<close>

text \<open>The loop that faults in the pages of a mapping, by the number of pages: its bound is a multiple of the page size.\<close>

fun fault_pages ::
  "('v, 'r, 'k, 'a) plat \<Rightarrow> addr \<Rightarrow> u64 \<Rightarrow> nat \<Rightarrow> ('v, 'r, 'k, 'a) kernel \<Rightarrow> bool \<times> ('v, 'r, 'k, 'a) kernel" where
  "fault_pages P u va 0 k = (True, k)"
| "fault_pages P u va (Suc n) k =
     (case on_space u (as_WriteFault P va) k of
        (Some True, k) \<Rightarrow> fault_pages P u (va + 0x1000) n k
      | (_, k) \<Rightarrow> (False, k))"

definition UserAll :: "VmaProt set" where
  "UserAll = {ProtUser, ProtRead, ProtWrite, ProtExecute}"

definition UserReadWrite :: "VmaProt set" where
  "UserReadWrite = {ProtUser, ProtRead, ProtWrite}"

text \<open>One \<open>PT_LOAD\<close> segment: map, fault in, read the file part, clear the rest. The value is the end of the segment.\<close>

definition load_segment ::
  "('v, 'r, 'k, 'a) plat \<Rightarrow> addr \<Rightarrow> addr \<Rightarrow> u64 \<Rightarrow> Elf64_Phdr \<Rightarrow> ('v, 'r, 'k, 'a) kernel \<Rightarrow> u64 expected \<times> ('v, 'r, 'k, 'a) kernel" where
  "load_segment P u v effective_bias phdr k =
     (let vaddr = p_vaddr phdr + effective_bias;
          page_aligned_vaddr = vaddr AND NOT 0xFFF;
          padding = vaddr - page_aligned_vaddr;
          mem_size = page_up (p_memsz phdr + padding)
      in if page_aligned_vaddr = 0 then (Unexpected (- ENOEXEC), k)
         else
           (case on_space u (as_MapAnonymous P page_aligned_vaddr mem_size UserAll {FlagPrivate, FlagAnonymous, FlagFixed}) k of
              (Some (Some _), k) \<Rightarrow>
                (case fault_pages P u page_aligned_vaddr (unat mem_size div 4096) k of
                   (False, k) \<Rightarrow> (Unexpected (- ENOMEM), k)
                 | (True, k) \<Rightarrow>
                     (case read_file P v vaddr (p_filesz phdr) (p_offset phdr) k of
                        (Bug, k) \<Rightarrow> (Bug, k)
                      | (_, k) \<Rightarrow>
                          (Value (vaddr + p_memsz phdr),
                           if p_memsz phdr > p_filesz phdr
                           then set_mem (MemoryZero (kmem_of k) (vaddr + p_filesz phdr) (p_memsz phdr - p_filesz phdr)) k
                           else k)))
            | (Some None, k) \<Rightarrow> (Unexpected (- ENOMEM), k)
            | (None, k) \<Rightarrow> (Bug, k)))"

text \<open>The loop over the program headers from index \<open>i\<close>, with the highest segment end so far. The product of two
  \<open>u16\<close> is an \<open>int\<close>.\<close>

fun load_segments ::
  "('v, 'r, 'k, 'a) plat \<Rightarrow> addr \<Rightarrow> addr \<Rightarrow> u64 \<Rightarrow> addr \<Rightarrow> Elf64_Ehdr \<Rightarrow> nat \<Rightarrow> u16 \<Rightarrow> u64 \<Rightarrow> ('v, 'r, 'k, 'a) kernel \<Rightarrow> u64 expected \<times> ('v, 'r, 'k, 'a) kernel" where
  "load_segments P u v effective_bias buf hdr 0 i max_vaddr k = (Value max_vaddr, k)"
| "load_segments P u v effective_bias buf hdr (Suc n) i max_vaddr k =
     (case read_file P v buf 56 (e_phoff hdr + scast (ucast i * ucast (e_phentsize hdr) :: u32)) k of
        (Bug, k) \<Rightarrow> (Bug, k)
      | (res, k) \<Rightarrow>
          if res \<noteq> Value 56 then load_segments P u v effective_bias buf hdr n (i + 1) max_vaddr k
          else
            (let phdr = get_phdr (kmem_of k) buf in
             if p_type phdr = 1 then
               (case load_segment P u v effective_bias phdr k of
                  (Value seg_end, k) \<Rightarrow>
                    load_segments P u v effective_bias buf hdr n (i + 1) (if seg_end > max_vaddr then seg_end else max_vaddr) k
                | (r, k) \<Rightarrow> (r, k))
             else load_segments P u v effective_bias buf hdr n (i + 1) max_vaddr k))"

section \<open>Load\<close>

definition kStackBytes :: u64 where "kStackBytes = 0x800000"

definition user_top :: "('v, 'r, 'k, 'a) plat \<Rightarrow> u64" where
  "user_top P = (if paging_level5 P then 0x00FFFFFFFFFFF000 else 0x00007FFFFFFFF000)"

definition load_body ::
  "('v, 'r, 'k, 'a) plat \<Rightarrow> addr \<Rightarrow> addr \<Rightarrow> u64 \<Rightarrow> addr \<Rightarrow> Elf64_Ehdr \<Rightarrow> ('v, 'r, 'k, 'a) kernel \<Rightarrow> LoadResult expected \<times> ('v, 'r, 'k, 'a) kernel" where
  "load_body P u v effective_bias buf hdr k =
     (case load_segments P u v effective_bias buf hdr (unat (e_phnum hdr)) 0 0 k of
        (Bug, k) \<Rightarrow> (Bug, k)
      | (Unexpected e, k) \<Rightarrow> (Unexpected e, k)
      | (Value max_vaddr, k) \<Rightarrow>
          (case on_space u (as_MapAnonymous P (user_top P - kStackBytes - 0x1000) kStackBytes UserReadWrite {FlagPrivate, FlagAnonymous}) k of
             (None, k) \<Rightarrow> (Bug, k)
           | (Some None, k) \<Rightarrow> (Unexpected (- ENOMEM), k)
           | (Some (Some stack_bottom), k) \<Rightarrow>
               (let top = stack_bottom + kStackBytes;
                    k = snd (on_space u (as_WriteFault P (top - 0x1000)) k)
                in (Value \<lparr>entry_point = e_entry hdr + effective_bias, stack_top = top, heap_base = page_up max_vaddr\<rparr>, k))))"

definition bias_for :: "u16 \<Rightarrow> u64 \<Rightarrow> u64 option" where
  "bias_for ty load_bias =
     (if ty = 2 then Some 0 else if ty = 3 then Some (if load_bias \<noteq> 0 then load_bias else 0x400000) else None)"

definition Load ::
  "('v, 'r, 'k, 'a) plat \<Rightarrow> addr \<Rightarrow> addr \<Rightarrow> addr \<Rightarrow> u64 \<Rightarrow> ('v, 'r, 'k, 'a) kernel \<Rightarrow> LoadResult expected \<times> ('v, 'r, 'k, 'a) kernel" where
  "Load P buf p v load_bias k =
     (case (procs k p, vnodes (fs (io k)) v) of
        (Some pr, Some vn) \<Rightarrow>
          if ops vn = None then (Unexpected (- ENOEXEC), k)
          else
            (case read_file P v buf 64 0 k of
               (Bug, k) \<Rightarrow> (Bug, k)
             | (res, k) \<Rightarrow>
                 if res \<noteq> Value 64 then (Unexpected (- ENOEXEC), k)
                 else
                   (let hdr = get_ehdr (kmem_of k) buf in
                    if take 4 (e_ident hdr) \<noteq> [0x7F, 0x45, 0x4C, 0x46] then (Unexpected (- ENOEXEC), k)
                    else
                      (case bias_for (e_type hdr) load_bias of
                         None \<Rightarrow> (Unexpected (- ENOEXEC), k)
                       | Some bias \<Rightarrow>
                           (case spaces k (m_address_space pr) of
                              None \<Rightarrow> (Bug, k)
                            | Some sp \<Rightarrow>
                                (let prev_cr3 = cr3 (sch k);
                                     k = WriteCr3 (root_pa sp) k
                                 in case load_body P (m_address_space pr) v bias buf hdr k of
                                      (Bug, k) \<Rightarrow> (Bug, k)
                                    | (r, k) \<Rightarrow> (r, WriteCr3 prev_cr3 k))))))
      | _ \<Rightarrow> (Bug, k))"

section \<open>Spawn\<close>

definition Process_Spawn ::
  "('v, 'r, 'k, 'a) plat \<Rightarrow> addr \<Rightarrow> addr \<Rightarrow> string \<Rightarrow> ('v, 'r, 'k, 'a) kernel \<Rightarrow> addr expected \<times> ('v, 'r, 'k, 'a) kernel" where
  "Process_Spawn P buf root path k =
     (case PathToVnode root path (fs (io k)) of
        Bug \<Rightarrow> (Bug, k)
      | Unexpected e \<Rightarrow> (Unexpected e, k)
      | Value v \<Rightarrow>
          (case Process_Create P root root k of
             (Bug, k) \<Rightarrow> (Bug, k)
           | (Unexpected _, k) \<Rightarrow> (Unexpected (- ENOMEM), k)
           | (Value p, k) \<Rightarrow>
               (case Load P buf p v 0 k of
                  (Bug, k) \<Rightarrow> (Bug, k)
                | (Unexpected e, k) \<Rightarrow> (Unexpected e, Process_Destroy P p k)
                | (Value res, k) \<Rightarrow>
                    (let k = upd_proc p (\<lambda>pr. pr\<lparr>m_heap_start := heap_base res, m_heap_end := heap_base res\<rparr>) k in
                     case new_thread P p k of
                       (Value (Some (t, th)), k) \<Rightarrow>
                         (let (th, m) = InitializeUserStack (UserspaceTrampoline P) (entry_point res) (stack_top res) th (kstacks k);
                              (r, k) = start_thread t (SetName (Some ''user_proc'') th, m) k
                          in (case r of Value _ \<Rightarrow> Value p | _ \<Rightarrow> Bug, k))
                     | (_, k) \<Rightarrow> (Bug, k)))))"

section \<open>What loading leaves alone\<close>

text \<open>\<open>kept k k'\<close>: scheduler state (with the page table register), processes, kernel stacks, open files and the
  memory of the other page tables.\<close>

definition kept :: "('v, 'r, 'k, 'a) kernel \<Rightarrow> ('v, 'r, 'k, 'a) kernel \<Rightarrow> bool" where
  "kept k k' \<longleftrightarrow> sch k' = sch k \<and> procs k' = procs k \<and> kstacks k' = kstacks k \<and> files (io k') = files (io k) \<and>
     views k' = views k"

lemma kept_refl [simp]: "kept k k"
  by (simp add: kept_def)

lemma kept_trans [trans]: "kept k k' \<Longrightarrow> kept k' k'' \<Longrightarrow> kept k k''"
  by (simp add: kept_def)

lemma kept_set_mem [simp]: "kept k (set_mem m k') = kept k k'"
  by (simp add: kept_def set_mem_def)

lemma kept_read_file: "read_file P v b n off' k = (r, k') \<Longrightarrow> kept k k'"
  by (auto simp: read_file_def kept_def set_fs_def split: prod.splits)

lemma spaces_read_file: "read_file P v b n pos k = (r, k') \<Longrightarrow> spaces k' = spaces k"
  by (auto simp: read_file_def set_fs_def split: prod.splits)

lemma kept_on_space: "on_space u f k = (b, k') \<Longrightarrow> kept k k'"
  by (auto simp: on_space_def kept_def set_mem_def set_kmm_def split: option.splits prod.splits)

lemma kept_fault_pages: "fault_pages P u va n k = (b, k') \<Longrightarrow> kept k k'"
proof (induction n arbitrary: va k)
  case (Suc n)
  obtain o1 k1 where 1: "on_space u (as_WriteFault P va) k = (o1, k1)" by fastforce
  note k1 = kept_on_space [OF 1]
  show ?case
    using Suc.prems 1 k1 Suc.IH [of "va + 0x1000" k1] kept_trans [OF k1]
    by (auto split: option.splits bool.splits)
qed simp

lemma load_segment_facts:
  assumes "load_segment P u v bias ph k = (r, k')"
  shows "kept k k'" and "r = Unexpected e \<Longrightarrow> e = - ENOEXEC \<or> e = - ENOMEM"
proof -
  have "kept k k' \<and> (\<forall>e. r = Unexpected e \<longrightarrow> e = - ENOEXEC \<or> e = - ENOMEM)"
    using assms
    by (auto simp: load_segment_def Let_def split: prod.splits option.splits bool.splits expected.splits if_splits
        dest!: kept_on_space kept_fault_pages kept_read_file intro: kept_trans)
  then show "kept k k'" and "r = Unexpected e \<Longrightarrow> e = - ENOEXEC \<or> e = - ENOMEM" by blast+
qed

lemma load_segments_facts:
  "load_segments P u v bias buf hdr n i mx k = (r, k') \<Longrightarrow>
     kept k k' \<and> (\<forall>e. r = Unexpected e \<longrightarrow> e = - ENOEXEC \<or> e = - ENOMEM)"
proof (induction n arbitrary: i mx k)
  case (Suc n)
  obtain r1 k1 where 1: "read_file P v buf 56 (e_phoff hdr + scast (ucast i * ucast (e_phentsize hdr) :: u32)) k = (r1, k1)"
    by fastforce
  note kr = kept_read_file [OF 1]
  obtain r2 k2 where 2: "load_segment P u v bias (get_phdr (kmem_of k1) buf) k1 = (r2, k2)" by fastforce
  note ls = load_segment_facts [OF 2]
  have k2: "kept k k2" using kr ls(1) kept_trans by blast
  show ?case
    using Suc.prems 1 2 kr k2 ls(2) kept_trans [OF kr] kept_trans [OF k2]
    by (cases r1; cases r2) (auto simp: Let_def split: if_splits dest!: Suc.IH)
qed auto

lemma load_body_facts:
  assumes "load_body P u v bias buf hdr k = (r, k')"
  shows "kept k k'" and "r = Unexpected e \<Longrightarrow> e = - ENOEXEC \<or> e = - ENOMEM"
    and "r = Value res \<Longrightarrow> entry_point res = e_entry hdr + bias \<and> (\<exists>mx. heap_base res = page_up mx)"
proof -
  obtain r1 k1 where 1: "load_segments P u v bias buf hdr (unat (e_phnum hdr)) 0 0 k = (r1, k1)" by fastforce
  note f = load_segments_facts [OF 1]
  obtain o2 k2 where 2: "on_space u (as_MapAnonymous P (user_top P - kStackBytes - 0x1000) kStackBytes UserReadWrite
      {FlagPrivate, FlagAnonymous}) k1 = (o2, k2)" by fastforce
  have k2: "kept k k2" using f kept_on_space [OF 2] kept_trans by blast
  have k3: "kept k (snd (on_space u (as_WriteFault P w) k2))" for w
    by (rule kept_trans [OF k2 kept_on_space [OF prod.collapse [symmetric]]])
  show "kept k k'" "r = Unexpected e \<Longrightarrow> e = - ENOEXEC \<or> e = - ENOMEM"
    "r = Value res \<Longrightarrow> entry_point res = e_entry hdr + bias \<and> (\<exists>mx. heap_base res = page_up mx)"
    using assms 1 2 f k2 k3
    by (auto simp: load_body_def Let_def split: expected.splits option.splits)
qed

lemma page_up_aligned: "page_up w AND 0xFFF = 0"
  unfolding page_up_def by (simp add: and.assoc)

lemma sch_WriteCr3 [simp]: "sch (WriteCr3 c k) = (sch k)\<lparr>cr3 := c\<rparr>"
  by (simp add: WriteCr3_def show_view_def Let_def)

lemma WriteCr3_access [simp]:
  "procs (WriteCr3 c k) = procs k" "files (io (WriteCr3 c k)) = files (io k)" "kstacks (WriteCr3 c k) = kstacks k"
  "spaces (WriteCr3 c k) = spaces k"
  by (simp_all add: WriteCr3_def show_view_def Let_def)

text \<open>Work done under another page table does not reach the user half of this one.\<close>

lemma WriteCr3_back:
  assumes "kept (WriteCr3 c k) k'" and "c \<noteq> cr3 (sch k)" and "user_half a"
  shows "kmem_of (WriteCr3 (cr3 (sch k)) k') a = kmem_of k a"
proof -
  have "views k' (cr3 (sch k)) = kmem_of k" and "cr3 (sch k') = c"
    using assms(1) by (simp_all add: kept_def WriteCr3_def show_view_def Let_def set_mem_def kmem_of_def)
  then show ?thesis using assms(2,3) by (simp add: WriteCr3_def show_view_def Let_def)
qed

lemma Load_cases:
  assumes "Load P buf p v bias k = (r, k')" and "r \<noteq> Bug"
  obtains e where "r = Unexpected e" and "e = - ENOEXEC" and "kept k k'" and
      "k' = k \<or> k' = snd (read_file P v buf 64 0 k)"
  | k1 hdr b pr sp k2 where "read_file P v buf 64 0 k = (Value 64, k1)" and "hdr = get_ehdr (kmem_of k1) buf"
      and "take 4 (e_ident hdr) = [0x7F, 0x45, 0x4C, 0x46]" and "bias_for (e_type hdr) bias = Some b"
      and "procs k p = Some pr" and "spaces k1 (m_address_space pr) = Some sp"
      and "load_body P (m_address_space pr) v b buf hdr (WriteCr3 (root_pa sp) k1) = (r, k2)"
      and "k' = WriteCr3 (cr3 (sch k1)) k2"
proof -
  obtain pr vn where o: "procs k p = Some pr" "vnodes (fs (io k)) v = Some vn"
    using assms by (cases "procs k p"; cases "vnodes (fs (io k)) v") (auto simp: Load_def)
  obtain r1 k1 where rd: "read_file P v buf 64 0 k = (r1, k1)" by fastforce
  note kr = kept_read_file [OF rd]
  have ld: "Load P buf p v bias k = (r, k')" by (rule assms(1))
  consider "ops vn = None" | "ops vn \<noteq> None" "r1 \<noteq> Value 64" | "ops vn \<noteq> None" "r1 = Value 64" by blast
  then show thesis
  proof cases
    case 1
    then show ?thesis using ld o that(1) by (simp add: Load_def)
  next
    case 2
    then show ?thesis using ld o rd assms(2) kr that(1) by (cases r1) (auto simp: Load_def)
  next
    case 3
    let ?h = "get_ehdr (kmem_of k1) buf"
    show ?thesis
    proof (cases "take 4 (e_ident ?h) = [0x7F, 0x45, 0x4C, 0x46] \<and> bias_for (e_type ?h) bias \<noteq> None")
      case False
      then show ?thesis using ld o rd 3 kr that(1) by (auto simp: Load_def Let_def split: if_splits option.splits)
    next
      case True
      then obtain b where b: "bias_for (e_type ?h) bias = Some b" by blast
      obtain sp where sp: "spaces k1 (m_address_space pr) = Some sp"
        using ld o rd 3 True b assms(2) by (cases "spaces k1 (m_address_space pr)") (auto simp: Load_def Let_def)
      obtain r2 k2 where lb: "load_body P (m_address_space pr) v b buf ?h (WriteCr3 (root_pa sp) k1) = (r2, k2)" by fastforce
      have "r2 = r \<and> k' = WriteCr3 (cr3 (sch k1)) k2"
        using ld o rd 3 True b sp lb assms(2) by (cases r2) (auto simp: Load_def Let_def)
      then show ?thesis using that(2) [OF _ refl _ b o(1) sp] rd 3 True lb by simp
    qed
  qed
qed

lemma Load_frame:
  assumes "Load P buf p v bias k = (r, k')" and "r \<noteq> Bug"
  shows "sch k' = sch k" and "procs k' = procs k" and "files (io k') = files (io k)"
proof -
  have "sch k' = sch k \<and> procs k' = procs k \<and> files (io k') = files (io k)"
    using assms
  proof (cases rule: Load_cases)
    case (2 k1 hdr b pr sp k2)
    show ?thesis
      unfolding 2(8) using kept_read_file [OF 2(1)] load_body_facts(1) [OF 2(7)] by (simp add: kept_def)
  qed (simp add: kept_def)
  then show "sch k' = sch k" "procs k' = procs k" "files (io k') = files (io k)" by blast+
qed

text \<open>
  C32: Loading an executable ends, when it returns, with the page table register, the scheduler, the
  processes and the open files as they were. A failure is \<open>ENOEXEC\<close> or \<open>ENOMEM\<close>. A success means that the
  file starts with the ELF magic and is of type 2 or 3, and gives the header's entry point (plus the
  load bias for type 3) and a page aligned heap start. When the caller runs on another page table
  than the process, the caller's user memory is unchanged from the moment the header has been read:
  the segments are written to the process only.
\<close>

theorem Load_isolated:
  assumes "Load P buf p v bias k = (r, k')" and "r \<noteq> Bug"
  shows "sch k' = sch k \<and> procs k' = procs k \<and> files (io k') = files (io k) \<and>
     (\<forall>e. r = Unexpected e \<longrightarrow> e = - ENOEXEC \<or> e = - ENOMEM) \<and>
     (\<forall>res. r = Value res \<longrightarrow> (\<exists>k1 b. read_file P v buf 64 0 k = (Value 64, k1) \<and>
        (let hdr = get_ehdr (kmem_of k1) buf in
           take 4 (e_ident hdr) = [0x7F, 0x45, 0x4C, 0x46] \<and> bias_for (e_type hdr) bias = Some b \<and>
           entry_point res = e_entry hdr + b) \<and> heap_base res AND 0xFFF = 0)) \<and>
     (\<forall>pr sp a. procs k p = Some pr \<and> spaces k (m_address_space pr) = Some sp \<and> root_pa sp \<noteq> cr3 (sch k) \<and>
        user_half a \<longrightarrow> kmem_of k' a = kmem_of k a \<or> kmem_of k' a = kmem_of (snd (read_file P v buf 64 0 k)) a)"
  using assms
proof (cases rule: Load_cases)
  case (1 e)
  then show ?thesis by (auto simp: kept_def)
next
  case (2 k1 hdr b pr sp k2)
  note kr = kept_read_file [OF 2(1)]
  note lb = load_body_facts [OF 2(7)]
  have k1: "sch k1 = sch k" using kr by (simp add: kept_def)
  have st: "sch k' = sch k \<and> procs k' = procs k \<and> files (io k') = files (io k)" using Load_frame [OF assms] by blast
  have mem: "kmem_of k' a = kmem_of k1 a" if "root_pa sp \<noteq> cr3 (sch k)" "user_half a" for a
    unfolding 2(8) using WriteCr3_back [OF lb(1)] that k1 by simp
  have val: "\<exists>k1 b. read_file P v buf 64 0 k = (Value 64, k1) \<and>
        (let hdr = get_ehdr (kmem_of k1) buf in
           take 4 (e_ident hdr) = [0x7F, 0x45, 0x4C, 0x46] \<and> bias_for (e_type hdr) bias = Some b \<and>
           entry_point res = e_entry hdr + b) \<and> heap_base res AND 0xFFF = 0" if "r = Value res" for res
  proof (intro exI conjI)
    show "read_file P v buf 64 0 k = (Value 64, k1)" by (rule 2(1))
    show "let hdr = get_ehdr (kmem_of k1) buf in take 4 (e_ident hdr) = [0x7F, 0x45, 0x4C, 0x46] \<and>
        bias_for (e_type hdr) bias = Some b \<and> entry_point res = e_entry hdr + b"
      unfolding Let_def 2(2) [symmetric] using 2(3,4) lb(3) [OF that] by simp
    show "heap_base res AND 0xFFF = 0" using lb(3) [OF that] page_up_aligned by metis
  qed
  have err: "e = - ENOEXEC \<or> e = - ENOMEM" if "r = Unexpected e" for e by (rule lb(2) [OF that])
  show ?thesis using st err val mem 2(1,5,6) spaces_read_file [OF 2(1)] by (intro conjI allI impI) auto
qed

text \<open>A kernel whose file 1 is an ELF header of type 3 with entry point 0x10, no program header, on the page at
  the start of the direct map.\<close>

definition ex_elf_bytes :: "u8 list" where
  "ex_elf_bytes = [0x7F, 0x45, 0x4C, 0x46] @ replicate 12 0 @ [3, 0] @ replicate 6 0 @ [0x10] @ replicate 39 0"

definition ex_elf_kernel :: "((u64 \<times> u64) list, u8 list, nat, (u64 \<times> u64) list) kernel" where
  "ex_elf_kernel = ex_kernel\<lparr>io := ex_filesys\<lparr>fs := ex_fsys\<lparr>memory := write_bytes (\<lambda>_. 0) 0x10000000 ex_elf_bytes,
     vnodes := [1 \<mapsto> (RamFsNode_new ex_fk Regular (Literal ''f''))\<lparr>v_size := 64, vmo := Some [(0, 0)]\<rparr>]\<rparr>\<rparr>\<rparr>"

lemma ex_elf_read:
  "\<exists>k1. read_file ex_plat 1 0x5000 64 0 ex_elf_kernel = (Value 64, k1) \<and> read_bytes (kmem_of k1) 0x5000 64 = ex_elf_bytes \<and>
     spaces k1 = spaces ex_kernel \<and> sch k1 = sch ex_kernel"
proof -
  have len: "length ex_elf_bytes = 64" by (simp add: ex_elf_bytes_def)
  have rb: "read_bytes (write_bytes (\<lambda>_. 0) 0x10000000 ex_elf_bytes) 0x10000000 64 = ex_elf_bytes"
    using read_write_same [of ex_elf_bytes] len by simp
  let ?m = "write_bytes (\<lambda>_. 0) 0x10000000 ex_elf_bytes"
  have loop: "ramfs_Read_loop ex_fk [(0, 0)] 0x5000 0 64 0 ?m = (64, write_bytes ?m 0x5000 ex_elf_bytes)"
    by (subst ramfs_Read_loop.simps) (simp add: to_copy_def Let_def ex_fk_def MemoryCopy_def rb kPageSize_def ramfs_Read_loop.simps)
  have "RamFs_Read ex_fk 1 0x5000 64 0 (fs (io ex_elf_kernel)) =
      (Value 64, (fs (io ex_elf_kernel))\<lparr>memory := write_bytes ?m 0x5000 ex_elf_bytes\<rparr>)"
    using loop by (simp add: RamFs_Read_def ex_elf_kernel_def RamFsNode_new_def Vnode_new_def Let_def)
  then show ?thesis
    using read_write_same [of ex_elf_bytes] len
    by (simp add: read_file_def vnode_Read_def ex_elf_kernel_def RamFsNode_new_def Vnode_new_def ex_plat_def set_fs_def kmem_of_def)
qed

lemma ex_elf_hdr:
  assumes "read_bytes m a 64 = ex_elf_bytes"
  shows "take 4 (e_ident (get_ehdr m a)) = [0x7F, 0x45, 0x4C, 0x46]" "e_type (get_ehdr m a) = 3"
    "e_phnum (get_ehdr m a) = 0" "e_entry (get_ehdr m a) = 0x10"
proof -
  have sub: "read_bytes m (a + of_nat i) n = take n (drop i ex_elf_bytes)" if "i + n \<le> 64" for i n
    using read_bytes_sub [of i n 64 m a] that assms by simp
  have "read_bytes m a 16 = take 16 ex_elf_bytes" "read_bytes m (a + 16) 2 = [3, 0]" "read_bytes m (a + 56) 2 = [0, 0]"
    "read_bytes m (a + 24) 8 = [0x10, 0, 0, 0, 0, 0, 0, 0]"
    using sub [of 0 16] sub [of 16 2] sub [of 56 2] sub [of 24 8]
    by (simp_all add: ex_elf_bytes_def numeral_eq_Suc)
  then show "take 4 (e_ident (get_ehdr m a)) = [0x7F, 0x45, 0x4C, 0x46]" "e_type (get_ehdr m a) = 3"
    "e_phnum (get_ehdr m a) = 0" "e_entry (get_ehdr m a) = 0x10"
    by (simp_all add: get_ehdr_def load16_def load64_def ex_elf_bytes_def)
qed

lemma ex_elf_load: "\<exists>res k'. Load ex_plat 0x5000 0x600 1 0 ex_elf_kernel = (Value res, k')"
proof -
  obtain k1 where k1: "read_file ex_plat 1 0x5000 64 0 ex_elf_kernel = (Value 64, k1)"
    "read_bytes (kmem_of k1) 0x5000 64 = ex_elf_bytes" "spaces k1 = spaces ex_kernel"
    using ex_elf_read by blast
  note h = ex_elf_hdr [OF k1(2)]
  have p: "\<exists>pr. procs ex_elf_kernel 0x600 = Some pr \<and> m_address_space pr = 0x610"
    by (simp add: ex_elf_kernel_def ex_kernel_def Process_new_def)
  have v: "\<exists>vn. vnodes (fs (io ex_elf_kernel)) 1 = Some vn \<and> ops vn = Some RamFsOps"
    by (simp add: ex_elf_kernel_def RamFsNode_new_def Vnode_new_def)
  have sp: "\<exists>sp. spaces k1 0x610 = Some sp" unfolding k1(3) by (simp add: ex_kernel_def)
  have map: "as_MapAnonymous ex_plat a n p f (s, m, l) = (Some a, (a, n) # s, m, l)" for a n p f s m l
    by (simp add: ex_plat_def)
  from p v sp show ?thesis
    by (auto simp: Load_def k1(1) h Let_def bias_for_def load_body_def on_space_def map split: prod.splits)
qed

theorem Load_isolated_witness:
  "\<exists>res k'. Load ex_plat 0x5000 0x600 1 0 ex_elf_kernel = (Value res, k') \<and>
     sch k' = sch ex_elf_kernel \<and> heap_base res AND 0xFFF = 0"
proof -
  obtain res k' where l: "Load ex_plat 0x5000 0x600 1 0 ex_elf_kernel = (Value res, k')"
    using ex_elf_load by (elim exE)
  note t = Load_isolated [OF l]
  have "sch k' = sch ex_elf_kernel" "heap_base res AND 0xFFF = 0" using t by auto
  with l show ?thesis by (intro exI conjI)
qed

end
