(* ===== verification/SysProc.thy ===== *)
theory SysProc
  imports SysFiles Signals Elf
begin

text \<open>
  The system calls on memory, processes, signals, time and threads (\<open>Syscall::Dispatch\<close> in
  \<open>arch/x86_64/cpu/SyscallDispatch.cpp\<close>, one definition per \<open>case\<close>). The conventions are those of the file system calls.

  A handler that blocks is split where it blocks: \<open>waitpid_tail\<close> is the rest of \<open>waitpid\<close> after the child woke it, and
  \<open>nanosleep_loop\<close> one round of the waiting loop.
\<close>

section \<open>Memory\<close>

definition on_proc_space ::
  "addr \<Rightarrow> ('a \<times> mem \<times> 'k \<Rightarrow> 'b \<times> 'a \<times> mem \<times> 'k) \<Rightarrow> ('v, 'r, 'k, 'a) kernel \<Rightarrow> 'b option \<times> ('v, 'r, 'k, 'a) kernel" where
  "on_proc_space p f k = (case procs k p of None \<Rightarrow> (None, k) | Some pr \<Rightarrow> on_space (m_address_space pr) f k)"

definition vma_prot :: "u64 \<Rightarrow> VmaProt set" where
  "vma_prot prot =
     {ProtUser} \<union> (if prot AND 1 \<noteq> 0 then {ProtRead} else {}) \<union> (if prot AND 2 \<noteq> 0 then {ProtWrite} else {}) \<union>
     (if prot AND 4 \<noteq> 0 then {ProtExecute} else {})"

definition vma_flags :: "u64 \<Rightarrow> VmaFlags set" where
  "vma_flags flags =
     (if flags AND 1 \<noteq> 0 then {FlagShared} else {}) \<union> (if flags AND 2 \<noteq> 0 then {FlagPrivate} else {}) \<union>
     (if flags AND 0x10 \<noteq> 0 then {FlagFixed} else {}) \<union> (if flags AND 0x20 \<noteq> 0 then {FlagAnonymous} else {})"

definition sys_mmap :: "('v, 'r, 'k, 'a) plat \<Rightarrow> addr \<Rightarrow> InterruptFrame \<Rightarrow> ('v, 'r, 'k, 'a) kernel \<Rightarrow> sysret \<times> ('v, 'r, 'k, 'a) kernel" where
  "sys_mmap P p regs k =
     (if rsi regs = 0 then (Ret (err (- EINVAL)), k)
      else if FlagAnonymous \<notin> vma_flags (r10 regs) then (Ret (err (- ENODEV)), k)
      else
        (case on_proc_space p (as_MapAnonymous P (rdi regs) (page_up (rsi regs)) (vma_prot (rdx regs)) (vma_flags (r10 regs))) k of
           (Some (Some va), k) \<Rightarrow> (Ret va, k)
         | (Some None, k) \<Rightarrow> (Ret (err (- ENOMEM)), k)
         | (None, k) \<Rightarrow> (Crash, k)))"

definition sys_munmap :: "('v, 'r, 'k, 'a) plat \<Rightarrow> addr \<Rightarrow> InterruptFrame \<Rightarrow> ('v, 'r, 'k, 'a) kernel \<Rightarrow> sysret \<times> ('v, 'r, 'k, 'a) kernel" where
  "sys_munmap P p regs k =
     (if rsi regs = 0 \<or> rdi regs AND 0xFFF \<noteq> 0 then (Ret (err (- EINVAL)), k)
      else
        (case on_proc_space p (as_Unmap P (rdi regs) (page_up (rsi regs))) k of
           (Some ok, k) \<Rightarrow> (Ret (if ok then 0 else err (- EINVAL)), k)
         | (None, k) \<Rightarrow> (Crash, k)))"

definition sys_mprotect :: "('v, 'r, 'k, 'a) plat \<Rightarrow> addr \<Rightarrow> InterruptFrame \<Rightarrow> ('v, 'r, 'k, 'a) kernel \<Rightarrow> sysret \<times> ('v, 'r, 'k, 'a) kernel" where
  "sys_mprotect P p regs k =
     (if rsi regs = 0 \<or> rdi regs AND 0xFFF \<noteq> 0 then (Ret (err (- EINVAL)), k)
      else
        (case on_proc_space p (as_Protect P (rdi regs) (page_up (rsi regs)) (vma_prot (rdx regs))) k of
           (Some ok, k) \<Rightarrow> (Ret (if ok then 0 else err (- EINVAL)), k)
         | (None, k) \<Rightarrow> (Crash, k)))"

text \<open>The mapping work of \<open>brk\<close>: \<open>Some True\<close> when the break may move, \<open>Some False\<close> when pages could not be mapped.\<close>

definition brk_pages ::
  "('v, 'r, 'k, 'a) plat \<Rightarrow> addr \<Rightarrow> u64 \<Rightarrow> u64 \<Rightarrow> ('v, 'r, 'k, 'a) kernel \<Rightarrow> bool option \<times> ('v, 'r, 'k, 'a) kernel" where
  "brk_pages P p current_brk new_brk k =
     (let aligned_current = page_up current_brk; aligned_new = page_up new_brk in
      if new_brk > current_brk then
        (if aligned_new > aligned_current then
           apfst (map_option (\<lambda>r. r \<noteq> None))
             (on_proc_space p (as_MapAnonymous P aligned_current (aligned_new - aligned_current) UserReadWrite
                {FlagPrivate, FlagAnonymous, FlagFixed}) k)
         else (Some True, k))
      else if new_brk < current_brk then
        (if aligned_new < aligned_current then
           apfst (map_option (\<lambda>_. True)) (on_proc_space p (as_Unmap P aligned_new (aligned_current - aligned_new)) k)
         else (Some True, k))
      else (Some True, k))"

definition sys_brk :: "('v, 'r, 'k, 'a) plat \<Rightarrow> addr \<Rightarrow> InterruptFrame \<Rightarrow> ('v, 'r, 'k, 'a) kernel \<Rightarrow> sysret \<times> ('v, 'r, 'k, 'a) kernel" where
  "sys_brk P p regs k =
     (case procs k p of
        None \<Rightarrow> (Crash, k)
      | Some pr \<Rightarrow>
          (let new_brk = rdi regs; current_brk = m_heap_end pr; heap_start = m_heap_start pr in
           if new_brk = 0 \<or> new_brk < heap_start then (Ret current_brk, k)
           else
             (case brk_pages P p current_brk new_brk k of
                (None, k) \<Rightarrow> (Crash, k)
              | (Some False, k) \<Rightarrow> (Ret current_brk, k)
              | (Some True, k) \<Rightarrow>
                  (Ret new_brk, upd_proc p (\<lambda>pr. pr\<lparr>m_heap_start := heap_start, m_heap_end := new_brk\<rparr>) k))))"

section \<open>Programs\<close>

text \<open>\<open>execve\<close>: the frame is changed on success only.\<close>

definition sys_execve ::
  "('v, 'r, 'k, 'a) plat \<Rightarrow> addr \<Rightarrow> addr \<Rightarrow> InterruptFrame \<Rightarrow> ('v, 'r, 'k, 'a) kernel \<Rightarrow> sysret \<times> InterruptFrame \<times> ('v, 'r, 'k, 'a) kernel" where
  "sys_execve P buf p regs k =
     (case (user_path p (rdi regs) k, procs k p) of
        (Unexpected e, _) \<Rightarrow> (Ret (err e), regs, k)
      | (Value vn, Some pr) \<Rightarrow>
          (case UserAddressSpace_Create P k of
             (Bug, k) \<Rightarrow> (Crash, regs, k)
           | (Unexpected _, k) \<Rightarrow> (Ret (err (- ENOMEM)), regs, k)
           | (Value new_uas, k) \<Rightarrow>
               (let old_uas = m_address_space pr;
                    k = upd_proc p (\<lambda>pr. pr\<lparr>m_address_space := new_uas\<rparr>) k;
                    prev_cr3 = cr3 (sch k)
                in case spaces k new_uas of
                     None \<Rightarrow> (Crash, regs, k)
                   | Some sp \<Rightarrow>
                       (case Load P buf p vn 0 (WriteCr3 (root_pa sp) k) of
                          (Bug, k) \<Rightarrow> (Crash, regs, k)
                        | (Unexpected e, k) \<Rightarrow>
                            (let k = upd_proc p (\<lambda>pr. pr\<lparr>m_address_space := old_uas\<rparr>) k;
                                 k = WriteCr3 prev_cr3 k
                             in (Ret (err e), regs, UserAddressSpace_Destroy P new_uas k))
                        | (Value res, k) \<Rightarrow>
                            (let k = upd_proc p (\<lambda>pr. pr\<lparr>m_heap_start := heap_base res, m_heap_end := heap_base res\<rparr>) k;
                                 k = UserAddressSpace_Destroy P old_uas k
                             in (Ret 0, regs\<lparr>rip := entry_point res, rsp := stack_top res\<rparr>, k)))))
      | _ \<Rightarrow> (Crash, regs, k))"

section \<open>Process tree\<close>

definition sys_getpid :: "addr option \<Rightarrow> ('v, 'r, 'k, 'a) kernel \<Rightarrow> sysret \<times> ('v, 'r, 'k, 'a) kernel" where
  "sys_getpid p k =
     (case p of
        None \<Rightarrow> (Ret 0, k)
      | Some p \<Rightarrow> (case procs k p of None \<Rightarrow> (Crash, k) | Some pr \<Rightarrow> (Ret (m_pid pr), k)))"

definition sys_getppid :: "addr option \<Rightarrow> ('v, 'r, 'k, 'a) kernel \<Rightarrow> sysret \<times> ('v, 'r, 'k, 'a) kernel" where
  "sys_getppid p k =
     (case p of
        None \<Rightarrow> (Ret 0, k)
      | Some p \<Rightarrow> (case procs k p of None \<Rightarrow> (Crash, k) | Some pr \<Rightarrow> sys_getpid (m_parent pr) k))"

definition sys_fork :: "('v, 'r, 'k, 'a) plat \<Rightarrow> addr \<Rightarrow> InterruptFrame \<Rightarrow> ('v, 'r, 'k, 'a) kernel \<Rightarrow> sysret \<times> ('v, 'r, 'k, 'a) kernel" where
  "sys_fork P p regs k =
     (case Process_Fork P p regs k of
        (Value c, k) \<Rightarrow> (case procs k c of None \<Rightarrow> (Crash, k) | Some ch \<Rightarrow> (Ret (m_pid ch), k))
      | (Unexpected e, k) \<Rightarrow> (Ret (err e), k)
      | (Bug, k) \<Rightarrow> (Crash, k))"

text \<open>\<open>exit\<close> and \<open>exit_group\<close>: the process becomes a zombie, the thread ends.\<close>

definition sys_exit ::
  "('v, 'r, 'k, 'a) plat \<Rightarrow> addr option \<Rightarrow> addr option \<Rightarrow> InterruptFrame \<Rightarrow> ('v, 'r, 'k, 'a) kernel \<Rightarrow> sysret \<times> ('v, 'r, 'k, 'a) kernel" where
  "sys_exit P t p regs k =
     (let status = ucast (rdi regs);
          k = (case p of Some p \<Rightarrow> Process_Exit p status k | None \<Rightarrow> k)
      in case t of
           None \<Rightarrow> (Ret 0, k)
         | Some t \<Rightarrow> (case end_thread P t k of (Value _, k) \<Rightarrow> (Gone, k) | (_, k) \<Rightarrow> (Crash, k)))"

text \<open>The end of \<open>waitpid\<close>: status, unlinking and reaping. The status is a C \<open>int\<close> at \<open>wstatus\<close>.\<close>

definition waitpid_tail ::
  "('v, 'r, 'k, 'a) plat \<Rightarrow> addr \<Rightarrow> addr \<Rightarrow> addr \<Rightarrow> ('v, 'r, 'k, 'a) kernel \<Rightarrow> sysret \<times> ('v, 'r, 'k, 'a) kernel" where
  "waitpid_tail P p c wstatus k =
     (case procs k c of
        None \<Rightarrow> (Crash, k)
      | Some ch \<Rightarrow>
          if m_proc_state ch \<noteq> ProcZombie then (Ret (err (- ECHILD)), k)
          else
            (let k = (if wstatus \<noteq> 0 then set_mem (store32 (kmem_of k) wstatus (push_bit 8 (m_exit_status ch AND 0xFF))) k
                      else k)
             in case RemoveChild p c k of
                  Value k \<Rightarrow> (Ret (m_pid ch), Process_Reap P c k)
                | _ \<Rightarrow> (Crash, k)))"

definition sys_waitpid :: "('v, 'r, 'k, 'a) plat \<Rightarrow> addr \<Rightarrow> InterruptFrame \<Rightarrow> ('v, 'r, 'k, 'a) kernel \<Rightarrow> sysret \<times> ('v, 'r, 'k, 'a) kernel" where
  "sys_waitpid P p regs k =
     (let wpid = sint (rdi regs); search_pid = (if wpid \<le> 0 then 0 else rdi regs) in
      case FindChild p search_pid k of
        None \<Rightarrow> (Ret (err (- ECHILD)), k)
      | Some c \<Rightarrow>
          (case procs k c of
             None \<Rightarrow> (Crash, k)
           | Some ch \<Rightarrow>
               if m_proc_state ch \<noteq> ProcZombie then
                 (if (ucast (rdx regs) :: u32) AND 1 \<noteq> 0 then (Ret 0, k)
                  else (WaitChild c, run_sched (Block (root_of_proc P k) c) k))
               else waitpid_tail P p c (rsi regs) k))"

section \<open>Signals\<close>

text \<open>The structure of 40 bytes in user memory, field by field; the padding before the last field is not touched.\<close>

definition get_sigaction :: "mem \<Rightarrow> addr \<Rightarrow> sigaction" where
  "get_sigaction m a =
     \<lparr>sa_handler = load64 m a, sa_sigaction = load64 m (a + 8), sa_mask = load64 m (a + 16), sa_flags = load32 m (a + 24),
      sa_restorer = load64 m (a + 32)\<rparr>"

definition put_sigaction :: "mem \<Rightarrow> addr \<Rightarrow> sigaction \<Rightarrow> mem" where
  "put_sigaction m a act =
     store64 (store32 (store64 (store64 (store64 m a (sa_handler act)) (a + 8) (sa_sigaction act)) (a + 16) (sa_mask act))
       (a + 24) (sa_flags act)) (a + 32) (sa_restorer act)"

definition sys_rt_sigaction :: "addr option \<Rightarrow> InterruptFrame \<Rightarrow> ('v, 'r, 'k, 'a) kernel \<Rightarrow> sysret \<times> ('v, 'r, 'k, 'a) kernel" where
  "sys_rt_sigaction p regs k =
     (let sig = cint (rdi regs); act = rsi regs; oact = rdx regs in
      if sig < 1 \<or> sig \<ge> int NSIG \<or> sig = int SIGKILL \<or> sig = int SIGSTOP then (Ret (err (- EINVAL)), k)
      else
        (case Option.bind p (procs k) of
           None \<Rightarrow> if oact \<noteq> 0 \<or> act \<noteq> 0 then (Crash, k) else (Ret 0, k)
         | Some pr \<Rightarrow>
             (let k = (if oact \<noteq> 0 then set_mem (put_sigaction (kmem_of k) oact (GetSignalAction pr sig)) k else k);
                  k = (if act \<noteq> 0
                       then upd_proc (the p) (\<lambda>pr. pr\<lparr>m_signal_actions :=
                              (m_signal_actions pr)[nat sig - 1 := get_sigaction (kmem_of k) act]\<rparr>) k
                       else k)
              in (Ret 0, k))))"

definition unblockable :: u64 where
  "unblockable = sig_bit SIGKILL OR sig_bit SIGSTOP"

definition new_mask :: "int \<Rightarrow> u64 \<Rightarrow> u64 \<Rightarrow> u64 option" where
  "new_mask how val old =
     (if how = 0 then Some (old OR val) else if how = 1 then Some (old AND NOT val) else if how = 2 then Some val else None)"

definition sys_rt_sigprocmask :: "addr option \<Rightarrow> InterruptFrame \<Rightarrow> ('v, 'r, 'k, 'a) kernel \<Rightarrow> sysret \<times> ('v, 'r, 'k, 'a) kernel" where
  "sys_rt_sigprocmask t regs k =
     (let how = cint (rdi regs); set = rsi regs; oset = rdx regs in
      case t of
        None \<Rightarrow> if oset \<noteq> 0 \<or> set \<noteq> 0 then (Crash, k) else (Ret 0, k)
      | Some t \<Rightarrow>
          (let old = m_blocked_signals (thr (sch k) t);
               k = (if oset \<noteq> 0 then set_mem (store64 (kmem_of k) oset old) k else k)
           in if set = 0 then (Ret 0, k)
              else
                (case new_mask how (load64 (kmem_of k) set AND NOT unblockable) old of
                   None \<Rightarrow> (Ret (err (- EINVAL)), k)
                 | Some w \<Rightarrow> (Ret 0, k\<lparr>sch := upd_thread t (\<lambda>th. th\<lparr>m_blocked_signals := w\<rparr>) (sch k)\<rparr>))))"

text \<open>\<open>tkill\<close> and \<open>tgkill\<close> send to the calling thread, whatever the thread id asked for.\<close>

definition sys_tkill :: "addr option \<Rightarrow> u64 \<Rightarrow> ('v, 'r, 'k, 'a) kernel \<Rightarrow> sysret \<times> ('v, 'r, 'k, 'a) kernel" where
  "sys_tkill t sig k =
     (if cint sig < 1 \<or> cint sig \<ge> int NSIG then (Ret (err (- EINVAL)), k) else (Ret 0, Signal_Send t (cint sig) k))"

section \<open>Time\<close>

definition put_time :: "addr \<Rightarrow> u64 \<Rightarrow> u64 \<Rightarrow> ('v, 'r, 'k, 'a) kernel \<Rightarrow> ('v, 'r, 'k, 'a) kernel" where
  "put_time a sec frac k = set_mem (store64 (store64 (kmem_of k) a sec) (a + 8) frac) k"

definition sys_clock_gettime :: "('v, 'r, 'k, 'a) plat \<Rightarrow> InterruptFrame \<Rightarrow> ('v, 'r, 'k, 'a) kernel \<Rightarrow> sysret \<times> ('v, 'r, 'k, 'a) kernel" where
  "sys_clock_gettime P regs k =
     (if rsi regs = 0 then (Ret (err (- EFAULT)), k)
      else
        (case (if cint (rdi regs) = 0 then NowWallClock P else NowNanoseconds P) (kmm_of k) of
           (ns, l) \<Rightarrow> (Ret 0, put_time (rsi regs) (ns div 1000000000) (ns mod 1000000000) (set_kmm l k))))"

definition sys_gettimeofday :: "('v, 'r, 'k, 'a) plat \<Rightarrow> InterruptFrame \<Rightarrow> ('v, 'r, 'k, 'a) kernel \<Rightarrow> sysret \<times> ('v, 'r, 'k, 'a) kernel" where
  "sys_gettimeofday P regs k =
     (if rdi regs = 0 then (Ret 0, k)
      else
        (case NowNanoseconds P (kmm_of k) of
           (ns, l) \<Rightarrow> (Ret 0, put_time (rdi regs) (ns div 1000000000) (ns mod 1000000000 div 1000) (set_kmm l k))))"

definition nanosleep_loop :: "('v, 'r, 'k, 'a) plat \<Rightarrow> u64 \<Rightarrow> ('v, 'r, 'k, 'a) kernel \<Rightarrow> sysret \<times> ('v, 'r, 'k, 'a) kernel" where
  "nanosleep_loop P deadline k =
     (case NowNanoseconds P (kmm_of k) of
        (now, l) \<Rightarrow>
          (let k = set_kmm l k in
           if now < deadline then (Sleep deadline, run_sched (Yield (root_of_proc P k)) k) else (Ret 0, k)))"

definition sys_nanosleep :: "('v, 'r, 'k, 'a) plat \<Rightarrow> InterruptFrame \<Rightarrow> ('v, 'r, 'k, 'a) kernel \<Rightarrow> sysret \<times> ('v, 'r, 'k, 'a) kernel" where
  "sys_nanosleep P regs k =
     (if rdi regs = 0 then (Ret (err (- EFAULT)), k)
      else
        (let sleep_ns = load64 (kmem_of k) (rdi regs) * 1000000000 + load64 (kmem_of k) (rdi regs + 8) in
         case NowNanoseconds P (kmm_of k) of
           (now, l) \<Rightarrow> nanosleep_loop P (now + sleep_ns) (set_kmm l k)))"

section \<open>Threads and the machine\<close>

definition sys_clone :: "('v, 'r, 'k, 'a) plat \<Rightarrow> addr \<Rightarrow> InterruptFrame \<Rightarrow> ('v, 'r, 'k, 'a) kernel \<Rightarrow> sysret \<times> ('v, 'r, 'k, 'a) kernel" where
  "sys_clone P p regs k =
     (if rdi regs AND 0x100 = 0 then sys_fork P p regs k
      else
        (case new_thread P p k of
           (Value (Some (t, th)), k) \<Rightarrow>
             (let (th, m) = InitializeUserStack (UserspaceTrampoline P) (rdx regs) (rsi regs) th (kstacks k);
                  (r, k) = start_thread t (SetName (Some ''clone_thread'') th, m) k
              in (case r of Value _ \<Rightarrow> Ret (m_tid th) | _ \<Rightarrow> Crash, k))
         | (_, k) \<Rightarrow> (Crash, k)))"

definition sys_gettid :: "addr option \<Rightarrow> ('v, 'r, 'k, 'a) kernel \<Rightarrow> sysret \<times> ('v, 'r, 'k, 'a) kernel" where
  "sys_gettid t k = (case t of None \<Rightarrow> (Ret 0, k) | Some t \<Rightarrow> (Ret (m_tid (thr (sch k) t)), k))"

definition kMsrFsBase :: u32 where "kMsrFsBase = 0xC0000100"

definition kMsrGsBase :: u32 where "kMsrGsBase = 0xC0000101"

definition WriteMsr :: "u32 \<Rightarrow> u64 \<Rightarrow> ('v, 'r, 'k, 'a) kernel \<Rightarrow> ('v, 'r, 'k, 'a) kernel" where
  "WriteMsr r v k = k\<lparr>msrs := (msrs k)(r := v)\<rparr>"

definition sys_arch_prctl :: "InterruptFrame \<Rightarrow> ('v, 'r, 'k, 'a) kernel \<Rightarrow> sysret \<times> ('v, 'r, 'k, 'a) kernel" where
  "sys_arch_prctl regs k =
     (let code = cint (rdi regs) in
      if code = 0x1002 then (Ret 0, WriteMsr kMsrFsBase (rsi regs) k)
      else if code = 0x1003 then (Ret 0, set_mem (store64 (kmem_of k) (rsi regs) (msrs k kMsrFsBase)) k)
      else if code = 0x1001 then (Ret 0, WriteMsr kMsrGsBase (rsi regs) k)
      else (Ret (err (- EINVAL)), k))"

text \<open>The lambda \<open>copy_str\<close> of \<open>uname\<close>, with the room that is left.\<close>

fun copy_str :: "mem \<Rightarrow> addr \<Rightarrow> string \<Rightarrow> nat \<Rightarrow> mem" where
  "copy_str m dst [] room = m(dst := 0)"
| "copy_str m dst (c # str) room =
     (if room > 1 \<and> byte_of_char c \<noteq> 0 then copy_str (m(dst := byte_of_char c)) (dst + 1) str (room - 1) else m(dst := 0))"

definition sys_uname :: "InterruptFrame \<Rightarrow> ('v, 'r, 'k, 'a) kernel \<Rightarrow> sysret \<times> ('v, 'r, 'k, 'a) kernel" where
  "sys_uname regs k =
     (let uts = rdi regs in
      if uts = 0 then (Ret (err (- EFAULT)), k)
      else
        (let m = copy_str (kmem_of k) uts ''Linux'' 65;
             m = copy_str m (uts + 65) ''ceryx'' 65;
             m = copy_str m (uts + 130) ''6.1.0'' 65;
             m = copy_str m (uts + 195) ''#1 ceryx-kernel'' 65;
             m = copy_str m (uts + 260) ''x86_64'' 65;
             m = copy_str m (uts + 325) ''(none)'' 65
         in (Ret 0, set_mem m k)))"

section \<open>The program break\<close>

lemma on_proc_space_procs:
  "on_proc_space p f k = (b, k') \<Longrightarrow> procs k' = procs k \<and> sch k' = sch k \<and> files (io k') = files (io k)"
  by (auto simp: on_proc_space_def on_space_def split: option.splits prod.splits)

lemma brk_pages_frame:
  assumes "brk_pages P p cur new k = (b, k')"
  shows "procs k' = procs k" and "page_up new = 0 \<Longrightarrow> cur < new \<Longrightarrow> b = Some True \<and> k' = k"
proof -
  have "procs k' = procs k"
    using assms by (auto simp: brk_pages_def Let_def apfst_def map_prod_def split: if_splits prod.splits dest!: on_proc_space_procs)
  then show "procs k' = procs k" "page_up new = 0 \<Longrightarrow> cur < new \<Longrightarrow> b = Some True \<and> k' = k"
    using assms by (auto simp: brk_pages_def Let_def)
qed

text \<open>Rounding up wraps to 0 in the last page of the address space.\<close>

lemma page_up_top:
  assumes "w > 0xFFFFFFFFFFFFF000"
  shows "page_up w = 0"
proof -
  have "unat w > 0xFFFFFFFFFFFFF000" using assms by (simp add: word_less_nat_alt)
  then have "unat (w + 0xFFF) < 0xFFF"
    using unat_lt_2p [of w] by (simp add: unat_word_ariths mod_if) arith
  then have small: "w + 0xFFF < 0xFFF" by (simp add: word_less_nat_alt)
  have "drop_bit 12 (w + 0xFFF) = 0"
    by (rule word_unat_eq_iff [THEN iffD2]) (use small in \<open>simp add: unat_drop_bit word_less_nat_alt\<close>)
  moreover have "(0xFFF :: u64) = mask 12" by (simp add: mask_eq_exp_minus_1)
  ultimately show ?thesis
    unfolding page_up_def by (metis and_not_mask push_bit_of_0)
qed

text \<open>
  C33: \<open>brk\<close> returns the break of the process after the call, whether it moved or not. The start of the heap never
  changes and never passes the break, the break is either the old one or the requested one, and no other
  process is touched. A request of 0 or below the start of the heap changes nothing. A request in the last
  page of the address space is granted although nothing is mapped for it: rounding up wraps to 0.
\<close>

theorem brk_spec:
  assumes "procs k p = Some pr" and "m_heap_start pr \<le> m_heap_end pr" and "sys_brk P p regs k = (r, k')" and "r \<noteq> Crash"
  shows "\<exists>pr'. procs k' = (procs k)(p \<mapsto> pr') \<and> r = Ret (m_heap_end pr') \<and>
      (\<exists>b \<in> {m_heap_end pr, rdi regs}. pr' = pr\<lparr>m_heap_end := b\<rparr>) \<and> m_heap_start pr' \<le> m_heap_end pr' \<and>
      (rdi regs = 0 \<or> rdi regs < m_heap_start pr \<longrightarrow> k' = k) \<and>
      (rdi regs > 0xFFFFFFFFFFFFF000 \<and> m_heap_end pr < rdi regs \<longrightarrow> m_heap_end pr' = rdi regs \<and> spaces k' = spaces k)"
proof (cases "rdi regs = 0 \<or> rdi regs < m_heap_start pr")
  case True
  then have "r = Ret (m_heap_end pr)" "k' = k" using assms(1,3) by (auto simp: sys_brk_def Let_def)
  moreover have "\<not> (rdi regs > 0xFFFFFFFFFFFFF000 \<and> m_heap_end pr < rdi regs)" using True assms(2) by auto
  ultimately show ?thesis using assms(1,2) by (intro exI [of _ pr]) auto
next
  case False
  obtain b k1 where bp: "brk_pages P p (m_heap_end pr) (rdi regs) k = (b, k1)" by fastforce
  note fr = brk_pages_frame [OF bp]
  show ?thesis
  proof (cases "b = Some True")
    case True
    then have "r = Ret (rdi regs)" "k' = upd_proc p (\<lambda>pr'. pr'\<lparr>m_heap_start := m_heap_start pr, m_heap_end := rdi regs\<rparr>) k1"
      using assms(1,3) False bp by (auto simp: sys_brk_def Let_def)
    then show ?thesis
      using False assms(1) fr page_up_top [of "rdi regs"] by (intro exI [of _ "pr\<lparr>m_heap_end := rdi regs\<rparr>"]) (auto simp: fun_upd_def)
  next
    case no: False
    then have "b = Some False" "r = Ret (m_heap_end pr)" "k' = k1"
      using assms(1,3,4) False bp by (cases b; auto simp: sys_brk_def Let_def split: bool.splits)+
    moreover have "\<not> (rdi regs > 0xFFFFFFFFFFFFF000 \<and> m_heap_end pr < rdi regs)"
      using no fr(2) page_up_top [of "rdi regs"] by auto
    ultimately show ?thesis using False assms(1,2) fr(1) by (intro exI [of _ pr]) (auto simp: fun_upd_def)
  qed
qed

theorem brk_spec_witness:
  "\<exists>r k'. sys_brk ex_plat 0x500 (zero_frame\<lparr>rdi := 0x32000\<rparr>) ex_kernel = (r, k') \<and> r = Ret 0x32000 \<and>
     map_option m_heap_end (procs k' 0x500) = Some 0x32000"
proof -
  let ?pr = "(Process_new 1 0x510 2 2)\<lparr>m_fd_table := ex_table, m_children := [0x600], m_heap_start := 0x30000, m_heap_end := 0x30800\<rparr>"
  let ?regs = "zero_frame\<lparr>rdi := 0x32000\<rparr>"
  have pr: "procs ex_kernel 0x500 = Some ?pr" by (simp add: ex_kernel_def)
  obtain r k' where run: "sys_brk ex_plat 0x500 ?regs ex_kernel = (r, k')" by fastforce
  have r: "r = Ret 0x32000"
    using run pr by (auto simp: sys_brk_def brk_pages_def Let_def page_up_def on_proc_space_def on_space_def ex_kernel_def ex_plat_def Process_new_def)
  have "m_heap_start ?pr \<le> m_heap_end ?pr" by simp
  from brk_spec [OF pr this run] r have "map_option m_heap_end (procs k' 0x500) = Some 0x32000" by auto
  with run r show ?thesis by blast
qed

section \<open>Signal masks and actions\<close>

lemma bit_unblockable: "bit unblockable n \<longleftrightarrow> n = 8 \<or> n = 18"
  by (auto simp: unblockable_def bit_or_iff sig_bit_bit SIGKILL_def SIGSTOP_def)

lemma thr_upd_same [simp]: "threads s t = Some th \<Longrightarrow> thr (upd_thread t f s) t = f th"
  by (simp add: upd_thread_def thr_def)

text \<open>
  \<open>rt_sigprocmask\<close> gives back the old mask and installs the new one: the union, the difference or the set itself,
  with \<open>SIGKILL\<close> (bit 8) and \<open>SIGSTOP\<close> (bit 18) taken out of the set. So no call makes one of the two blocked. An unknown
  \<open>how\<close> is \<open>EINVAL\<close> and changes no mask; without a set only the old mask is reported.
\<close>

theorem sigprocmask_spec:
  assumes "threads (sch k) t = Some th" and "sys_rt_sigprocmask (Some t) regs k = (r, k')"
  shows "\<exists>th'. threads (sch k') t = Some th' \<and>
     (bit (m_blocked_signals th') 8 \<longrightarrow> bit (m_blocked_signals th) 8) \<and>
     (bit (m_blocked_signals th') 18 \<longrightarrow> bit (m_blocked_signals th) 18) \<and>
     (rdx regs \<noteq> 0 \<longrightarrow> load64 (kmem_of k') (rdx regs) = m_blocked_signals th) \<and>
     (rsi regs = 0 \<longrightarrow> r = Ret 0 \<and> th' = th) \<and>
     (rsi regs \<noteq> 0 \<longrightarrow>
       (let old = m_blocked_signals th; val = load64 (kmem_of k') (rsi regs); new = m_blocked_signals th'; how = cint (rdi regs) in
        if how = 0 then r = Ret 0 \<and> (\<forall>n. n \<noteq> 8 \<and> n \<noteq> 18 \<longrightarrow> bit new n = (bit old n \<or> bit val n))
        else if how = 1 then r = Ret 0 \<and> (\<forall>n < 64. n \<noteq> 8 \<and> n \<noteq> 18 \<longrightarrow> bit new n = (bit old n \<and> \<not> bit val n))
        else if how = 2 then r = Ret 0 \<and> (\<forall>n. n \<noteq> 8 \<and> n \<noteq> 18 \<longrightarrow> bit new n = bit val n)
        else r = Ret (err (- EINVAL)) \<and> th' = th))"
proof -
  define m where "m = (if rdx regs \<noteq> 0 then store64 (kmem_of k) (rdx regs) (m_blocked_signals th) else kmem_of k)"
  define k1 where "k1 = (if rdx regs \<noteq> 0 then set_mem m k else k)"
  have th: "thr (sch k) t = th" using assms(1) by (simp add: thr_def)
  have k1: "kmem_of k1 = m" "sch k1 = sch k" by (simp_all add: k1_def m_def)
  have om: "rdx regs \<noteq> 0 \<longrightarrow> load64 m (rdx regs) = m_blocked_signals th" by (simp add: m_def)
  define val where "val = load64 m (rsi regs)"
  define w where "w = new_mask (cint (rdi regs)) (val AND NOT unblockable) (m_blocked_signals th)"
  show ?thesis
  proof (cases "rsi regs = 0")
    case True
    then have "r = Ret 0" "k' = k1"
      using assms(2) th by (auto simp: sys_rt_sigprocmask_def Let_def k1_def m_def)
    then show ?thesis using True assms(1) k1 om by simp
  next
    case False
    have run: "(r, k') = (case w of None \<Rightarrow> (Ret (err (- EINVAL)), k1)
        | Some x \<Rightarrow> (Ret 0, k1\<lparr>sch := upd_thread t (\<lambda>th. th\<lparr>m_blocked_signals := x\<rparr>) (sch k1)\<rparr>))"
      using assms(2) th False
      by (cases "rdx regs = 0") (auto simp: sys_rt_sigprocmask_def Let_def k1_def m_def w_def val_def split: option.splits)
    show ?thesis
    proof (cases w)
      case None
      then have "r = Ret (err (- EINVAL))" "k' = k1" using run by auto
      moreover have "cint (rdi regs) \<notin> {0, 1, 2}" using None by (auto simp: w_def new_mask_def split: if_splits)
      ultimately show ?thesis using False assms(1) k1 om by simp
    next
      case (Some x)
      then have r: "r = Ret 0" and k': "k' = k1\<lparr>sch := upd_thread t (\<lambda>th. th\<lparr>m_blocked_signals := x\<rparr>) (sch k1)\<rparr>"
        using run by auto
      have km: "kmem_of k' = m" using k1 by (simp add: k' kmem_of_def)
      have th': "threads (sch k') t = Some (th\<lparr>m_blocked_signals := x\<rparr>)"
        using assms(1) k1 by (simp add: k' upd_thread_def)
      have v: "load64 (kmem_of k') (rsi regs) = val" by (simp add: km val_def)
      have bn: "bit (NOT u :: u64) n \<longleftrightarrow> n < 64 \<and> \<not> bit u n" for u :: u64 and n by (auto simp: bit_not_iff_eq)
      have b64: "n < 64" if "bit (u :: u64) n" for u n using bit_imp_le_length [OF that] by simp
      have x: "bit x n \<longleftrightarrow> (if cint (rdi regs) = 0 then bit old n \<or> bit val n \<and> n \<noteq> 8 \<and> n \<noteq> 18
          else if cint (rdi regs) = 1 then bit old n \<and> (n = 8 \<or> n = 18 \<or> \<not> bit val n) else bit val n \<and> n \<noteq> 8 \<and> n \<noteq> 18)"
        if "old = m_blocked_signals th" for n old
        using Some b64 [of old n] b64 [of val n] that
        by (auto simp: w_def new_mask_def bit_or_iff bit_and_iff bn bit_unblockable split: if_splits)
      have how: "cint (rdi regs) = 0 \<or> cint (rdi regs) = 1 \<or> cint (rdi regs) = 2"
        using Some by (auto simp: w_def new_mask_def split: if_splits)
      show ?thesis
      proof (rule exI [of _ "th\<lparr>m_blocked_signals := x\<rparr>"], intro conjI)
        show "rsi regs \<noteq> 0 \<longrightarrow>
          (let old = m_blocked_signals th; val = load64 (kmem_of k') (rsi regs); new = m_blocked_signals (th\<lparr>m_blocked_signals := x\<rparr>);
               how = cint (rdi regs) in
           if how = 0 then r = Ret 0 \<and> (\<forall>n. n \<noteq> 8 \<and> n \<noteq> 18 \<longrightarrow> bit new n = (bit old n \<or> bit val n))
           else if how = 1 then r = Ret 0 \<and> (\<forall>n < 64. n \<noteq> 8 \<and> n \<noteq> 18 \<longrightarrow> bit new n = (bit old n \<and> \<not> bit val n))
           else if how = 2 then r = Ret 0 \<and> (\<forall>n. n \<noteq> 8 \<and> n \<noteq> 18 \<longrightarrow> bit new n = bit val n)
           else r = Ret (err (- EINVAL)) \<and> th\<lparr>m_blocked_signals := x\<rparr> = th)"
          unfolding Let_def v using how x [OF refl] r by auto
      qed (use th' om km False x [OF refl] in \<open>auto split: if_splits\<close>)
    qed
  qed
qed

theorem sigprocmask_spec_witness:
  "\<exists>r k' th'. sys_rt_sigprocmask (Some 2) (zero_frame\<lparr>rdi := 2, rsi := 0x3000, rdx := 0x4000\<rparr>) ex_kernel = (r, k') \<and>
     threads (sch k') 2 = Some th' \<and> \<not> bit (m_blocked_signals th') 8 \<and> load64 (kmem_of k') 0x4000 = 0"
proof -
  let ?regs = "zero_frame\<lparr>rdi := 2, rsi := 0x3000, rdx := 0x4000\<rparr>"
  obtain r k' where run: "sys_rt_sigprocmask (Some 2) ?regs ex_kernel = (r, k')" by fastforce
  let ?th = "(ex_thread Running 0 3 0)\<lparr>m_process := Some 0x500\<rparr>"
  have th: "threads (sch ex_kernel) 2 = Some ?th" by (simp add: ex_kernel_def ex_ksched_def)
  have old: "m_blocked_signals ?th = 0" by (simp add: ex_thread_def null_thread_def)
  from sigprocmask_spec [OF th run] obtain th' where "threads (sch k') 2 = Some th'"
    "bit (m_blocked_signals th') 8 \<longrightarrow> bit (m_blocked_signals ?th) 8"
    "rdx ?regs \<noteq> 0 \<longrightarrow> load64 (kmem_of k') (rdx ?regs) = m_blocked_signals ?th" by (elim exE conjE)
  then have "threads (sch k') 2 = Some th' \<and> \<not> bit (m_blocked_signals th') 8 \<and> load64 (kmem_of k') 0x4000 = 0"
    unfolding old by simp
  with run show ?thesis by blast
qed

lemma load64_store32_other: "region a 4 \<inter> region b 8 = {} \<Longrightarrow> load64 (store32 m a w) b = load64 m b"
  unfolding load64_def store32_def by (subst read_write_disjoint) (simp_all add: inf_commute)

lemma load32_store64_other: "region a 8 \<inter> region b 4 = {} \<Longrightarrow> load32 (store64 m a w) b = load32 m b"
  unfolding load32_def store64_def by (subst read_write_disjoint) (simp_all add: inf_commute)

lemma get_put_sigaction: "get_sigaction (put_sigaction m a act) a = act"
proof -
  have d: "region a 8 \<inter> region (a + 8) 8 = {}" "region (a + 8) 8 \<inter> region a 8 = {}"
    "region (a + 16) 8 \<inter> region a 8 = {}" "region (a + 16) 8 \<inter> region (a + 8) 8 = {}"
    "region (a + 24) 4 \<inter> region a 8 = {}" "region (a + 24) 4 \<inter> region (a + 8) 8 = {}" "region (a + 24) 4 \<inter> region (a + 16) 8 = {}"
    "region (a + 32) 8 \<inter> region a 8 = {}" "region (a + 32) 8 \<inter> region (a + 8) 8 = {}" "region (a + 32) 8 \<inter> region (a + 16) 8 = {}"
    "region (a + 32) 8 \<inter> region (a + 24) 4 = {}"
    using region_offsets_disjoint [of 0 8 8 8 a] region_offsets_disjoint [of 0 8 16 8 a] region_offsets_disjoint [of 8 8 16 8 a]
      region_offsets_disjoint [of 0 8 24 4 a] region_offsets_disjoint [of 8 8 24 4 a] region_offsets_disjoint [of 16 8 24 4 a]
      region_offsets_disjoint [of 0 8 32 8 a] region_offsets_disjoint [of 8 8 32 8 a] region_offsets_disjoint [of 16 8 32 8 a]
      region_offsets_disjoint [of 24 4 32 8 a]
    by simp_all
  show ?thesis
    by (simp add: get_sigaction_def put_sigaction_def d load64_store64_other load64_store32_other load32_store64_other)
qed

text \<open>
  A signal action that was set is reported back. \<open>rt_sigaction\<close> stores the structure in user memory as the action of
  its signal and of no other; a later query writes those five fields to the caller's buffer. The action of
  \<open>SIGKILL\<close> or \<open>SIGSTOP\<close>, or of a number outside 1 to 63, can be neither set nor queried (\<open>EINVAL\<close>).
\<close>

theorem sigaction_roundtrip:
  assumes "procs k p = Some pr" and "length (m_signal_actions pr) = NSIG"
    and "rdi regs2 = rdi regs1" and "rsi regs1 \<noteq> 0" and "rdx regs1 = 0" and "rsi regs2 = 0" and "rdx regs2 \<noteq> 0"
    and "sys_rt_sigaction (Some p) regs1 k = (r1, k1)" and "sys_rt_sigaction (Some p) regs2 k1 = (r2, k2)"
  shows "let sig = cint (rdi regs1) in
     if 1 \<le> sig \<and> sig < int NSIG \<and> sig \<noteq> int SIGKILL \<and> sig \<noteq> int SIGSTOP then
       r1 = Ret 0 \<and> r2 = Ret 0 \<and> get_sigaction (kmem_of k2) (rdx regs2) = get_sigaction (kmem_of k) (rsi regs1) \<and>
       (\<exists>pr1. procs k1 = (procs k)(p \<mapsto> pr1) \<and>
          (\<forall>s. 1 \<le> s \<and> s < int NSIG \<longrightarrow>
             GetSignalAction pr1 s = (if s = sig then get_sigaction (kmem_of k) (rsi regs1) else GetSignalAction pr s)))
     else r1 = Ret (err (- EINVAL)) \<and> r2 = Ret (err (- EINVAL)) \<and> k2 = k"
proof -
  let ?sig = "cint (rdi regs1)" and ?act = "get_sigaction (kmem_of k) (rsi regs1)"
  show ?thesis
  proof (cases "1 \<le> ?sig \<and> ?sig < int NSIG \<and> ?sig \<noteq> int SIGKILL \<and> ?sig \<noteq> int SIGSTOP")
    case False
    then show ?thesis using assms(3,8,9) by (auto simp: sys_rt_sigaction_def Let_def)
  next
    case True
    define pr1 where "pr1 = pr\<lparr>m_signal_actions := (m_signal_actions pr)[nat ?sig - 1 := ?act]\<rparr>"
    have k1: "r1 = Ret 0" "k1 = upd_proc p (\<lambda>pr. pr\<lparr>m_signal_actions := (m_signal_actions pr)[nat ?sig - 1 := ?act]\<rparr>) k"
      using True assms(1,4,5,8) by (auto simp: sys_rt_sigaction_def Let_def)
    have p1: "procs k1 = (procs k)(p \<mapsto> pr1)" using assms(1) by (simp add: k1 pr1_def)
    have act: "GetSignalAction pr1 s = (if s = ?sig then ?act else GetSignalAction pr s)" if "1 \<le> s \<and> s < int NSIG" for s
      using that True assms(2) by (auto simp: GetSignalAction_def pr1_def nth_list_update)
    have r2: "r2 = Ret 0" "k2 = set_mem (put_sigaction (kmem_of k1) (rdx regs2) (GetSignalAction pr1 ?sig)) k1"
      using True assms(3,6,7,9) p1 by (auto simp: sys_rt_sigaction_def Let_def)
    have "get_sigaction (kmem_of k2) (rdx regs2) = ?act"
      using act [of ?sig] True by (simp add: r2 get_put_sigaction)
    then show ?thesis using True k1 r2 p1 act by auto
  qed
qed

theorem sigaction_roundtrip_witness:
  "\<exists>k1 k2. sys_rt_sigaction (Some 0x500) (zero_frame\<lparr>rdi := 11, rsi := 0x3000\<rparr>) ex_kernel = (Ret 0, k1) \<and>
     sys_rt_sigaction (Some 0x500) (zero_frame\<lparr>rdi := 11, rdx := 0x5000\<rparr>) k1 = (Ret 0, k2) \<and>
     get_sigaction (kmem_of k2) 0x5000 = get_sigaction (kmem_of ex_kernel) 0x3000"
proof -
  let ?pr = "(Process_new 1 0x510 2 2)\<lparr>m_fd_table := ex_table, m_children := [0x600], m_heap_start := 0x30000, m_heap_end := 0x30800\<rparr>"
  let ?r1 = "zero_frame\<lparr>rdi := 11, rsi := 0x3000\<rparr>" and ?r2 = "zero_frame\<lparr>rdi := 11, rdx := 0x5000\<rparr>"
  obtain r1 k1 where a: "sys_rt_sigaction (Some 0x500) ?r1 ex_kernel = (r1, k1)" by fastforce
  obtain r2 k2 where b: "sys_rt_sigaction (Some 0x500) ?r2 k1 = (r2, k2)" by fastforce
  have pr: "procs ex_kernel 0x500 = Some ?pr" "length (m_signal_actions ?pr) = NSIG"
    by (simp_all add: ex_kernel_def Process_new_def)
  have sig: "cint (11 :: u64) = 11" by (simp add: cint_def)
  have "r1 = Ret 0 \<and> r2 = Ret 0 \<and> get_sigaction (kmem_of k2) 0x5000 = get_sigaction (kmem_of ex_kernel) 0x3000"
    using sigaction_roundtrip [OF pr _ _ _ _ _ a b] by (simp add: zero_frame_def sig Let_def NSIG_def SIGKILL_def SIGSTOP_def)
  with a b show ?thesis by blast
qed

section \<open>Replacing the program\<close>

lemma Destroy_gone: "spaces (UserAddressSpace_Destroy P u k) u = None"
  by (simp add: UserAddressSpace_Destroy_def Let_def split: option.split)

lemma Load_heap_aligned:
  assumes "Load P buf p v bias k = (Value res, k')"
  shows "heap_base res AND 0xFFF = 0"
  using assms expected.distinct(3)
proof (cases rule: Load_cases)
  case (2 k1 hdr b pr sp k2)
  then show ?thesis using load_body_facts(3) [OF 2(7) refl] page_up_aligned by metis
qed simp_all

text \<open>
  C18: \<open>execve\<close> is all or nothing. When it fails, the registers, the scheduler state with the page table register, all
  processes (so the process has its old address space again) and the open files are as before. When
  it succeeds, the thread continues at the entry point on the new stack with the page table of the new address space
  loaded, the old address space is gone, and the process keeps everything but its address space and heap: pid,
  parent, children, descriptors and signal actions.
\<close>

theorem execve_all_or_nothing:
  assumes "procs k p = Some pr" and "sys_execve P buf p regs k = (Ret w, regs', k')"
  shows "regs' = regs \<and> sch k' = sch k \<and> procs k' = procs k \<and> files (io k') = files (io k) \<or>
    (\<exists>u k1 sp. \<exists>res :: LoadResult. w = 0 \<and> UserAddressSpace_Create P k = (Value u, k1) \<and> spaces k1 u = Some sp \<and>
       regs' = regs\<lparr>rip := entry_point res, rsp := stack_top res\<rparr> \<and> sch k' = (sch k)\<lparr>cr3 := root_pa sp\<rparr> \<and>
       procs k' = (procs k)(p \<mapsto> pr\<lparr>m_address_space := u, m_heap_start := heap_base res, m_heap_end := heap_base res\<rparr>) \<and>
       heap_base res AND 0xFFF = 0 \<and> spaces k' (m_address_space pr) = None \<and> files (io k') = files (io k))"
proof (cases "user_path p (rdi regs) k")
  case (Value v)
  obtain r1 k1 where c: "UserAddressSpace_Create P k = (r1, k1)" by fastforce
  note b = same_fields [OF same_base_Create [OF c]]
  show ?thesis
  proof (cases r1)
    case u: (Value u)
    let ?k2 = "upd_proc p (\<lambda>pr. pr\<lparr>m_address_space := u\<rparr>) k1"
    obtain sp where sp: "spaces k1 u = Some sp"
      using assms Value c u by (cases "spaces k1 u") (auto simp: sys_execve_def Let_def)
    obtain r3 k3 where l: "Load P buf p v 0 (WriteCr3 (root_pa sp) ?k2) = (r3, k3)" by fastforce
    have nb: "r3 \<noteq> Bug" using assms Value c u sp l by (auto simp: sys_execve_def Let_def)
    note f = Load_frame [OF l nb]
    have p3: "procs k3 = (procs k)(p \<mapsto> pr\<lparr>m_address_space := u\<rparr>)" "sch k3 = (sch k)\<lparr>cr3 := root_pa sp\<rparr>"
      "files (io k3) = files (io k)" using f b assms(1) by simp_all
    show ?thesis
    proof (cases r3)
      case (Value res)
      let ?k4 = "upd_proc p (\<lambda>pr. pr\<lparr>m_heap_start := heap_base res, m_heap_end := heap_base res\<rparr>) k3"
      have r: "w = 0" "regs' = regs\<lparr>rip := entry_point res, rsp := stack_top res\<rparr>"
        "k' = UserAddressSpace_Destroy P (m_address_space pr) ?k4"
        using assms \<open>user_path p (rdi regs) k = Value v\<close> c u sp l Value by (auto simp: sys_execve_def Let_def)
      note d = same_fields [OF same_base_Destroy [of ?k4 P "m_address_space pr"]]
      have "procs k' = (procs k)(p \<mapsto> pr\<lparr>m_address_space := u, m_heap_start := heap_base res, m_heap_end := heap_base res\<rparr>)"
        unfolding r(3) using d p3 by simp
      moreover have "sch k' = (sch k)\<lparr>cr3 := root_pa sp\<rparr>" "files (io k') = files (io k)" unfolding r(3) using d p3 by simp_all
      moreover have "spaces k' (m_address_space pr) = None" unfolding r(3) by (rule Destroy_gone)
      moreover have "heap_base res AND 0xFFF = 0" using Load_heap_aligned l Value by blast
      ultimately show ?thesis
        using r(1,2) c u sp
        by (intro disjI2 exI [of _ u] exI [of _ k1] exI [of _ sp] exI [of _ res] conjI) simp_all
    next
      case (Unexpected e)
      let ?k4 = "WriteCr3 (cr3 (sch ?k2)) (upd_proc p (\<lambda>pr'. pr'\<lparr>m_address_space := m_address_space pr\<rparr>) k3)"
      have r: "regs' = regs" "k' = UserAddressSpace_Destroy P u ?k4"
        using assms Value c u sp l Unexpected by (auto simp: sys_execve_def Let_def)
      note d = same_fields [OF same_base_Destroy [of ?k4 P u]]
      have "procs k' = procs k" "sch k' = sch k" "files (io k') = files (io k)"
        unfolding r(2) using d p3 b assms(1) by (simp_all add: fun_upd_idem)
      then show ?thesis using r(1) by blast
    qed (use nb in simp)
  qed (use assms Value c b in \<open>auto simp: sys_execve_def\<close>)
qed (use assms in \<open>auto simp: sys_execve_def\<close>)

theorem execve_all_or_nothing_witness:
  "\<exists>w regs' k'. sys_execve ex_plat 0x5000 0x500 (zero_frame\<lparr>rdi := 0x3000\<rparr>) (set_mem (\<lambda>_. 0) ex_kernel) = (Ret w, regs', k') \<and>
     w = err (- ENOEXEC) \<and> regs' = zero_frame\<lparr>rdi := 0x3000\<rparr> \<and> procs k' = procs ex_kernel"
proof -
  let ?k = "set_mem (\<lambda>_. 0) ex_kernel :: ((u64 \<times> u64) list, u8 list, nat, (u64 \<times> u64) list) kernel"
  let ?regs = "zero_frame\<lparr>rdi := 0x3000\<rparr>"
  let ?pr = "(Process_new 1 0x510 2 2)\<lparr>m_fd_table := ex_table, m_children := [0x600], m_heap_start := 0x30000, m_heap_end := 0x30800\<rparr>"
  have pr: "procs ?k 0x500 = Some ?pr" by (simp add: ex_kernel_def)
  have path: "user_path 0x500 0x3000 ?k = Value 2"
    using pr by (simp add: user_path_def cstr.simps PathToVnode_def Process_new_def)
  have "kmm_of ?k = 0" by (simp add: ex_kernel_kmm)
  then have "\<exists>u k1 sp. UserAddressSpace_Create ex_plat ?k = (Value u, k1) \<and> spaces k1 u = Some sp"
    by (simp add: UserAddressSpace_Create_def new_space_objects_def Let_def ex_plat_simps)
  then obtain u k1 sp where c: "UserAddressSpace_Create ex_plat ?k = (Value u, k1)" and sp: "spaces k1 u = Some sp" by (elim exE conjE)
  have vn: "vnodes (fs (io k1)) 2 = Some (RamFsNode_new ex_fk Directory (Literal ''/''))"
    using same_base_Create [OF c] by (simp add: same_base_def ex_kernel_def ex_filesys_def ex_fsys_def)
  let ?k3 = "WriteCr3 (root_pa sp) (upd_proc 0x500 (\<lambda>pr. pr\<lparr>m_address_space := u\<rparr>) k1)"
  have vn3: "vnodes (fs (io ?k3)) 2 = Some (RamFsNode_new ex_fk Directory (Literal ''/''))"
    using vn by (simp add: WriteCr3_def show_view_def Let_def)
  have p3: "\<exists>q. procs ?k3 0x500 = Some q" using same_base_Create [OF c] pr by (simp add: same_base_def)
  have "\<exists>k'. Load ex_plat 0x5000 0x500 2 0 ?k3 = (Unexpected (- ENOEXEC), k')"
    using p3 vn3 by (auto simp: Load_def read_file_def vnode_Read_def RamFs_Read_def RamFsNode_new_def Vnode_new_def ex_plat_def)
  then have "\<exists>w k'. sys_execve ex_plat 0x5000 0x500 ?regs ?k = (Ret w, ?regs, k') \<and> w = err (- ENOEXEC)"
    using c sp pr path by (auto simp: sys_execve_def Let_def)
  then obtain k' where run: "sys_execve ex_plat 0x5000 0x500 ?regs ?k = (Ret (err (- ENOEXEC)), ?regs, k')" by blast
  have "err (- ENOEXEC) \<noteq> 0" by (simp add: err_def)
  with execve_all_or_nothing [OF pr run] have "procs k' = procs ?k" by blast
  then have "procs k' = procs ex_kernel" by simp
  with run show ?thesis by blast
qed

end
