(* ===== verification/Cpio.thy ===== *)
theory Cpio
  imports Vfs
begin

text \<open>
  The initial RAM disk loader (\<open>include/ceryx/fs/CpioLoader.hpp\<close>): the header fields of a
  "newc" archive, the creation of one entry below the root and the loop over the archive.

  The packed header has 110 bytes; a field is named by its offset. The loop advances a raw
  pointer that could wrap around at the top of the address space, so \<open>Populate\<close> is a partial
  function whose value is \<open>None\<close> when the loop does not end.
\<close>

section \<open>The archive header\<close>

definition ParseHex :: "u8 list \<Rightarrow> u64" where
  "ParseHex str =
     foldl (\<lambda>val c.
       let val = push_bit 4 val in
       if c \<ge> 0x30 \<and> c \<le> 0x39 then val OR ucast (c - 0x30)
       else if c \<ge> 0x61 \<and> c \<le> 0x66 then val OR ucast (c - 0x61 + 10)
       else if c \<ge> 0x41 \<and> c \<le> 0x46 then val OR ucast (c - 0x41 + 10)
       else val) 0 str"

definition cpio_magic :: "u8 list" where
  "cpio_magic = map byte_of_char ''070701''"

definition cpio_trailer :: "u8 list" where
  "cpio_trailer = map byte_of_char ''TRAILER!!!''"

record CpioEntry =
  e_filename :: addr
  e_namesize :: u64
  e_mode :: u32
  e_data :: addr
  e_filesize :: u64

definition align4 :: "u64 \<Rightarrow> u64" where
  "align4 p = (p + 3) AND NOT 3"

text \<open>One iteration of \<open>Populate\<close> up to the call of \<open>CreateEntry\<close>: the entry at \<open>ptr\<close> and the pointer to the
  next one, or \<open>None\<close> at the end of the archive.\<close>

definition read_entry :: "mem \<Rightarrow> addr \<Rightarrow> (CpioEntry \<times> addr) option" where
  "read_entry m ptr =
     (if read_bytes m ptr 6 \<noteq> cpio_magic then None
      else
        (let fsize = ParseHex (read_bytes m (ptr + 54) 8);
             nsize = ParseHex (read_bytes m (ptr + 94) 8);
             md = ucast (ParseHex (read_bytes m (ptr + 14) 8)) :: u32;
             fname = ptr + 110
         in if read_bytes m fname 10 = cpio_trailer then None
            else
              (let ptr = align4 (ptr + (110 + nsize));
                   dat = ptr;
                   ptr = align4 (ptr + fsize)
               in Some (\<lparr>e_filename = fname, e_namesize = nsize, e_mode = md, e_data = dat, e_filesize = fsize\<rparr>, ptr))))"

section \<open>Creating an entry\<close>

lemma dropWhile_shorter: "dropWhile P xs = y # ys \<Longrightarrow> length ys < length xs"
  using length_dropWhile_le [of P xs] by simp

text \<open>The loop over the directories of the path. It returns the directory and the remaining name, or
  the error of the failed \<open>Mkdir\<close> that ends \<open>CreateEntry\<close>.\<close>

function entry_dirs ::
  "('v, 'r, 'k) fk \<Rightarrow> addr \<Rightarrow> addr \<Rightarrow> string \<Rightarrow> ('v, 'r, 'k) fsys \<Rightarrow> (addr \<times> StringView) expected \<times> ('v, 'r, 'k) fsys" where
  "entry_dirs K current ptr rest s =
     (case dropWhile (\<lambda>c. c \<noteq> CHR ''/'') rest of
        [] \<Rightarrow> (Value (current, View ptr (length rest)), s)
      | _ # rest' \<Rightarrow>
          (let dir_name = takeWhile (\<lambda>c. c \<noteq> CHR ''/'') rest;
               ptr' = ptr + of_nat (length dir_name + 1)
           in
           if dir_name = [] \<or> dir_name = ''.'' then entry_dirs K current ptr' rest' s
           else
             (case vnode_Lookup current dir_name s of
                Value v \<Rightarrow> entry_dirs K v ptr' rest' s
              | Unexpected _ \<Rightarrow>
                  (case vnode_Mkdir K current (View ptr (length dir_name)) s of
                     (Value v, s) \<Rightarrow> entry_dirs K v ptr' rest' s
                   | (Unexpected e, s) \<Rightarrow> (Unexpected e, s)
                   | (Bug, s) \<Rightarrow> (Bug, s))
              | Bug \<Rightarrow> (Bug, s))))"
  by pat_completeness auto
termination
  by (relation "measure (\<lambda>(K, current, ptr, rest, s). length rest)") (simp_all add: dropWhile_shorter)

declare entry_dirs.simps [simp del]

text \<open>\<open>CreateEntry\<close> ignores the results of its calls; a call through a null pointer is \<open>Bug\<close>, a write that
  waits cannot happen (no pipe is created here) and is a \<open>Bug\<close> too.\<close>

definition CreateEntry ::
  "('v, 'r, 'k) fk \<Rightarrow> addr \<Rightarrow> StringView \<Rightarrow> u32 \<Rightarrow> addr \<Rightarrow> u64 \<Rightarrow> ('v, 'r, 'k) fsys \<Rightarrow> unit expected \<times> ('v, 'r, 'k) fsys" where
  "CreateEntry K root path md dat sz s =
     (if chars (memory s) path = ''.'' then (Value (), s)
      else
        (case entry_dirs K root (case path of View p _ \<Rightarrow> p | Literal _ \<Rightarrow> 0) (chars (memory s) path) s of
           (Bug, s) \<Rightarrow> (Bug, s)
         | (Unexpected _, s) \<Rightarrow> (Value (), s)
         | (Value (current, leaf_name), s) \<Rightarrow>
             if sv_size leaf_name = 0 then (Value (), s)
             else if md AND 0xF000 = 0x4000 then
               (case vnode_Mkdir K current leaf_name s of
                  (Bug, s) \<Rightarrow> (Bug, s)
                | (_, s) \<Rightarrow> (Value (), s))
             else if md AND 0xF000 = 0x8000 then
               (case vnode_Create K current leaf_name s of
                  (Bug, s) \<Rightarrow> (Bug, s)
                | (Unexpected _, s) \<Rightarrow> (Value (), s)
                | (Value f, s) \<Rightarrow>
                    (case vnode_Write K f dat sz 0 s of
                       (Return (Value _), s) \<Rightarrow> (Value (), s)
                     | (Return (Unexpected _), s) \<Rightarrow> (Value (), s)
                     | (_, s) \<Rightarrow> (Bug, s)))
             else (Value (), s)))"

definition entry_name :: "CpioEntry \<Rightarrow> StringView" where
  "entry_name e = View (e_filename e) (unat (e_namesize e - 1))"

section \<open>The loop over the archive\<close>

partial_function (option) Populate_loop ::
  "('v, 'r, 'k) fk \<Rightarrow> addr \<Rightarrow> addr \<Rightarrow> addr \<Rightarrow> ('v, 'r, 'k) fsys \<Rightarrow> (unit expected \<times> ('v, 'r, 'k) fsys) option" where
  "Populate_loop K root ptr pend s =
     (if ptr < pend then
        (case read_entry (memory s) ptr of
           None \<Rightarrow> Some (Value (), s)
         | Some (e, ptr') \<Rightarrow>
             (case CreateEntry K root (entry_name e) (e_mode e) (e_data e) (e_filesize e) s of
                (Value _, s') \<Rightarrow> Populate_loop K root ptr' pend s'
              | (r, s') \<Rightarrow> Some (r, s')))
      else Some (Value (), s))"

definition Populate ::
  "('v, 'r, 'k) fk \<Rightarrow> addr \<Rightarrow> addr \<Rightarrow> u64 \<Rightarrow> ('v, 'r, 'k) fsys \<Rightarrow> (unit expected \<times> ('v, 'r, 'k) fsys) option" where
  "Populate K root address sz s = Populate_loop K root address (address + sz) s"

section \<open>Hexadecimal fields\<close>

text \<open>The digits of a number, most significant first, as an archiver writes them.\<close>

definition hex_digit :: "u64 \<Rightarrow> u8" where
  "hex_digit d = (if d < 10 then 0x30 + ucast d else 0x61 + (ucast d - 10))"

fun hex_field :: "nat \<Rightarrow> u64 \<Rightarrow> u8 list" where
  "hex_field 0 w = []"
| "hex_field (Suc n) w = hex_field n (drop_bit 4 w) @ [hex_digit (take_bit 4 w)]"

lemma length_hex_field [simp]: "length (hex_field n w) = n"
  by (induction n arbitrary: w) simp_all

lemma nibble_cases:
  assumes "(d :: u64) < 16"
  obtains i where "i < 16" and "d = of_nat i"
proof -
  have "unat d < 16" using assms by (simp add: word_less_nat_alt)
  then show thesis by (rule that) simp
qed

lemma ParseHex_snoc_digit:
  assumes "d < 16"
  shows "ParseHex (xs @ [hex_digit d]) = push_bit 4 (ParseHex xs) OR d"
proof -
  obtain i where "i < 16" and "d = of_nat i" using nibble_cases [OF assms] .
  then have "d \<in> of_nat ` {0, 1, 2, 3, 4, 5, 6, 7, 8, 9, 10, 11, 12, 13, 14, 15}"
    by (auto simp: less_Suc_eq numeral_eq_Suc)
  then show ?thesis
    by (elim imageE insertE emptyE) (simp_all add: ParseHex_def hex_digit_def)
qed

lemma ParseHex_hex_field: "ParseHex (hex_field n w) = take_bit (4 * n) w"
proof (induction n arbitrary: w)
  case 0
  then show ?case by (simp add: ParseHex_def)
next
  case (Suc n)
  have "take_bit 4 w < 16" by (simp add: word_less_nat_alt take_bit_eq_mod unat_mod_distrib)
  then have "ParseHex (hex_field (Suc n) w) = push_bit 4 (take_bit (4 * n) (drop_bit 4 w)) OR take_bit 4 w"
    by (simp add: ParseHex_snoc_digit Suc)
  also have "\<dots> = take_bit (4 * Suc n) w"
    by (rule bit_word_eqI) (auto simp: bit_simps)
  finally show ?case .
qed

lemma ParseHex_snoc: "\<exists>d < 16. ParseHex (xs @ [c]) = push_bit 4 (ParseHex xs) OR d"
proof -
  define d where "d = (if c \<ge> 0x30 \<and> c \<le> 0x39 then ucast (c - 0x30)
            else if c \<ge> 0x61 \<and> c \<le> 0x66 then ucast (c - 0x61 + 10)
            else if c \<ge> 0x41 \<and> c \<le> 0x46 then ucast (c - 0x41 + 10) else (0 :: u64))"
  have low: "unat (ucast (c - 0x30) :: u64) < 16" if "c \<ge> 0x30" "c \<le> 0x39"
    using that unat_sub [of "0x30" c] by (simp add: unat_ucast_up word_le_nat_alt)
  have letter: "unat (ucast (c - k + 10) :: u64) < 16" if "c \<ge> k" "c \<le> k + 5" "unat k \<le> 0x61" for k :: u8
  proof -
    have "unat (k + 5) = unat k + 5" using that(3) unat_plus_no_wrap [of k 5] by simp
    with that have "unat (c - k) \<le> 5" using unat_sub [of k c] by (simp add: word_le_nat_alt)
    moreover from this have "unat (c - k + 10) = unat (c - k) + 10"
      using unat_plus_no_wrap [of "c - k" 10] by simp
    ultimately show ?thesis by (simp add: unat_ucast_up)
  qed
  have "unat d < 16"
    unfolding d_def using low letter [of "0x61"] letter [of "0x41"] by simp
  then have "d < 16" by (simp add: word_less_nat_alt)
  moreover have "ParseHex (xs @ [c]) = push_bit 4 (ParseHex xs) OR d"
    by (simp add: ParseHex_def Let_def d_def)
  ultimately show ?thesis by blast
qed

lemma ParseHex_take_bit: "take_bit (4 * length xs) (ParseHex xs) = ParseHex xs"
proof (induction xs rule: rev_induct)
  case Nil
  then show ?case by (simp add: ParseHex_def)
next
  case (snoc c xs)
  obtain d where d: "d < 16" "ParseHex (xs @ [c]) = push_bit 4 (ParseHex xs) OR d"
    using ParseHex_snoc by blast
  have "unat (take_bit 4 d) = unat d"
    using d(1) by (simp add: take_bit_eq_mod unat_mod_distrib word_less_nat_alt)
  then have d4: "take_bit 4 d = d" by (simp only: word_unat_eq_iff)
  have bit_d: "i < 4" if "bit d i" for i
  proof -
    have "bit (take_bit 4 d) i" unfolding d4 by (rule that)
    then show ?thesis by (simp only: bit_take_bit_iff)
  qed
  have bit_xs: "i < 4 * length xs" if "bit (ParseHex xs) i" for i
  proof -
    have "bit (take_bit (4 * length xs) (ParseHex xs)) i" unfolding snoc by (rule that)
    then show ?thesis by (simp only: bit_take_bit_iff)
  qed
  show ?case unfolding d(2)
  proof (rule bit_word_eqI)
    fix i
    show "bit (take_bit (4 * length (xs @ [c])) (push_bit 4 (ParseHex xs) OR d)) i =
        bit (push_bit 4 (ParseHex xs) OR d) i"
      using bit_d [of i] bit_xs [of "i - 4"] by (auto simp: bit_take_bit_iff bit_or_iff bit_push_bit_iff)
  qed
qed

lemma ParseHex_bound:
  assumes "length xs = 8"
  shows "unat (ParseHex xs) < 2 ^ 32"
proof -
  have "ParseHex xs = take_bit 32 (ParseHex xs)" using ParseHex_take_bit [of xs] assms by simp
  then have "unat (ParseHex xs) = unat (ParseHex xs) mod 2 ^ 32"
    by (metis unsigned_take_bit_eq take_bit_eq_mod)
  then show ?thesis by (metis mod_less_divisor zero_less_numeral zero_less_power)
qed

section \<open>The pointer advances\<close>

lemma unat_align4:
  assumes "unat p + 3 < 2 ^ 64"
  shows "unat (align4 p) = (unat p + 3) div 4 * 4"
proof -
  have "(3 :: u64) = mask 2" by (simp add: mask_eq_exp_minus_1)
  then have "align4 p = push_bit 2 (drop_bit 2 (p + 3))"
    unfolding align4_def by (simp only: and_not_mask)
  moreover have "unat (p + 3) = unat p + 3" using assms unat_plus_no_wrap [of p 3] by simp
  ultimately have "unat (align4 p) = (unat p + 3) div 4 * 4 mod 2 ^ 64"
    by (simp add: unat_push_bit unat_drop_bit)
  moreover have "(unat p + 3) div 4 * 4 < 2 ^ 64" using assms div_times_less_eq_dividend [of "unat p + 3" 4]
    by linarith
  ultimately show ?thesis by simp
qed

lemma align4_bounds:
  assumes "unat p + 3 < 2 ^ 64"
  shows "unat p \<le> unat (align4 p)" and "unat (align4 p) \<le> unat p + 3"
  unfolding unat_align4 [OF assms] by presburger+

lemma entry_end_advances:
  assumes "unat ptr + 2 ^ 34 \<le> 2 ^ 64" and "unat nsize < 2 ^ 32" and "unat fsize < 2 ^ 32"
  shows "unat ptr < unat (align4 (align4 (ptr + (110 + nsize)) + fsize))"
proof -
  let ?n = "110 + nsize" and ?p = "align4 (ptr + (110 + nsize))"
  have n: "unat ?n = 110 + unat nsize" using assms(2) unat_plus_no_wrap [of 110 nsize] by simp
  then have p1: "unat (ptr + ?n) = unat ptr + 110 + unat nsize"
    using assms(1,2) unat_plus_no_wrap [of ptr ?n] by simp
  then have "unat (ptr + ?n) + 3 < 2 ^ 64" using assms(1,2) by simp
  note p2 = align4_bounds [OF this]
  have p3: "unat (?p + fsize) = unat ?p + unat fsize"
    using p1 p2 assms unat_plus_no_wrap [of ?p fsize] by simp
  then have "unat (?p + fsize) + 3 < 2 ^ 64" using p1 p2 assms by simp
  note p4 = align4_bounds [OF this]
  then show ?thesis using p1 p2 p3 by linarith
qed

lemma read_entry_advances:
  assumes "read_entry m ptr = Some (e, ptr')" and "unat ptr + 2 ^ 34 \<le> 2 ^ 64"
  shows "unat ptr < unat ptr'"
proof -
  have "ptr' = align4 (align4 (ptr + (110 + ParseHex (read_bytes m (ptr + 94) 8))) + ParseHex (read_bytes m (ptr + 54) 8))"
    using assms(1) by (auto simp: read_entry_def Let_def split: if_splits)
  then show ?thesis
    using entry_end_advances [OF assms(2)] ParseHex_bound [OF length_read_bytes] by simp
qed

lemma Populate_loop_total:
  assumes "unat pend + 2 ^ 34 \<le> 2 ^ 64"
  shows "\<exists>r. Populate_loop K root ptr pend s = Some r"
proof (induction "unat pend - unat ptr" arbitrary: ptr s rule: less_induct)
  case less
  show ?case
  proof (cases "ptr < pend")
    case True
    show ?thesis
    proof (cases "read_entry (memory s) ptr")
      case None
      then show ?thesis by (subst Populate_loop.simps) simp
    next
      case (Some ep)
      obtain e ptr' where ep: "ep = (e, ptr')" by fastforce
      have "unat ptr < unat ptr'"
        using read_entry_advances [of "memory s" ptr e ptr'] Some ep True assms by (simp add: word_less_nat_alt)
      then have "unat pend - unat ptr' < unat pend - unat ptr" using True by (simp add: word_less_nat_alt)
      note IH = less [OF this]
      show ?thesis
        using True Some ep IH by (subst Populate_loop.simps) (auto split: prod.split expected.split)
    qed
  next
    case False
    then show ?thesis by (subst Populate_loop.simps) simp
  qed
qed

section \<open>Archives\<close>

text \<open>A file of a "newc" archive laid out at \<open>ptr\<close>: magic, mode, file size and name size as eight hexadecimal
  digits at their offsets (the other fields are free), the name with its terminator, and the contents at the
  next multiple of four.\<close>

definition data_at :: "addr \<Rightarrow> string \<Rightarrow> addr" where
  "data_at ptr nm = align4 (ptr + (110 + of_nat (Suc (length nm))))"

definition entry_at :: "mem \<Rightarrow> addr \<Rightarrow> string \<Rightarrow> u32 \<Rightarrow> u8 list \<Rightarrow> bool" where
  "entry_at m ptr nm md bs \<longleftrightarrow>
     length nm < 2 ^ 32 - 1 \<and> length bs < 2 ^ 32 \<and> take 10 nm \<noteq> ''TRAILER!!!'' \<and>
     read_bytes m ptr 6 = cpio_magic \<and>
     read_bytes m (ptr + 14) 8 = hex_field 8 (ucast md) \<and>
     read_bytes m (ptr + 54) 8 = hex_field 8 (of_nat (length bs)) \<and>
     read_bytes m (ptr + 94) 8 = hex_field 8 (of_nat (Suc (length nm))) \<and>
     read_bytes m (ptr + 110) (Suc (length nm)) = map byte_of_char nm @ [0] \<and>
     read_bytes m (data_at ptr nm) (length bs) = bs"

lemma take_bit_small: "n < 2 ^ 32 \<Longrightarrow> take_bit 32 (of_nat n :: u64) = of_nat n"
  by (simp add: word_unat_eq_iff unat_mod_distrib unsigned_of_nat take_bit_eq_mod)

lemma take_bit_ucast_u32: "take_bit 32 (ucast (w :: u32) :: u64) = ucast w"
  by (rule bit_word_eqI) (auto simp: bit_simps dest: bit_imp_le_length)

lemma ucast_ucast_u32: "ucast (ucast (w :: u32) :: u64) = w"
  by (rule bit_word_eqI) (auto simp: bit_simps)

lemma trailer_name:
  assumes "read_bytes m fname (Suc (length nm)) = map byte_of_char nm @ [0]"
    and "read_bytes m fname 10 = cpio_trailer"
  shows "take 10 nm = ''TRAILER!!!''"
proof -
  have at: "m (fname + of_nat i) = cpio_trailer ! i" if "i < 10" for i
    using arg_cong [OF assms(2), of "\<lambda>xs. xs ! i"] that by simp
  have nm: "m (fname + of_nat i) = (map byte_of_char nm @ [0]) ! i" if "i < Suc (length nm)" for i
    using arg_cong [OF assms(1), of "\<lambda>xs. xs ! i"] that by simp
  have nz: "cpio_trailer ! i \<noteq> 0" if "i < 10" for i
  proof -
    have "cpio_trailer ! i \<in> set cpio_trailer" using that by (intro nth_mem) (simp add: cpio_trailer_def)
    moreover have "0 \<notin> set cpio_trailer" by (simp add: cpio_trailer_def byte_of_char_def)
    ultimately show ?thesis by metis
  qed
  have len: "10 \<le> length nm"
  proof (rule ccontr)
    assume "\<not> 10 \<le> length nm"
    then show False using at [of "length nm"] nm [of "length nm"] nz [of "length nm"] by (simp add: nth_append)
  qed
  have "map byte_of_char (take 10 nm) = cpio_trailer"
  proof (rule nth_equalityI)
    show "length (map byte_of_char (take 10 nm)) = length cpio_trailer" using len by (simp add: cpio_trailer_def)
    fix i assume "i < length (map byte_of_char (take 10 nm))"
    then show "map byte_of_char (take 10 nm) ! i = cpio_trailer ! i"
      using at [of i] nm [of i] len by (simp add: nth_append)
  qed
  then have "map char_of_byte (map byte_of_char (take 10 nm)) = map char_of_byte cpio_trailer" by simp
  moreover have "map char_of_byte (map byte_of_char xs) = xs" for xs by (induction xs) simp_all
  ultimately show ?thesis unfolding cpio_trailer_def by metis
qed

text \<open>
  C27: Reading an archive entry is the inverse of writing one: where the bytes of a "newc" entry
  for a file of the given name, mode and contents are laid out, the loop iteration recovers exactly that
  name, mode and size, a pointer to those contents, and continues at the next multiple of four after them.
\<close>

theorem cpio_entry_roundtrip:
  assumes "entry_at m ptr nm md bs"
  shows "\<exists>e. read_entry m ptr = Some (e, align4 (data_at ptr nm + of_nat (length bs))) \<and>
           chars m (entry_name e) = nm \<and> e_mode e = md \<and> unat (e_filesize e) = length bs \<and>
           read_bytes m (e_data e) (unat (e_filesize e)) = bs"
proof -
  note at = assms [unfolded entry_at_def]
  have len: "Suc (length nm) < 2 ^ 32" "length bs < 2 ^ 32" using at by simp_all
  have fs: "ParseHex (read_bytes m (ptr + 54) 8) = of_nat (length bs)"
    using at ParseHex_hex_field [of 8 "of_nat (length bs)"] take_bit_small [OF len(2)] by simp
  have ns: "ParseHex (read_bytes m (ptr + 94) 8) = of_nat (Suc (length nm))"
    using at ParseHex_hex_field [of 8 "of_nat (Suc (length nm))"] take_bit_small [OF len(1)] by simp
  have md: "ParseHex (read_bytes m (ptr + 14) 8) = ucast md"
    using at ParseHex_hex_field [of 8 "ucast md"] take_bit_ucast_u32 [of md] by simp
  have tr: "read_bytes m (ptr + 110) 10 \<noteq> cpio_trailer"
    using trailer_name [of m "ptr + 110" nm] at by blast
  have mg: "read_bytes m ptr 6 = cpio_magic" using at by blast
  have unat: "unat (of_nat (length bs) :: u64) = length bs" "unat (of_nat (length nm) :: u64) = length nm"
    using len by (simp_all add: unsigned_of_nat take_bit_eq_mod)
  let ?e = "\<lparr>e_filename = ptr + 110, e_namesize = of_nat (Suc (length nm)), e_mode = md,
             e_data = data_at ptr nm, e_filesize = of_nat (length bs)\<rparr>"
  have "read_entry m ptr = Some (?e, align4 (data_at ptr nm + of_nat (length bs)))"
    using mg tr unfolding read_entry_def fs ns md Let_def ucast_ucast_u32 data_at_def by (simp only: simp_thms if_False)
  moreover have "chars m (entry_name ?e) = nm"
  proof -
    have "read_bytes m (ptr + 110) (length nm) = map byte_of_char nm"
      using at read_bytes_append [of m "ptr + 110" "length nm" 1] by simp
    then have "chars m (entry_name ?e) = map char_of_byte (map byte_of_char nm)" by (simp add: entry_name_def chars_def unat)
    then show ?thesis by (simp add: comp_def)
  qed
  ultimately show ?thesis using at unat(1) by (intro exI [of _ ?e]) simp
qed

definition ex_image :: "u8 list" where
  "ex_image = cpio_magic @ hex_field 8 1 @ hex_field 8 0x81A4 @ replicate 32 0x30 @ hex_field 8 2 @
     replicate 32 0x30 @ hex_field 8 3 @ replicate 8 0x30 @ map byte_of_char ''up'' @ [0, 0, 0, 0, 0xCA, 0xFE]"

definition ex_image_mem :: mem where
  "ex_image_mem a = (if unat a < length ex_image then ex_image ! unat a else 0)"

theorem cpio_entry_roundtrip_witness:
  "entry_at ex_image_mem 0 ''up'' 0x81A4 [0xCA, 0xFE] \<and>
   (\<exists>e. read_entry ex_image_mem 0 = Some (e, 120) \<and> chars ex_image_mem (entry_name e) = ''up'' \<and>
        read_bytes ex_image_mem (e_data e) 2 = [0xCA, 0xFE])"
proof -
  have at: "entry_at ex_image_mem 0 ''up'' 0x81A4 [0xCA, 0xFE]"
    unfolding entry_at_def
  proof (intro conjI)
    show "read_bytes ex_image_mem 0 6 = cpio_magic" by code_simp
    show "read_bytes ex_image_mem (0 + 14) 8 = hex_field 8 (ucast (0x81A4 :: u32))" by code_simp
    show "read_bytes ex_image_mem (0 + 54) 8 = hex_field 8 (of_nat (length [0xCA, 0xFE :: u8]))" by code_simp
    show "read_bytes ex_image_mem (0 + 94) 8 = hex_field 8 (of_nat (Suc (length ''up'')))" by code_simp
    show "read_bytes ex_image_mem (0 + 110) (Suc (length ''up'')) = map byte_of_char ''up'' @ [0]" by code_simp
    show "read_bytes ex_image_mem (data_at 0 ''up'') (length [0xCA, 0xFE :: u8]) = [0xCA, 0xFE]" by code_simp
  qed simp_all
  moreover have "align4 (data_at 0 ''up'' + of_nat (length [0xCA, 0xFE :: u8])) = 120" by code_simp
  ultimately show ?thesis using cpio_entry_roundtrip [OF at] by (auto simp: numeral_2_eq_2)
qed

text \<open>
  Loading the initial RAM disk always ends, on any contents of the image, corrupt ones
  included: the header's size fields are below 2^32, so the pointer strictly advances as long as
  the image does not end within the last 16 GiB of the address space.
\<close>

theorem Populate_terminates:
  assumes "unat (address + sz) + 2 ^ 34 \<le> 2 ^ 64"
  shows "\<exists>r. Populate K root address sz s = Some r"
  unfolding Populate_def by (rule Populate_loop_total [OF assms])

theorem Populate_terminates_witness:
  "unat (0x1000 + 0x400 :: u64) + 2 ^ 34 \<le> (2 :: nat) ^ 64 \<and>
   (\<exists>r. Populate ex_fk 0x10 0x1000 0x400 ex_fsys = Some r)"
proof
  show le: "unat (0x1000 + 0x400 :: u64) + 2 ^ 34 \<le> (2 :: nat) ^ 64" by simp
  show "\<exists>r. Populate ex_fk 0x10 0x1000 0x400 ex_fsys = Some r" by (rule Populate_terminates [OF le])
qed

end
