(* ===== verification/FsTypes.thy ===== *)
theory FsTypes
  imports Cpio
begin

text \<open>
  The types of the file system: a well-formedness invariant of the vnodes, kept by every operation that adds or changes
  nodes and by the unpacking of an archive. It excludes the null pointers of the model (\<open>Bug\<close>): every node has an
  operation table, a directory is a RAM file system node, the children of a node exist, and no pipe is in a directory.

  The steps are related by \<open>grows\<close>: nodes are added, and none changes its type or its table.
\<close>

section \<open>Storage\<close>

text \<open>While the allocator has objects left it hands out fresh ones, and vectors can grow.\<close>

definition storage_laws :: "('v, 'r, 'k) fk \<Rightarrow> ('k \<Rightarrow> addr set) \<Rightarrow> ('k \<Rightarrow> nat) \<Rightarrow> bool" where
  "storage_laws K live avail \<longleftrightarrow> alloc_laws K live \<and>
     (\<forall>k. 0 < avail k \<longrightarrow> (\<exists>a k'. op_new K k = (Some a, k') \<and> avail k' = avail k - 1)) \<and>
     (\<forall>k. 0 < avail k \<longrightarrow> (\<exists>k'. PushBack_ok K k = (True, k') \<and> avail k' = avail k - 1))"

text \<open>
  A write puts every page it allocates into an object of its own, and the result of \<open>new VmPage()\<close> is not checked: a write is
  safe only while there is storage for that object whenever there was a page.
\<close>

definition page_objects :: "('v, 'r, 'k) fk \<Rightarrow> bool" where
  "page_objects K \<longleftrightarrow> (\<forall>k pfn k'. AllocatePage K k = (Some pfn, k') \<longrightarrow> fst (op_new K k') \<noteq> None)"

lemma two_allocations:
  assumes "storage_laws K live avail" and "2 \<le> avail k"
  obtains a k1 k2 where "op_new K k = (Some a, k1)" and "PushBack_ok K k1 = (True, k2)" and "avail k2 + 2 = avail k"
    and "a \<notin> live k" and "live k \<subseteq> live k2" and "a \<in> live k2"
proof -
  have K: "alloc_laws K live" using assms(1) by (simp add: storage_laws_def)
  obtain a k1 where n: "op_new K k = (Some a, k1)" "avail k1 = avail k - 1"
    using assms unfolding storage_laws_def by (metis le_zero_eq neq0_conv zero_neq_numeral)
  have "0 < avail k1" using n(2) assms(2) by simp
  then obtain k2 where p: "PushBack_ok K k1 = (True, k2)" "avail k2 = avail k1 - 1"
    using assms(1) unfolding storage_laws_def by blast
  show thesis
    using that [OF n(1) p(1)] n p assms(2) alloc_lawsD [OF K] by fastforce
qed

section \<open>The invariant\<close>

definition node_ok :: "(addr \<rightharpoonup> ('v, 'r) vnode) \<Rightarrow> ('v, 'r) vnode \<Rightarrow> bool" where
  "node_ok N vn \<longleftrightarrow>
     ops vn \<noteq> None \<and> (vtype vn = Directory \<longrightarrow> ops vn = Some RamFsOps) \<and>
     (ops vn = Some RamFsOps \<longrightarrow> vtype vn = Regular \<longrightarrow> vmo vn \<noteq> None) \<and>
     (ops vn = Some PipeOps \<longrightarrow> v_pipe vn \<noteq> None) \<and>
     (\<forall>c \<in> set (children vn). \<exists>cn. N c = Some cn \<and> ops cn \<noteq> Some PipeOps)"

definition fs_ok :: "('k \<Rightarrow> addr set) \<Rightarrow> ('v, 'r, 'k) fsys \<Rightarrow> bool" where
  "fs_ok live s \<longleftrightarrow> (\<forall>a vn. vnodes s a = Some vn \<longrightarrow> node_ok (vnodes s) vn) \<and> dom (vnodes s) \<subseteq> live (kmm s)"

text \<open>A node of the tree: it exists and is no pipe.\<close>

definition in_tree :: "('v, 'r, 'k) fsys \<Rightarrow> addr \<Rightarrow> bool" where
  "in_tree s a \<longleftrightarrow> (\<exists>vn. vnodes s a = Some vn \<and> ops vn \<noteq> Some PipeOps)"

definition grows :: "('k \<Rightarrow> addr set) \<Rightarrow> ('v, 'r, 'k) fsys \<Rightarrow> ('v, 'r, 'k) fsys \<Rightarrow> bool" where
  "grows live s s' \<longleftrightarrow> fs_ok live s' \<and>
     (\<forall>a vn. vnodes s a = Some vn \<longrightarrow> (\<exists>vn'. vnodes s' a = Some vn' \<and> vtype vn' = vtype vn \<and> ops vn' = ops vn))"

lemma grows_refl [simp]: "fs_ok live s \<Longrightarrow> grows live s s"
  by (simp add: grows_def)

lemma grows_trans [trans]: "grows live s s1 \<Longrightarrow> grows live s1 s2 \<Longrightarrow> grows live s s2"
  unfolding grows_def by metis

lemma grows_ok: "grows live s s' \<Longrightarrow> fs_ok live s'"
  by (simp add: grows_def)

lemma in_tree_grows: "grows live s s' \<Longrightarrow> in_tree s a \<Longrightarrow> in_tree s' a"
  unfolding grows_def in_tree_def by metis

lemma node_ok_mono:
  assumes "node_ok N vn" and "\<And>c cn. N c = Some cn \<Longrightarrow> \<exists>cn'. N' c = Some cn' \<and> ops cn' = ops cn"
  shows "node_ok N' vn"
  using assms unfolding node_ok_def by metis

text \<open>Two ways to change the map: a new node without children, and an update that keeps type and table.\<close>

lemma grows_new:
  assumes "fs_ok live s" and "a \<notin> dom (vnodes s)" and "node_ok Map.empty nd" and "dom (vnodes s) \<subseteq> live l" and "a \<in> live l"
  shows "grows live s (s\<lparr>kmm := l, vnodes := (vnodes s)(a \<mapsto> nd)\<rparr>)"
proof -
  have "node_ok ((vnodes s)(a \<mapsto> nd)) vn" if "((vnodes s)(a \<mapsto> nd)) b = Some vn" for b vn
  proof (cases "b = a")
    case True
    then show ?thesis using that assms(3) by (auto intro: node_ok_mono)
  next
    case False
    then have "node_ok (vnodes s) vn" using that assms(1) by (simp add: fs_ok_def)
    then show ?thesis by (rule node_ok_mono) (use assms(2) in auto)
  qed
  then show ?thesis using assms by (auto simp: grows_def fs_ok_def)
qed

lemma grows_upd:
  assumes "fs_ok live s" and "\<And>vn. vnodes s a = Some vn \<Longrightarrow> node_ok (vnodes s) (f vn) \<and> vtype (f vn) = vtype vn \<and> ops (f vn) = ops vn"
  shows "grows live s (upd_vnode a f s)"
proof -
  have keep: "\<exists>cn'. vnodes (upd_vnode a f s) c = Some cn' \<and> vtype cn' = vtype cn \<and> ops cn' = ops cn" if "vnodes s c = Some cn" for c cn
    using that assms(2) by (cases "c = a") (auto simp: upd_vnode_def)
  have "node_ok (vnodes (upd_vnode a f s)) vn" if "vnodes (upd_vnode a f s) b = Some vn" for b vn
  proof -
    have "node_ok (vnodes s) vn"
      using that assms by (cases "b = a") (auto simp: upd_vnode_def fs_ok_def)
    then show ?thesis by (rule node_ok_mono) (use keep in blast)
  qed
  moreover have "dom (vnodes (upd_vnode a f s)) \<subseteq> live (kmm (upd_vnode a f s))"
    using assms(1) by (auto simp: upd_vnode_def fs_ok_def split: if_splits)
  ultimately show ?thesis using keep by (simp add: grows_def fs_ok_def)
qed

lemma grows_kmm: "fs_ok live s \<Longrightarrow> dom (vnodes s) \<subseteq> live l \<Longrightarrow> grows live s (s\<lparr>kmm := l\<rparr>)"
  by (simp add: grows_def fs_ok_def)

lemma grows_memory: "fs_ok live s \<Longrightarrow> grows live s (s\<lparr>memory := m\<rparr>)"
  by (simp add: grows_def fs_ok_def)

section \<open>Creation of nodes\<close>

lemma node_ok_RamFsNode: "node_ok Map.empty (RamFsNode_new K t nm)"
  by (simp add: node_ok_def RamFsNode_new_def Vnode_new_def)

lemma add_child_grows:
  assumes "fs_ok live s" and "vnodes s dir = Some d" and "in_tree s c"
  shows "grows live s (upd_vnode dir (\<lambda>d. d\<lparr>children := children d @ [c]\<rparr>) s)"
proof (rule grows_upd [OF assms(1)])
  fix vn assume "vnodes s dir = Some vn"
  then have "node_ok (vnodes s) vn" using assms(1) by (simp add: fs_ok_def)
  then show "node_ok (vnodes s) (vn\<lparr>children := children vn @ [c]\<rparr>) \<and> vtype (vn\<lparr>children := children vn @ [c]\<rparr>) = vtype vn \<and>
      ops (vn\<lparr>children := children vn @ [c]\<rparr>) = ops vn"
    using assms(3) by (auto simp: node_ok_def in_tree_def)
qed

lemma add_node_grows:
  assumes K: "alloc_laws K live" and s: "fs_ok live s" "vnodes s dir = Some d" and r: "add_node K dir t nm s = (r, s')"
  shows "grows live s s' \<and> r \<noteq> Bug \<and> (\<forall>a. r = Value a \<longrightarrow> in_tree s' a \<and> (\<exists>vn. vnodes s' a = Some vn \<and> vtype vn = t \<and> ops vn = Some RamFsOps))"
proof (cases "op_new K (kmm s)")
  case (Pair q l)
  note L = alloc_lawsD [OF K]
  have dom_l: "dom (vnodes s) \<subseteq> live l" using s(1) L(2) [OF Pair] by (auto simp: fs_ok_def)
  show ?thesis
  proof (cases q)
    case None
    then show ?thesis using r Pair grows_kmm [OF s(1) dom_l] by (auto simp: add_node_def)
  next
    case (Some a)
    have a: "a \<notin> dom (vnodes s)" "a \<in> live l" using L(1,3) [of "kmm s" a l] Pair Some s(1) by (auto simp: fs_ok_def)
    obtain ok l2 where pb: "PushBack_ok K l = (ok, l2)" by fastforce
    have dom_l2: "dom (vnodes s) \<subseteq> live l2" "a \<in> live l2" using L(4) [OF pb] dom_l a(2) by auto
    show ?thesis
    proof (cases ok)
      case False
      then show ?thesis using r Pair Some pb grows_kmm [OF s(1) dom_l2(1)] by (auto simp: add_node_def)
    next
      case True
      let ?s1 = "s\<lparr>kmm := l2, vnodes := (vnodes s)(a \<mapsto> RamFsNode_new K t nm)\<rparr>"
      have g1: "grows live s ?s1" using grows_new [OF s(1) a(1) node_ok_RamFsNode dom_l2] .
      have d1: "vnodes ?s1 dir = Some d" using s(2) a(1) by auto
      have "in_tree ?s1 a" by (simp add: in_tree_def RamFsNode_new_def Vnode_new_def)
      note g2 = add_child_grows [OF grows_ok [OF g1] d1 this]
      have r': "r = Value a" "s' = upd_vnode dir (\<lambda>d. d\<lparr>children := children d @ [a]\<rparr>) ?s1"
        using r Pair Some pb True by (simp_all add: add_node_def)
      have "\<exists>vn. vnodes s' a = Some vn \<and> vtype vn = t \<and> ops vn = Some RamFsOps"
        using s(2) a(1) by (auto simp: r' upd_vnode_def RamFsNode_new_def Vnode_new_def)
      then show ?thesis using grows_trans [OF g1 g2] by (auto simp: r' in_tree_def)
    qed
  qed
qed

lemma child_in_tree:
  assumes "fs_ok live s" and "vnodes s dir = Some d" and "List.find Q (children d) = Some c"
  shows "in_tree s c"
proof -
  have "c \<in> set (children d)" using assms(3) by (auto simp: find_Some_iff)
  then show ?thesis using assms(1,2) unfolding fs_ok_def node_ok_def in_tree_def by blast
qed

lemma RamFs_ops_grow:
  assumes "alloc_laws K live" and "fs_ok live s" and "in_tree s dir"
  shows "RamFs_Create K dir nm s = (r, s') \<Longrightarrow> grows live s s' \<and> r \<noteq> Bug \<and>
      (\<forall>a. r = Value a \<longrightarrow> in_tree s' a \<and> (\<exists>vn. vnodes s' a = Some vn \<and> vtype vn = Regular \<and> ops vn = Some RamFsOps))"
    and "RamFs_Mkdir K dir nm s = (r, s') \<Longrightarrow> grows live s s' \<and> r \<noteq> Bug \<and> (\<forall>a. r = Value a \<longrightarrow> in_tree s' a)"
    and "RamFs_Mknod K dir nm t s = (r, s') \<Longrightarrow> grows live s s' \<and> r \<noteq> Bug \<and> (\<forall>a. r = Value a \<longrightarrow> in_tree s' a)"
proof -
  obtain d where d: "vnodes s dir = Some d" using assms(3) by (auto simp: in_tree_def)
  note N = add_node_grows [OF assms(1,2) d]
  show "RamFs_Create K dir nm s = (r, s') \<Longrightarrow> grows live s s' \<and> r \<noteq> Bug \<and>
      (\<forall>a. r = Value a \<longrightarrow> in_tree s' a \<and> (\<exists>vn. vnodes s' a = Some vn \<and> vtype vn = Regular \<and> ops vn = Some RamFsOps))"
    using N [of Regular nm r s'] assms(2) d by (auto simp: RamFs_Create_def split: if_splits)
  show "RamFs_Mkdir K dir nm s = (r, s') \<Longrightarrow> grows live s s' \<and> r \<noteq> Bug \<and> (\<forall>a. r = Value a \<longrightarrow> in_tree s' a)"
    using N [of Directory nm r s'] assms(2) d child_in_tree [OF assms(2) d, of "child_named s (chars (memory s) nm)"]
    by (auto simp: RamFs_Mkdir_def split: if_splits option.splits)
  show "RamFs_Mknod K dir nm t s = (r, s') \<Longrightarrow> grows live s s' \<and> r \<noteq> Bug \<and> (\<forall>a. r = Value a \<longrightarrow> in_tree s' a)"
    using N [of t nm r s'] assms(2) d by (auto simp: RamFs_Mknod_def split: if_splits)
qed

section \<open>Calls through the table\<close>

lemma in_tree_ops:
  assumes "fs_ok live s" and "in_tree s a"
  obtains vn where "vnodes s a = Some vn" and "ops vn = Some RamFsOps \<or> ops vn = Some PseudoFsOps" and "node_ok (vnodes s) vn"
proof -
  obtain vn where vn: "vnodes s a = Some vn" "ops vn \<noteq> Some PipeOps" using assms(2) by (auto simp: in_tree_def)
  then have ok: "node_ok (vnodes s) vn" using assms(1) by (simp add: fs_ok_def)
  then have "ops vn = Some RamFsOps \<or> ops vn = Some PseudoFsOps"
    using vn(2) by (cases "ops vn") (auto simp: node_ok_def intro: VnodeOps.exhaust)
  with vn(1) ok show thesis using that by blast
qed

lemma vnode_Lookup_types:
  assumes "fs_ok live s" and "in_tree s a"
  shows "vnode_Lookup a nm s \<noteq> Bug \<and> (\<forall>c. vnode_Lookup a nm s = Value c \<longrightarrow> in_tree s c)"
proof -
  obtain vn where vn: "vnodes s a = Some vn" "ops vn = Some RamFsOps \<or> ops vn = Some PseudoFsOps"
    using in_tree_ops [OF assms] by blast
  then show ?thesis
    using child_in_tree [OF assms(1) vn(1), of "child_named s nm"]
    by (auto simp: vnode_Lookup_def RamFs_Lookup_def split: option.splits if_splits)
qed

lemma vnode_Mkdir_types:
  assumes "alloc_laws K live" and "fs_ok live s" and "in_tree s a" and "vnode_Mkdir K a nm s = (r, s')"
  shows "grows live s s' \<and> r \<noteq> Bug \<and> (\<forall>c. r = Value c \<longrightarrow> in_tree s' c)"
proof -
  obtain vn where vn: "vnodes s a = Some vn" "ops vn = Some RamFsOps \<or> ops vn = Some PseudoFsOps"
    using in_tree_ops [OF assms(2,3)] by blast
  then show ?thesis using RamFs_ops_grow(2) [OF assms(1-3), of nm r s'] assms(2,4) by (auto simp: vnode_Mkdir_def)
qed

lemma vnode_Create_types:
  assumes "alloc_laws K live" and "fs_ok live s" and "in_tree s a" and "vnode_Create K a nm s = (r, s')"
  shows "grows live s s' \<and> r \<noteq> Bug \<and>
    (\<forall>c. r = Value c \<longrightarrow> in_tree s' c \<and> (\<exists>vn. vnodes s' c = Some vn \<and> vtype vn = Regular \<and> ops vn = Some RamFsOps))"
proof -
  obtain vn where vn: "vnodes s a = Some vn" "ops vn = Some RamFsOps \<or> ops vn = Some PseudoFsOps"
    using in_tree_ops [OF assms(2,3)] by blast
  then show ?thesis using RamFs_ops_grow(1) [OF assms(1-3), of nm r s'] assms(2,4) by (auto simp: vnode_Create_def)
qed

lemma Write_loop_types:
  "alloc_laws K live \<Longrightarrow> ramfs_Write_loop K buffer offset sz copied (v, m, l) = (r, v', m', l') \<Longrightarrow>
   live l \<subseteq> live l' \<and> (page_objects K \<longrightarrow> r \<noteq> Bug)"
proof (induction K buffer offset sz copied "(v, m, l)" arbitrary: v m l rule: ramfs_Write_loop.induct)
  case (1 K buffer offset sz copied v m l)
  show ?case
  proof (cases "copied < sz")
    case False
    then show ?thesis using 1(3) by (auto simp: ramfs_Write_loop.simps)
  next
    case True
    note IH = 1(1) [OF True refl refl refl]
    show ?thesis
    proof (cases "vmo_Lookup K v (offset + copied)")
      case None
      obtain q l1 where a: "AllocatePage K l = (q, l1)" by fastforce
      obtain q2 l2 where n: "op_new K l1 = (q2, l2)" by fastforce
      have l1: "live l \<subseteq> live l1" "live l1 \<subseteq> live l2" "page_objects K \<Longrightarrow> q \<noteq> None \<Longrightarrow> q2 \<noteq> None"
        using alloc_lawsD(5) [OF 1(2) a] alloc_lawsD(2) [OF 1(2) n] a n unfolding page_objects_def by (auto, metis fst_conv option.distinct(1))
      show ?thesis
      proof (cases "q = None \<or> q2 = None")
        case True
        then have "(r, l') = (if q = None then (Unexpected (- ENOMEM), l1) else (Bug, l2))"
          using 1(3) \<open>copied < sz\<close> None a n by (subst (asm) ramfs_Write_loop.simps) (auto simp: Let_def)
        then show ?thesis using True l1 by (auto split: if_splits)
      next
        case False
        then show ?thesis
          using 1(3) \<open>copied < sz\<close> None a n l1 IH [OF _ refl refl refl _ 1(2)]
          by (subst (asm) ramfs_Write_loop.simps) (fastforce simp: Let_def)
      qed
    next
      case (Some phys)
      then show ?thesis
        using 1(3) True IH [OF _ refl refl refl _ 1(2)]
        by (subst (asm) ramfs_Write_loop.simps) (fastforce simp: Let_def)
    qed
  qed
qed

text \<open>A write to a file of the RAM file system returns a value or an error, if page objects have storage.\<close>

lemma RamFs_Write_types:
  assumes K: "alloc_laws K live" and s: "fs_ok live s" "vnodes s a = Some vn" and w: "RamFs_Write K a buffer sz offset s = (r, s')"
  shows "grows live s s' \<and> (page_objects K \<longrightarrow> r \<noteq> Bug)"
proof (cases "vtype vn = Regular \<and> vmo vn \<noteq> None")
  case False
  then show ?thesis using s w by (auto simp: RamFs_Write_def split: if_splits option.splits)
next
  case True
  then obtain v where v: "vtype vn = Regular" "vmo vn = Some v" by blast
  obtain res v1 m1 l1 where loop: "ramfs_Write_loop K buffer offset sz 0 (v, memory s, kmm s) = (res, v1, m1, l1)"
    by (metis prod_cases4)
  let ?s1 = "s\<lparr>memory := m1, kmm := l1\<rparr>" and ?f = "\<lambda>vn. vn\<lparr>vmo := Some v1\<rparr>" and ?g = "\<lambda>vn. vn\<lparr>v_size := offset + sz\<rparr>"
  have "dom (vnodes s) \<subseteq> live l1" using s(1) Write_loop_types [OF K loop] by (auto simp: fs_ok_def)
  then have g1: "grows live s ?s1" using s(1) by (simp add: grows_def fs_ok_def)
  have g2: "grows live ?s1 (upd_vnode a ?f ?s1)"
    using s by (intro grows_upd grows_ok [OF g1]) (auto simp: fs_ok_def node_ok_def)
  have g3: "grows live (upd_vnode a ?f ?s1) (upd_vnode a ?g (upd_vnode a ?f ?s1))"
    using grows_ok [OF g2] by (intro grows_upd grows_ok [OF g2]) (auto simp: fs_ok_def node_ok_def)
  have "s' = upd_vnode a ?f ?s1 \<or> s' = upd_vnode a ?g (upd_vnode a ?f ?s1)" "page_objects K \<Longrightarrow> r \<noteq> Bug"
    using w s(2) v loop Write_loop_types [OF K loop] by (auto simp: RamFs_Write_def Let_def split: expected.splits if_splits)
  then show ?thesis using grows_trans [OF g1 g2] grows_trans [OF grows_trans [OF g1 g2] g3] by blast
qed

section \<open>Paths and archives\<close>

lemma resolve_types:
  assumes "fs_ok live s" and "in_tree s a"
  shows "resolve s a cs \<noteq> Bug \<and> (\<forall>v. resolve s a cs = Value v \<longrightarrow> in_tree s v)"
  using assms(2)
proof (induction cs arbitrary: a)
  case (Cons c cs)
  obtain vn where vn: "vnodes s a = Some vn" using Cons.prems by (auto simp: in_tree_def)
  show ?case
    using vnode_Lookup_types [OF assms(1) Cons.prems, of c] Cons.IH
    by (cases "vnode_Lookup a c s") (auto simp: vn)
qed simp

lemma entry_dirs_types:
  assumes "alloc_laws K live" and "fs_ok live s" and "in_tree s current" and "entry_dirs K current ptr rest s = (r, s')"
  shows "grows live s s' \<and> r \<noteq> Bug \<and> (\<forall>c v. r = Value (c, v) \<longrightarrow> in_tree s' c)"
  using assms
proof (induction K current ptr rest s arbitrary: r s' rule: entry_dirs.induct)
  case (1 K current ptr rest s)
  show ?case
  proof (cases "dropWhile (\<lambda>c. c \<noteq> CHR ''/'') rest")
    case Nil
    have "entry_dirs K current ptr rest s = (Value (current, View ptr (length rest)), s)"
      by (subst entry_dirs.simps) (simp only: Nil list.case)
    then have "r = Value (current, View ptr (length rest))" "s' = s" using "1.prems"(4) by simp_all
    then show ?thesis using "1.prems"(2,3) by simp
  next
    case (Cons x rest')
    define dn where "dn = takeWhile (\<lambda>c. c \<noteq> CHR ''/'') rest"
    define p' where "p' = ptr + of_nat (length dn + 1)"
    have unf: "entry_dirs K current ptr rest s =
        (if dn = [] \<or> dn = ''.'' then entry_dirs K current p' rest' s
         else case vnode_Lookup current dn s of
           Value v \<Rightarrow> entry_dirs K v p' rest' s
         | Unexpected _ \<Rightarrow> (case vnode_Mkdir K current (View ptr (length dn)) s of
             (Value v, s) \<Rightarrow> entry_dirs K v p' rest' s | (Unexpected e, s) \<Rightarrow> (Unexpected e, s) | (Bug, s) \<Rightarrow> (Bug, s))
         | Bug \<Rightarrow> (Bug, s))"
      by (subst entry_dirs.simps) (simp only: Cons list.case Let_def dn_def [symmetric] p'_def [symmetric])
    note IH = "1.IH" [OF Cons dn_def p'_def]
    show ?thesis
    proof (cases "dn = [] \<or> dn = ''.''")
      case True
      then have "entry_dirs K current p' rest' s = (r, s')" using "1.prems"(4) unf by simp
      then show ?thesis by (rule IH(1) [OF True "1.prems"(1-3)])
    next
      case False
      show ?thesis
      proof (cases "vnode_Lookup current dn s")
        case (Value v)
        then have "in_tree s v" using vnode_Lookup_types [OF "1.prems"(2,3)] by blast
        moreover have "entry_dirs K v p' rest' s = (r, s')" using "1.prems"(4) unf False Value by simp
        ultimately show ?thesis by (rule IH(2) [OF False Value "1.prems"(1,2)])
      next
        case (Unexpected e)
        obtain q s1 where mk: "vnode_Mkdir K current (View ptr (length dn)) s = (q, s1)" by fastforce
        note M = vnode_Mkdir_types [OF "1.prems"(1-3) mk]
        have eq: "entry_dirs K current ptr rest s =
            (case q of Value v \<Rightarrow> entry_dirs K v p' rest' s1 | Unexpected e \<Rightarrow> (Unexpected e, s1) | Bug \<Rightarrow> (Bug, s1))"
          using unf False Unexpected mk by (simp only: if_False expected.case prod.case)
        show ?thesis
        proof (cases q)
          case (Value v)
          have in1: "in_tree s1 v" "fs_ok live s1" using M Value grows_ok by blast+
          have "entry_dirs K v p' rest' s1 = (r, s')" using "1.prems"(4) eq Value by simp
          then have "grows live s1 s' \<and> r \<noteq> Bug \<and> (\<forall>c v. r = Value (c, v) \<longrightarrow> in_tree s' c)"
            by (rule IH(3) [OF False Unexpected mk [symmetric] Value "1.prems"(1) in1(2,1)])
          then show ?thesis using M grows_trans by blast
        qed (use M "1.prems"(4) eq in auto)
      next
        case Bug
        then show ?thesis using vnode_Lookup_types [OF "1.prems"(2,3)] by blast
      qed
    qed
  qed
qed

lemma CreateEntry_types:
  assumes K: "alloc_laws K live" and s: "fs_ok live s" "in_tree s root" and run: "CreateEntry K root path md dat sz s = (r, s')"
  shows "grows live s s' \<and> (page_objects K \<longrightarrow> r = Value ())"
proof (cases "chars (memory s) path = ''.''")
  case True
  then show ?thesis using run s(1) by (simp add: CreateEntry_def)
next
  case False
  obtain q s1 where ed: "entry_dirs K root (case path of View p _ \<Rightarrow> p | Literal _ \<Rightarrow> 0) (chars (memory s) path) s = (q, s1)"
    by fastforce
  note E = entry_dirs_types [OF K s ed]
  show ?thesis
  proof (cases q)
    case (Value cl)
    obtain current leaf where cl: "cl = (current, leaf)" by fastforce
    have g1: "grows live s s1" and in1: "in_tree s1 current" using E Value cl by blast+
    note ok1 = grows_ok [OF g1]
    show ?thesis
    proof (cases "sv_size leaf = 0")
      case True
      then show ?thesis using run False ed Value cl g1 by (simp add: CreateEntry_def)
    next
      case leaf: False
      show ?thesis
      proof (cases "md AND 0xF000 = 0x4000")
        case True
        obtain q2 s2 where mk: "vnode_Mkdir K current leaf s1 = (q2, s2)" by fastforce
        note M = vnode_Mkdir_types [OF K ok1 in1 mk]
        have "(r, s') = (case q2 of Bug \<Rightarrow> (Bug, s2) | _ \<Rightarrow> (Value (), s2))"
          using run False ed Value cl leaf True mk by (cases q2) (simp_all add: CreateEntry_def)
        then show ?thesis using M grows_trans [OF g1] by (cases q2) auto
      next
        case nodir: False
        show ?thesis
        proof (cases "md AND 0xF000 = 0x8000")
          case True
          obtain q2 s2 where cr: "vnode_Create K current leaf s1 = (q2, s2)" by fastforce
          note C = vnode_Create_types [OF K ok1 in1 cr]
          have g2: "grows live s s2" using C grows_trans [OF g1] by blast
          have step: "(r, s') = (case q2 of Bug \<Rightarrow> (Bug, s2) | Unexpected _ \<Rightarrow> (Value (), s2)
              | Value f \<Rightarrow> (case vnode_Write K f dat sz 0 s2 of
                  (Return (Value _), s) \<Rightarrow> (Value (), s) | (Return (Unexpected _), s) \<Rightarrow> (Value (), s) | (_, s) \<Rightarrow> (Bug, s)))"
            using run False ed Value cl leaf nodir True cr by (cases q2) (simp_all add: CreateEntry_def)
          show ?thesis
          proof (cases q2)
            case (Value f)
            obtain vn where vn: "vnodes s2 f = Some vn" "ops vn = Some RamFsOps" using C Value by blast
            obtain q3 s3 where w: "RamFs_Write K f dat sz 0 s2 = (q3, s3)" by fastforce
            note W = RamFs_Write_types [OF K grows_ok [OF g2] vn(1) w]
            have "vnode_Write K f dat sz 0 s2 = (Return q3, s3)" using vn w by (simp add: vnode_Write_def)
            then have "(r, s') = (case q3 of Bug \<Rightarrow> (Bug, s3) | _ \<Rightarrow> (Value (), s3))"
              using step Value by (cases q3) simp_all
            then show ?thesis using W grows_trans [OF g2] by (cases q3) auto
          qed (use C step g2 in auto)
        next
          case False
          then show ?thesis using run \<open>chars (memory s) path \<noteq> ''.''\<close> ed Value cl leaf nodir g1 by (simp add: CreateEntry_def)
        qed
      qed
    qed
  qed (use E run False ed in \<open>auto simp: CreateEntry_def\<close>)
qed

lemma Populate_loop_types:
  assumes "Populate_loop K root ptr pend s = Some rs" and "alloc_laws K live" and "fs_ok live s" and "in_tree s root"
  shows "grows live s (snd rs) \<and> (page_objects K \<longrightarrow> fst rs = Value ())"
proof -
  have "alloc_laws K live \<longrightarrow> fs_ok live s \<longrightarrow> in_tree s root \<longrightarrow> grows live s (snd rs) \<and> (page_objects K \<longrightarrow> fst rs = Value ())"
  proof (rule Populate_loop.raw_induct [OF _ assms(1), where P = "\<lambda>K root ptr pend s rs.
      alloc_laws K live \<longrightarrow> fs_ok live s \<longrightarrow> in_tree s root \<longrightarrow> grows live s (snd rs) \<and> (page_objects K \<longrightarrow> fst rs = Value ())"], goal_cases)
    case (1 loop K root ptr pend s rs)
    show ?case
    proof (intro impI)
      assume K: "alloc_laws K live" and s: "fs_ok live s" "in_tree s root"
      show "grows live s (snd rs) \<and> (page_objects K \<longrightarrow> fst rs = Value ())"
      proof (cases "ptr < pend \<and> read_entry (memory s) ptr \<noteq> None")
        case False
        then have "rs = (Value (), s)" using "1"(2) by (auto split: if_splits option.splits)
        then show ?thesis using s(1) by simp
      next
        case True
        then obtain e ptr' where e: "ptr < pend" "read_entry (memory s) ptr = Some (e, ptr')" by auto
        obtain q s1 where c: "CreateEntry K root (entry_name e) (e_mode e) (e_data e) (e_filesize e) s = (q, s1)" by fastforce
        note C = CreateEntry_types [OF K s c]
        show ?thesis
        proof (cases q)
          case (Value u)
          then have "loop K root ptr' pend s1 = Some rs" using "1"(2) e c by simp
          then have "grows live s1 (snd rs) \<and> (page_objects K \<longrightarrow> fst rs = Value ())"
            using "1"(1) K grows_ok in_tree_grows C s(2) by blast
          then show ?thesis using C grows_trans by blast
        qed (use "1"(2) e c C in auto)
      qed
    qed
  qed
  then show ?thesis using assms(2-4) by blast
qed

section \<open>Properties\<close>

text \<open>
  A path leads to a node or to an error, never to a null pointer. In a well-typed file system (every node has its
  operation table, directories are of the RAM file system, children exist and are no pipes), resolving any string from a node of the tree
  returns a node of the tree or an error number; it cannot reach a missing node or call an operation that is not there.
\<close>

theorem path_resolution_typed:
  assumes "fs_ok live s" and "in_tree s root"
  shows "case PathToVnode root path s of Value v \<Rightarrow> in_tree s v | Unexpected e \<Rightarrow> True | Bug \<Rightarrow> False"
  using resolve_types [OF assms, of "components path"] by (simp add: PathToVnode_resolve split: expected.split)

text \<open>
  C28: Unpacking an archive is safe for every content of the archive. Whatever bytes memory holds, the loop over the entries
  ends and leaves a well-typed file system, in which all nodes of before exist with their type and operation table; and if the allocator
  has storage for a page object whenever it had a page, it reaches no null pointer. (That storage is not checked in the code. The allocator
  returns storage of no live object, and the archive does not reach within 16 GiB of the top of the address space. The sizes in the headers are
  not checked against the end of the archive: reads beyond it are taken to return some bytes and not to fault.)
\<close>

theorem Populate_typed:
  assumes "alloc_laws K live" and "fs_ok live s" and "in_tree s root" and "unat (address + sz) + 2 ^ 34 \<le> 2 ^ 64"
  shows "\<exists>r s'. Populate K root address sz s = Some (r, s') \<and> grows live s s' \<and> (page_objects K \<longrightarrow> r = Value ())"
proof -
  obtain r s' where p: "Populate_loop K root address (address + sz) s = Some (r, s')"
    using Populate_loop_total [OF assms(4)] by fastforce
  from Populate_loop_types [OF p assms(1-3)] p show ?thesis by (simp add: Populate_def)
qed

section \<open>Concrete instances\<close>

text \<open>An allocator of a few objects, used up by nodes and by vectors; the nodes and open files of the examples are live from the start.\<close>

definition ex_pool :: "((u64 \<times> u64) list, u8 list, nat) fk" where
  "ex_pool = ex_fk\<lparr>op_new := (\<lambda>k. if k < 64 then (Some (0x100000 + 256 * of_nat k), Suc k) else (None, k)),
     PushBack_ok := (\<lambda>k. if k < 64 then (True, Suc k) else (False, k))\<rparr>"

definition ex_live :: "nat \<Rightarrow> addr set" where
  "ex_live k = {1, 2, 5, 100, 200} \<union> (\<lambda>i. 0x100000 + 256 * of_nat i) ` {i. i < k \<and> i < 64}"

lemma ex_pool_laws: "storage_laws ex_pool ex_live (\<lambda>k. 64 - k)"
proof -
  have u: "unat (0x100000 + 256 * of_nat k :: u64) = 0x100000 + 256 * k" if "k < 64" for k
    using that by (simp add: unat_word_ariths unsigned_of_nat take_bit_eq_mod)
  have "0x100000 + 256 * of_nat k \<notin> ex_live k" if k: "k < 64" for k
  proof -
    have low: "0x100000 + 256 * of_nat k \<noteq> c" if "unat c < 0x100000" for c :: u64
      using that u [OF k] by (metis not_add_less1)
    have "0x100000 + 256 * of_nat k \<noteq> (0x100000 + 256 * of_nat i :: u64)" if "i < k" for i
    proof
      assume "0x100000 + 256 * of_nat k = (0x100000 + 256 * of_nat i :: u64)"
      then have "0x100000 + 256 * k = 0x100000 + 256 * i"
        unfolding u [OF k, symmetric] u [OF less_trans [OF that k], symmetric] by (rule arg_cong)
      then show False using that by simp
    qed
    moreover have "0x100000 + 256 * of_nat k \<noteq> (1 :: u64)" "0x100000 + 256 * of_nat k \<noteq> (2 :: u64)"
      "0x100000 + 256 * of_nat k \<noteq> (5 :: u64)" "0x100000 + 256 * of_nat k \<noteq> (100 :: u64)" "0x100000 + 256 * of_nat k \<noteq> (200 :: u64)"
      by (rule low, simp)+
    ultimately show ?thesis unfolding ex_live_def by blast
  qed
  moreover have "ex_live (Suc k) = insert (0x100000 + 256 * of_nat k) (ex_live k)" if "k < 64" for k
    using that by (auto simp: ex_live_def less_Suc_eq)
  moreover have "ex_live k \<subseteq> ex_live (Suc k)" for k by (auto simp: ex_live_def)
  ultimately show ?thesis by (auto simp: storage_laws_def alloc_laws_def ex_pool_def ex_fk_def split: if_splits)
qed

lemma ex_pool_alloc: "alloc_laws ex_pool ex_live"
  using ex_pool_laws by (simp add: storage_laws_def)

lemma ex_fs_ok: "fs_ok ex_live ex_fsys" "in_tree ex_fsys 2"
  by (auto simp: fs_ok_def ex_fsys_def node_ok_def RamFsNode_new_def Vnode_new_def in_tree_def ex_live_def split: if_splits)

theorem path_resolution_typed_witness:
  "\<not> (PathToVnode 2 ''/sbin/init'' ex_fsys = Bug) \<and> fs_ok ex_live ex_fsys"
  using path_resolution_typed [OF ex_fs_ok, of "''/sbin/init''"] ex_fs_ok(1) by (auto split: expected.splits)

lemma ex_pool_objects: "page_objects ex_pool"
  by (simp add: page_objects_def ex_pool_def ex_fk_def)

theorem Populate_typed_witness:
  "\<exists>e s'. Populate ex_pool 2 0 120 (ex_fsys\<lparr>memory := ex_image_mem\<rparr>) = Some (Value (), s') \<and>
     grows ex_live (ex_fsys\<lparr>memory := ex_image_mem\<rparr>) s' \<and>
     read_entry ex_image_mem 0 = Some (e, 120) \<and> chars ex_image_mem (entry_name e) = ''up'' \<and> e_mode e = 0x81A4 \<and> e_filesize e = 2"
proof -
  let ?s = "ex_fsys\<lparr>memory := ex_image_mem\<rparr>"
  have ok: "fs_ok ex_live ?s" "in_tree ?s 2"
    using ex_fs_ok by (simp_all add: fs_ok_def in_tree_def)
  have "map_option (\<lambda>(e, n). (chars ex_image_mem (entry_name e), e_mode e, e_filesize e, n)) (read_entry ex_image_mem 0) =
      Some (''up'', 0x81A4, 2, 120)"
    by code_simp
  then obtain e where "read_entry ex_image_mem 0 = Some (e, 120)" "chars ex_image_mem (entry_name e) = ''up''" "e_mode e = 0x81A4" "e_filesize e = 2"
    by auto
  then show ?thesis using Populate_typed [OF ex_pool_alloc ok, of 0 120] ex_pool_objects by auto
qed

end
