(* ===== verification/SysCounts.thy ===== *)
theory SysCounts
  imports SysFiles FsTypes
begin

text \<open>
  The system calls on files keep the reference counts of open files exact. The interface between the handlers and the
  counts is the locale \<open>counted_calls\<close>: an invariant that allows for one more reference while a handler runs.
\<close>

section \<open>Steps that keep objects\<close>

text \<open>A step that opens no file and frees no object.\<close>

definition tame :: "('k \<Rightarrow> addr set) \<Rightarrow> ('v, 'r, 'k) filesys \<Rightarrow> ('v, 'r, 'k) filesys \<Rightarrow> bool" where
  "tame live s s' \<longleftrightarrow> dom (files s') \<subseteq> dom (files s) \<and> live (kmm (fs s)) \<subseteq> live (kmm (fs s'))"

lemma tame_refl [simp]: "tame live s s"
  by (simp add: tame_def)

lemma tame_trans [trans]: "tame live s s' \<Longrightarrow> tame live s' s'' \<Longrightarrow> tame live s s''"
  unfolding tame_def by blast

lemma tame_upd_file [simp]: "tame live s (upd_file d f s)"
  by (auto simp: tame_def upd_file_def split: if_splits)

lemma kmm_vnode_Close [simp]: "kmm (vnode_Close a flags s) = kmm s"
  by (simp add: vnode_Close_def upd_vnode_def split: option.split VnodeOps.split)

lemma kmm_vnode_Open [simp]: "kmm (vnode_Open a flags s) = kmm s"
  by (simp add: vnode_Open_def upd_vnode_def split: option.split VnodeOps.split)

lemma tame_addref [simp]: "tame live s (fd_addref d s)"
  by (simp add: fd_addref_def)

lemma tame_release [simp]: "tame live s (fd_release d s)"
  by (auto simp: fd_release_def FileDescription_Destroy_def tame_def upd_file_def split: option.splits if_splits)

lemma tame_grow: "alloc_laws K live \<Longrightarrow> grow K n T s = (ok, T', s') \<Longrightarrow> tame live s s'"
  by (auto simp: grow_def tame_def alloc_lawsD(4) [THEN subsetD] split: if_splits prod.splits)

lemma tame_reset_slot: "reset_slot i T s = (T', s') \<Longrightarrow> tame live s s'"
  by (auto simp: reset_slot_def split: option.splits)

lemma tame_FreeFd: "FreeFd fd T s = (T', s') \<Longrightarrow> tame live s s'"
  by (auto simp: FreeFd_def tame_reset_slot split: if_splits)

lemma tame_AllocateFdAt:
  assumes "alloc_laws K live" and "AllocateFdAt K fd fo T s = (r, T', s')"
  shows "tame live s s'"
proof (cases fo)
  case (Some d)
  obtain ok T1 s1 where g: "grow K (unat fd + 1) T s = (ok, T1, s1)" by (cases "grow K (unat fd + 1) T s") auto
  obtain T2 s2 where rs: "reset_slot (unat fd) T1 s1 = (T2, s2)" by fastforce
  note t1 = tame_grow [OF assms(1) g] and t2 = tame_reset_slot [OF rs, where live = live]
  show ?thesis
    using assms(2) Some g rs t1 tame_trans [OF tame_trans [OF t1 t2] tame_addref]
    by (auto simp: AllocateFdAt_def split: if_splits bool.splits)
qed (use assms in \<open>simp add: AllocateFdAt_def\<close>)

lemma tame_AllocateFd_loop:
  "alloc_laws K live \<Longrightarrow> AllocateFd_loop K d fd T s = (r, T', s') \<Longrightarrow> tame live s s'"
proof (induction K d fd T s rule: AllocateFd_loop.induct)
  case (1 K d fd T s)
  obtain ok T1 s1 where g: "grow K (fd + 1) T s = (ok, T1, s1)" by (cases "grow K (fd + 1) T s") auto
  note t1 = tame_grow [OF 1(2) g]
  show ?case
    using 1(3) g t1 1(1) [OF _ g [symmetric] _ refl] 1(2) tame_trans [OF t1] tame_trans [OF t1 tame_addref]
    by (subst (asm) AllocateFd_loop.simps) (auto split: if_splits bool.splits)
qed

lemma tame_AllocateFd: "alloc_laws K live \<Longrightarrow> AllocateFd K fo T s = (r, T', s') \<Longrightarrow> tame live s s'"
  by (auto simp: AllocateFd_def tame_AllocateFd_loop split: option.splits)

section \<open>The invariant\<close>

definition counted :: "('k \<Rightarrow> addr set) \<Rightarrow> (addr \<Rightarrow> nat) \<Rightarrow> addr \<Rightarrow> ('v, 'r, 'k, 'a) kernel \<Rightarrow> bool" where
  "counted live others p k \<longleftrightarrow>
     (\<exists>pr. procs k p = Some pr \<and> refs_ok others (m_fd_table pr) (io k)) \<and> dom (files (io k)) \<subseteq> live (kmm_of k)"

text \<open>A handler holds a reference while it runs, taken from a descriptor and given back at the end.\<close>

locale counted_calls =
  fixes I :: "(addr \<Rightarrow> nat) \<Rightarrow> addr \<Rightarrow> ('v, 'r, 'k, 'a) kernel \<Rightarrow> bool"
  assumes hold: "I others p k \<Longrightarrow> procs k p = Some pr \<Longrightarrow> GetFd (m_fd_table pr) fd = Some d \<Longrightarrow>
      I (others(d := others d + 1)) p (on_io (fd_addref d) k)"
    and let_go: "I (others(d := others d + 1)) p k \<Longrightarrow> I others p (on_io (fd_release d) k)"
begin

lemma with_fd_keeps:
  assumes "I others p k" and "with_fd p fd body k = (Ret w, k')"
    and "\<And>d oth k1 w k2. 0 < oth d \<Longrightarrow> I oth p k1 \<Longrightarrow> body d k1 = (Ret w, k2) \<Longrightarrow> I oth p k2"
  shows "I others p k'"
proof (cases "procs k p")
  case (Some pr)
  show ?thesis
  proof (cases "GetFd (m_fd_table pr) fd")
    case None
    then show ?thesis using assms(1,2) Some by (simp add: with_fd_def)
  next
    case fd: (Some d)
    obtain r k2 where b: "body d (on_io (fd_addref d) k) = (r, k2)" by fastforce
    have r: "r = Ret w" and k': "k' = on_io (fd_release d) k2"
      using assms(2) Some fd b by (auto simp: with_fd_def split: sysret.splits)
    have "I (others(d := others d + 1)) p k2"
      by (rule assms(3) [OF _ hold [OF assms(1) Some fd] b [unfolded r]]) simp
    then show ?thesis unfolding k' by (rule let_go)
  qed
qed (use assms(2) in \<open>simp add: with_fd_def\<close>)

end

lemma GetFd_slot: "GetFd T fd = Some d \<Longrightarrow> 0 < slot_refs T d"
  by (auto simp: GetFd_def split: if_splits intro: slot_refs_pos [of "unat fd"])

lemma tame_dom: "tame live s s' \<Longrightarrow> dom (files s) \<subseteq> live (kmm (fs s)) \<Longrightarrow> dom (files s') \<subseteq> live (kmm (fs s'))"
  unfolding tame_def by blast

interpretation counts: counted_calls "counted live" for live
proof
  fix others p k pr fd d
  assume c: "counted live others p k" and pr: "procs k p = Some pr" and fd: "GetFd (m_fd_table pr) fd = Some d"
  have ok: "refs_ok others (m_fd_table pr) (io k)" using c pr by (simp add: counted_def)
  then have pos: "0 < refs (io k) d" using GetFd_slot [OF fd] by (simp add: refs_ok_def)
  have "refs_ok (others(d := others d + 1)) (m_fd_table pr) (fd_addref d (io k))"
    using ok refs_addref [OF pos] by (auto simp: refs_ok_def)
  then show "counted live (others(d := others d + 1)) p (on_io (fd_addref d) k)"
    using c pr tame_dom [OF tame_addref [of live "io k" d]] by (simp add: counted_def on_io_def kmm_of_def)
next
  fix others d p k
  assume c: "counted live (others(d := others d + 1)) p k"
  then obtain pr where pr: "procs k p = Some pr" and ok: "refs_ok (others(d := others d + 1)) (m_fd_table pr) (io k)"
    by (auto simp: counted_def)
  then have pos: "0 < refs (io k) d" by (simp add: refs_ok_def)
  have "refs_ok others (m_fd_table pr) (fd_release d (io k))"
    using ok refs_release [OF pos] by (auto simp: refs_ok_def)
  then show "counted live others p (on_io (fd_release d) k)"
    using c pr tame_dom [OF tame_release [of live "io k" d]] by (simp add: counted_def on_io_def kmm_of_def)
qed

section \<open>Steps that leave the counts alone\<close>

definition same_refs :: "('k \<Rightarrow> addr set) \<Rightarrow> ('v, 'r, 'k) filesys \<Rightarrow> ('v, 'r, 'k) filesys \<Rightarrow> bool" where
  "same_refs live s s' \<longleftrightarrow>
     (\<forall>d. map_option fd_refs (files s' d) = map_option fd_refs (files s d)) \<and> live (kmm (fs s)) \<subseteq> live (kmm (fs s'))"

lemma same_refs_refl [simp]: "same_refs live s s"
  by (simp add: same_refs_def)

lemma same_refs_trans: "same_refs live s s' \<Longrightarrow> same_refs live s' s'' \<Longrightarrow> same_refs live s s''"
  by (auto simp: same_refs_def)

lemma same_refs_upd [simp]: "(\<And>f. fd_refs (g f) = fd_refs f) \<Longrightarrow> same_refs live s (upd_file d g s)"
  by (auto simp: same_refs_def upd_file_def option.map_comp comp_def)

lemma same_refs_set_fs: "live (kmm (fs s)) \<subseteq> live (kmm t) \<Longrightarrow> same_refs live s (set_fs t s)"
  by (simp add: same_refs_def set_fs_def)

lemma refs_alt: "refs s d = (case map_option fd_refs (files s d) of Some n \<Rightarrow> n | None \<Rightarrow> 0)"
  by (simp add: refs_def split: option.split)

lemma live_ok_alt: "live_ok s \<longleftrightarrow> (\<forall>d n. map_option fd_refs (files s d) = Some n \<longrightarrow> 0 < n)"
  by (auto simp: live_ok_def)

lemma counted_same:
  assumes "counted live others p k" and "procs k' = procs k" and "same_refs live (io k) (io k')"
  shows "counted live others p k'"
proof -
  have eq: "map_option fd_refs (files (io k') d) = map_option fd_refs (files (io k) d)" for d
    using assms(3) by (simp add: same_refs_def)
  have "refs_ok oth T (io k') = refs_ok oth T (io k)" for oth T
    by (simp add: refs_ok_def refs_alt live_ok_alt eq)
  moreover have "dom (files (io k')) = dom (files (io k))"
    using eq by (auto simp: dom_def) (metis map_option_eq_Some)+
  ultimately show ?thesis
    using assms by (auto simp: counted_def same_refs_def kmm_of_def)
qed

lemma live_vnode_Write:
  assumes "alloc_laws K live" and "vnode_Write K a buffer sz offset t = (r, t')"
  shows "live (kmm t) \<subseteq> live (kmm t')"
proof -
  have pseudo: "kmm (snd (PseudoFs_Write a buffer sz offset t)) = kmm t"
  proof -
    have "kmm (fold (\<lambda>i s. let ch = memory s (buffer + of_nat i);
        (c, m) = linearfb_console_putc ch (screen_console s, memory s)
        in s\<lparr>screen_console := c, memory := m, debug_port := debug_port s @ [ch]\<rparr>) xs t) = kmm t" for xs :: "nat list" and t
      by (induction xs arbitrary: t) (simp_all add: Let_def split: prod.split)
    then have "kmm (console_write buffer sz t) = kmm t" by (simp add: console_write_def)
    then have "kmm (snd (run_write_cb cb buffer sz offset t)) = kmm t" for cb by (cases cb) simp_all
    then show ?thesis by (simp add: PseudoFs_Write_def split: option.split prod.split) (metis snd_conv)
  qed
  have ram: "live (kmm t) \<subseteq> live (kmm t')" if "RamFs_Write K a buffer sz offset t = (r', t')" for r' t'
  proof (cases "vnodes t a")
    case (Some vn)
    show ?thesis
    proof (cases "vmo vn")
      case v: (Some v)
      obtain res v1 m1 l1 where w: "ramfs_Write_loop K buffer offset sz 0 (v, memory t, kmm t) = (res, v1, m1, l1)"
        by (metis prod_cases4)
      show ?thesis
        using that Some v w Write_loop_types [OF assms(1) w]
        by (auto simp: RamFs_Write_def Let_def upd_vnode_def split: if_splits expected.splits)
    qed (use that Some in \<open>auto simp: RamFs_Write_def split: if_splits\<close>)
  qed (use that in \<open>simp add: RamFs_Write_def\<close>)
  show ?thesis
  proof (cases "Option.bind (vnodes t a) ops")
    case (Some q)
    then show ?thesis
      using assms(2) ram pseudo
      by (cases q) (auto simp: vnode_Write_def PipeVnode_Write_def upd_vnode_def apfst_def map_prod_def split: prod.splits option.splits)
  qed (use assms(2) in \<open>simp add: vnode_Write_def\<close>)
qed

lemma kmm_vnode_Read: "vnode_Read K a buffer sz offset t = (r, t') \<Longrightarrow> kmm t' = kmm t"
  by (auto simp: vnode_Read_def RamFs_Read_def PseudoFs_Read_def PipeVnode_Read_def Let_def upd_vnode_def apfst_def map_prod_def
      split: option.splits VnodeOps.splits prod.splits if_splits blocking.splits expected.splits)

lemma same_refs_advance: "same_refs live s s' \<Longrightarrow> same_refs live s (advance d r s')"
  by (auto simp: advance_def intro: same_refs_trans split: blocking.split expected.split)

lemma same_refs_Read:
  assumes "FileDescription_Read K d buffer sz s = (r, s')"
  shows "same_refs live s s'"
  using assms
  by (auto simp: FileDescription_Read_def kmm_vnode_Read split: option.splits if_splits prod.splits
      intro!: same_refs_advance same_refs_set_fs)

lemma same_refs_Write:
  assumes "alloc_laws K live" and "FileDescription_Write K d buffer sz s = (r, s')"
  shows "same_refs live s s'"
  using assms(2)
  by (auto simp: FileDescription_Write_def split: option.splits if_splits prod.splits
      intro!: same_refs_advance same_refs_set_fs live_vnode_Write [OF assms(1)])

section \<open>Operations on the table\<close>

lemma counted_on_table:
  assumes "counted live oth p k" and "on_table p f k = (r, k')"
    and "\<And>T s r T' s'. refs_ok oth T s \<Longrightarrow> f T s = (r, T', s') \<Longrightarrow> refs_ok oth T' s' \<and> tame live s s'"
  shows "counted live oth p k'"
proof -
  obtain pr where pr: "procs k p = Some pr" and ok: "refs_ok oth (m_fd_table pr) (io k)"
    using assms(1) by (auto simp: counted_def)
  obtain r1 T1 s1 where f: "f (m_fd_table pr) (io k) = (r1, T1, s1)" by (metis prod_cases3)
  have "k' = upd_proc p (\<lambda>pr. pr\<lparr>m_fd_table := T1\<rparr>) (k\<lparr>io := s1\<rparr>)"
    using assms(2) pr f by (simp add: on_table_def)
  then show ?thesis
    using assms(1) pr assms(3) [OF ok f] tame_dom [of live "io k" s1] by (simp add: counted_def kmm_of_def)
qed

lemma AllocateFd_counts:
  assumes "alloc_laws K live" and "0 < oth d" and "refs_ok oth T s" and "AllocateFd K (Some d) T s = (r, T', s')"
  shows "refs_ok oth T' s' \<and> tame live s s'"
proof -
  have "AllocateFd_loop K d 0 T s = (r, T', s')" using assms(4) by (simp add: AllocateFd_def)
  then have "refs_ok oth T' s'"
    using AllocateFd_loop_cases [OF _ assms(3)] assms(2,3) by (simp add: refs_ok_def)
  then show ?thesis using tame_AllocateFd [OF assms(1,4)] by simp
qed

lemma AllocateFdAt_counts:
  assumes "alloc_laws K live" and "0 < oth d" and "refs_ok oth T s" and "AllocateFdAt K fd (Some d) T s = (r, T', s')"
  shows "refs_ok oth T' s' \<and> tame live s s'"
  using AllocateFdAt_facts(1) [OF assms(3,2,4)] tame_AllocateFdAt [OF assms(1,4)] by simp

lemma FreeFd_counts:
  assumes "refs_ok oth T s" and "FreeFd fd T s = (T', s')"
  shows "refs_ok oth T' s' \<and> tame live s s'"
  using FreeFd_facts(1) [OF assms] tame_FreeFd [OF assms(2)] by simp

lemma dupfd_loop_counts:
  assumes "alloc_laws K live" and "0 < oth d"
  shows "refs_ok oth T s \<Longrightarrow> dupfd_loop K d fd T s = (r, T', s') \<Longrightarrow> refs_ok oth T' s' \<and> tame live s s'"
  using assms
proof (induction K d fd T s rule: dupfd_loop.induct)
  case (1 K d fd T s)
  note run = "1.prems"(2)
  show ?case
  proof (cases "unat fd < kMaxFds \<and> GetFd T fd = None")
    case False
    then show ?thesis
      using 1 by (cases "unat fd < kMaxFds") (auto simp: dupfd_loop.simps [of K d fd])
  next
    case True
    obtain r1 T1 s1 where a: "AllocateFdAt K fd (Some d) T s = (r1, T1, s1)" by (metis prod_cases3)
    note c = AllocateFdAt_counts [where live = live, OF "1.prems"(3,4,1) a]
    show ?thesis
    proof (cases "\<exists>x. r1 = Value x")
      case v: True
      then show ?thesis using run True a c by (auto simp: dupfd_loop.simps [of K d fd])
    next
      case v: False
      then have rec: "dupfd_loop K d (fd + 1) T1 s1 = (r, T', s')"
        using run True a by (cases r1) (auto simp: dupfd_loop.simps [of K d fd])
      have "refs_ok oth T' s' \<and> tame live s1 s'"
        using v "1.IH" True a c rec "1.prems"(3,4) by (cases r1) auto
      then show ?thesis using c tame_trans by blast
    qed
  qed
qed

section \<open>The calls\<close>

lemma on_io_same:
  assumes "counted live oth p k" and "same_refs live (io k) (f (io k))"
  shows "counted live oth p (on_io f k)"
  by (rule counted_same [OF assms(1)]) (use assms(2) in \<open>simp_all add: on_io_def\<close>)

lemma counted_set_mem [simp]: "counted live oth p (set_mem m k) = counted live oth p k"
proof -
  have "io (set_mem m k) = set_fs ((fs (io k))\<lparr>memory := m\<rparr>) (io k)" by (simp add: set_mem_def set_fs_def)
  then have "same_refs live (io k) (io (set_mem m k))" "same_refs live (io (set_mem m k)) (io k)"
    by (simp_all add: same_refs_def set_fs_def)
  then show ?thesis using counted_same [of live oth p _ k] counted_same [of live oth p k] by (metis kernel_access(5))
qed

lemma counted_set_offset: "counted live oth p k \<Longrightarrow> counted live oth p (set_offset d w k)"
  by (simp add: set_offset_def on_io_same)

lemma counted_io: "counted live oth p k \<Longrightarrow> same_refs live (io k) s \<Longrightarrow> counted live oth p (k\<lparr>io := s\<rparr>)"
  by (rule counted_same) simp_all

lemma writev_counts:
  "alloc_laws (lib P) live \<Longrightarrow> counted live oth p k \<Longrightarrow> writev_loop P d iov n tot k = (r, k') \<Longrightarrow> counted live oth p k'"
proof (induction P d iov n tot k rule: writev_loop.induct)
  case (2 P d iov n tot k)
  obtain b s where w: "FileDescription_Write (lib P) d (load64 (kmem_of k) iov) (load64 (kmem_of k) (iov + 8)) (io k) = (b, s)"
    by fastforce
  have c: "counted live oth p (k\<lparr>io := s\<rparr>)" by (rule counted_io [OF 2(4) same_refs_Write [OF 2(3) w]])
  show ?case using 2 w c by (fastforce split: if_splits blocking.splits expected.splits)
qed simp

lemma readv_counts:
  "counted live oth p k \<Longrightarrow> readv_loop P d iov n tot k = (r, k') \<Longrightarrow> counted live oth p k'"
proof (induction P d iov n tot k rule: readv_loop.induct)
  case (2 P d iov n tot k)
  obtain b s where w: "FileDescription_Read (lib P) d (load64 (kmem_of k) iov) (load64 (kmem_of k) (iov + 8)) (io k) = (b, s)"
    by fastforce
  have c: "counted live oth p (k\<lparr>io := s\<rparr>)" by (rule counted_io [OF 2(3) same_refs_Read [OF w]])
  show ?case using 2 w c by (fastforce simp: Let_def split: if_splits blocking.splits expected.splits)
qed simp

lemma io_calls_count:
  assumes "alloc_laws (lib P) live" and "counted live oth p k"
  shows "sys_read P p regs k = (Ret w, k') \<Longrightarrow> counted live oth p k'"
    "sys_write P p regs k = (Ret w, k') \<Longrightarrow> counted live oth p k'"
    "sys_readv P p regs k = (Ret w, k') \<Longrightarrow> counted live oth p k'"
    "sys_writev P p regs k = (Ret w, k') \<Longrightarrow> counted live oth p k'"
    "sys_lseek p regs k = (Ret w, k') \<Longrightarrow> counted live oth p k'"
  unfolding sys_read_def sys_write_def sys_readv_def sys_writev_def sys_lseek_def
  by (erule counts.with_fd_keeps [OF assms(2)],
      auto split: prod.splits if_splits option.splits simp: Let_def
        intro: counted_io same_refs_Read same_refs_Write [OF assms(1)] readv_counts writev_counts [OF assms(1)] counted_set_offset)+

lemma counted_apfst_table:
  assumes "counted live oth p k" and "apfst g (on_table p f k) = (x, k')"
    and "\<And>T s r T' s'. refs_ok oth T s \<Longrightarrow> f T s = (r, T', s') \<Longrightarrow> refs_ok oth T' s' \<and> tame live s s'"
  shows "counted live oth p k'"
proof -
  obtain r1 where t: "on_table p f k = (r1, k')" using assms(2) by (cases "on_table p f k") auto
  show ?thesis by (rule counted_on_table [OF assms(1) t assms(3)])
qed

lemma close_counts:
  assumes "counted live oth p k" and "sys_close p regs k = (Ret w, k')"
  shows "counted live oth p k'"
  by (rule counted_apfst_table [OF assms(1) assms(2) [unfolded sys_close_def]]) (auto dest: FreeFd_counts)

lemma dup_counts:
  fixes k :: "('v, 'r, 'k, 'a) kernel"
  assumes "alloc_laws (lib P) live" and "counted live oth p k" and "sys_dup P p regs k = (Ret w, k')"
  shows "counted live oth p k'"
proof (rule counts.with_fd_keeps [OF assms(2) assms(3) [unfolded sys_dup_def]])
  fix d o' w and k1 k2 :: "('v, 'r, 'k, 'a) kernel"
  assume o': "0 < o' d" and k1: "counted live o' p k1"
    and b: "apfst (of_expected ucast) (on_table p (AllocateFd (lib P) (Some d)) k1) = (Ret w, k2)"
  show "counted live o' p k2"
    by (rule counted_apfst_table [OF k1 b]) (rule AllocateFd_counts [where oth = o' and d = d, OF assms(1) o'])
qed

lemma dup2_counts:
  assumes "alloc_laws (lib P) live" and "counted live oth p k" and "sys_dup2 P p regs k = (Ret w, k')"
  shows "counted live oth p k'"
proof (cases "(ucast (rdi regs) :: u32) = ucast (rsi regs)")
  case True
  then show ?thesis using assms(2,3) by (simp add: sys_dup2_def Let_def)
next
  case False
  let ?body = "\<lambda>d k. apfst (of_expected ucast) (on_table p (AllocateFdAt (lib P) (ucast (rsi regs)) (Some d)) k)"
  have w: "with_fd p (ucast (rdi regs)) ?body k = (Ret w, k')"
    using False assms(3) by (simp add: sys_dup2_def Let_def)
  show ?thesis
  proof (rule counts.with_fd_keeps [OF assms(2) w])
    fix d o' k1 w k2
    assume o': "0 < o' d" and k1: "counted live o' p k1" and b: "?body d k1 = (Ret w, k2)"
    show "counted live o' p k2"
      by (rule counted_apfst_table [OF k1 b]) (rule AllocateFdAt_counts [where oth = o' and d = d, OF assms(1) o'])
  qed
qed

lemma fcntl_counts:
  fixes k :: "('v, 'r, 'k, 'a) kernel"
  assumes "alloc_laws (lib P) live" and "counted live oth p k" and "sys_fcntl P p regs k = (Ret w, k')"
  shows "counted live oth p k'"
proof (rule counts.with_fd_keeps [OF assms(2) assms(3) [unfolded sys_fcntl_def Let_def]])
  fix d o' w and k1 k2 :: "('v, 'r, 'k, 'a) kernel"
  let ?dup = "apfst (of_expected ucast) (on_table p (dupfd_loop (lib P) d (ucast (rdx regs))) k1)"
  assume o': "0 < o' d" and k1: "counted live o' p k1"
    and b: "(if cint (rsi regs) = 0 \<or> cint (rsi regs) = 1030 then ?dup
        else if cint (rsi regs) = 1 \<or> cint (rsi regs) = 2 then (Ret 0, k1)
        else if cint (rsi regs) = 3 then case the_file d k1 of None \<Rightarrow> (Crash, k1) | Some f \<Rightarrow> (Ret (ucast (fd_flags f)), k1)
        else if cint (rsi regs) = 4 then (Ret 0, on_io (set_flags d (ucast (rdx regs))) k1)
        else (Ret (err (- EINVAL)), k1)) = (Ret w, k2)"
  have fl: "counted live o' p (on_io (set_flags d a) k1)" for a
    by (rule on_io_same [OF k1]) (simp add: set_flags_def)
  show "counted live o' p k2"
  proof (cases "cint (rsi regs) = 0 \<or> cint (rsi regs) = 1030")
    case True
    then have "?dup = (Ret w, k2)" using b by simp
    then show ?thesis by (rule counted_apfst_table [OF k1]) (rule dupfd_loop_counts [where oth = o' and d = d, OF assms(1) o'])
  next
    case False
    then show ?thesis using b fl k1 by (auto split: if_splits option.splits)
  qed
qed

lemma info_calls_count:
  fixes k :: "('v, 'r, 'k, 'a) kernel"
  assumes "counted live oth p k"
  shows "sys_stat p a b k = (Ret w, k') \<Longrightarrow> counted live oth p k'"
    "sys_fstat p regs k = (Ret w, k') \<Longrightarrow> counted live oth p k'"
    "sys_access p regs k = (Ret w, k') \<Longrightarrow> counted live oth p k'"
    "sys_ioctl p regs k = (Ret w, k') \<Longrightarrow> counted live oth p k'"
    "sys_getdents64 p regs k = (Ret w, k') \<Longrightarrow> counted live oth p k'"
proof -
  have st: "counted live o' p k2" if "counted live o' p k1" "put_stat v b k1 = (r, k2)" for o' v b r and k1 k2 :: "('v, 'r, 'k, 'a) kernel"
    using that by (auto simp: put_stat_def split: option.splits)
  show "sys_stat p a b k = (Ret w, k') \<Longrightarrow> counted live oth p k'"
    using assms st by (auto simp: sys_stat_def split: expected.splits)
  show "sys_fstat p regs k = (Ret w, k') \<Longrightarrow> counted live oth p k'"
    unfolding sys_fstat_def by (erule counts.with_fd_keeps [OF assms]) (auto split: option.splits intro: st)
  show "sys_access p regs k = (Ret w, k') \<Longrightarrow> counted live oth p k'"
    using assms by (simp add: sys_access_def)
  show "sys_ioctl p regs k = (Ret w, k') \<Longrightarrow> counted live oth p k'"
    unfolding sys_ioctl_def by (erule counts.with_fd_keeps [OF assms]) (auto simp: Let_def split: if_splits)
  have it: "counted live o' p (on_io (set_fs t) k1)"
    if "counted live o' p k1" "RamFs_Iterate v b n c (fs (io k1)) = (r, t)" for o' v b n c r t and k1 :: "('v, 'r, 'k, 'a) kernel"
  proof -
    have "kmm t = kmm (fs (io k1))" using that(2) by (auto simp: RamFs_Iterate_def split: option.splits if_splits prod.splits)
    then show ?thesis using that(1) by (auto intro!: on_io_same same_refs_set_fs)
  qed
  show "sys_getdents64 p regs k = (Ret w, k') \<Longrightarrow> counted live oth p k'"
    unfolding sys_getdents64_def
    by (erule counts.with_fd_keeps [OF assms])
      (auto simp: Let_def split: option.splits if_splits prod.splits expected.splits dest: it intro: counted_set_offset)
qed

section \<open>Calls that open files\<close>

lemma live_add_node:
  assumes "alloc_laws K live" and an: "add_node K dir ty nm t = (r, t')"
  shows "live (kmm t) \<subseteq> live (kmm t')"
proof -
  obtain q l1 where o: "op_new K (kmm t) = (q, l1)" by fastforce
  obtain b l2 where pb: "PushBack_ok K l1 = (b, l2)" by fastforce
  have "live (kmm t) \<subseteq> live l1" "live l1 \<subseteq> live l2" using alloc_lawsD(2,4) [OF assms(1)] o pb by blast+
  then show ?thesis using an o pb by (cases q; cases b) (auto simp: add_node_def upd_vnode_def)
qed

lemma live_vnode_Create:
  assumes "alloc_laws K live" and "vnode_Create K a nm t = (r, t')"
  shows "live (kmm t) \<subseteq> live (kmm t')"
  using assms(2) live_add_node [OF assms(1)]
  by (auto simp: vnode_Create_def RamFs_Create_def split: option.splits VnodeOps.splits if_splits)

lemma live_vnode_Mkdir:
  assumes "alloc_laws K live" and "vnode_Mkdir K a nm t = (r, t')"
  shows "live (kmm t) \<subseteq> live (kmm t')"
  using assms(2) live_add_node [OF assms(1)]
  by (auto simp: vnode_Mkdir_def RamFs_Mkdir_def split: option.splits VnodeOps.splits if_splits)

lemma new_counts:
  assumes "alloc_laws K live" and "counted live oth p k" and "FileDescription_new K v flags (io k) = (Value d, s)"
  shows "counted live (oth(d := oth d + 1)) p (k\<lparr>io := s\<rparr>)"
proof -
  obtain l where o: "op_new K (kmm (fs (io k))) = (Some d, l)"
    using assms(3) by (auto simp: FileDescription_new_def split: prod.splits option.splits)
  have s: "files s = (files (io k))(d \<mapsto> \<lparr>fd_vnode = v, fd_offset = 0, fd_flags = flags, fd_refs = 1\<rparr>)" "kmm (fs s) = l"
    using assms(3) o by (auto simp: FileDescription_new_def split: option.splits)
  obtain pr where pr: "procs k p = Some pr" and ok: "refs_ok oth (m_fd_table pr) (io k)" and dom: "dom (files (io k)) \<subseteq> live (kmm_of k)"
    using assms(2) by (auto simp: counted_def)
  have "d \<notin> live (kmm_of k)" using alloc_lawsD(1) [OF assms(1) o] by (simp add: kmm_of_def)
  then have "files (io k) d = None" using dom by auto
  then have z: "oth d = 0" "slot_refs (m_fd_table pr) d = 0" using ok by (auto simp: refs_ok_def refs_def dest: spec [of _ d])
  have "refs s x = (oth(d := oth d + 1)) x + slot_refs (m_fd_table pr) x" for x
    using ok z by (simp add: refs_ok_def refs_def s(1))
  moreover have "live_ok s" using ok by (auto simp: refs_ok_def live_ok_def s(1) split: if_splits)
  moreover have "dom (files s) \<subseteq> live l"
    using dom alloc_lawsD(2,3) [OF assms(1) o] by (auto simp: s(1) kmm_of_def)
  ultimately show ?thesis using pr by (simp add: counted_def refs_ok_def kmm_of_def s(2))
qed

lemma open_target_counts:
  assumes "alloc_laws (lib P) live" and "counted live oth p k" and "open_target P p ptr flags k = (r, k')"
  shows "counted live oth p k'"
proof -
  have tr: "counted live oth p (on_io (\<lambda>s. set_fs (upd_vnode v g (fs s)) s) k)" for v g
    by (rule on_io_same [OF assms(2)]) (simp add: same_refs_set_fs upd_vnode_def)
  have cr: "counted live oth p k'" if oc: "open_create P p ptr k = (r, k')"
  proof -
    have "counted live oth p (on_io (set_fs t) k)" if "vnode_Create (lib P) dir nm (fs (io k)) = (q, t)" for dir nm q t
      by (rule on_io_same [OF assms(2)]) (simp add: same_refs_set_fs live_vnode_Create [OF assms(1) that])
    then show ?thesis
      using oc assms(2) by (auto simp: open_create_def split: expected.splits option.splits if_splits prod.splits)
  qed
  show ?thesis
    using assms(2,3) tr cr by (auto simp: open_target_def split: expected.splits if_splits)
qed

lemma open_counts:
  assumes "alloc_laws (lib P) live" and "counted live oth p k" and "sys_open P p regs k = (Ret w, k')"
  shows "counted live oth p k'"
proof -
  let ?fl = "ucast (rsi regs) :: u32"
  obtain r1 k1 where t: "open_target P p (rdi regs) ?fl k = (r1, k1)" by fastforce
  note c1 = open_target_counts [OF assms(1,2) t]
  show ?thesis
  proof (cases r1)
    case (Value v)
    obtain r2 s2 where n: "FileDescription_new (lib P) (Some v) ?fl (io k1) = (r2, s2)" by fastforce
    obtain d where d: "r2 = Value d" using assms(3) t Value n by (cases r2) (auto simp: sys_open_def Let_def)
    let ?k2 = "k1\<lparr>io := s2\<rparr>"
    let ?k3 = "if ?fl AND 0x400 \<noteq> 0 then (case vnode_of v ?k2 of Some vn \<Rightarrow> set_offset d (v_size vn) ?k2 | None \<Rightarrow> ?k2) else ?k2"
    let ?o = "oth(d := oth d + 1)"
    have "counted live ?o p ?k2" by (rule new_counts [OF assms(1) c1 n [unfolded d]])
    then have c3: "counted live ?o p ?k3" by (simp add: counted_set_offset split: option.split)
    obtain r4 k4 where a: "on_table p (AllocateFd (lib P) (Some d)) ?k3 = (r4, k4)" by fastforce
    have c4: "counted live ?o p k4"
      by (rule counted_on_table [OF c3 a]) (rule AllocateFd_counts [where oth = ?o and d = d, OF assms(1)], simp_all)
    have "k' = on_io (fd_release d) k4"
      using assms(3) t Value n d a by (simp add: sys_open_def Let_def)
    then show ?thesis using counts.let_go [OF c4] by simp
  qed (use assms(3) t c1 in \<open>auto simp: sys_open_def Let_def\<close>)
qed

lemma pipe_vnode_counts:
  assumes "alloc_laws (lib P) live" and "counted live oth p k" and "PipeVnode_Create (lib P) (fs (io k)) = (r, t)"
  shows "counted live oth p (on_io (set_fs t) k)"
proof (rule on_io_same [OF assms(2)], rule same_refs_set_fs)
  obtain q1 l1 where a: "op_new (lib P) (kmm (fs (io k))) = (q1, l1)" by fastforce
  obtain q2 l2 where b: "op_new (lib P) l1 = (q2, l2)" by fastforce
  have "live (kmm (fs (io k))) \<subseteq> live l1" "live l1 \<subseteq> live l2" using alloc_lawsD(2) [OF assms(1)] a b by blast+
  then show "live (kmm (fs (io k))) \<subseteq> live (kmm t)"
    using assms(3) a b by (cases q1; cases q2) (auto simp: PipeVnode_Create_def)
qed

lemma pipe_counts:
  fixes k :: "('v, 'r, 'k, 'a) kernel"
  assumes "alloc_laws (lib P) live" and "counted live oth p k" and "sys_pipe P p regs k = (Ret w, k')"
  shows "counted live oth p k'"
proof -
  obtain r1 t where v: "PipeVnode_Create (lib P) (fs (io k)) = (r1, t)" by fastforce
  note c1 = pipe_vnode_counts [OF assms(1,2) v]
  show ?thesis
  proof (cases r1)
    case (Value vn)
    obtain r2 s2 where n: "FileDescription_new (lib P) (Some vn) kPipeRead (set_fs t (io k)) = (r2, s2)" by fastforce
    obtain rd where rd: "r2 = Value rd" using assms(3) v Value n by (cases r2) (auto simp: sys_pipe_def)
    obtain r3 s3 where m: "FileDescription_new (lib P) (Some vn) kPipeWrite s2 = (r3, s3)" by fastforce
    obtain wr where wr: "r3 = Value wr" using assms(3) v Value n rd m by (cases r3) (auto simp: sys_pipe_def)
    let ?o = "oth(rd := oth rd + 1)" let ?oo = "?o(wr := ?o wr + 1)"
    have "counted live ?o p (k\<lparr>io := s2\<rparr>)"
      using new_counts [OF assms(1) c1, of "Some vn" kPipeRead rd s2] n rd by (simp add: on_io_def)
    then have c3: "counted live ?oo p (k\<lparr>io := s3\<rparr>)"
      using new_counts [OF assms(1), of ?o p "k\<lparr>io := s2\<rparr>" "Some vn" kPipeWrite wr s3] m wr by simp
    obtain fd1 k4 where a1: "on_table p (AllocateFd (lib P) (Some rd)) (k\<lparr>io := s3\<rparr>) = (fd1, k4)" by fastforce
    obtain fd2 k5 where a2: "on_table p (AllocateFd (lib P) (Some wr)) k4 = (fd2, k5)" by fastforce
    have c4: "counted live ?oo p k4"
      by (rule counted_on_table [OF c3 a1]) (rule AllocateFd_counts [where oth = ?oo and d = rd, OF assms(1)], simp_all)
    have c5: "counted live ?oo p k5"
      by (rule counted_on_table [OF c4 a2]) (rule AllocateFd_counts [where oth = ?oo and d = wr, OF assms(1)], simp_all)
    have fr: "counted live ?oo p (snd (on_table p (\<lambda>T s. (Value (), FreeFd x T s)) k6))" if "counted live ?oo p k6"
      for x and k6 :: "('v, 'r, 'k, 'a) kernel"
    proof -
      obtain q k7 where q: "on_table p (\<lambda>T s. (Value (), FreeFd x T s)) k6 = (q, k7)" by fastforce
      have "counted live ?oo p k7" by (rule counted_on_table [OF that q]) (auto dest: FreeFd_counts)
      then show ?thesis using q by simp
    qed
    have dr: "counted live oth p (on_io (fd_release rd) (on_io (fd_release wr) k6))" if "counted live ?oo p k6"
      for k6 :: "('v, 'r, 'k, 'a) kernel"
      by (rule counts.let_go, rule counts.let_go, rule that)
    show ?thesis
      using assms(3) v Value n rd m wr a1 a2 c5
      by (cases fd1; cases fd2) (auto simp: sys_pipe_def intro!: dr fr)
  qed (use assms(3) v c1 in \<open>auto simp: sys_pipe_def\<close>)
qed

lemmas file_calls_count = io_calls_count dup_counts dup2_counts fcntl_counts open_counts pipe_counts

end
