(* ===== verification/SysTypes.thy ===== *)
theory SysTypes
  imports SysCounts
begin

text \<open>
  The system calls on files and the types of the file system. A well-typed state of open files (\<open>io_ok\<close>) and of a process
  (\<open>typed\<close>) is kept by every call, and no call meets a null pointer: the locale \<open>safe_calls\<close> extends the interface
  \<open>counted_calls\<close> of the handlers by the second invariant.
\<close>

section \<open>Open files of existing nodes\<close>

definition io_ok :: "('k \<Rightarrow> addr set) \<Rightarrow> ('v, 'r, 'k) filesys \<Rightarrow> bool" where
  "io_ok live s \<longleftrightarrow> fs_ok live (fs s) \<and>
     (\<forall>d f v. files s d = Some f \<longrightarrow> fd_vnode f = Some v \<longrightarrow> v \<in> dom (vnodes (fs s)))"

definition io_grows :: "('k \<Rightarrow> addr set) \<Rightarrow> ('v, 'r, 'k) filesys \<Rightarrow> ('v, 'r, 'k) filesys \<Rightarrow> bool" where
  "io_grows live s s' \<longleftrightarrow> (io_ok live s \<longrightarrow> io_ok live s' \<and> grows live (fs s) (fs s'))"

lemma io_grows_refl [simp]: "io_grows live s s"
  by (simp add: io_grows_def io_ok_def)

lemma io_grows_trans [trans]: "io_grows live s s1 \<Longrightarrow> io_grows live s1 s2 \<Longrightarrow> io_grows live s s2"
  unfolding io_grows_def using grows_trans by blast

lemma grows_dom: "grows live t t' \<Longrightarrow> dom (vnodes t) \<subseteq> dom (vnodes t')"
  unfolding grows_def by blast

lemma io_grows_fs:
  assumes "fs_ok live (fs s) \<Longrightarrow> grows live (fs s) t"
  shows "io_grows live s (set_fs t s)"
proof (unfold io_grows_def, intro impI)
  assume s: "io_ok live s"
  then have g: "grows live (fs s) t" using assms by (simp add: io_ok_def)
  then show "io_ok live (set_fs t s) \<and> grows live (fs s) (fs (set_fs t s))"
    using s g grows_dom [OF g, THEN subsetD] grows_ok [OF g] by (simp add: io_ok_def set_fs_def)
qed

lemma io_grows_files:
  assumes "fs s' = fs s" and "\<And>d f v. files s' d = Some f \<Longrightarrow> fd_vnode f = Some v \<Longrightarrow> v \<in> dom (vnodes (fs s)) \<or> (\<exists>e g. files s e = Some g \<and> fd_vnode g = Some v)"
  shows "io_grows live s s'"
proof (unfold io_grows_def, intro impI)
  assume s: "io_ok live s"
  then show "io_ok live s' \<and> grows live (fs s) (fs s')"
    using assms(2) unfolding io_ok_def assms(1) by (auto simp: io_ok_def) blast
qed

lemma io_grows_upd_file:
  assumes "\<And>f. fd_vnode (g f) = fd_vnode f"
  shows "io_grows live s (upd_file d g s)"
proof (rule io_grows_files)
  show "v \<in> dom (vnodes (fs s)) \<or> (\<exists>e g. files s e = Some g \<and> fd_vnode g = Some v)"
    if "files (upd_file d g s) x = Some f" "fd_vnode f = Some v" for x f v
    using that assms by (auto simp: upd_file_def split: if_splits)
qed (simp add: upd_file_def)

section \<open>Vnode operations\<close>

lemma node_of:
  assumes "fs_ok live t" and "vnodes t a = Some vn"
  shows "node_ok (vnodes t) vn" "ops vn \<noteq> None" "ops vn = Some PipeOps \<Longrightarrow> v_pipe vn \<noteq> None"
proof -
  show n: "node_ok (vnodes t) vn" using assms unfolding fs_ok_def by blast
  show "ops vn \<noteq> None" "ops vn = Some PipeOps \<Longrightarrow> v_pipe vn \<noteq> None" using n unfolding node_ok_def by blast+
qed

lemma upd_pipe_grows:
  assumes "fs_ok live t" and "\<And>p. v_pipe (f p) = None \<Longrightarrow> v_pipe p = None" and "\<And>p. f p = p\<lparr>v_pipe := v_pipe (f p)\<rparr>"
  shows "grows live t (upd_vnode a f t)"
proof (rule grows_upd [OF assms(1)])
  fix vn assume vn: "vnodes t a = Some vn"
  obtain q where q: "f vn = vn\<lparr>v_pipe := q\<rparr>" using assms(3) by metis
  have "q = None \<Longrightarrow> v_pipe vn = None" using assms(2) [of vn] by (simp add: q)
  moreover have "node_ok (vnodes t) vn" using vn assms(1) by (simp add: fs_ok_def)
  ultimately show "node_ok (vnodes t) (f vn) \<and> vtype (f vn) = vtype vn \<and> ops (f vn) = ops vn"
    unfolding q by (cases q) (auto simp: node_ok_def)
qed

lemma Open_Close_grow:
  assumes "fs_ok live t"
  shows "grows live t (vnode_Open a fl t)" and "grows live t (vnode_Close a fl t)"
  using assms by (auto simp: vnode_Open_def vnode_Close_def intro!: upd_pipe_grows split: option.split VnodeOps.split)

lemma console_write_same: "vnodes (console_write b n t) = vnodes t \<and> kmm (console_write b n t) = kmm t"
proof -
  have "vnodes (fold (\<lambda>i s. let ch = memory s (b + of_nat i);
        (c, m) = linearfb_console_putc ch (screen_console s, memory s)
        in s\<lparr>screen_console := c, memory := m, debug_port := debug_port s @ [ch]\<rparr>) xs t) = vnodes t \<and>
      kmm (fold (\<lambda>i s. let ch = memory s (b + of_nat i);
        (c, m) = linearfb_console_putc ch (screen_console s, memory s)
        in s\<lparr>screen_console := c, memory := m, debug_port := debug_port s @ [ch]\<rparr>) xs t) = kmm t" for xs :: "nat list"
    by (induction xs arbitrary: t) (simp_all add: Let_def split: prod.split)
  then show ?thesis by (simp add: console_write_def)
qed

lemma grows_same: "fs_ok live t \<Longrightarrow> vnodes t' = vnodes t \<Longrightarrow> kmm t' = kmm t \<Longrightarrow> grows live t t'"
  by (simp add: grows_def fs_ok_def)

lemma vnode_Read_types:
  assumes s: "fs_ok live t" "vnodes t a = Some vn" and r: "vnode_Read K a b n ofs t = (r, t')"
  shows "grows live t t' \<and> r \<noteq> Return Bug"
proof (cases "ops vn = Some PipeOps")
  case True
  then obtain p where p: "v_pipe vn = Some p" using node_of(3) [OF s] by blast
  obtain q p' ns where rd: "Pipe_Read (ring_ops K) n p = (q, p', ns)" by (metis prod_cases3)
  have "grows live t (upd_vnode a (\<lambda>vn. vn\<lparr>v_pipe := Some p'\<rparr>) t)" by (rule upd_pipe_grows [OF s(1)]) auto
  moreover from this have "grows live t ((upd_vnode a (\<lambda>vn. vn\<lparr>v_pipe := Some p'\<rparr>) t)\<lparr>memory := m\<rparr>)" for m
    using grows_memory grows_ok grows_trans by blast
  moreover have "q \<noteq> Return Bug" "\<And>e. q \<noteq> Return (Unexpected e)" using rd by (auto simp: Pipe_Read_def split: if_splits prod.splits)
  ultimately show ?thesis
    using r True s(2) p rd by (auto simp: vnode_Read_def PipeVnode_Read_def Let_def split: blocking.splits expected.splits)
next
  case False
  then obtain q where q: "ops vn = Some q" "q \<noteq> PipeOps" using node_of(2) [OF s] by blast
  have "\<exists>m. t' = t\<lparr>memory := m\<rparr> \<or> t' = t" "r \<noteq> Return Bug"
    using r q s(2) by (cases q; auto simp: vnode_Read_def RamFs_Read_def PseudoFs_Read_def Let_def
        split: if_splits option.splits prod.splits)+
  then show ?thesis using s(1) by (auto intro: grows_memory)
qed

lemma Pipe_Write_total:
  assumes "ring_laws R con cap"
  shows "\<exists>r p' ns. Pipe_Write R data p = Some (r, p', ns) \<and> r \<noteq> Return Bug"
  using Write_loop_eq [OF assms, of 0 data "cap - length (con (m_buffer p))" p "[]"]
  by (auto simp: Pipe_Write_def split: if_splits)

lemma vnode_Write_types:
  assumes K: "alloc_laws K live" "ring_laws (ring_ops K) con cap" "page_objects K" and s: "fs_ok live t" "vnodes t a = Some vn"
    and r: "vnode_Write K a b n ofs t = (r, t')"
  shows "grows live t t' \<and> r \<noteq> Return Bug"
proof -
  obtain q where q: "ops vn = Some q" using node_of(2) [OF s] by blast
  show ?thesis
  proof (cases q)
    case RamFsOps
    obtain w t1 where w: "RamFs_Write K a b n ofs t = (w, t1)" by fastforce
    with RamFs_Write_types [OF K(1) s w] show ?thesis using r q s(2) RamFsOps K(3) by (auto simp: vnode_Write_def)
  next
    case PseudoFsOps
    have cb: "vnodes (snd (run_write_cb c b n ofs t)) = vnodes t \<and> kmm (snd (run_write_cb c b n ofs t)) = kmm t" for c
      by (cases c) (simp_all add: console_write_same)
    have "vnodes t' = vnodes t \<and> kmm t' = kmm t" "r \<noteq> Return Bug"
      using r q s(2) PseudoFsOps cb by (auto simp: vnode_Write_def PseudoFs_Write_def split: option.splits prod.splits) (metis snd_conv)+
    then show ?thesis using s(1) by (simp add: grows_same)
  next
    case PipeOps
    then obtain p where p: "v_pipe vn = Some p" using node_of(3) [OF s] q by blast
    obtain x p' ns where w: "Pipe_Write (ring_ops K) (read_bytes (memory t) b (unat n)) p = Some (x, p', ns)" "x \<noteq> Return Bug"
      using Pipe_Write_total [OF K(2)] by blast
    have "grows live t (upd_vnode a (\<lambda>vn. vn\<lparr>v_pipe := Some p'\<rparr>) t)" by (rule upd_pipe_grows [OF s(1)]) auto
    then show ?thesis using r q PipeOps s(2) p w by (auto simp: vnode_Write_def PipeVnode_Write_def)
  qed
qed

section \<open>Open files and tables\<close>

lemma the_vnode:
  assumes "io_ok live s" and "files s d = Some f" and "fd_vnode f = Some v"
  obtains vn where "vnodes (fs s) v = Some vn" and "ops vn \<noteq> None"
  using assms node_of(2) [of live "fs s" v] unfolding io_ok_def by blast

lemma advance_grows: "io_grows live s (advance d r s)"
  by (auto simp: advance_def intro!: io_grows_upd_file split: blocking.split expected.split)

lemma FileDescription_Read_types:
  assumes s: "io_ok live s" "files s d \<noteq> None" and r: "FileDescription_Read K d b n s = (r, s')"
  shows "io_grows live s s' \<and> r \<noteq> Return Bug"
proof -
  obtain f where f: "files s d = Some f" using s(2) by blast
  show ?thesis
  proof (cases "fd_vnode f")
    case (Some v)
    obtain vn where vn: "vnodes (fs s) v = Some vn" "ops vn \<noteq> None" using the_vnode [OF s(1) f Some] .
    obtain q t where t: "vnode_Read K v b n (fd_offset f) (fs s) = (q, t)" by fastforce
    have "fs_ok live (fs s)" using s(1) by (simp add: io_ok_def)
    note R = vnode_Read_types [OF this vn(1) t]
    then have "io_grows live s (set_fs t s)" by (intro io_grows_fs) simp
    then show ?thesis using R r f Some vn t by (auto simp: FileDescription_Read_def intro: io_grows_trans advance_grows)
  qed (use r f in \<open>auto simp: FileDescription_Read_def\<close>)
qed

lemma FileDescription_Write_types:
  assumes K: "alloc_laws K live" "ring_laws (ring_ops K) con cap" "page_objects K" and s: "io_ok live s" "files s d \<noteq> None"
    and r: "FileDescription_Write K d b n s = (r, s')"
  shows "io_grows live s s' \<and> r \<noteq> Return Bug"
proof -
  obtain f where f: "files s d = Some f" using s(2) by blast
  show ?thesis
  proof (cases "fd_vnode f")
    case (Some v)
    obtain vn where vn: "vnodes (fs s) v = Some vn" "ops vn \<noteq> None" using the_vnode [OF s(1) f Some] .
    obtain q t where t: "vnode_Write K v b n (fd_offset f) (fs s) = (q, t)" by fastforce
    have "fs_ok live (fs s)" using s(1) by (simp add: io_ok_def)
    note R = vnode_Write_types [OF K this vn(1) t]
    then have "io_grows live s (set_fs t s)" by (intro io_grows_fs) simp
    then show ?thesis using R r f Some vn t by (auto simp: FileDescription_Write_def intro: io_grows_trans advance_grows)
  qed (use r f in \<open>auto simp: FileDescription_Write_def\<close>)
qed

lemma addref_grows [simp]: "io_grows live s (fd_addref d s)"
  by (simp add: fd_addref_def io_grows_upd_file)

lemma release_grows [simp]: "io_grows live s (fd_release d s)"
proof (cases "files s d")
  case (Some f)
  let ?t = "case fd_vnode f of Some a \<Rightarrow> vnode_Close a (fd_flags f) (fs s) | None \<Rightarrow> fs s"
  have "io_grows live s (set_fs ?t s)"
    by (rule io_grows_fs) (auto split: option.split intro: Open_Close_grow(2))
  moreover have "io_grows live (set_fs ?t s) ((set_fs ?t s)\<lparr>files := (files s)(d := None)\<rparr>)"
    by (rule io_grows_files) (auto simp: set_fs_def split: if_splits)
  ultimately have "io_grows live s (FileDescription_Destroy d s)"
    using Some io_grows_trans by (fastforce simp: FileDescription_Destroy_def set_fs_def)
  then show ?thesis using Some by (auto simp: fd_release_def intro: io_grows_upd_file)
qed (simp add: fd_release_def)

lemma kmm_grows: "live (kmm (fs s)) \<subseteq> live l \<Longrightarrow> io_grows live s (s\<lparr>fs := (fs s)\<lparr>kmm := l\<rparr>\<rparr>)"
  using io_grows_fs [of live s "(fs s)\<lparr>kmm := l\<rparr>"] grows_kmm [of live "fs s" l] by (auto simp: set_fs_def fs_ok_def)

text \<open>The operations on the table neither panic nor break the types.\<close>

lemma grow_types: "alloc_laws K live \<Longrightarrow> grow K n T s = (ok, T', s') \<Longrightarrow> io_grows live s s'"
  by (auto simp: grow_def intro!: kmm_grows dest: alloc_lawsD(4) [THEN subsetD, rotated 1] split: if_splits prod.splits)

lemma reset_slot_types: "reset_slot i T s = (T', s') \<Longrightarrow> io_grows live s s'"
  by (auto simp: reset_slot_def split: option.splits)

lemma FreeFd_types: "FreeFd fd T s = (T', s') \<Longrightarrow> io_grows live s s'"
  by (auto simp: FreeFd_def reset_slot_types split: if_splits)

lemma AllocateFdAt_types:
  assumes "alloc_laws K live" and "AllocateFdAt K fd (Some d) T s = (r, T', s')"
  shows "io_grows live s s' \<and> r \<noteq> Bug"
proof -
  obtain ok T1 s1 where g: "grow K (unat fd + 1) T s = (ok, T1, s1)" by (cases "grow K (unat fd + 1) T s") auto
  obtain T2 s2 where rs: "reset_slot (unat fd) T1 s1 = (T2, s2)" by fastforce
  note t1 = grow_types [OF assms(1) g] and t2 = reset_slot_types [OF rs, where live = live]
  show ?thesis
    using assms(2) g rs t1 io_grows_trans [OF io_grows_trans [OF t1 t2] addref_grows]
    by (auto simp: AllocateFdAt_def split: if_splits bool.splits)
qed

lemma AllocateFd_loop_types:
  "alloc_laws K live \<Longrightarrow> AllocateFd_loop K d fd T s = (r, T', s') \<Longrightarrow> io_grows live s s' \<and> r \<noteq> Bug"
proof (induction K d fd T s rule: AllocateFd_loop.induct)
  case (1 K d fd T s)
  obtain ok T1 s1 where g: "grow K (fd + 1) T s = (ok, T1, s1)" by (cases "grow K (fd + 1) T s") auto
  note t1 = grow_types [OF 1(2) g]
  show ?case
    using 1(3) g t1 1(1) [OF _ g [symmetric] _ refl] 1(2) io_grows_trans [OF t1] io_grows_trans [OF t1 addref_grows]
    by (subst (asm) AllocateFd_loop.simps) (auto split: if_splits bool.splits)
qed

lemma AllocateFd_types: "alloc_laws K live \<Longrightarrow> AllocateFd K (Some d) T s = (r, T', s') \<Longrightarrow> io_grows live s s' \<and> r \<noteq> Bug"
  by (simp add: AllocateFd_def AllocateFd_loop_types)

lemma dupfd_loop_types:
  "alloc_laws K live \<Longrightarrow> dupfd_loop K d fd T s = (r, T', s') \<Longrightarrow> io_grows live s s' \<and> r \<noteq> Bug"
proof (induction K d fd T s rule: dupfd_loop.induct)
  case (1 K d fd T s)
  note run = "1.prems"(2)
  show ?case
  proof (cases "unat fd < kMaxFds \<and> GetFd T fd = None")
    case False
    then show ?thesis using 1 by (cases "unat fd < kMaxFds") (auto simp: dupfd_loop.simps [of K d fd])
  next
    case True
    obtain r1 T1 s1 where a: "AllocateFdAt K fd (Some d) T s = (r1, T1, s1)" by (metis prod_cases3)
    note c = AllocateFdAt_types [OF "1.prems"(1) a]
    show ?thesis
    proof (cases "\<exists>x. r1 = Value x")
      case v: True
      then show ?thesis using run True a c by (auto simp: dupfd_loop.simps [of K d fd])
    next
      case v: False
      then have rec: "dupfd_loop K d (fd + 1) T1 s1 = (r, T', s')"
        using run True a by (cases r1) (auto simp: dupfd_loop.simps [of K d fd])
      have "io_grows live s1 s' \<and> r \<noteq> Bug"
        using v "1.IH" True a rec "1.prems"(1) by (cases r1) auto
      then show ?thesis using c io_grows_trans by blast
    qed
  qed
qed

lemma FileDescription_new_types:
  assumes K: "alloc_laws K live" and v: "vnodes (fs s) v \<noteq> None" and r: "FileDescription_new K (Some v) fl s = (r, s')"
  shows "io_grows live s s'"
proof -
  obtain q l where o: "op_new K (kmm (fs s)) = (q, l)" by fastforce
  note g = kmm_grows [OF alloc_lawsD(2) [OF K o]]
  show ?thesis
  proof (cases q)
    case None
    then show ?thesis using r o g by (simp add: FileDescription_new_def)
  next
    case (Some d)
    let ?s1 = "s\<lparr>fs := (fs s)\<lparr>kmm := l\<rparr>\<rparr>" and ?t = "vnode_Open v fl ((fs s)\<lparr>kmm := l\<rparr>)"
    have g2: "io_grows live ?s1 (set_fs ?t ?s1)" by (rule io_grows_fs) (use Open_Close_grow(1) in simp)
    have "v \<in> dom (vnodes ?t)" using v by (auto simp: vnode_Open_def upd_vnode_def split: option.split VnodeOps.split)
    then have "io_grows live (set_fs ?t ?s1) s'"
      using r o Some by (intro io_grows_files) (auto simp: FileDescription_new_def set_fs_def split: if_splits)
    then show ?thesis using g g2 io_grows_trans by blast
  qed
qed

section \<open>Well-typed processes\<close>

definition typed :: "('k \<Rightarrow> addr set) \<Rightarrow> addr \<Rightarrow> ('v, 'r, 'k, 'a) kernel \<Rightarrow> bool" where
  "typed live p k \<longleftrightarrow> io_ok live (io k) \<and>
     (\<exists>pr. procs k p = Some pr \<and> in_tree (fs (io k)) (m_root pr) \<and> in_tree (fs (io k)) (m_cwd pr))"

lemma typed_step:
  assumes "typed live p k" and "io_grows live (io k) (io k')"
    and "\<And>pr. procs k p = Some pr \<Longrightarrow> \<exists>pr'. procs k' p = Some pr' \<and> m_root pr' = m_root pr \<and> m_cwd pr' = m_cwd pr"
  shows "typed live p k'"
proof -
  obtain pr where pr: "procs k p = Some pr" "in_tree (fs (io k)) (m_root pr)" "in_tree (fs (io k)) (m_cwd pr)" and ok: "io_ok live (io k)"
    using assms(1) by (auto simp: typed_def)
  have g: "io_ok live (io k')" "grows live (fs (io k)) (fs (io k'))" using assms(2) ok by (auto simp: io_grows_def)
  obtain pr' where "procs k' p = Some pr'" "m_root pr' = m_root pr" "m_cwd pr' = m_cwd pr" using assms(3) [OF pr(1)] by blast
  then show ?thesis using g(1) in_tree_grows [OF g(2) pr(2)] in_tree_grows [OF g(2) pr(3)] by (auto simp: typed_def)
qed

lemma typed_io: "typed live p k \<Longrightarrow> io_grows live (io k) s \<Longrightarrow> typed live p (k\<lparr>io := s\<rparr>)"
  by (erule typed_step) simp_all

lemma typed_on_io: "typed live p k \<Longrightarrow> io_grows live (io k) (f (io k)) \<Longrightarrow> typed live p (on_io f k)"
  by (simp add: on_io_def typed_io)

lemma typed_set_mem: "typed live p k \<Longrightarrow> typed live p (set_mem m k)"
proof -
  assume t: "typed live p k"
  have "io_grows live (io k) (set_fs ((fs (io k))\<lparr>memory := m\<rparr>) (io k))" by (rule io_grows_fs) (rule grows_memory)
  then show ?thesis using typed_io [OF t] by (simp add: set_mem_def set_fs_def)
qed

lemma typed_on_table:
  assumes "typed live p k" and "on_table p f k = (r, k')"
    and "\<And>T s r T' s'. f T s = (r, T', s') \<Longrightarrow> io_grows live s s' \<and> r \<noteq> Bug"
  shows "typed live p k' \<and> r \<noteq> Bug"
proof -
  obtain pr where pr: "procs k p = Some pr" using assms(1) by (auto simp: typed_def)
  obtain r1 T1 s1 where f: "f (m_fd_table pr) (io k) = (r1, T1, s1)" by (metis prod_cases3)
  have k': "k' = upd_proc p (\<lambda>pr. pr\<lparr>m_fd_table := T1\<rparr>) (k\<lparr>io := s1\<rparr>)" and r: "r = r1"
    using assms(2) pr f by (simp_all add: on_table_def)
  have "typed live p k'" by (rule typed_step [OF assms(1)]) (use assms(3) [OF f] pr in \<open>auto simp: k' upd_proc_def\<close>)
  then show ?thesis using assms(3) [OF f] r by simp
qed

lemma grows_dir: "typed live p k \<Longrightarrow> fs_ok live (fs (io k))"
  by (simp add: typed_def io_ok_def)

text \<open>The interface once more, for handlers that must not panic: \<open>T\<close> is what they keep, \<open>I\<close> what they may use.\<close>

locale safe_calls = counted_calls I
  for I :: "(addr \<Rightarrow> nat) \<Rightarrow> addr \<Rightarrow> ('v, 'r, 'k, 'a) kernel \<Rightarrow> bool" +
  fixes T :: "addr \<Rightarrow> ('v, 'r, 'k, 'a) kernel \<Rightarrow> bool"
  assumes has_proc: "I others p k \<Longrightarrow> procs k p \<noteq> None \<and> T p k"
    and drop: "T p k \<Longrightarrow> T p (on_io (fd_release d) k)"
begin

lemma with_fd_safe:
  assumes "I others p k" and "with_fd p fd body k = (r, k')"
    and "\<And>d oth k1 r1 k2. 0 < oth d \<Longrightarrow> I oth p k1 \<Longrightarrow> body d k1 = (r1, k2) \<Longrightarrow> r1 \<noteq> Crash \<and> T p k2"
  shows "r \<noteq> Crash \<and> T p k'"
proof -
  obtain pr where pr: "procs k p = Some pr" using has_proc [OF assms(1)] by blast
  show ?thesis
  proof (cases "GetFd (m_fd_table pr) fd")
    case None
    then show ?thesis using assms(1,2) pr has_proc by (auto simp: with_fd_def)
  next
    case fd: (Some d)
    obtain r1 k2 where b: "body d (on_io (fd_addref d) k) = (r1, k2)" by fastforce
    have "r1 \<noteq> Crash \<and> T p k2" by (rule assms(3) [OF _ hold [OF assms(1) pr fd] b]) simp
    then show ?thesis using assms(2) pr fd b drop by (auto simp: with_fd_def split: sysret.splits)
  qed
qed

end

interpretation safe: safe_calls "\<lambda>oth p k. counted live oth p k \<and> typed live p k" "typed live" for live
proof (unfold_locales, goal_cases)
  case (1 others p k pr fd d)
  then show ?case using counts.hold [of live others p k pr fd d] by (simp add: typed_on_io)
next
  case (2 others d p k)
  then show ?case using counts.let_go [of live others d p k] by (simp add: typed_on_io)
next
  case (3 others p k)
  then show ?case by (auto simp: typed_def)
next
  case (4 p k d)
  then show ?case by (simp add: typed_on_io)
qed

lemma held_exists: "counted live oth p k \<Longrightarrow> 0 < oth d \<Longrightarrow> \<exists>f. files (io k) d = Some f"
  by (auto simp: counted_def refs_ok_def refs_def dest: spec [of _ d] split: option.splits)

section \<open>The calls\<close>

lemma of_blocking_safe: "of_blocking b = Crash \<longleftrightarrow> b = Return Bug"
  by (auto simp: of_blocking_def of_expected_def split: blocking.split expected.split)

lemma of_expected_safe: "of_expected f r = Crash \<longleftrightarrow> r = Bug"
  by (auto simp: of_expected_def split: expected.split)

lemma read_step:
  assumes "counted live oth p k" and "typed live p k" and "0 < oth d" and "FileDescription_Read K d b n (io k) = (r, s)"
  shows "r \<noteq> Return Bug" and "typed live p (k\<lparr>io := s\<rparr>)" and "counted live oth p (k\<lparr>io := s\<rparr>)"
proof -
  have "io_ok live (io k)" using assms(2) by (simp add: typed_def)
  from FileDescription_Read_types [OF this _ assms(4)] held_exists [where oth = oth and d = d, OF assms(1,3)]
  have "io_grows live (io k) s \<and> r \<noteq> Return Bug" by blast
  then show "r \<noteq> Return Bug" "typed live p (k\<lparr>io := s\<rparr>)" using typed_io [OF assms(2)] by blast+
  show "counted live oth p (k\<lparr>io := s\<rparr>)" by (rule counted_io [OF assms(1) same_refs_Read [OF assms(4)]])
qed

lemma write_step:
  assumes "alloc_laws K live" and "ring_laws (ring_ops K) con cap" and "page_objects K" and "counted live oth p k" and "typed live p k"
    and "0 < oth d" and "FileDescription_Write K d b n (io k) = (r, s)"
  shows "r \<noteq> Return Bug" and "typed live p (k\<lparr>io := s\<rparr>)" and "counted live oth p (k\<lparr>io := s\<rparr>)"
proof -
  have "io_ok live (io k)" using assms(5) by (simp add: typed_def)
  from FileDescription_Write_types [OF assms(1-3) this _ assms(7)] held_exists [where oth = oth and d = d, OF assms(4,6)]
  have "io_grows live (io k) s \<and> r \<noteq> Return Bug" by blast
  then show "r \<noteq> Return Bug" "typed live p (k\<lparr>io := s\<rparr>)" using typed_io [OF assms(5)] by blast+
  show "counted live oth p (k\<lparr>io := s\<rparr>)" by (rule counted_io [OF assms(4) same_refs_Write [OF assms(1,7)]])
qed

lemma writev_safe:
  assumes K: "alloc_laws (lib P) live" "ring_laws (ring_ops (lib P)) con cap" "page_objects (lib P)" and d: "0 < oth d"
  shows "counted live oth p k \<Longrightarrow> typed live p k \<Longrightarrow> writev_loop P d iov n tot k = (r, k') \<Longrightarrow> r \<noteq> Crash \<and> typed live p k'"
  using K d
proof (induction P d iov n tot k rule: writev_loop.induct)
  case (2 P d iov n tot k)
  obtain b s where w: "FileDescription_Write (lib P) d (load64 (kmem_of k) iov) (load64 (kmem_of k) (iov + 8)) (io k) = (b, s)"
    by fastforce
  note S = write_step [where oth = oth and d = d, OF 2(6-8) 2(3,4) 2(9) w]
  show ?case
  proof (cases "load64 (kmem_of k) (iov + 8) = 0")
    case True
    then show ?thesis using 2(1) 2(3-9) by simp
  next
    case False
    show ?thesis
    proof (cases "\<exists>x. b = Return (Value x)")
      case True
      then obtain x where b: "b = Return (Value x)" by blast
      have "writev_loop P d (iov + 16) n (tot + x) (k\<lparr>io := s\<rparr>) = (r, k')" using 2(5) False w b by simp
      then show ?thesis using 2(2) [OF False w [symmetric] b refl] S 2(6-9) by blast
    next
      case nv: False
      have "r = of_blocking b \<and> k' = k\<lparr>io := s\<rparr>"
        using 2(5) False w nv by (auto split: blocking.splits expected.splits)
      then show ?thesis using S by (simp add: of_blocking_safe)
    qed
  qed
qed auto

lemma readv_safe:
  assumes d: "0 < oth d"
  shows "counted live oth p k \<Longrightarrow> typed live p k \<Longrightarrow> readv_loop P d iov n tot k = (r, k') \<Longrightarrow> r \<noteq> Crash \<and> typed live p k'"
  using d
proof (induction P d iov n tot k rule: readv_loop.induct)
  case (2 P d iov n tot k)
  obtain b s where w: "FileDescription_Read (lib P) d (load64 (kmem_of k) iov) (load64 (kmem_of k) (iov + 8)) (io k) = (b, s)"
    by fastforce
  note S = read_step [where oth = oth and d = d, OF 2(3,4) 2(6) w]
  show ?case
  proof (cases "load64 (kmem_of k) (iov + 8) = 0")
    case True
    then show ?thesis using 2(1) 2(3-6) by simp
  next
    case False
    show ?thesis
    proof (cases "\<exists>x. b = Return (Value x)")
      case True
      then obtain x where b: "b = Return (Value x)" by blast
      let ?k = "k\<lparr>io := s\<rparr>"
      show ?thesis
      proof (cases "x < load64 (kmem_of ?k) (iov + 8)")
        case True
        then show ?thesis using 2(5) False w b S by (auto simp: Let_def)
      next
        case more: False
        have "readv_loop P d (iov + 16) n (tot + x) ?k = (r, k')" using 2(5) False w b more by (simp add: Let_def)
        then show ?thesis using 2(2) [OF False w [symmetric] b refl refl more] S 2(6) by blast
      qed
    next
      case nv: False
      have "r = of_blocking b \<and> k' = k\<lparr>io := s\<rparr>"
        using 2(5) False w nv by (auto split: blocking.splits expected.splits)
      then show ?thesis using S by (simp add: of_blocking_safe)
    qed
  qed
qed auto

lemma typed_set_offset: "typed live p k \<Longrightarrow> typed live p (set_offset d w k)"
  by (simp add: set_offset_def typed_on_io io_grows_upd_file)

text \<open>What an open file of a well-typed process leads to.\<close>

lemma held_file:
  assumes "counted live oth p k" and "typed live p k" and "0 < oth d"
  obtains f where "the_file d k = Some f" and "\<And>v. fd_vnode f = Some v \<Longrightarrow> vnode_of v k \<noteq> None"
proof -
  obtain f where f: "files (io k) d = Some f" using held_exists [where oth = oth and d = d, OF assms(1,3)] by blast
  moreover have "vnode_of v k \<noteq> None" if "fd_vnode f = Some v" for v
    using assms(2) f that unfolding typed_def io_ok_def vnode_of_def by blast
  ultimately show thesis using that by (simp add: the_file_def)
qed

lemma io_calls_safe:
  fixes k :: "('v, 'r, 'k, 'a) kernel"
  assumes K: "alloc_laws (lib P) live" "ring_laws (ring_ops (lib P)) con cap" "page_objects (lib P)" and k: "counted live oth p k \<and> typed live p k"
  shows "sys_read P p regs k = (r, k') \<Longrightarrow> r \<noteq> Crash \<and> typed live p k'"
    and "sys_write P p regs k = (r, k') \<Longrightarrow> r \<noteq> Crash \<and> typed live p k'"
    and "sys_readv P p regs k = (r, k') \<Longrightarrow> r \<noteq> Crash \<and> typed live p k'"
    and "sys_writev P p regs k = (r, k') \<Longrightarrow> r \<noteq> Crash \<and> typed live p k'"
    and "sys_lseek p regs k = (r, k') \<Longrightarrow> r \<noteq> Crash \<and> typed live p k'"
proof -
  show "sys_read P p regs k = (r, k') \<Longrightarrow> r \<noteq> Crash \<and> typed live p k'"
    unfolding sys_read_def by (erule safe.with_fd_safe [OF k]) (auto simp: of_blocking_safe split: prod.splits dest: read_step)
  show "sys_write P p regs k = (r, k') \<Longrightarrow> r \<noteq> Crash \<and> typed live p k'"
    unfolding sys_write_def by (erule safe.with_fd_safe [OF k]) (auto simp: of_blocking_safe split: prod.splits dest: write_step [OF K])
  show "sys_readv P p regs k = (r, k') \<Longrightarrow> r \<noteq> Crash \<and> typed live p k'"
    unfolding sys_readv_def by (erule safe.with_fd_safe [OF k]) (auto split: if_splits dest: readv_safe)
  show "sys_writev P p regs k = (r, k') \<Longrightarrow> r \<noteq> Crash \<and> typed live p k'"
    unfolding sys_writev_def by (erule safe.with_fd_safe [OF k]) (auto split: if_splits dest: writev_safe [OF K])
  show "sys_lseek p regs k = (r, k') \<Longrightarrow> r \<noteq> Crash \<and> typed live p k'"
    unfolding sys_lseek_def
  proof (erule safe.with_fd_safe [OF k], goal_cases)
    case (1 d o' k1 r1 k2)
    then obtain f where "the_file d k1 = Some f" "\<And>v. fd_vnode f = Some v \<Longrightarrow> vnode_of v k1 \<noteq> None" using held_file by blast
    then show ?case using 1 by (auto simp: Let_def typed_set_offset split: if_splits option.splits)
  qed
qed

lemma table_call_safe:
  assumes "typed live p k" and "apfst (of_expected g) (on_table p f k) = (r, k')"
    and "\<And>T s q T' s'. f T s = (q, T', s') \<Longrightarrow> io_grows live s s' \<and> q \<noteq> Bug"
  shows "r \<noteq> Crash \<and> typed live p k'"
proof -
  obtain q where t: "on_table p f k = (q, k')" and r: "r = of_expected g q" using assms(2) by (cases "on_table p f k") auto
  from typed_on_table [OF assms(1) t assms(3)] show ?thesis by (simp add: r of_expected_safe)
qed

lemma descriptor_calls_safe:
  fixes k :: "('v, 'r, 'k, 'a) kernel"
  assumes K: "alloc_laws (lib P) live" and k: "counted live oth p k \<and> typed live p k"
  shows "sys_close p regs k = (r, k') \<Longrightarrow> r \<noteq> Crash \<and> typed live p k'"
    and "sys_dup P p regs k = (r, k') \<Longrightarrow> r \<noteq> Crash \<and> typed live p k'"
    and "sys_dup2 P p regs k = (r, k') \<Longrightarrow> r \<noteq> Crash \<and> typed live p k'"
    and "sys_fcntl P p regs k = (r, k') \<Longrightarrow> r \<noteq> Crash \<and> typed live p k'"
proof -
  show "sys_close p regs k = (r, k') \<Longrightarrow> r \<noteq> Crash \<and> typed live p k'"
    unfolding sys_close_def by (rule table_call_safe [OF conjunct2 [OF k]]) (auto dest: FreeFd_types)
  show "sys_dup P p regs k = (r, k') \<Longrightarrow> r \<noteq> Crash \<and> typed live p k'"
    unfolding sys_dup_def by (erule safe.with_fd_safe [OF k]) (erule table_call_safe [OF conjunct2], auto dest: AllocateFd_types [OF K])
  have at: "r1 \<noteq> Crash \<and> typed live p k2"
    if "typed live p k1" "apfst (of_expected ucast) (on_table p (AllocateFdAt (lib P) n (Some d)) k1) = (r1, k2)"
    for n d r1 and k1 k2 :: "('v, 'r, 'k, 'a) kernel"
    by (rule table_call_safe [OF that]) (auto dest: AllocateFdAt_types [OF K])
  have dl: "r1 \<noteq> Crash \<and> typed live p k2"
    if "typed live p k1" "apfst (of_expected ucast) (on_table p (dupfd_loop (lib P) d n) k1) = (r1, k2)"
    for n d r1 and k1 k2 :: "('v, 'r, 'k, 'a) kernel"
    by (rule table_call_safe [OF that]) (auto dest: dupfd_loop_types [OF K])
  show "r \<noteq> Crash \<and> typed live p k'" if c: "sys_dup2 P p regs k = (r, k')"
  proof (cases "(ucast (rdi regs) :: u32) = ucast (rsi regs)")
    case False
    then have "with_fd p (ucast (rdi regs)) (\<lambda>d k. apfst (of_expected ucast) (on_table p (AllocateFdAt (lib P) (ucast (rsi regs)) (Some d)) k)) k = (r, k')"
      using c by (simp add: sys_dup2_def Let_def)
    then show ?thesis by (rule safe.with_fd_safe [OF k]) (rule at, simp_all)
  qed (use c k in \<open>auto simp: sys_dup2_def Let_def\<close>)
  show "sys_fcntl P p regs k = (r, k') \<Longrightarrow> r \<noteq> Crash \<and> typed live p k'"
    unfolding sys_fcntl_def
  proof (erule safe.with_fd_safe [OF k], goal_cases)
    case (1 d o' k1 r1 k2)
    then obtain f where f: "the_file d k1 = Some f" using held_file by blast
    have fl: "typed live p (on_io (set_flags d a) k1)" for a
      using 1 by (intro typed_on_io) (auto simp: set_flags_def intro: io_grows_upd_file)
    show ?case
    proof (cases "cint (rsi regs) = 0 \<or> cint (rsi regs) = 1030")
      case True
      then show ?thesis using 1 by (intro dl [of k1 d "ucast (rdx regs)" r1 k2]) (auto simp: Let_def)
    next
      case False
      then show ?thesis using 1 f fl by (auto simp: Let_def split: if_splits)
    qed
  qed
qed

section \<open>Calls that take a path\<close>

text \<open>A string ends, because addresses wrap and some byte is 0.\<close>

lemma cstr_total:
  fixes z :: addr
  assumes "m z = 0"
  shows "\<exists>c. cstr m p = Some c"
proof -
  have "\<exists>c. cstr m (z - of_nat n) = Some c" for n
  proof (induction n)
    case 0
    then show ?case using assms by (simp add: cstr.simps)
  next
    case (Suc n)
    have "z - of_nat (Suc n) + 1 = z - of_nat n" by simp
    then show ?case using Suc by (subst cstr.simps) auto
  qed
  from this [of "unat (z - p)"] show ?thesis by simp
qed

lemma user_path_safe:
  assumes "typed live p k" and "kmem_of k z = 0"
  shows "user_path p ptr k \<noteq> Bug \<and> (\<forall>v. user_path p ptr k = Value v \<longrightarrow> in_tree (fs (io k)) v)"
proof -
  obtain pr where pr: "procs k p = Some pr" "in_tree (fs (io k)) (m_root pr)" using assms(1) by (auto simp: typed_def)
  obtain c where c: "cstr (kmem_of k) ptr = Some c" using cstr_total [where m = "kmem_of k" and z = z, OF assms(2)] by blast
  show ?thesis
    using resolve_types [OF grows_dir [OF assms(1)] pr(2), of "components c"] pr(1) c
    by (simp add: user_path_def PathToVnode_resolve)
qed

lemma put_stat_safe: "vnode_of v k \<noteq> None \<Longrightarrow> typed live p k \<Longrightarrow> put_stat v b k = (r, k') \<Longrightarrow> r \<noteq> Crash \<and> typed live p k'"
  by (auto simp: put_stat_def typed_set_mem)

lemma info_calls_safe:
  fixes k :: "('v, 'r, 'k, 'a) kernel"
  assumes k: "counted live oth p k \<and> typed live p k" and z: "kmem_of k z = 0"
  shows "sys_stat p a b k = (r, k') \<Longrightarrow> r \<noteq> Crash \<and> typed live p k'"
    and "sys_fstat p regs k = (r, k') \<Longrightarrow> r \<noteq> Crash \<and> typed live p k'"
    and "sys_access p regs k = (r, k') \<Longrightarrow> r \<noteq> Crash \<and> typed live p k'"
    and "sys_ioctl p regs k = (r, k') \<Longrightarrow> r \<noteq> Crash \<and> typed live p k'"
proof -
  note U = user_path_safe [OF conjunct2 [OF k] z]
  show "sys_stat p a b k = (r, k') \<Longrightarrow> r \<noteq> Crash \<and> typed live p k'"
    using U [of a] k put_stat_safe by (fastforce simp: sys_stat_def in_tree_def vnode_of_def split: expected.splits)
  show "sys_access p regs k = (r, k') \<Longrightarrow> r \<noteq> Crash \<and> typed live p k'"
    using U [of "rdi regs"] k by (auto simp: sys_access_def of_expected_safe)
  show "sys_fstat p regs k = (r, k') \<Longrightarrow> r \<noteq> Crash \<and> typed live p k'"
    unfolding sys_fstat_def
  proof (erule safe.with_fd_safe [OF k], goal_cases)
    case (1 d o' k1 r1 k2)
    then obtain f where f: "the_file d k1 = Some f" "\<And>v. fd_vnode f = Some v \<Longrightarrow> vnode_of v k1 \<noteq> None" using held_file by blast
    then show ?case
      using 1 put_stat_safe [OF f(2), where b = "rsi regs" and p = p and live = live and r = r1 and k' = k2]
      by (cases "fd_vnode f") auto
  qed
  show "sys_ioctl p regs k = (r, k') \<Longrightarrow> r \<noteq> Crash \<and> typed live p k'"
    unfolding sys_ioctl_def by (erule safe.with_fd_safe [OF k]) (auto simp: Let_def typed_set_mem split: if_splits)
qed

section \<open>Calls that open files\<close>

lemma storage_allocD: "storage_laws K live avail \<Longrightarrow> alloc_laws K live"
  by (simp add: storage_laws_def)

lemma op_new_some:
  assumes "storage_laws K live avail" and "0 < avail l"
  obtains a l' where "op_new K l = (Some a, l')" and "avail l' = avail l - 1"
  using assms unfolding storage_laws_def by blast

lemma vnode_Create_avail:
  assumes K: "storage_laws K live avail" and a: "2 \<le> avail (kmm t)" and c: "vnode_Create K dir nm t = (r, t')"
  shows "avail (kmm t) \<le> avail (kmm t') + 2"
proof -
  obtain x k1 k2 where "op_new K (kmm t) = (Some x, k1)" "PushBack_ok K k1 = (True, k2)" "avail k2 + 2 = avail (kmm t)"
    using two_allocations [OF K a] by metis
  then have "avail (kmm t) \<le> avail (kmm (snd (add_node K dir ty nm t))) + 2" for ty by (simp add: add_node_def upd_vnode_def)
  then have "avail (kmm t) \<le> avail (kmm (snd (RamFs_Create K dir nm t))) + 2"
    by (auto simp: RamFs_Create_def split: option.split)
  then show ?thesis using c by (auto simp: vnode_Create_def split: option.splits VnodeOps.splits)
qed

lemma new_safe:
  assumes K: "storage_laws K live avail" and a: "0 < avail (kmm (fs s))" and v: "vnodes (fs s) v \<noteq> None"
  obtains d s' where "FileDescription_new K (Some v) fl s = (Value d, s')" and "io_grows live s s'"
    and "avail (kmm (fs s')) = avail (kmm (fs s)) - 1"
proof -
  obtain d l where o: "op_new K (kmm (fs s)) = (Some d, l)" "avail l = avail (kmm (fs s)) - 1" using op_new_some [OF K a] .
  obtain s' where n: "FileDescription_new K (Some v) fl s = (Value d, s')" "kmm (fs s') = l"
    using o(1) by (simp add: FileDescription_new_def)
  show thesis using that [OF n(1) FileDescription_new_types [OF storage_allocD [OF K] v n(1)]] n(2) o(2) by simp
qed

lemma open_create_safe:
  assumes K: "storage_laws (lib P) live avail" and t: "typed live p k" and z: "kmem_of k z = 0" and a: "2 \<le> avail (kmm_of k)"
    and run: "open_create P p ptr k = (r, k')"
  shows "typed live p k' \<and> r \<noteq> Bug \<and> (\<forall>v. r = Value v \<longrightarrow> vnode_of v k' \<noteq> None) \<and> avail (kmm_of k) \<le> avail (kmm_of k') + 2"
proof -
  obtain pr where pr: "procs k p = Some pr" "in_tree (fs (io k)) (m_root pr)" "in_tree (fs (io k)) (m_cwd pr)"
    using t by (auto simp: typed_def)
  note ok = grows_dir [OF t]
  obtain c where c: "cstr (kmem_of k) ptr = Some c" using cstr_total [where m = "kmem_of k" and z = z, OF z] by blast
  have path: "PathToVnode (m_root pr) q (fs (io k)) \<noteq> Bug" "PathToVnode (m_root pr) q (fs (io k)) = Value v \<Longrightarrow> in_tree (fs (io k)) v" for q v
    using resolve_types [OF ok pr(2), of "components q"] by (simp_all add: PathToVnode_resolve)
  have parent: "open_parent p ptr k \<noteq> Bug" "open_parent p ptr k = Value (dir, nm) \<Longrightarrow> in_tree (fs (io k)) dir" for dir nm
    using pr c path by (auto simp: open_parent_def split: option.splits if_splits expected.splits)
  show ?thesis
  proof (cases "open_parent p ptr k")
    case (Value dn)
    obtain dir nm where dn: "dn = (dir, nm)" by fastforce
    note dir = parent(2) [OF Value [unfolded dn]]
    obtain vn where vn: "vnodes (fs (io k)) dir = Some vn" "ops vn = Some RamFsOps \<or> ops vn = Some PseudoFsOps" using in_tree_ops [OF ok dir] by metis
    obtain q t1 where cr: "vnode_Create (lib P) dir nm (fs (io k)) = (q, t1)" by fastforce
    note C = vnode_Create_types [OF storage_allocD [OF K] ok dir cr]
    have "(r, k') = (q, on_io (set_fs t1) k)"
      using run Value dn vn cr by (auto simp: open_create_def vnode_of_def)
    moreover have "typed live p (on_io (set_fs t1) k)" using C by (intro typed_on_io [OF t] io_grows_fs) blast
    moreover have "avail (kmm_of k) \<le> avail (kmm t1) + 2" using vnode_Create_avail [OF K _ cr] a by (simp add: kmm_of_def)
    ultimately show ?thesis using C by (auto simp: vnode_of_def on_io_def set_fs_def kmm_of_def)
  qed (use run parent(1) t in \<open>auto simp: open_create_def\<close>)
qed

lemma trunc_safe:
  assumes "typed live p k"
  shows "typed live p (on_io (\<lambda>s. set_fs (upd_vnode v (\<lambda>vn. vn\<lparr>v_size := 0\<rparr>) (fs s)) s) k)"
proof (rule typed_on_io [OF assms], rule io_grows_fs, rule grows_upd)
  show "node_ok (vnodes (fs (io k))) (vn\<lparr>v_size := 0\<rparr>) \<and> vtype (vn\<lparr>v_size := 0\<rparr>) = vtype vn \<and> ops (vn\<lparr>v_size := 0\<rparr>) = ops vn"
    if "fs_ok live (fs (io k))" "vnodes (fs (io k)) v = Some vn" for vn
    using node_of(1) [OF that] by (simp add: node_ok_def)
qed

lemma open_target_safe:
  assumes K: "storage_laws (lib P) live avail" and t: "typed live p k" and z: "kmem_of k z = 0" and a: "2 \<le> avail (kmm_of k)"
    and run: "open_target P p ptr fl k = (r, k')"
  shows "typed live p k' \<and> r \<noteq> Bug \<and> (\<forall>v. r = Value v \<longrightarrow> vnode_of v k' \<noteq> None) \<and> avail (kmm_of k) \<le> avail (kmm_of k') + 2"
proof -
  note U = user_path_safe [OF t z, of ptr]
  show ?thesis
  proof (cases "user_path p ptr k")
    case (Value v)
    then have "vnodes (fs (io k)) v \<noteq> None" using U by (auto simp: in_tree_def)
    then show ?thesis using run Value t trunc_safe [OF t, of v]
      by (auto simp: open_target_def vnode_of_def on_io_def set_fs_def upd_vnode_def kmm_of_def split: if_splits)
  next
    case (Unexpected e)
    then show ?thesis using run t open_create_safe [OF K t z a] by (auto simp: open_target_def split: if_splits)
  qed (use U in simp)
qed

lemma sys_open_safe:
  assumes K: "storage_laws (lib P) live avail" and t: "typed live p k" and z: "kmem_of k z = 0" and a: "4 \<le> avail (kmm_of k)"
    and run: "sys_open P p regs k = (r, k')"
  shows "r \<noteq> Crash \<and> typed live p k'"
proof -
  let ?fl = "ucast (rsi regs) :: u32"
  obtain r1 k1 where o: "open_target P p (rdi regs) ?fl k = (r1, k1)" by fastforce
  have a2: "2 \<le> avail (kmm_of k)" using a by simp
  note O = open_target_safe [OF K t z a2 o]
  show ?thesis
  proof (cases r1)
    case (Value v)
    have v: "vnodes (fs (io k1)) v \<noteq> None" "0 < avail (kmm (fs (io k1)))" using O Value a by (auto simp: vnode_of_def kmm_of_def)
    obtain d s2 where n: "FileDescription_new (lib P) (Some v) ?fl (io k1) = (Value d, s2)" and g: "io_grows live (io k1) s2"
      using new_safe [OF K v(2,1)] by metis
    let ?k2 = "k1\<lparr>io := s2\<rparr>"
    let ?k3 = "if ?fl AND 0x400 \<noteq> 0 then (case vnode_of v ?k2 of Some vn \<Rightarrow> set_offset d (v_size vn) ?k2 | None \<Rightarrow> ?k2) else ?k2"
    have "typed live p ?k2" using O g typed_io by blast
    then have t3: "typed live p ?k3" by (simp add: typed_set_offset split: option.split)
    obtain r4 k4 where al: "on_table p (AllocateFd (lib P) (Some d)) ?k3 = (r4, k4)" by fastforce
    have t4: "typed live p k4 \<and> r4 \<noteq> Bug"
      by (rule typed_on_table [OF t3 al]) (rule AllocateFd_types [OF storage_allocD [OF K]])
    have "r = of_expected ucast r4" "k' = on_io (fd_release d) k4"
      using run o Value n al by (simp_all add: sys_open_def Let_def)
    then show ?thesis using t4 by (simp add: of_expected_safe typed_on_io)
  next
    case (Unexpected e)
    then show ?thesis using run o O by (auto simp: sys_open_def Let_def)
  qed (use O in simp)
qed

lemma PipeVnode_Create_safe:
  assumes K: "storage_laws K live avail" and t: "fs_ok live t" and a: "4 \<le> avail (kmm t)"
  obtains v t' where "PipeVnode_Create K t = (Value v, t')" and "grows live t t'" and "vnodes t' v \<noteq> None" and "2 \<le> avail (kmm t')"
proof -
  obtain v l1 where 1: "op_new K (kmm t) = (Some v, l1)" "avail l1 = avail (kmm t) - 1" using op_new_some [OF K, of "kmm t"] a by auto
  obtain x l2 where 2: "op_new K l1 = (Some x, l2)" "avail l2 = avail l1 - 1" using op_new_some [OF K, of l1] a 1(2) by auto
  note L = alloc_lawsD(1-3) [OF storage_allocD [OF K]]
  have v: "v \<notin> dom (vnodes t)" "dom (vnodes t) \<subseteq> live l2" "v \<in> live l2"
    using t L(1,3) [OF 1(1)] L(2) [OF 1(1)] L(2) [OF 2(1)] unfolding fs_ok_def by blast+
  let ?nd = "(Vnode_new Fifo PipeOps)\<lparr>v_pipe := Some (Pipe_new (ring_new K kDefaultCapacity))\<rparr>"
  have nd: "node_ok Map.empty ?nd" by (simp add: node_ok_def Vnode_new_def)
  show thesis
    by (rule that [of v "t\<lparr>kmm := l2, vnodes := (vnodes t)(v \<mapsto> ?nd)\<rparr>"])
      (use 1 2 a grows_new [OF t v(1) nd v(2,3)] in \<open>simp_all add: PipeVnode_Create_def\<close>)
qed

lemma sys_pipe_safe:
  fixes k :: "('v, 'r, 'k, 'a) kernel"
  assumes K: "storage_laws (lib P) live avail" and t: "typed live p k" and a: "4 \<le> avail (kmm_of k)"
    and run: "sys_pipe P p regs k = (r, k')"
  shows "r \<noteq> Crash \<and> typed live p k'"
proof -
  note L = storage_allocD [OF K]
  obtain v t1 where pv: "PipeVnode_Create (lib P) (fs (io k)) = (Value v, t1)" and g1: "grows live (fs (io k)) t1"
    and v1: "vnodes t1 v \<noteq> None" and a1: "2 \<le> avail (kmm t1)"
    using PipeVnode_Create_safe [OF K grows_dir [OF t]] a unfolding kmm_of_def by metis
  let ?s1 = "set_fs t1 (io k)"
  have s1: "fs ?s1 = t1" by (simp add: set_fs_def)
  obtain rd s2 where rd: "FileDescription_new (lib P) (Some v) kPipeRead ?s1 = (Value rd, s2)" and g2: "io_grows live ?s1 s2"
    and a2: "avail (kmm (fs s2)) = avail (kmm t1) - 1"
    using new_safe [OF K, of ?s1 v] v1 a1 unfolding s1 by (metis less_le_trans zero_less_numeral)
  have t2: "typed live p (k\<lparr>io := s2\<rparr>)" by (rule typed_io [OF t io_grows_trans [OF io_grows_fs g2]]) (rule g1)
  have ok: "io_ok live ?s1" "io_ok live s2 \<and> grows live t1 (fs s2)"
    using io_grows_fs [of live "io k" t1] g1 g2 t by (simp_all add: io_grows_def typed_def s1)
  have v2: "vnodes (fs s2) v \<noteq> None" using grows_dom [OF conjunct2 [OF ok(2)]] v1 by blast
  have "0 < avail (kmm (fs s2))" using a1 a2 by simp
  then obtain wr s3 where wr: "FileDescription_new (lib P) (Some v) kPipeWrite s2 = (Value wr, s3)" and g3: "io_grows live s2 s3"
    using new_safe [OF K _ v2] by metis
  have t3: "typed live p (k\<lparr>io := s3\<rparr>)" using typed_io [OF t2, of s3] g3 by simp
  obtain fd1 k4 where f1: "on_table p (AllocateFd (lib P) (Some rd)) (k\<lparr>io := s3\<rparr>) = (fd1, k4)" by fastforce
  have t4: "typed live p k4 \<and> fd1 \<noteq> Bug" by (rule typed_on_table [OF t3 f1]) (rule AllocateFd_types [OF L])
  obtain fd2 k5 where f2: "on_table p (AllocateFd (lib P) (Some wr)) k4 = (fd2, k5)" by fastforce
  have t5: "typed live p k5 \<and> fd2 \<noteq> Bug" by (rule typed_on_table [OF conjunct1 [OF t4] f2]) (rule AllocateFd_types [OF L])
  have fr: "typed live p (snd (on_table p (\<lambda>T s. (Value (), FreeFd x T s)) k6))" if "typed live p k6"
    for x and k6 :: "('v, 'r, 'k, 'a) kernel"
  proof -
    obtain q k7 where q: "on_table p (\<lambda>T s. (Value (), FreeFd x T s)) k6 = (q, k7)" by fastforce
    have "typed live p k7 \<and> q \<noteq> Bug" by (rule typed_on_table [OF that q]) (auto dest: FreeFd_types)
    then show ?thesis using q by simp
  qed
  show ?thesis
    using run t4 t5 pv rd wr f1 f2
    by (cases fd1; cases fd2) (auto simp: sys_pipe_def intro!: typed_on_io typed_set_mem fr)
qed

lemmas file_calls_safe = io_calls_safe descriptor_calls_safe info_calls_safe

end
