(* ===== verification/CpuTables.thy ===== *)
theory CpuTables
  imports Prelude
begin

text \<open>
  The segment and interrupt tables of the processor (\<open>include/ceryx/cpu/Gdt.hpp\<close>, \<open>arch/x86_64/cpu/Gdt.cpp\<close>,
  \<open>include/ceryx/cpu/Idt.hpp\<close>, \<open>arch/x86_64/cpu/Idt.cpp\<close>). The tables are values, the loads by \<open>lgdt\<close>, \<open>lidt\<close>,
  \<open>ltr\<close> and the segment moves are the record of what was loaded. How the processor reads a descriptor
  or a gate is stated by the definitions of the section on decoding.
\<close>

section \<open>Segment descriptors\<close>

record Tss =
  tss_rsp :: "u64 list"
  tss_ist :: "u64 list"
  iopb_offset :: u16

record GdtDescriptor =
  limit_low :: u16
  base_low :: u16
  base_mid :: u8
  access :: u8
  granularity :: u8
  base_high :: u8

definition kNullSelector :: u16 where "kNullSelector = 0x00"

definition kKernelCodeSelector :: u16 where "kKernelCodeSelector = 0x08"

definition kKernelDataSelector :: u16 where "kKernelDataSelector = 0x10"

definition kUserDataSelector :: u16 where "kUserDataSelector = 0x18 OR 3"

definition kUserCodeSelector :: u16 where "kUserCodeSelector = 0x20 OR 3"

definition kTssSelector :: u16 where "kTssSelector = 0x28"

record GdtTable =
  entries :: "GdtDescriptor list"
  tss_low :: GdtDescriptor
  tss_base_upper :: u32

definition SetupDescriptor :: "u32 \<Rightarrow> u32 \<Rightarrow> u8 \<Rightarrow> u8 \<Rightarrow> GdtDescriptor" where
  "SetupDescriptor bas lim acc gran =
     \<lparr>limit_low = ucast (lim AND 0xFFFF), base_low = ucast (bas AND 0xFFFF),
      base_mid = ucast (drop_bit 16 bas AND 0xFF), access = acc,
      granularity = (gran AND 0xF0) OR ucast (drop_bit 16 lim AND 0x0F),
      base_high = ucast (drop_bit 24 bas AND 0xFF)\<rparr>"

definition SetupTssDescriptor :: "u64 \<Rightarrow> u32 \<Rightarrow> GdtTable \<Rightarrow> GdtTable" where
  "SetupTssDescriptor bas lim table =
     table\<lparr>tss_low := SetupDescriptor (ucast (bas AND 0xFFFFFFFF)) lim 0x89 0x40,
           tss_base_upper := ucast (drop_bit 32 bas AND 0xFFFFFFFF)\<rparr>"

text \<open>\<open>sizeof(Tss)\<close> and \<open>sizeof(GdtTable)\<close>: both structures are packed.\<close>

definition kTssSize :: nat where "kTssSize = 4 + 3 * 8 + 8 + 7 * 8 + 8 + 2 + 2"

definition kGdtSize :: nat where "kGdtSize = 5 * 8 + (8 + 4 + 4)"

text \<open>What the processor holds after \<open>Initialize\<close>: the table register, the segment registers and the task register.\<close>

record segments =
  gdtr_limit :: u16
  gdtr_base :: u64
  seg_cs :: u16
  seg_data :: u16
  seg_tr :: u16

definition Gdt_Initialize :: "u64 \<Rightarrow> u64 \<Rightarrow> GdtTable \<times> Tss \<times> segments" where
  "Gdt_Initialize table_addr tss_addr =
     (let table = \<lparr>entries = [SetupDescriptor 0 0 0 0, SetupDescriptor 0 0xFFFFFFFF 0x9A 0xAF, SetupDescriptor 0 0xFFFFFFFF 0x92 0xCF,
                        SetupDescriptor 0 0xFFFFFFFF 0xF2 0xCF, SetupDescriptor 0 0xFFFFFFFF 0xFA 0xAF],
                   tss_low = SetupDescriptor 0 0 0 0, tss_base_upper = 0\<rparr>;
          table = SetupTssDescriptor tss_addr (of_nat kTssSize - 1) table;
          tss = \<lparr>tss_rsp = replicate 3 0, tss_ist = replicate 7 0, iopb_offset = of_nat kTssSize\<rparr>
      in (table, tss,
          \<lparr>gdtr_limit = of_nat kGdtSize - 1, gdtr_base = table_addr, seg_cs = kKernelCodeSelector,
           seg_data = kKernelDataSelector, seg_tr = kTssSelector\<rparr>))"

definition SetStack :: "nat \<Rightarrow> u64 \<Rightarrow> Tss \<Rightarrow> Tss" where
  "SetStack level stack tss = (if level = 0 then tss\<lparr>tss_rsp := (tss_rsp tss)[0 := stack]\<rparr> else tss)"

section \<open>Interrupt gates\<close>

datatype IdtGateType = InterruptGate | TrapGate

definition gate_type :: "IdtGateType \<Rightarrow> u8" where
  "gate_type t = (case t of InterruptGate \<Rightarrow> 0xE | TrapGate \<Rightarrow> 0xF)"

record IdtGate =
  offset_low :: u16
  selector :: u16
  ist :: u8
  type_attributes :: u8
  offset_mid :: u16
  offset_high :: u32

definition SetOffset :: "u64 \<Rightarrow> IdtGate \<Rightarrow> IdtGate" where
  "SetOffset ofs g =
     g\<lparr>offset_low := ucast (ofs AND 0xFFFF), offset_mid := ucast (drop_bit 16 ofs AND 0xFFFF),
       offset_high := ucast (drop_bit 32 ofs AND 0xFFFFFFFF)\<rparr>"

definition SetAttributes :: "u8 \<Rightarrow> IdtGateType \<Rightarrow> IdtGate \<Rightarrow> IdtGate" where
  "SetAttributes dpl t g = g\<lparr>type_attributes := 0x80 OR push_bit 5 (dpl AND 3) OR (gate_type t AND 0xF)\<rparr>"

definition kIdtSize :: nat where "kIdtSize = 256"

definition zero_gate :: IdtGate where
  "zero_gate = \<lparr>offset_low = 0, selector = 0, ist = 0, type_attributes = 0, offset_mid = 0, offset_high = 0\<rparr>"

definition Idt_Initialize :: "(nat \<Rightarrow> u64) \<Rightarrow> IdtGate list" where
  "Idt_Initialize isr_stub_table =
     map (\<lambda>i. SetAttributes 0 InterruptGate ((SetOffset (isr_stub_table i) zero_gate)\<lparr>selector := kKernelCodeSelector, ist := 0\<rparr>))
       [0..<kIdtSize]"

section \<open>Decoding by the processor\<close>

definition desc_base :: "GdtDescriptor \<Rightarrow> u32" where
  "desc_base d = ucast (base_low d) OR push_bit 16 (ucast (base_mid d)) OR push_bit 24 (ucast (base_high d))"

definition desc_limit :: "GdtDescriptor \<Rightarrow> u32" where
  "desc_limit d = ucast (limit_low d) OR push_bit 16 (ucast (granularity d AND 0x0F))"

definition desc_dpl :: "GdtDescriptor \<Rightarrow> u8" where
  "desc_dpl d = drop_bit 5 (access d) AND 3"

text \<open>Present, not a system descriptor; executable with the long bit, or writable data.\<close>

definition code64 :: "GdtDescriptor \<Rightarrow> bool" where
  "code64 d \<longleftrightarrow> bit (access d) 7 \<and> bit (access d) 4 \<and> bit (access d) 3 \<and> bit (granularity d) 5 \<and> \<not> bit (granularity d) 6"

definition data_rw :: "GdtDescriptor \<Rightarrow> bool" where
  "data_rw d \<longleftrightarrow> bit (access d) 7 \<and> bit (access d) 4 \<and> \<not> bit (access d) 3 \<and> bit (access d) 1"

definition descriptor_at :: "GdtTable \<Rightarrow> u16 \<Rightarrow> GdtDescriptor option" where
  "descriptor_at table sel =
     (let i = unat (drop_bit 3 sel) in if i < length (entries table) then Some (entries table ! i) else None)"

definition tss_base :: "GdtTable \<Rightarrow> u64" where
  "tss_base table = ucast (desc_base (tss_low table)) OR push_bit 32 (ucast (tss_base_upper table))"

definition gate_offset :: "IdtGate \<Rightarrow> u64" where
  "gate_offset g = ucast (offset_low g) OR push_bit 16 (ucast (offset_mid g)) OR push_bit 32 (ucast (offset_high g))"

section \<open>Lemmas\<close>

lemma low_masks:
  "(0xFF :: 'a::len word) = mask 8" "(0x0F :: 'a word) = mask 4" "(0xFFFF :: 'a word) = mask 16"
  "(0xFFFFF :: 'a word) = mask 20" "(0xFFFFFFFF :: 'a word) = mask 32" "(0xF0 :: 'a word) = push_bit 4 (mask 4)"
  by (simp_all add: mask_eq_exp_minus_1 push_bit_eq_mult)

lemma desc_base_SetupDescriptor: "desc_base (SetupDescriptor b l a g) = b"
  unfolding desc_base_def SetupDescriptor_def low_masks
proof (rule bit_word_eqI, goal_cases)
  case (1 n)
  then show ?case by (cases "24 \<le> n") (auto simp: bit_simps not_less)
qed

lemma desc_limit_SetupDescriptor: "desc_limit (SetupDescriptor b l a g) = l AND 0xFFFFF"
  unfolding desc_limit_def SetupDescriptor_def low_masks
  by (rule bit_word_eqI) (auto simp: bit_simps not_less)

lemma gate_offset_SetOffset: "gate_offset (SetOffset ofs g) = ofs"
  unfolding gate_offset_def SetOffset_def low_masks
proof (rule bit_word_eqI, goal_cases)
  case (1 n)
  then show ?case by (cases "32 \<le> n") (auto simp: bit_simps not_less)
qed

lemma tss_base_SetupTss: "tss_base (SetupTssDescriptor b l table) = b"
  unfolding tss_base_def SetupTssDescriptor_def low_masks
  by (rule bit_word_eqI) (auto simp: desc_base_SetupDescriptor bit_simps not_less)

end
