(* ===== verification/Syscalls.thy ===== *)
theory Syscalls
  imports SysProc SysTypes CpuTables
begin

text \<open>
  The system call dispatcher (\<open>Syscall::Dispatch\<close> and \<open>Syscall::Initialize\<close> in \<open>arch/x86_64/cpu/SyscallDispatch.cpp\<close>).

  \<open>user_rsp\<close> is the user stack pointer that the entry code left in the per-CPU data (\<open>gs:24\<close>), which only
  \<open>rt_sigreturn\<close> reads; \<open>buf\<close> is the address of the local header variables of the ELF loader. The numbers of the
  model-specific registers are those of the architecture.
\<close>

section \<open>Dispatch\<close>

text \<open>A handler that starts with \<open>if (!process) return -e\<close>.\<close>

definition need ::
  "int \<Rightarrow> addr option \<Rightarrow> (addr \<Rightarrow> ('v, 'r, 'k, 'a) kernel \<Rightarrow> sysret \<times> ('v, 'r, 'k, 'a) kernel) \<Rightarrow>
   ('v, 'r, 'k, 'a) kernel \<Rightarrow> sysret \<times> ('v, 'r, 'k, 'a) kernel" where
  "need e p f k = (case p of None \<Rightarrow> (Ret (err (- e)), k) | Some p \<Rightarrow> f p k)"

definition kStubs :: "u64 list" where
  "kStubs = [41, 42, 43, 44, 45, 49, 50, 54, 55]"

text \<open>The calls that leave the register frame alone, by number.\<close>

definition dispatch_call ::
  "('v, 'r, 'k, 'a) plat \<Rightarrow> addr option \<Rightarrow> addr option \<Rightarrow> InterruptFrame \<Rightarrow> ('v, 'r, 'k, 'a) kernel \<Rightarrow> sysret \<times> ('v, 'r, 'k, 'a) kernel" where
  "dispatch_call P t p regs k =
     (let nr = rax regs in
      if nr = 0 then need ENOSYS p (\<lambda>p. sys_read P p regs) k
      else if nr = 1 then need ENOSYS p (\<lambda>p. sys_write P p regs) k
      else if nr = 2 then need ENOSYS p (\<lambda>p. sys_open P p regs) k
      else if nr = 3 then need ENOSYS p (\<lambda>p. sys_close p regs) k
      else if nr = 4 \<or> nr = 6 then need ENOSYS p (\<lambda>p. sys_stat p (rdi regs) (rsi regs)) k
      else if nr = 5 then need ENOSYS p (\<lambda>p. sys_fstat p regs) k
      else if nr = 8 then need ENOSYS p (\<lambda>p. sys_lseek p regs) k
      else if nr = 9 then need ENOSYS p (\<lambda>p. sys_mmap P p regs) k
      else if nr = 10 then need ENOSYS p (\<lambda>p. sys_mprotect P p regs) k
      else if nr = 11 then need ENOSYS p (\<lambda>p. sys_munmap P p regs) k
      else if nr = 12 then (case p of None \<Rightarrow> (Ret 0, k) | Some p \<Rightarrow> sys_brk P p regs k)
      else if nr = 13 then sys_rt_sigaction p regs k
      else if nr = 14 then sys_rt_sigprocmask t regs k
      else if nr = 16 then need ENOSYS p (\<lambda>p. sys_ioctl p regs) k
      else if nr = 19 then need ENOSYS p (\<lambda>p. sys_readv P p regs) k
      else if nr = 20 then need ENOSYS p (\<lambda>p. sys_writev P p regs) k
      else if nr = 21 then need ENOSYS p (\<lambda>p. sys_access p regs) k
      else if nr = 22 then need ENOSYS p (\<lambda>p. sys_pipe P p regs) k
      else if nr = 32 then need ENOSYS p (\<lambda>p. sys_dup P p regs) k
      else if nr = 33 then need ENOSYS p (\<lambda>p. sys_dup2 P p regs) k
      else if nr = 35 then sys_nanosleep P regs k
      else if nr = 39 then sys_getpid p k
      else if nr = 56 then need ENOSYS p (\<lambda>p. sys_clone P p regs) k
      else if nr = 57 then need EINVAL p (\<lambda>p. sys_fork P p regs) k
      else if nr = 60 \<or> nr = 231 then sys_exit P t p regs k
      else if nr = 61 then need EINVAL p (\<lambda>p. sys_waitpid P p regs) k
      else if nr = 63 then sys_uname regs k
      else if nr = 72 then need ENOSYS p (\<lambda>p. sys_fcntl P p regs) k
      else if nr = 78 \<or> nr = 186 then sys_gettid t k
      else if nr = 89 then (Ret (err (- EINVAL)), k)
      else if nr = 96 then sys_gettimeofday P regs k
      else if nr = 102 \<or> nr = 104 \<or> nr = 107 \<or> nr = 108 then (Ret 0, k)
      else if nr = 110 then sys_getppid p k
      else if nr = 158 then sys_arch_prctl regs k
      else if nr = 200 then need ENOSYS p (\<lambda>_. sys_tkill t (rsi regs)) k
      else if nr = 217 then need ENOSYS p (\<lambda>p. sys_getdents64 p regs) k
      else if nr = 228 then sys_clock_gettime P regs k
      else if nr = 234 then need ENOSYS p (\<lambda>_. sys_tkill t (rdx regs)) k
      else if nr = 262 then need ENOSYS p (\<lambda>p. sys_stat p (rsi regs) (rdx regs)) k
      else if nr \<in> set kStubs then (Ret (err (- ENOSYS)), k)
      else (Ret (err (- ENOSYS)), k))"

definition Dispatch ::
  "('v, 'r, 'k, 'a) plat \<Rightarrow> addr \<Rightarrow> u64 \<Rightarrow> InterruptFrame \<Rightarrow> ('v, 'r, 'k, 'a) kernel \<Rightarrow> sysret \<times> InterruptFrame \<times> ('v, 'r, 'k, 'a) kernel" where
  "Dispatch P buf user_rsp regs k =
     (let t = GetCurrentThread (sch k);
          p = Option.bind t (\<lambda>t. m_process (thr (sch k) t))
      in if rax regs = 15 then
           (case t of
              None \<Rightarrow> (Crash, regs, k)
            | Some t \<Rightarrow> (case sys_rt_sigreturn user_rsp t regs k of (w, regs, k) \<Rightarrow> (Ret w, regs, k)))
         else if rax regs = 59 then
           (case p of None \<Rightarrow> (Ret (err (- ENOSYS)), regs, k) | Some p \<Rightarrow> sys_execve P buf p regs k)
         else if rax regs = 257 then
           (case p of
              None \<Rightarrow> (Ret (err (- ENOSYS)), regs, k)
            | Some _ \<Rightarrow> (case dispatch_call P t p (openat_regs regs) k of (r, k) \<Rightarrow> (r, openat_regs regs, k)))
         else (case dispatch_call P t p regs k of (r, k) \<Rightarrow> (r, regs, k)))"

section \<open>Initialization\<close>

definition kMsrEfer :: u32 where "kMsrEfer = 0xC0000080"

definition kMsrStar :: u32 where "kMsrStar = 0xC0000081"

definition kMsrLstar :: u32 where "kMsrLstar = 0xC0000082"

definition kMsrSfmask :: u32 where "kMsrSfmask = 0xC0000084"

definition Syscall_Initialize :: "addr \<Rightarrow> ('v, 'r, 'k, 'a) kernel \<Rightarrow> ('v, 'r, 'k, 'a) kernel" where
  "Syscall_Initialize SyscallEntry k =
     (let k = WriteMsr kMsrEfer (msrs k kMsrEfer OR 1) k;
          star = push_bit 32 (ucast kKernelCodeSelector) OR push_bit 48 (0x10 OR 3);
          k = WriteMsr kMsrStar star k;
          k = WriteMsr kMsrLstar SyscallEntry k
      in WriteMsr kMsrSfmask 0x40700 k)"

section \<open>Properties\<close>

definition kFileCalls :: "u64 set" where
  "kFileCalls = {0, 1, 2, 3, 4, 5, 6, 8, 16, 19, 20, 21, 22, 32, 33, 72, 217, 262}"

text \<open>
  C10: Every system call on files that returns, on success and on error, leaves the reference counts of open files exact:
  each file is counted once per descriptor of the process that holds it and once per reference held elsewhere, and it exists
  exactly while that number is positive. So no call leaks a file or frees one that is still in use. (The allocator
  returns storage of no live object.)
\<close>

theorem file_calls_keep_counts:
  assumes "alloc_laws (lib P) live" and "counted live others p k" and "rax regs \<in> kFileCalls"
    and "dispatch_call P t (Some p) regs k = (Ret w, k')"
  shows "counted live others p k'"
  using assms(3,4) file_calls_count [OF assms(1,2)] info_calls_count [OF assms(2)] close_counts [OF assms(2)]
  by (auto simp: kFileCalls_def dispatch_call_def need_def)

lemma ex_counted: "counted ex_live ex_others 0x500 ex_kernel"
  using ex_refs_ok(1) by (auto simp: counted_def ex_kernel_def Process_new_def ex_live_def ex_filesys_def split: if_splits)

theorem file_calls_keep_counts_witness:
  "\<exists>k'. dispatch_call (ex_plat\<lparr>lib := ex_pool\<rparr>) (Some 2) (Some 0x500) (zero_frame\<lparr>rax := 32\<rparr>) ex_kernel = (Ret 1, k') \<and>
     counted ex_live ex_others 0x500 k'"
proof -
  let ?P = "ex_plat\<lparr>lib := ex_pool\<rparr>" and ?regs = "zero_frame\<lparr>rax := 32\<rparr>"
  note c = ex_counted
  have "\<exists>k'. dispatch_call ?P (Some 2) (Some 0x500) ?regs ex_kernel = (Ret 1, k')"
    by (simp add: dispatch_call_def need_def sys_dup_def with_fd_def ex_kernel_def Process_new_def zero_frame_def
        ex_table_def GetFd_def on_table_def AllocateFd_def AllocateFd_loop.simps [of _ _ "0"]
        AllocateFd_loop.simps [of _ _ "Suc 0"] kMaxFds_def grow_def on_io_def of_expected_def)
  then obtain k' where d: "dispatch_call ?P (Some 2) (Some 0x500) ?regs ex_kernel = (Ret 1, k')" by (elim exE)
  have "alloc_laws (lib ?P) ex_live" using ex_pool_alloc by simp
  from file_calls_keep_counts [OF this c _ d] have "counted ex_live ex_others 0x500 k'"
    by (simp add: kFileCalls_def)
  with d show ?thesis by (intro exI conjI)
qed

text \<open>
  C9: No system call on files uses a null pointer or panics. Whatever the call, its descriptors, flags, sizes and strings, a call made in a
  well-typed state (well-typed vnodes, open files of existing vnodes, a root and a working directory in the tree, exact reference counts)
  returns, or sleeps on a pipe, and the state is well typed again. What this rests on: the allocator has storage for
  four more objects, and for a page object whenever it had a page (a write does not check the object); the ring buffer of pipes
  is a bounded queue; some byte of memory is 0, so that strings end. The code checks no pointer of the caller: the accesses through
  them are taken to succeed and to reach user memory, so a call with an unmapped or a kernel address is outside this statement.
  \<open>getdents64\<close> is left out: its record length has 16 bits, and a record of 64 KiB makes the loop over the records endless.
\<close>

theorem file_calls_no_panic:
  assumes "storage_laws (lib P) live avail" and "ring_laws (ring_ops (lib P)) con cap" and "counted live others p k" and "typed live p k"
    and "4 \<le> avail (kmm_of k)" and "kmem_of k z = 0" and "rax regs \<in> kFileCalls - {217}" and "page_objects (lib P)"
  shows "case dispatch_call P t (Some p) regs k of (r, k') \<Rightarrow> r \<noteq> Crash \<and> typed live p k'"
proof -
  have k: "counted live others p k \<and> typed live p k" using assms(3,4) by simp
  obtain r k' where run: "dispatch_call P t (Some p) regs k = (r, k')" by fastforce
  note S = io_calls_safe [OF storage_allocD [OF assms(1)] assms(2,8) k] descriptor_calls_safe [OF storage_allocD [OF assms(1)] k]
    info_calls_safe [OF k assms(6)] sys_open_safe [OF assms(1,4,6,5)] sys_pipe_safe [OF assms(1,4,5)]
  have "rax regs = 0 \<or> rax regs = 1 \<or> rax regs = 2 \<or> rax regs = 3 \<or> rax regs = 4 \<or> rax regs = 5 \<or> rax regs = 6 \<or>
      rax regs = 8 \<or> rax regs = 16 \<or> rax regs = 19 \<or> rax regs = 20 \<or> rax regs = 21 \<or> rax regs = 22 \<or> rax regs = 32 \<or>
      rax regs = 33 \<or> rax regs = 72 \<or> rax regs = 262"
    using assms(7) unfolding kFileCalls_def by blast
  then have "r \<noteq> Crash \<and> typed live p k'"
    using run by (elim disjE) (simp add: dispatch_call_def need_def, erule S)+
  then show ?thesis using run by simp
qed

theorem file_calls_no_panic_witness:
  "\<exists>r k'. dispatch_call (ex_plat\<lparr>lib := ex_pool\<rparr>) (Some 2) (Some 0x500) (zero_frame\<lparr>rax := 2, rdi := 0x4000\<rparr>) (set_mem (\<lambda>_. 0) ex_kernel) = (r, k') \<and>
     r \<noteq> Crash \<and> typed ex_live 0x500 k'"
proof -
  let ?P = "ex_plat\<lparr>lib := ex_pool\<rparr>" and ?regs = "zero_frame\<lparr>rax := 2, rdi := 0x4000\<rparr>" and ?k = "set_mem (\<lambda>_. 0) ex_kernel"
  have c: "counted ex_live ex_others 0x500 ?k" using ex_counted by simp
  have io: "io ex_kernel = ex_filesys" "fs ex_filesys = ex_fsys" by (simp_all add: ex_kernel_def ex_filesys_def)
  have "io_ok ex_live ex_filesys" using ex_fs_ok(1) by (auto simp: io_ok_def ex_filesys_def ex_fsys_def split: if_splits)
  then have "typed ex_live 0x500 ex_kernel"
    unfolding typed_def io using ex_fs_ok(2) by (simp add: ex_kernel_def Process_new_def)
  then have t: "typed ex_live 0x500 ?k" by (rule typed_set_mem)
  have P: "storage_laws (lib ?P) ex_live (\<lambda>k. 64 - k)" "ring_laws (ring_ops (lib ?P)) (take 4) 4" "page_objects (lib ?P)"
    using ex_pool_laws list_ring_laws ex_pool_objects by (simp_all add: ex_pool_def ex_fk_def)
  obtain r k' where d: "dispatch_call ?P (Some 2) (Some 0x500) ?regs ?k = (r, k')" by fastforce
  have "4 \<le> 64 - kmm_of ?k" "kmem_of ?k 0 = 0" "rax ?regs \<in> kFileCalls - {217}"
    by (simp_all add: kFileCalls_def kmm_of_def set_mem_def kmem_of_def ex_kernel_def ex_filesys_def ex_fsys_def)
  from file_calls_no_panic [OF P(1,2) c t this P(3), where t = "Some 2"] show ?thesis using d by auto
qed

end
