(* ===== verification/Lapic.thy ===== *)
theory Lapic
  imports Prelude
begin

text \<open>
  The local APIC and its timer (\<open>include/ceryx/cpu/Lapic.hpp\<close>, \<open>arch/x86_64/cpu/Lapic.cpp\<close>). The state keeps the stores to the
  device registers and the bytes sent to ports in the order they happen, and the two calibrated frequencies. What the
  devices answer is the parameter \<open>timer_dev\<close>: the time stamp counter before and after the wait, the bytes read from the
  interval timer, and the remaining count of the APIC timer. The mapping of the register page is a call into the page
  table manager of FoundationKit and is left out.
\<close>

section \<open>State\<close>

record lapic =
  s_base :: u64
  lapic_writes :: "(u64 \<times> u32) list"
  port_writes :: "(u16 \<times> u8) list"
  s_tsc_freq :: u64
  s_lapic_freq :: u64

record timer_dev =
  tsc_start :: u64
  tsc_end :: u64
  pit_byte :: "nat \<Rightarrow> u8"
  svr :: u32
  timer_current :: u32

definition kRegEoi :: u32 where "kRegEoi = 0xB0"

definition kRegSvr :: u32 where "kRegSvr = 0xF0"

definition kRegLvtTimer :: u32 where "kRegLvtTimer = 0x320"

definition kRegTimerInitial :: u32 where "kRegTimerInitial = 0x380"

definition kRegTimerDivide :: u32 where "kRegTimerDivide = 0x3E0"

section \<open>Operations\<close>

definition Lapic_Write :: "u32 \<Rightarrow> u32 \<Rightarrow> lapic \<Rightarrow> lapic" where
  "Lapic_Write reg val d = d\<lparr>lapic_writes := lapic_writes d @ [(s_base d + ucast reg, val)]\<rparr>"

definition Lapic_Initialize :: "timer_dev \<Rightarrow> lapic \<Rightarrow> lapic" where
  "Lapic_Initialize T d = Lapic_Write kRegSvr (svr T OR 0x1FF) (d\<lparr>s_base := 0xFFFFFFFFFEE00000\<rparr>)"

definition SendEoi :: "lapic \<Rightarrow> lapic" where
  "SendEoi d = Lapic_Write kRegEoi 0 d"

definition outb :: "u16 \<Rightarrow> u8 \<Rightarrow> lapic \<Rightarrow> lapic" where
  "outb port val d = d\<lparr>port_writes := port_writes d @ [(port, val)]\<rparr>"

definition PitPrepare :: "u16 \<Rightarrow> lapic \<Rightarrow> lapic" where
  "PitPrepare n d = outb 0x40 (ucast (drop_bit 8 n AND 0xFF)) (outb 0x40 (ucast (n AND 0xFF)) (outb 0x43 0x34 d))"

text \<open>The \<open>i\<close>-th count latched by the loop; the low byte is read first.\<close>

definition pit_count :: "timer_dev \<Rightarrow> nat \<Rightarrow> u16" where
  "pit_count T i = ucast (pit_byte T (2 * i)) OR push_bit 8 (ucast (pit_byte T (2 * i + 1)))"

text \<open>The wait loop: it ends at the first count above the one before, or not at all (\<open>None\<close>).\<close>

partial_function (option) wait_wrap :: "timer_dev \<Rightarrow> nat \<Rightarrow> u16 \<Rightarrow> lapic \<Rightarrow> lapic option" where
  "wait_wrap T i last_count d =
     (let d = outb 0x43 0x00 d;
          n = pit_count T i
      in if n > last_count then Some d else wait_wrap T (Suc i) n d)"

definition Calibrate :: "timer_dev \<Rightarrow> lapic \<Rightarrow> lapic option" where
  "Calibrate T d =
     (let d = Lapic_Write kRegTimerDivide 0x03 d;
          d = PitPrepare 11932 d;
          d = Lapic_Write kRegTimerInitial 0xFFFFFFFF d
      in case wait_wrap T 0 0xFFFF d of
           None \<Rightarrow> None
         | Some d \<Rightarrow>
             (let lapic_ticks = 0xFFFFFFFF - timer_current T
              in Some (d\<lparr>s_tsc_freq := (tsc_end T - tsc_start T) * 100, s_lapic_freq := ucast lapic_ticks * 100\<rparr>)))"

definition ApicTimer_Initialize :: "timer_dev \<Rightarrow> lapic \<Rightarrow> lapic option" where
  "ApicTimer_Initialize T d =
     (case Calibrate T d of
        None \<Rightarrow> None
      | Some d \<Rightarrow> Some (Lapic_Write kRegTimerDivide 0x03 (Lapic_Write kRegLvtTimer 32 d)))"

definition OneShot :: "u64 \<Rightarrow> lapic \<Rightarrow> lapic" where
  "OneShot nanoseconds d =
     (let ticks = (nanoseconds * s_lapic_freq d) div 1000000000;
          ticks = (if ticks = 0 then 1 else ticks)
      in Lapic_Write kRegTimerInitial (ucast ticks) d)"

definition Periodic :: "u64 \<Rightarrow> lapic \<Rightarrow> lapic" where
  "Periodic nanoseconds d =
     (let ticks = (nanoseconds * s_lapic_freq d) div 1000000000;
          d = Lapic_Write kRegLvtTimer (32 OR push_bit 17 1) d
      in Lapic_Write kRegTimerInitial (ucast ticks) d)"

definition ApicTimer_Stop :: "lapic \<Rightarrow> lapic" where
  "ApicTimer_Stop d = Lapic_Write kRegTimerInitial 0 d"

section \<open>Lemmas\<close>

lemma Lapic_Write_fields [simp]:
  "s_base (Lapic_Write r v d) = s_base d" "s_lapic_freq (Lapic_Write r v d) = s_lapic_freq d"
  "lapic_writes (Lapic_Write r v d) = lapic_writes d @ [(s_base d + ucast r, v)]"
  by (simp_all add: Lapic_Write_def)

lemma outb_fields [simp]: "s_base (outb p v d) = s_base d" "lapic_writes (outb p v d) = lapic_writes d"
  by (simp_all add: outb_def)

lemma wait_wrap_ends:
  assumes "\<And>j. i \<le> j \<Longrightarrow> j < n \<Longrightarrow> pit_count T j \<le> (if j = i then last_count else pit_count T (j - 1))"
    and "i \<le> n" and "pit_count T n > (if n = i then last_count else pit_count T (n - 1))"
  shows "\<exists>d'. wait_wrap T i last_count d = Some d' \<and> s_base d' = s_base d \<and> lapic_writes d' = lapic_writes d"
  using assms
proof (induction "n - i" arbitrary: i last_count d)
  case 0
  then show ?case by (subst wait_wrap.simps) (simp add: Let_def)
next
  case (Suc m)
  then have "i < n" by simp
  then have le: "\<not> pit_count T i > last_count" using Suc.prems(1) [of i] by auto
  have "\<exists>d'. wait_wrap T (Suc i) (pit_count T i) (outb 0x43 0 d) = Some d' \<and> s_base d' = s_base (outb 0x43 0 d) \<and>
      lapic_writes d' = lapic_writes (outb 0x43 0 d)"
  proof (rule Suc.hyps)
    show "m = n - Suc i" "Suc i \<le> n" using Suc.hyps(2) \<open>i < n\<close> by simp_all
    show "pit_count T j \<le> (if j = Suc i then pit_count T i else pit_count T (j - 1))" if "Suc i \<le> j" "j < n" for j
      using Suc.prems(1) [of j] that by auto
    show "pit_count T n > (if n = Suc i then pit_count T i else pit_count T (n - 1))"
      using Suc.prems(3) \<open>i < n\<close> by auto
  qed
  then show ?case using le by (subst wait_wrap.simps) (simp add: Let_def)
qed

text \<open>A loop that ends does so at a wrap.\<close>

lemma wait_wrap_Some:
  assumes "wait_wrap T i last_count d = Some d'"
  shows "\<exists>n \<ge> i. pit_count T n > (if n = i then last_count else pit_count T (n - 1))"
proof (rule wait_wrap.raw_induct [OF _ assms, where P = "\<lambda>T i last_count d d'. \<exists>n \<ge> i. pit_count T n > (if n = i then last_count else pit_count T (n - 1))"], goal_cases)
  case (1 f T i last_count d d')
  show ?case
  proof (cases "pit_count T i > last_count")
    case False
    then have "\<exists>n \<ge> Suc i. pit_count T n > (if n = Suc i then pit_count T i else pit_count T (n - 1))"
      using "1"(2) by (intro "1"(1)) (simp add: Let_def)
    then obtain n where "n \<ge> Suc i" "pit_count T n > pit_count T (n - 1)" by (metis diff_Suc_1)
    then show ?thesis by (intro exI [of _ n]) auto
  qed (intro exI [of _ i], simp)
qed

lemma first_count: "pit_count T 0 \<le> 0xFFFF"
proof -
  have "(0xFFFF :: u16) = - 1" by simp
  then show ?thesis by (metis word_order.extremum)
qed

lemma wait_wrap_iff: "(\<exists>d'. wait_wrap T 0 0xFFFF d = Some d') \<longleftrightarrow> (\<exists>i. pit_count T i < pit_count T (Suc i))"
proof
  assume "\<exists>d'. wait_wrap T 0 0xFFFF d = Some d'"
  then obtain n where n: "pit_count T n > (if n = 0 then 0xFFFF else pit_count T (n - 1))"
    using wait_wrap_Some by blast
  have "n \<noteq> 0"
  proof
    assume "n = 0"
    with n have "0xFFFF < pit_count T 0" by (simp only: if_True simp_thms)
    with first_count [of T] show False by (simp only: not_less [symmetric] not_True_eq_False simp_thms)
  qed
  with n show "\<exists>i. pit_count T i < pit_count T (Suc i)" by (intro exI [of _ "n - 1"]) simp
next
  assume ex: "\<exists>i. pit_count T i < pit_count T (Suc i)"
  define m where "m = (LEAST i. pit_count T i < pit_count T (Suc i))"
  have m: "pit_count T m < pit_count T (Suc m)" unfolding m_def using ex by (rule LeastI_ex)
  have before: "pit_count T (Suc j) \<le> pit_count T j" if "j < m" for j
    using not_less_Least [OF that [unfolded m_def]] by (simp add: not_less)
  have "\<exists>d'. wait_wrap T 0 0xFFFF d = Some d' \<and> s_base d' = s_base d \<and> lapic_writes d' = lapic_writes d"
  proof (rule wait_wrap_ends [where n = "Suc m"])
    show "pit_count T j \<le> (if j = 0 then 0xFFFF else pit_count T (j - 1))" if "j < Suc m" for j
      using before [of "j - 1"] first_count [of T] that by (cases j) auto
  qed (use m in simp_all)
  then show "\<exists>d'. wait_wrap T 0 0xFFFF d = Some d'" by blast
qed

lemma wait_wrap_base: "wait_wrap T i last_count d = Some d' \<Longrightarrow> s_base d' = s_base d"
  by (rule wait_wrap.raw_induct [where P = "\<lambda>T i last_count d d'. s_base d' = s_base d"])
    (auto simp: Let_def split: if_splits)

text \<open>The product that \<open>Periodic\<close> forms from a calibrated frequency does not overflow.\<close>

lemma periodic_ticks:
  fixes t :: u32
  shows "ucast (1000000000 * (ucast t :: u64) div 1000000000) = t"
proof (rule word_unat_eq_iff [THEN iffD2])
  have t: "unat (ucast t :: u64) = unat t" "unat t < 2 ^ 32" using unat_lt_2p [of t] by (simp_all add: unat_ucast_up)
  have "unat (1000000000 * ucast t :: u64) = 1000000000 * unat t" using t by (simp add: unat_word_ariths)
  then have "unat (1000000000 * ucast t div 1000000000 :: u64) = unat t" by (simp add: unat_div)
  then show "unat (ucast (1000000000 * (ucast t :: u64) div 1000000000) :: u32) = unat t"
    using t(2) by (simp add: unat_ucast)
qed

section \<open>Properties\<close>

text \<open>
  C38: Calibration ends exactly when the interval timer wraps, that is when some count read is above the one before (the first
  count is never above \<open>0xFFFF\<close>); otherwise it loops for ever. After it, \<open>Periodic\<close> for the ten milliseconds of the scheduler tick programs as
  initial count exactly the number of APIC timer ticks that elapsed during the calibration, for every such number: neither the
  product nor the cast to 32 bits loses anything.
\<close>

theorem timer_period:
  "case ApicTimer_Initialize T d of
     None \<Rightarrow> \<forall>i. pit_count T (Suc i) \<le> pit_count T i
   | Some d' \<Rightarrow> (\<exists>i. pit_count T i < pit_count T (Suc i)) \<and>
       last (lapic_writes (Periodic 10000000 d')) = (s_base d + ucast kRegTimerInitial, 0xFFFFFFFF - timer_current T)"
proof -
  let ?d = "Lapic_Write kRegTimerInitial 0xFFFFFFFF (PitPrepare 11932 (Lapic_Write kRegTimerDivide 0x03 d))"
  have base: "s_base ?d = s_base d" by (simp add: PitPrepare_def)
  show ?thesis
  proof (cases "wait_wrap T 0 0xFFFF ?d")
    case None
    then have "\<not> (\<exists>i. pit_count T i < pit_count T (Suc i))" using wait_wrap_iff [of T ?d] by simp
    then have "\<forall>i. pit_count T (Suc i) \<le> pit_count T i" by (simp add: not_less)
    with None show ?thesis by (simp add: ApicTimer_Initialize_def Calibrate_def Let_def)
  next
    case (Some d1)
    then have wrap: "\<exists>i. pit_count T i < pit_count T (Suc i)" using wait_wrap_iff [of T ?d] by blast
    have "s_base d1 = s_base d" using wait_wrap_base [OF Some] base by simp
    then have "last (lapic_writes (Periodic 10000000 d')) = (s_base d + ucast kRegTimerInitial, 0xFFFFFFFF - timer_current T)"
      if "ApicTimer_Initialize T d = Some d'" for d'
      using that Some by (auto simp: ApicTimer_Initialize_def Calibrate_def Let_def Periodic_def periodic_ticks)
    with wrap show ?thesis by (auto split: option.split simp: ApicTimer_Initialize_def Calibrate_def Let_def Some)
  qed
qed

end
