(* ===== verification/Entry.thy ===== *)
theory Entry
  imports Syscalls Lapic
begin

text \<open>
  The ways into the kernel and back: the system call entry (\<open>arch/x86_64/cpu/Syscall.asm\<close>), the interrupt entry
  (\<open>arch/x86_64/cpu/Interrupts.asm\<close>), \<open>InterruptDispatch\<close> (\<open>arch/x86_64/cpu/Idt.cpp\<close>), the page fault handler that
  \<open>MemoryManager::Initialize\<close> registers (\<open>arch/x86_64/mm/MemoryManager.cpp\<close>) and the start of a processor
  (\<open>arch/x86_64/cpu/Cpu.cpp\<close>).

  An \<open>InterruptFrame\<close> also stands for the registers of a user program: on entry the ones at the \<open>syscall\<close>
  instruction (\<open>rip\<close> is the address after it), in the result the ones it continues with. The stub code pushes the 22 words
  of a frame; \<open>frame_words\<close> lists them from the top of the stack.
\<close>

section \<open>Frames on the stack\<close>

definition frame_words :: "InterruptFrame \<Rightarrow> u64 list" where
  "frame_words f =
     [r15 f, r14 f, r13 f, r12 f, r11 f, r10 f, r9 f, r8 f, rbp f, rdi f, rsi f, rdx f, rcx f, rbx f, rax f,
      interrupt_number f, error_code f, rip f, cs f, rflags f, rsp f, ss f]"

definition words_frame :: "u64 list \<Rightarrow> InterruptFrame" where
  "words_frame w =
     \<lparr>r15 = w ! 0, r14 = w ! 1, r13 = w ! 2, r12 = w ! 3, r11 = w ! 4, r10 = w ! 5, r9 = w ! 6, r8 = w ! 7,
      rbp = w ! 8, rdi = w ! 9, rsi = w ! 10, rdx = w ! 11, rcx = w ! 12, rbx = w ! 13, rax = w ! 14,
      interrupt_number = w ! 15, error_code = w ! 16, rip = w ! 17, cs = w ! 18, rflags = w ! 19, rsp = w ! 20, ss = w ! 21\<rparr>"

section \<open>The system call entry\<close>

datatype resumed = User InterruptFrame | NoReturn sysret

text \<open>The frame that \<open>SyscallEntry\<close> pushes: the processor has put the return address in \<open>rcx\<close> and the flags in \<open>r11\<close>.\<close>

definition syscall_frame :: "InterruptFrame \<Rightarrow> InterruptFrame" where
  "syscall_frame u =
     u\<lparr>rcx := rip u, r11 := rflags u, interrupt_number := 0, error_code := 0, cs := 0x23, ss := 0x1B\<rparr>"

text \<open>
  \<open>SignalCheckPending\<close> is called with the stack pointer after \<open>push rax\<close>: the frame it works on starts one word below the real one, at the
  pushed return value, and ends before the real \<open>ss\<close>. The words it leaves are the return value and the first 21 words of the frame.
\<close>

definition check_signals_shifted ::
  "('v, 'r, 'k, 'a) plat \<Rightarrow> u64 \<Rightarrow> InterruptFrame \<Rightarrow> ('v, 'r, 'k, 'a) kernel \<Rightarrow> (u64 \<times> InterruptFrame) option \<times> delivery \<times> ('v, 'r, 'k, 'a) kernel" where
  "check_signals_shifted P w fr k =
     (case DoPendingSignals P (words_frame (w # take 21 (frame_words fr))) k of
        (Resume g, k) \<Rightarrow> (Some (hd (frame_words g), words_frame (tl (frame_words g) @ [ss fr])), Resume g, k)
      | (d, k) \<Rightarrow> (None, d, k))"

text \<open>\<open>o64 sysret\<close>: \<open>rip\<close> from \<open>rcx\<close>, the flags from \<open>r11\<close>; the stack pointer was loaded from \<open>gs:24\<close>, not from the frame.\<close>

definition sysret_regs :: "u64 \<Rightarrow> u64 \<Rightarrow> InterruptFrame \<Rightarrow> InterruptFrame" where
  "sysret_regs user_rsp w fr =
     fr\<lparr>rax := w, rcx := rip fr, r11 := rflags fr, rsp := user_rsp, rflags := (rflags fr AND 0x3C7FD7) OR 2,
        interrupt_number := 0, error_code := 0, cs := 0x23, ss := 0x1B\<rparr>"

text \<open>
  The exit half, with the content of the per-processor cell \<open>gs:24\<close>. The cell holds the stack pointer of the last thread that
  entered the kernel; nothing saves it when threads are switched.
\<close>

definition syscall_exit ::
  "('v, 'r, 'k, 'a) plat \<Rightarrow> u64 \<Rightarrow> u64 \<Rightarrow> InterruptFrame \<Rightarrow> ('v, 'r, 'k, 'a) kernel \<Rightarrow> resumed \<times> ('v, 'r, 'k, 'a) kernel" where
  "syscall_exit P gs24 w fr k =
     (case check_signals_shifted P w fr k of
        (Some (w, fr), _, k) \<Rightarrow> (User (sysret_regs gs24 w fr), k)
      | (None, Killed, k) \<Rightarrow> (NoReturn Gone, k)
      | (None, _, k) \<Rightarrow> (NoReturn Crash, k))"

text \<open>A call that returns without a switch to another thread.\<close>

definition SyscallEntry ::
  "('v, 'r, 'k, 'a) plat \<Rightarrow> addr \<Rightarrow> InterruptFrame \<Rightarrow> ('v, 'r, 'k, 'a) kernel \<Rightarrow> resumed \<times> ('v, 'r, 'k, 'a) kernel" where
  "SyscallEntry P buf u k =
     (case Dispatch P buf (rsp u) (syscall_frame u) k of
        (Ret w, fr, k) \<Rightarrow> syscall_exit P (rsp u) w fr k
      | (r, _, k) \<Rightarrow> (NoReturn r, k))"

section \<open>Page faults\<close>

datatype PageFaultFlag = FaultPresent | FaultWrite | FaultUser | FaultInstruction

definition fault_flags :: "u64 \<Rightarrow> PageFaultFlag set" where
  "fault_flags e =
     (if e AND 1 \<noteq> 0 then {FaultPresent} else {}) \<union> (if e AND 2 \<noteq> 0 then {FaultWrite} else {}) \<union>
     (if e AND 4 \<noteq> 0 then {FaultUser} else {}) \<union> (if e AND 16 \<noteq> 0 then {FaultInstruction} else {})"

text \<open>The fault handlers of FoundationKit, for a user address space and for the kernel, and its clock.\<close>

record ('k, 'a) traps =
  as_HandleFault :: "u64 \<Rightarrow> PageFaultFlag set \<Rightarrow> 'a \<times> mem \<times> 'k \<Rightarrow> bool \<times> 'a \<times> mem \<times> 'k"
  kmm_HandlePageFault :: "u64 \<Rightarrow> PageFaultFlag set \<Rightarrow> mem \<times> 'k \<Rightarrow> bool \<times> mem \<times> 'k"
  TimeKeeper_Advance :: "'k \<Rightarrow> 'k"

definition GetKernelBase :: "('v, 'r, 'k, 'a) plat \<Rightarrow> u64" where
  "GetKernelBase P = (if paging_level5 P then 0xFF10000000000000 else 0xFFFF900000000000)"

definition SIGSEGV :: int where "SIGSEGV = 11"

definition SIGFPE :: int where "SIGFPE = 8"

definition SIGILL :: int where "SIGILL = 4"

definition current_process :: "('v, 'r, 'k, 'a) kernel \<Rightarrow> addr option" where
  "current_process k = Option.bind (GetCurrentThread (sch k)) (\<lambda>t. m_process (thr (sch k) t))"

text \<open>The handler of vector 14; \<open>False\<close> is the panic on an unresolved fault.\<close>

definition page_fault ::
  "('k, 'a) traps \<Rightarrow> ('v, 'r, 'k, 'a) plat \<Rightarrow> u64 \<Rightarrow> InterruptFrame \<Rightarrow> ('v, 'r, 'k, 'a) kernel \<Rightarrow> bool \<times> ('v, 'r, 'k, 'a) kernel" where
  "page_fault H P fault_va fr k =
     (let flags = fault_flags (error_code fr) in
      if fault_va < GetKernelBase P then
        (let (resolved, k) =
           (case current_process k of
              None \<Rightarrow> (Some False, k)
            | Some p \<Rightarrow> on_proc_space p (as_HandleFault H fault_va flags) k)
         in case resolved of
              None \<Rightarrow> (False, k)
            | Some True \<Rightarrow> (True, k)
            | Some False \<Rightarrow> (True, Signal_Send (GetCurrentThread (sch k)) SIGSEGV k))
      else
        (case kmm_HandlePageFault H fault_va flags (kmem_of k, kmm_of k) of
           (resolved, m, l) \<Rightarrow> (resolved, set_kmm l (set_mem m k))))"

section \<open>Interrupts\<close>

text \<open>The only handler that is ever registered is the one for page faults.\<close>

datatype InterruptHandler = PageFaultHandler

definition RegisterHandler :: "u8 \<Rightarrow> InterruptHandler \<Rightarrow> (nat \<rightharpoonup> InterruptHandler) \<Rightarrow> nat \<rightharpoonup> InterruptHandler" where
  "RegisterHandler vector handler s_handlers = s_handlers(unat vector \<mapsto> handler)"

definition exception_signal :: "u64 \<Rightarrow> int" where
  "exception_signal n =
     (if n = 0 then SIGFPE else if n = 6 then SIGILL else if n = 11 \<or> n = 12 \<or> n = 13 then SIGSEGV else 0)"

definition InterruptDispatch ::
  "('k, 'a) traps \<Rightarrow> ('v, 'r, 'k, 'a) plat \<Rightarrow> (nat \<rightharpoonup> InterruptHandler) \<Rightarrow> u64 \<Rightarrow> InterruptFrame \<Rightarrow> lapic \<times> ('v, 'r, 'k, 'a) kernel \<Rightarrow> bool \<times> lapic \<times> ('v, 'r, 'k, 'a) kernel" where
  "InterruptDispatch H P s_handlers cr2 fr dk =
     (case dk of (d, k) \<Rightarrow>
      if interrupt_number fr = 32 then
        (let k = set_kmm (TimeKeeper_Advance H (kmm_of k)) k;
             d = SendEoi d
         in (True, d, run_sched (Tick (root_of_proc P k)) k))
      else
        (case (if unat (interrupt_number fr) < kIdtSize then s_handlers (unat (interrupt_number fr)) else None) of
           Some PageFaultHandler \<Rightarrow> (case page_fault H P cr2 fr k of (ok, k) \<Rightarrow> (ok, d, k))
         | None \<Rightarrow>
             if interrupt_number fr < 32 \<and> cs fr AND 3 \<noteq> 0 \<and> exception_signal (interrupt_number fr) \<noteq> 0
             then (True, d, Signal_Send (GetCurrentThread (sch k)) (exception_signal (interrupt_number fr)) k)
             else (False, d, k)))"

text \<open>
  \<open>isr_common\<close>: the dispatcher, and on the way back to user mode the pending signals, on the frame itself. When the timer tick has switched to
  another thread, the rest runs when this thread is switched to again; \<open>None\<close> is that case.
\<close>

definition isr_common ::
  "('k, 'a) traps \<Rightarrow> ('v, 'r, 'k, 'a) plat \<Rightarrow> (nat \<rightharpoonup> InterruptHandler) \<Rightarrow> u64 \<Rightarrow> InterruptFrame \<Rightarrow> lapic \<times> ('v, 'r, 'k, 'a) kernel \<Rightarrow> delivery option \<times> lapic \<times> ('v, 'r, 'k, 'a) kernel" where
  "isr_common H P s_handlers cr2 fr dk =
     (case InterruptDispatch H P s_handlers cr2 fr dk of
        (ok, d, k) \<Rightarrow>
          if \<not> ok then (Some Panic, d, k)
          else if current_thread (sch k) \<noteq> current_thread (sch (snd dk)) then (None, d, k)
          else if cs fr AND 3 = 0 then (Some (Resume fr), d, k)
          else (case DoPendingSignals P fr k of (del, k) \<Rightarrow> (Some del, d, k)))"

text \<open>
  The stubs: what the processor pushed (an error code or not, and the interrupted context), a dummy error code for the vectors
  that have none, the vector, and the registers in the order of the frame.
\<close>

definition err_stubs :: "nat list" where
  "err_stubs = [8, 10, 11, 12, 13, 14, 17, 30]"

definition isr_stub :: "nat \<Rightarrow> u64 list \<Rightarrow> u64 list" where
  "isr_stub v pushed = of_nat v # (if v \<in> set err_stubs then pushed else 0 # pushed)"

definition isr_frame :: "InterruptFrame \<Rightarrow> nat \<Rightarrow> u64 list \<Rightarrow> InterruptFrame" where
  "isr_frame u v pushed =
     words_frame ([r15 u, r14 u, r13 u, r12 u, r11 u, r10 u, r9 u, r8 u, rbp u, rdi u, rsi u, rdx u, rcx u, rbx u, rax u] @ isr_stub v pushed)"

section \<open>Start of a processor\<close>

definition kMsrKernelGsBase :: u32 where "kMsrKernelGsBase = 0xC0000102"

definition arch_cpu_init_per_cpu ::
  "addr \<Rightarrow> addr \<Rightarrow> u64 \<times> ('v, 'r, 'k, 'a) kernel \<Rightarrow> (u64 \<times> ('v, 'r, 'k, 'a) kernel) expected" where
  "arch_cpu_init_per_cpu SyscallEntry_addr data ck =
     (case ck of (cr0, k) \<Rightarrow>
      if data = 0 then Bug
      else
        (let k = set_mem (store64 (kmem_of k) data data) k;
             k = WriteMsr kMsrGsBase data k;
             k = WriteMsr kMsrKernelGsBase 0 k;
             cr0 = cr0 AND NOT (push_bit 2 1);
             cr0 = cr0 OR push_bit 1 1;
             cr0 = cr0 OR push_bit 5 1
         in Value (cr0, Syscall_Initialize SyscallEntry_addr k)))"

section \<open>Lemmas\<close>

lemma words_frame_inverse [simp]: "words_frame (frame_words f) = f"
  by (simp add: words_frame_def frame_words_def)

lemma length_frame_words [simp]: "length (frame_words f) = 22"
  by (simp add: frame_words_def)

text \<open>The frame is right for every vector whose stub agrees with the processor on the error code.\<close>

lemma isr_frame_right:
  assumes "v \<in> set err_stubs \<longleftrightarrow> e \<noteq> None"
  shows "isr_frame u v ((case e of None \<Rightarrow> [] | Some c \<Rightarrow> [c]) @ [rip u, cs u, rflags u, rsp u, ss u]) =
    u\<lparr>interrupt_number := of_nat v, error_code := (case e of None \<Rightarrow> 0 | Some c \<Rightarrow> c)\<rparr>"
  using assms by (cases e) (simp_all add: isr_frame_def isr_stub_def words_frame_def)

text \<open>A frame that the shifted check leaves alone comes back as it was.\<close>

lemma shifted_frame_words: "frame_words (words_frame (w # take 21 (frame_words f))) = w # take 21 (frame_words f)"
  by (simp add: words_frame_def frame_words_def)

lemma shifted_cs: "cs (words_frame (w # take 21 (frame_words f))) = rip f"
  by (simp add: words_frame_def frame_words_def)

lemma shifted_back: "words_frame (take 21 (frame_words f) @ [ss f]) = f"
  by (simp add: words_frame_def frame_words_def)

definition no_signal :: "('v, 'r, 'k, 'a) kernel \<Rightarrow> bool" where
  "no_signal k \<longleftrightarrow>
     (\<forall>t. GetCurrentThread (sch k) = Some t \<longrightarrow> m_pending_signals (thr (sch k) t) AND NOT (m_blocked_signals (thr (sch k) t)) = 0)"

lemma check_signals_none:
  assumes "rip fr AND 3 = 0 \<or> no_signal k"
  shows "check_signals_shifted P w fr k = (Some (w, fr), Resume (words_frame (w # take 21 (frame_words fr))), k)"
proof -
  have "DoPendingSignals P (words_frame (w # take 21 (frame_words fr))) k = (Resume (words_frame (w # take 21 (frame_words fr))), k)"
    using assms by (auto simp: DoPendingSignals_def shifted_cs no_signal_def Let_def split: option.split)
  then show ?thesis
    by (simp add: check_signals_shifted_def shifted_frame_words shifted_back)
qed

lemma SyscallEntry_returns:
  assumes "Dispatch P buf (rsp u) (syscall_frame u) k = (Ret w, fr, k1)" and "rip fr AND 3 = 0 \<or> no_signal k1"
  shows "SyscallEntry P buf u k = (User (sysret_regs (rsp u) w fr), k1)"
  using assms by (simp add: SyscallEntry_def syscall_exit_def check_signals_none)

text \<open>A thread that slept in a call returns with the stack pointer of the last thread that entered the kernel meanwhile.\<close>

lemma sleeper_gets_last_stack:
  assumes "rip fr AND 3 = 0 \<or> no_signal k"
  shows "\<exists>r. syscall_exit P (fold (\<lambda>v _. rsp v) (vs @ [v]) (rsp u)) w fr k = (User r, k) \<and> rsp r = rsp v"
  using check_signals_none [OF assms] by (simp add: syscall_exit_def sysret_regs_def)

lemma Dispatch_frame:
  assumes "rax regs \<notin> {15, 59, 257}" and "Dispatch P buf r regs k = (w, fr, k1)"
  shows "fr = regs"
  using assms by (auto simp: Dispatch_def Let_def split: prod.splits)

lemma find_least:
  assumes "a \<le> n" and "n < b" and "Q n" and "\<And>i. a \<le> i \<Longrightarrow> i < n \<Longrightarrow> \<not> Q i"
  shows "List.find Q [a..<b] = Some n"
proof -
  have "[a..<b] = [a..<n] @ n # [Suc n..<b]" using assms(1,2) upt_add_eq_append [of a n "b - n"] by (simp add: upt_conv_Cons)
  moreover have "List.find Q [a..<n] = None" using assms(4) by (auto simp: find_None_iff)
  moreover have "List.find Q (xs @ ys) = (case List.find Q xs of None \<Rightarrow> List.find Q ys | r \<Rightarrow> r)" for xs ys
    by (induction xs) auto
  ultimately show ?thesis using assms(3) by simp
qed

lemma below_frame: "(x - kSigframeSize) AND NOT 15 \<noteq> x"
proof
  assume eq: "(x - kSigframeSize) AND NOT 15 = x"
  let ?y = "unat (x - kSigframeSize)"
  have "(15 :: u64) = mask 4" by (simp add: mask_eq_exp_minus_1)
  then have "unat ((x - kSigframeSize) AND NOT 15) = ?y div 16 * 16 mod 2 ^ 64"
    by (simp only: and_not_mask unat_push_bit unat_drop_bit) simp
  moreover have "?y div 16 * 16 < 2 ^ 64" using unat_lt_2p [of "x - kSigframeSize"] by simp
  ultimately have "unat x = ?y div 16 * 16" using eq by simp
  moreover have "?y = (if 272 \<le> unat x then unat x - 272 else 2 ^ 64 + unat x - 272)"
    by (simp add: kSigframeSize_def unat_sub_if_size word_size)
  ultimately show False using unat_lt_2p [of x] by (auto split: if_splits)
qed

section \<open>Properties\<close>

text \<open>
  The segment selectors that \<open>syscall\<close> and \<open>sysret\<close> derive from the \<open>STAR\<close> register are those of the descriptor table. \<open>syscall\<close> loads
  the 64-bit kernel code and the kernel data segment, \<open>sysret\<close> (which adds 16 and 8 to the upper field) the 64-bit user code and the user data
  segment, with the privilege levels 0 and 3; the latter two are the selectors that \<open>SyscallEntry\<close> pushes. The
  task segment decodes to the address and size of the \<open>Tss\<close>, wherever it is, and every gate of the interrupt table to its stub, with
  the kernel code segment, present, of interrupt type, and not callable from user mode.
\<close>

theorem selectors_match_tables:
  shows "case Gdt_Initialize table_addr tss_addr of (table, tss, seg) \<Rightarrow>
    (let star = msrs (Syscall_Initialize entry k) kMsrStar;
         sys_cs = ucast (drop_bit 32 star) :: u16; ret = ucast (drop_bit 48 star) :: u16 in
     (\<exists>d. descriptor_at table sys_cs = Some d \<and> code64 d \<and> desc_dpl d = 0) \<and> seg_cs seg = sys_cs \<and>
     (\<exists>d. descriptor_at table (sys_cs + 8) = Some d \<and> data_rw d \<and> desc_dpl d = 0) \<and> seg_data seg = sys_cs + 8 \<and>
     (\<exists>d. descriptor_at table (ret + 16) = Some d \<and> code64 d \<and> desc_dpl d = 3) \<and> ret + 16 = kUserCodeSelector \<and>
     (\<exists>d. descriptor_at table (ret + 8) = Some d \<and> data_rw d \<and> desc_dpl d = 3) \<and> ret + 8 = kUserDataSelector \<and>
     cs (syscall_frame u) = ucast (ret + 16) \<and> ss (syscall_frame u) = ucast (ret + 8) \<and>
     tss_base table = tss_addr \<and> desc_limit (tss_low table) + 1 = of_nat kTssSize \<and>
     unat (seg_tr seg) + 15 \<le> unat (gdtr_limit seg) \<and>
     map gate_offset (Idt_Initialize stubs) = map stubs [0..<256] \<and>
     map (\<lambda>g. (selector g, bit (type_attributes g) 7, drop_bit 5 (type_attributes g) AND 3, type_attributes g AND 0xF)) (Idt_Initialize stubs) =
       replicate 256 (sys_cs, True, 0, gate_type InterruptGate))"
proof -
  have star: "msrs (Syscall_Initialize entry k) kMsrStar = 0x0013000800000000"
    by (simp add: Syscall_Initialize_def Let_def WriteMsr_def kMsrStar_def kMsrEfer_def kMsrLstar_def kMsrSfmask_def kKernelCodeSelector_def)
  obtain table tss seg where g: "Gdt_Initialize table_addr tss_addr = (table, tss, seg)" by (metis prod_cases3)
  have e: "entries table = [SetupDescriptor 0 0 0 0, SetupDescriptor 0 0xFFFFFFFF 0x9A 0xAF, SetupDescriptor 0 0xFFFFFFFF 0x92 0xCF,
      SetupDescriptor 0 0xFFFFFFFF 0xF2 0xCF, SetupDescriptor 0 0xFFFFFFFF 0xFA 0xAF]"
    "seg = \<lparr>gdtr_limit = of_nat kGdtSize - 1, gdtr_base = table_addr, seg_cs = kKernelCodeSelector, seg_data = kKernelDataSelector, seg_tr = kTssSelector\<rparr>"
    "desc_limit (tss_low table) + 1 = of_nat kTssSize"
    using g by (auto simp: Gdt_Initialize_def Let_def SetupTssDescriptor_def desc_limit_SetupDescriptor kTssSize_def)
  have tss: "tss_base table = tss_addr"
    using g by (auto simp: Gdt_Initialize_def Let_def tss_base_SetupTss)
  have d: "descriptor_at table 8 = Some (SetupDescriptor 0 0xFFFFFFFF 0x9A 0xAF)" "descriptor_at table 16 = Some (SetupDescriptor 0 0xFFFFFFFF 0x92 0xCF)"
    "descriptor_at table 0x1B = Some (SetupDescriptor 0 0xFFFFFFFF 0xF2 0xCF)" "descriptor_at table 0x23 = Some (SetupDescriptor 0 0xFFFFFFFF 0xFA 0xAF)"
    by (simp_all add: descriptor_at_def e(1))
  have c: "code64 (SetupDescriptor 0 0xFFFFFFFF 0x9A 0xAF)" "data_rw (SetupDescriptor 0 0xFFFFFFFF 0x92 0xCF)"
    "data_rw (SetupDescriptor 0 0xFFFFFFFF 0xF2 0xCF)" "code64 (SetupDescriptor 0 0xFFFFFFFF 0xFA 0xAF)"
    "desc_dpl (SetupDescriptor 0 0xFFFFFFFF 0x9A 0xAF) = 0" "desc_dpl (SetupDescriptor 0 0xFFFFFFFF 0x92 0xCF) = 0"
    "desc_dpl (SetupDescriptor 0 0xFFFFFFFF 0xF2 0xCF) = 3" "desc_dpl (SetupDescriptor 0 0xFFFFFFFF 0xFA 0xAF) = 3"
    by code_simp+
  have t: "drop_bit 5 (0x8E :: u8) AND 3 = 0" "bit (0x8E :: u8) 7" "(0x8E :: u8) AND 0xF = 0xE" by code_simp+
  have i: "map gate_offset (Idt_Initialize stubs) = map stubs [0..<256]"
    "map (\<lambda>g. (selector g, bit (type_attributes g) 7, drop_bit 5 (type_attributes g) AND 3, type_attributes g AND 0xF)) (Idt_Initialize stubs) =
       replicate 256 (8, True, 0, 0xE)"
  proof -
    have g: "gate_offset (g\<lparr>selector := a, ist := b, type_attributes := c\<rparr>) = gate_offset g" for g a b c by (simp add: gate_offset_def)
    show "map gate_offset (Idt_Initialize stubs) = map stubs [0..<256]"
      by (simp add: Idt_Initialize_def kIdtSize_def SetAttributes_def g gate_offset_SetOffset comp_def)
    have e: "map (\<lambda>x. c) [0..<256] = replicate 256 c" for c :: "u16 \<times> bool \<times> u8 \<times> u8" by (simp add: map_replicate_const)
    show "map (\<lambda>g. (selector g, bit (type_attributes g) 7, drop_bit 5 (type_attributes g) AND 3, type_attributes g AND 0xF)) (Idt_Initialize stubs) =
       replicate 256 (8, True, 0, 0xE)"
      unfolding Idt_Initialize_def kIdtSize_def map_map comp_def
      by (simp add: SetAttributes_def kKernelCodeSelector_def gate_type_def t e)
  qed
  have sel: "ucast (drop_bit 32 (0x0013000800000000 :: u64)) = (8 :: u16)" "ucast (drop_bit 48 (0x0013000800000000 :: u64)) = (0x13 :: u16)"
    by code_simp+
  show ?thesis
    unfolding g prod.case star Let_def sel
    by (simp add: d c e(2,3) tss i gate_type_def kKernelCodeSelector_def kKernelDataSelector_def kUserCodeSelector_def kUserDataSelector_def
        kTssSelector_def kGdtSize_def syscall_frame_def)
qed

text \<open>
  C14: A system call keeps the registers of its caller. For every call but \<open>rt_sigreturn\<close>, \<open>execve\<close> and \<open>openat\<close>, when no signal is to be
  delivered the program continues after the \<open>syscall\<close> instruction with the result in \<open>rax\<close>, and with all other registers as before except
  \<open>rcx\<close> and \<open>r11\<close>, which hold the return address and the flags; \<open>openat\<close> also changes \<open>rdi\<close> and \<open>rsi\<close>, to the path and the flags.
\<close>

theorem syscall_preserves_registers:
  assumes "Dispatch P buf (rsp u) (syscall_frame u) k = (Ret w, fr, k1)" and "rax u \<notin> {15, 59}" and "no_signal k1"
  shows "\<exists>u'. SyscallEntry P buf u k = (User u', k1) \<and> rax u' = w \<and> rip u' = rip u \<and> rsp u' = rsp u \<and>
     [rbx u', rbp u', r12 u', r13 u', r14 u', r15 u', r8 u', r9 u', r10 u'] = [rbx u, rbp u, r12 u, r13 u, r14 u, r15 u, r8 u, r9 u, r10 u] \<and>
     rdx u' = rdx u \<and>
     (rdi u', rsi u') = (if rax u = 257 \<and> current_process k \<noteq> None then (rsi u, ucast (ucast (rdx u) :: u32)) else (rdi u, rsi u)) \<and>
     rcx u' = rip u \<and> r11 u' = rflags u \<and> rflags u' = (rflags u AND 0x3C7FD7) OR 2 \<and> cs u' = 0x23 \<and> ss u' = 0x1B"
proof -
  have "fr = (if rax u = 257 \<and> current_process k \<noteq> None then openat_regs (syscall_frame u) else syscall_frame u)"
    using assms(1,2) by (auto simp: Dispatch_def current_process_def syscall_frame_def Let_def split: prod.splits option.splits if_splits)
  then show ?thesis using SyscallEntry_returns [OF assms(1)] assms(3)
    by (auto simp: sysret_regs_def syscall_frame_def openat_regs_def)
qed

text \<open>
  C30: A signal handler does not return to the stack it interrupted. When it returns through its restorer to \<open>rt_sigreturn\<close>, the system call
  restores the saved registers in its frame, but the way out of the call loads the stack pointer from where the entry saved it:
  the program continues at the interrupted instruction with its \<open>rax\<close> and callee-saved registers, and with the stack pointer at the signal
  frame, below where it was. (\<open>rcx\<close> and \<open>r11\<close> are lost as well: they hold \<open>rip\<close> and the flags.) This holds when no signal is pending, blocked ones
  included because the restored mask is empty, or when the interrupted address is a multiple of 4: the check for signals on the way out reads
  its frame one word off and takes \<open>rip\<close> for \<open>cs\<close>, so a pending signal is delivered there only if the two low bits of \<open>rip\<close> are not 0.
\<close>

theorem sigreturn_keeps_frame_stack:
  assumes "SetupFrame f sig action m = (f', m')" and "kmem_of k = m'" and "current_thread (sch k) = Some t"
    and "rax u = 15" and "rsp u = rsp f' + 8"
    and "rip f AND 3 = 0 \<or> m_pending_signals (thr (sch k) t) = 0"
  shows "\<exists>u' k'. SyscallEntry P buf u k = (User u', k') \<and> rip u' = rip f \<and> rax u' = rax f \<and>
     [rbx u', rbp u', r12 u', r13 u', r14 u', r15 u'] = [rbx f, rbp f, r12 f, r13 f, r14 f, r15 f] \<and>
     rcx u' = rip f \<and> r11 u' = rflags f \<and>
     rsp u' = (rsp f - kSigframeSize) AND NOT 15 \<and> rsp u' \<noteq> rsp f"
proof -
  let ?fr = "f\<lparr>interrupt_number := 0, error_code := 0, ss := 0x1B\<rparr>"
    and ?k1 = "k\<lparr>sch := upd_thread t (\<lambda>th. th\<lparr>m_blocked_signals := 0\<rparr>) (sch k)\<rparr>"
  have "Dispatch P buf (rsp u) (syscall_frame u) k = (Ret (rax f), ?fr, ?k1)"
    using assms(3-5) sigreturn_restores [OF assms(1,2), of t "syscall_frame u"]
    by (simp add: Dispatch_def Let_def GetCurrentThread_def syscall_frame_def)
  then have run: "SyscallEntry P buf u k = (User (sysret_regs (rsp u) (rax f) ?fr), ?k1)"
    using assms(3,6) by (intro SyscallEntry_returns) (auto simp: no_signal_def GetCurrentThread_def thr_def split: option.split)
  have sp: "rsp u = (rsp f - kSigframeSize) AND NOT 15" using assms(5) SetupFrame_stack [OF assms(1)] by simp
  have "rsp u \<noteq> rsp f" unfolding sp by (rule below_frame)
  with run sp show ?thesis by (intro exI [of _ "sysret_regs (rsp u) (rax f) ?fr"] exI [of _ ?k1]) (simp add: sysret_regs_def)
qed

text \<open>
  C34: What an exception does. In user mode, a division error, an invalid instruction, and the faults 11 to 13 make the corresponding signal
  pending for the current thread and change nothing else. Every other exception without a handler, in user mode too (a debug trap or a
  floating point error, say), is a kernel panic, and so is every exception in kernel mode.
\<close>

theorem exception_outcome:
  assumes "interrupt_number fr < 32" and "s_handlers (unat (interrupt_number fr)) = None" and "current_thread (sch k) = Some t"
  shows "InterruptDispatch H P s_handlers cr2 fr (d, k) =
    (if cs fr AND 3 \<noteq> 0 \<and> interrupt_number fr \<in> {0, 6, 11, 12, 13}
     then (True, d, k\<lparr>sch := upd_thread t (\<lambda>th. th\<lparr>m_pending_signals := m_pending_signals th OR
            sig_bit (if interrupt_number fr = 0 then 8 else if interrupt_number fr = 6 then 4 else 11)\<rparr>) (sch k)\<rparr>)
     else (False, d, k))"
proof -
  have n: "interrupt_number fr \<noteq> 32" using assms(1) by auto
  show ?thesis
    using assms n by (auto simp: InterruptDispatch_def exception_signal_def Signal_Send_def GetCurrentThread_def SIGFPE_def SIGILL_def SIGSEGV_def NSIG_def)
qed

text \<open>
  C17: A process that touches memory it has not mapped is ended. When a page fault in user mode, at an address below the kernel half, is not
  resolved by the address space of the process, the process has no handler for \<open>SIGSEGV\<close>, the thread does not block it, and every lower-numbered signal
  that is pending and not blocked is ignored (it would be acted on first), then on the way out of the interrupt the
  process becomes a zombie with the status \<open>-11\<close>, and the thread is handed to the reaper and does not resume. (The thread is not the reaper, which has
  no process in the code.)
\<close>

theorem unmapped_access_kills:
  assumes "interrupt_number fr = 14" and "s_handlers 14 = Some PageFaultHandler" and "cr2 < GetKernelBase P" and "cs fr AND 3 \<noteq> 0"
    and "current_thread (sch k) = Some t" and "threads (sch k) t = Some th" and "m_process th = Some p" and "procs k p = Some pr"
    and "m_proc_state pr \<noteq> ProcZombie" and "m_state th \<noteq> Terminated"
    and "spaces k (m_address_space pr) = Some sp"
    and "as_HandleFault H cr2 (fault_flags (error_code fr)) (m_inner sp, kmem_of k, kmm_of k) = (False, a, m, l)"
    and "sa_handler (GetSignalAction pr 11) = 0" and "\<not> bit (m_blocked_signals th) 10"
    and "\<And>i. 1 \<le> i \<Longrightarrow> i < 11 \<Longrightarrow> bit (m_pending_signals th AND NOT (m_blocked_signals th)) (i - 1) \<Longrightarrow> ignored pr i"
    and "reaper_thread (sch k) \<noteq> Some t"
  shows "case isr_common H P s_handlers cr2 fr (d, k) of (out, d', k') \<Rightarrow>
     out = Some Killed \<and> dead_list (sch k') = dead_list (sch k) @ [t] \<and>
     map_option (\<lambda>pr. (m_proc_state pr, m_exit_status pr)) (procs k' p) = Some (ProcZombie, - 11)"
proof -
  define k1 where "k1 = (set_kmm l (set_mem m k))\<lparr>spaces := (spaces k)(m_address_space pr \<mapsto> sp\<lparr>m_inner := a\<rparr>)\<rparr>"
  define th2 where "th2 = th\<lparr>m_pending_signals := m_pending_signals th OR sig_bit 11\<rparr>"
  define k2 where "k2 = k1\<lparr>sch := upd_thread t (\<lambda>th. th\<lparr>m_pending_signals := m_pending_signals th OR sig_bit 11\<rparr>) (sch k1)\<rparr>"
  have "on_proc_space p (as_HandleFault H cr2 (fault_flags (error_code fr))) k = (Some False, k1)"
    using assms(8,11,12) by (simp add: on_proc_space_def on_space_def k1_def)
  moreover have cur: "current_process k = Some p"
    using assms(5-7) by (simp add: current_process_def GetCurrentThread_def thr_def)
  moreover have "sch k1 = sch k" by (simp add: k1_def)
  ultimately have pf: "page_fault H P cr2 fr k = (True, k2)"
    using assms(3,5) by (simp add: page_fault_def Let_def Signal_Send_def GetCurrentThread_def SIGSEGV_def NSIG_def k2_def)
  have s2: "GetCurrentThread (sch k2) = Some t" "threads (sch k2) t = Some th2" "procs k2 p = Some pr" "current_thread (sch k2) = current_thread (sch k)"
    "reaper_thread (sch k2) \<noteq> Some t" "dead_list (sch k2) = dead_list (sch k)"
    using assms(5,6,8,16) \<open>sch k1 = sch k\<close> by (simp_all add: k2_def GetCurrentThread_def upd_thread_def th2_def k1_def)
  have th2: "m_process th2 = Some p" "m_state th2 \<noteq> Terminated" using assms(7,10) by (simp_all add: th2_def)
  have bits: "bit (m_pending_signals th2 AND NOT (m_blocked_signals th2)) (i - 1) \<longleftrightarrow>
      bit (m_pending_signals th AND NOT (m_blocked_signals th)) (i - 1) \<or> i = 11" if "1 \<le> i" "i < NSIG" for i
    using that assms(14) by (auto simp: th2_def NSIG_def bit_and_iff bit_or_iff bit_not_iff sig_bit_bit)
  have "\<not> ignored pr 11" using assms(13) by (simp add: ignored_def fatal_default_def)
  then have "List.find (\<lambda>i. bit (m_pending_signals th2 AND NOT (m_blocked_signals th2)) (i - 1) \<and> \<not> ignored pr i) [1..<NSIG] = Some 11"
    using assms(15) bits bits [of 11] by (intro find_least) (auto simp: NSIG_def)
  from DoPendingSignals_fatal [OF s2(1,2) th2(1) s2(3) assms(4,9) th2(2) this _ s2(5), of P] assms(13)
  have del: "case DoPendingSignals P fr k2 of (d, k') \<Rightarrow> d = Killed \<and>
     map_option (\<lambda>pr. (m_proc_state pr, m_exit_status pr)) (procs k' p) = Some (ProcZombie, - of_nat 11) \<and>
     dead_list (sch k') = dead_list (sch k) @ [t]" by (simp add: s2(6))
  have "InterruptDispatch H P s_handlers cr2 fr (d, k) = (True, d, k2)"
    using assms(1,2) pf by (simp add: InterruptDispatch_def kIdtSize_def)
  then have "isr_common H P s_handlers cr2 fr (d, k) = (case DoPendingSignals P fr k2 of (del, k) \<Rightarrow> (Some del, d, k))"
    using assms(4) s2(4) by (simp add: isr_common_def)
  with del show ?thesis by (auto split: prod.splits)
qed

section \<open>Concrete instances\<close>

definition ex_traps :: "(nat, (u64 \<times> u64) list) traps" where
  "ex_traps = \<lparr>as_HandleFault = (\<lambda>va _ (v, m, l). (\<exists>r \<in> set v. fst r \<le> va \<and> va < fst r + snd r, v, m, l)),
     kmm_HandlePageFault = (\<lambda>_ _ (m, l). (False, m, l)), TimeKeeper_Advance = Suc\<rparr>"

definition ex_handlers :: "nat \<rightharpoonup> InterruptHandler" where
  "ex_handlers = RegisterHandler 14 PageFaultHandler (\<lambda>_. None)"

definition ex_lapic :: lapic where
  "ex_lapic = \<lparr>s_base = 0xFFFFFFFFFEE00000, lapic_writes = [], port_writes = [], s_tsc_freq = 0, s_lapic_freq = 0\<rparr>"

theorem syscall_preserves_registers_witness:
  "\<exists>u' k'. SyscallEntry ex_plat 0 (zero_frame\<lparr>rax := 39, rbx := 7, rip := 0x1001\<rparr>) ex_kernel = (User u', k') \<and>
     rax u' = 1 \<and> rbx u' = 7 \<and> rip u' = 0x1001"
proof -
  let ?u = "zero_frame\<lparr>rax := 39, rbx := 7, rip := 0x1001\<rparr>"
  have d: "Dispatch ex_plat 0 (rsp ?u) (syscall_frame ?u) ex_kernel = (Ret 1, syscall_frame ?u, ex_kernel)"
    by (simp add: Dispatch_def dispatch_call_def sys_getpid_def Let_def syscall_frame_def zero_frame_def ex_kernel_def ex_ksched_def
        ex_sched_def GetCurrentThread_def thr_def Process_new_def)
  have n: "no_signal ex_kernel"
    by (simp add: no_signal_def ex_kernel_def ex_ksched_def ex_sched_def GetCurrentThread_def thr_def ex_thread_def null_thread_def)
  have "rax ?u \<notin> {15, 59}" by simp
  from syscall_preserves_registers [OF d this n] obtain u' where
    "SyscallEntry ex_plat 0 ?u ex_kernel = (User u', ex_kernel)" "rax u' = 1" "rip u' = rip ?u"
    "[rbx u', rbp u', r12 u', r13 u', r14 u', r15 u', r8 u', r9 u', r10 u'] = [rbx ?u, rbp ?u, r12 ?u, r13 ?u, r14 ?u, r15 ?u, r8 ?u, r9 ?u, r10 ?u]"
    by (elim exE conjE)
  then show ?thesis by (intro exI [of _ u'] exI [of _ ex_kernel]) simp
qed

theorem sigreturn_keeps_frame_stack_witness:
  "\<exists>u u' k k'. SyscallEntry ex_plat 0 u k = (User u', k') \<and> rip u' = 0x1235 \<and> rsp u' \<noteq> 0x8000 \<and>
     k = set_mem (snd (SetupFrame (zero_frame\<lparr>rsp := 0x8000, rip := 0x1235\<rparr>) 10 (zero_sigaction\<lparr>sa_handler := 0x4000\<rparr>) (\<lambda>_. 1))) ex_kernel"
proof -
  let ?f = "zero_frame\<lparr>rsp := 0x8000, rip := 0x1235\<rparr>" and ?a = "zero_sigaction\<lparr>sa_handler := 0x4000\<rparr>"
  obtain f' m' where sf: "SetupFrame ?f 10 ?a (\<lambda>_. 1) = (f', m')" by fastforce
  let ?k = "set_mem m' ex_kernel" and ?u = "zero_frame\<lparr>rax := 15, rsp := rsp f' + 8\<rparr>"
  have "current_thread (sch ?k) = Some 2" by (simp add: ex_kernel_def ex_ksched_def ex_sched_def)
  moreover have "m_pending_signals (thr (sch ?k) 2) = 0"
    by (simp add: ex_kernel_def ex_ksched_def ex_sched_def thr_def ex_thread_def null_thread_def)
  ultimately obtain u' k' where
    "SyscallEntry ex_plat 0 ?u ?k = (User u', k')" "rip u' = 0x1235" "rsp u' \<noteq> 0x8000"
    using sigreturn_keeps_frame_stack [OF sf kernel_access(1) [of m' ex_kernel], where t = 2 and u = ?u and P = ex_plat and buf = 0] by auto
  with sf show ?thesis by (intro exI [of _ ?u] exI [of _ u'] exI [of _ ?k] exI [of _ k']) simp
qed

theorem exception_outcome_witness:
  "fst (InterruptDispatch ex_traps ex_plat ex_handlers 0 (zero_frame\<lparr>interrupt_number := 1, cs := 0x23\<rparr>) (ex_lapic, ex_kernel)) = False \<and>
   fst (InterruptDispatch ex_traps ex_plat ex_handlers 0 (zero_frame\<lparr>interrupt_number := 13, cs := 0x23\<rparr>) (ex_lapic, ex_kernel)) = True"
proof -
  have c: "current_thread (sch ex_kernel) = Some 2" by (simp add: ex_kernel_def ex_ksched_def ex_sched_def)
  have h: "ex_handlers 1 = None" "ex_handlers (Suc 0) = None" "ex_handlers 13 = None" by (simp_all add: ex_handlers_def RegisterHandler_def)
  show ?thesis
    using exception_outcome [of "zero_frame\<lparr>interrupt_number := 1, cs := 0x23\<rparr>" ex_handlers ex_kernel 2 ex_traps ex_plat 0 ex_lapic]
      exception_outcome [of "zero_frame\<lparr>interrupt_number := 13, cs := 0x23\<rparr>" ex_handlers ex_kernel 2 ex_traps ex_plat 0 ex_lapic]
    by (simp add: c h)
qed

theorem unmapped_access_kills_witness:
  "\<exists>out d' k'. isr_common ex_traps ex_plat ex_handlers 0x4000 (zero_frame\<lparr>interrupt_number := 14, cs := 0x23\<rparr>) (ex_lapic, ex_kernel) = (out, d', k') \<and>
     out = Some Killed \<and> dead_list (sch k') = [2] \<and> map_option m_exit_status (procs k' 0x500) = Some (- 11)"
proof -
  let ?fr = "zero_frame\<lparr>interrupt_number := 14, cs := 0x23\<rparr>" and ?th = "(ex_thread Running 0 3 0)\<lparr>m_process := Some 0x500\<rparr>"
  let ?pr = "(Process_new 1 0x510 2 2)\<lparr>m_fd_table := ex_table, m_children := [0x600], m_heap_start := 0x30000, m_heap_end := 0x30800\<rparr>"
  let ?sp = "\<lparr>m_inner = [], root_pa = 0x9000, va_base = 0x1000, va_top = 0x00007FFFFFFFF000\<rparr>"
  have h: "interrupt_number ?fr = 14" "ex_handlers 14 = Some PageFaultHandler" "0x4000 < GetKernelBase ex_plat" "cs ?fr AND 3 \<noteq> 0"
    "current_thread (sch ex_kernel) = Some 2" "threads (sch ex_kernel) 2 = Some ?th" "m_process ?th = Some 0x500"
    "procs ex_kernel 0x500 = Some ?pr" "m_proc_state ?pr \<noteq> ProcZombie" "m_state ?th \<noteq> Terminated"
    "spaces ex_kernel (m_address_space ?pr) = Some ?sp"
    "as_HandleFault ex_traps 0x4000 (fault_flags (error_code ?fr)) (m_inner ?sp, kmem_of ex_kernel, kmm_of ex_kernel) =
       (False, [], kmem_of ex_kernel, kmm_of ex_kernel)"
    "sa_handler (GetSignalAction ?pr 11) = 0" "\<not> bit (m_blocked_signals ?th) 10"
    by (simp_all add: ex_handlers_def RegisterHandler_def GetKernelBase_def ex_plat_def ex_kernel_def ex_ksched_def ex_sched_def ex_thread_def
        null_thread_def Process_new_def ex_traps_def GetSignalAction_def NSIG_def zero_sigaction_def)
  have r: "reaper_thread (sch ex_kernel) \<noteq> Some 2" "dead_list (sch ex_kernel) = []"
    by (simp_all add: ex_kernel_def ex_ksched_def ex_sched_def)
  have p: "m_pending_signals ?th = 0" by (simp add: ex_thread_def null_thread_def)
  obtain out d' k' where run: "isr_common ex_traps ex_plat ex_handlers 0x4000 ?fr (ex_lapic, ex_kernel) = (out, d', k')" by (metis prod_cases3)
  have "case isr_common ex_traps ex_plat ex_handlers 0x4000 ?fr (ex_lapic, ex_kernel) of (out, d', k') \<Rightarrow>
     out = Some Killed \<and> dead_list (sch k') = dead_list (sch ex_kernel) @ [2] \<and>
     map_option (\<lambda>pr. (m_proc_state pr, m_exit_status pr)) (procs k' 0x500) = Some (ProcZombie, - 11)"
    by (rule unmapped_access_kills [where t = 2 and th = ?th and pr = ?pr and sp = ?sp and a = "[]"
          and m = "kmem_of ex_kernel" and l = "kmm_of ex_kernel"]) (rule h r(1) | simp add: p)+
  with run have "out = Some Killed \<and> dead_list (sch k') = dead_list (sch ex_kernel) @ [2] \<and>
     map_option (\<lambda>pr. (m_proc_state pr, m_exit_status pr)) (procs k' 0x500) = Some (ProcZombie, - 11)" by simp
  with run show ?thesis by (intro exI [of _ out] exI [of _ d'] exI [of _ k']) (auto simp: r(2) map_option_case split: option.splits)
qed

end
