(* ===== verification/Boot.thy ===== *)
theory Boot
  imports Entry FsTypes
begin

text \<open>
  The last phase of \<open>start_kernel\<close> (\<open>init/main.cpp\<close>): the root of the file system with its devices and standard directories,
  the unpacking of the initial RAM disk, and the start of \<open>/sbin/init\<close> with its three descriptors. The earlier phases are the
  initialization functions of the other theories, called in a row; the registration of a clock source is a call into FoundationKit.

  A node for which there is no storage is a null pointer that the next line uses: \<open>Bug\<close>.
\<close>

section \<open>The file system at boot\<close>

definition new_device ::
  "('v, 'r, 'k) fk \<Rightarrow> addr \<Rightarrow> string \<Rightarrow> VnodeType \<Rightarrow> PseudoReadCallback option \<Rightarrow> PseudoWriteCallback option \<Rightarrow> ('v, 'r, 'k) fsys \<Rightarrow> ('v, 'r, 'k) fsys expected" where
  "new_device K dir nm t r w s =
     (case op_new K (kmm s) of
        (None, k) \<Rightarrow> Bug
      | (Some a, k) \<Rightarrow>
          bind_expected (InsertChild K dir a
              (s\<lparr>kmm := k, vnodes := (vnodes s)(a \<mapsto> (PseudoFsNode_new (Literal nm) r w)\<lparr>vtype := t\<rparr>)\<rparr>))
            (\<lambda>(_, s). Value s))"

text \<open>\<open>Mkdir\<close> through the operation table of the root: with \<open>FK_BUG_ON\<close> of its failure, and with the result ignored.\<close>

definition must_mkdir ::
  "('v, 'r, 'k) fk \<Rightarrow> addr \<Rightarrow> string \<Rightarrow> ('v, 'r, 'k) fsys \<Rightarrow> (addr \<times> ('v, 'r, 'k) fsys) expected" where
  "must_mkdir K root nm s = (case vnode_Mkdir K root (Literal nm) s of (Value v, s) \<Rightarrow> Value (v, s) | _ \<Rightarrow> Bug)"

definition try_mkdir ::
  "('v, 'r, 'k) fk \<Rightarrow> addr \<Rightarrow> string \<Rightarrow> ('v, 'r, 'k) fsys \<Rightarrow> ('v, 'r, 'k) fsys expected" where
  "try_mkdir K root nm s = (case vnode_Mkdir K root (Literal nm) s of (Bug, _) \<Rightarrow> Bug | (_, s) \<Rightarrow> Value s)"

definition populate_dev :: "('v, 'r, 'k) fk \<Rightarrow> addr \<Rightarrow> ('v, 'r, 'k) fsys \<Rightarrow> ('v, 'r, 'k) fsys expected" where
  "populate_dev K root s =
     bind_expected (must_mkdir K root ''dev'' s) (\<lambda>(dev, s).
     bind_expected (new_device K dev ''null'' CharDevice (Some NullRead) (Some NullWrite) s) (\<lambda>s.
     bind_expected (new_device K dev ''zero'' CharDevice (Some ZeroRead) (Some ZeroWrite) s) (\<lambda>s.
     new_device K dev ''tty'' CharDevice (Some TtyRead) (Some TtyWrite) s)))"

definition populate_proc :: "('v, 'r, 'k) fk \<Rightarrow> addr \<Rightarrow> ('v, 'r, 'k) fsys \<Rightarrow> ('v, 'r, 'k) fsys expected" where
  "populate_proc K root s =
     bind_expected (must_mkdir K root ''proc'' s) (\<lambda>(pdir, s).
     new_device K pdir ''version'' Regular (Some VersionRead) None s)"

definition boot_tree :: "('v, 'r, 'k) fk \<Rightarrow> ('v, 'r, 'k) fsys \<Rightarrow> (addr \<times> ('v, 'r, 'k) fsys) expected" where
  "boot_tree K s =
     (case op_new K (kmm s) of
        (None, k) \<Rightarrow> Bug
      | (Some root, k) \<Rightarrow>
          bind_expected (populate_dev K root (s\<lparr>kmm := k, vnodes := (vnodes s)(root \<mapsto> RamFsNode_new K Directory (Literal ''/''))\<rparr>)) (\<lambda>s.
          bind_expected (populate_proc K root s) (\<lambda>s.
          bind_expected (try_mkdir K root ''sbin'' s) (\<lambda>s.
          bind_expected (try_mkdir K root ''bin'' s) (\<lambda>s.
          bind_expected (try_mkdir K root ''tmp'' s) (\<lambda>s.
          bind_expected (try_mkdir K root ''etc'' s) (\<lambda>s. Value (root, s))))))))"

section \<open>The first process\<close>

definition open_std ::
  "('v, 'r, 'k, 'a) plat \<Rightarrow> addr \<Rightarrow> addr \<Rightarrow> ('v, 'r, 'k, 'a) kernel \<Rightarrow> unit expected \<times> ('v, 'r, 'k, 'a) kernel" where
  "open_std P p v k =
     (case FileDescription_new (lib P) (Some v) 0 (io k) of
        (Value d, s) \<Rightarrow>
          (case on_table p (AllocateFd (lib P) (Some d)) (k\<lparr>io := s\<rparr>) of
             (Bug, k) \<Rightarrow> (Bug, k)
           | (_, k) \<Rightarrow> (Value (), on_io (fd_release d) k))
      | (_, s) \<Rightarrow> (Bug, k\<lparr>io := s\<rparr>))"

definition setup_stdio ::
  "('v, 'r, 'k, 'a) plat \<Rightarrow> addr \<Rightarrow> ('v, 'r, 'k, 'a) kernel \<Rightarrow> unit expected \<times> ('v, 'r, 'k, 'a) kernel" where
  "setup_stdio P p k =
     (let t = fs (io k) in
      case op_new (lib P) (kmm t) of
        (None, l) \<Rightarrow> (Bug, k)
      | (Some v, l) \<Rightarrow>
          (let k = on_io (set_fs (t\<lparr>kmm := l, vnodes := (vnodes t)(v \<mapsto> PseudoFsNode_new (Literal ''stdout'') None (Some StdoutWrite))\<rparr>)) k
           in case open_std P p v k of
                (Value _, k) \<Rightarrow>
                  (case open_std P p v k of
                     (Value _, k) \<Rightarrow> open_std P p v k
                   | r \<Rightarrow> r)
              | r \<Rightarrow> r))"

text \<open>The process, or \<open>None\<close> when init is missing or could not be started.\<close>

definition launch_init ::
  "('v, 'r, 'k, 'a) plat \<Rightarrow> addr \<Rightarrow> addr \<Rightarrow> ('v, 'r, 'k, 'a) kernel \<Rightarrow> addr option expected \<times> ('v, 'r, 'k, 'a) kernel" where
  "launch_init P buf root k =
     (case PathToVnode root ''/sbin/init'' (fs (io k)) of
        Value _ \<Rightarrow>
          (case Process_Spawn P buf root ''/sbin/init'' k of
             (Value p, k) \<Rightarrow> (case setup_stdio P p k of (Value _, k) \<Rightarrow> (Value (Some p), k) | (_, k) \<Rightarrow> (Bug, k))
           | (Unexpected _, k) \<Rightarrow> (Value None, k)
           | (Bug, k) \<Rightarrow> (Bug, k))
      | Unexpected _ \<Rightarrow> (Value None, k)
      | Bug \<Rightarrow> (Bug, k))"

text \<open>From the root of the file system to the first process; \<open>None\<close> when the archive loop does not end.\<close>

definition start_userland ::
  "('v, 'r, 'k, 'a) plat \<Rightarrow> addr \<Rightarrow> addr \<Rightarrow> (addr \<times> u64) option \<Rightarrow> lapic \<times> ('v, 'r, 'k, 'a) kernel \<Rightarrow> (addr option expected \<times> lapic \<times> ('v, 'r, 'k, 'a) kernel) option" where
  "start_userland P SyscallEntry_addr buf initrd dk =
     (case dk of (d, k) \<Rightarrow>
      case boot_tree (lib P) (fs (io k)) of
        Value (root, t) \<Rightarrow>
          (let k = Syscall_Initialize SyscallEntry_addr (on_io (set_fs t) k);
               d = Periodic 10000000 d
           in case (case initrd of
                      None \<Rightarrow> Some (Value (), fs (io k))
                    | Some (address, sz) \<Rightarrow> Populate (lib P) root address sz (fs (io k))) of
                None \<Rightarrow> None
              | Some (Value _, t) \<Rightarrow> (case launch_init P buf root (on_io (set_fs t) k) of (r, k) \<Rightarrow> Some (r, d, k))
              | Some (_, t) \<Rightarrow> Some (Bug, d, on_io (set_fs t) k))
      | _ \<Rightarrow> Some (Bug, d, k))"

section \<open>Building a tree\<close>

abbreviation device_node :: "VnodeType \<Rightarrow> string \<Rightarrow> PseudoReadCallback option \<Rightarrow> PseudoWriteCallback option \<Rightarrow> ('v, 'r) vnode" where
  "device_node t nm r w \<equiv> (PseudoFsNode_new (Literal nm) r w)\<lparr>vtype := t\<rparr>"


text \<open>One new node below a directory: the rest of the file system is as before.\<close>

definition added :: "('k \<Rightarrow> addr set) \<Rightarrow> ('k \<Rightarrow> nat) \<Rightarrow> addr \<Rightarrow> addr \<Rightarrow> ('v, 'r) vnode \<Rightarrow> ('v, 'r, 'k) fsys \<Rightarrow> ('v, 'r, 'k) fsys \<Rightarrow> bool" where
  "added live avail dir a nd s s' \<longleftrightarrow>
     vnodes s a = None \<and> vnodes s' = (vnodes s)(a \<mapsto> nd, dir := map_option (\<lambda>d. d\<lparr>children := children d @ [a]\<rparr>) (vnodes s dir)) \<and>
     memory s' = memory s \<and> avail (kmm s') + 2 = avail (kmm s) \<and> fs_ok live s' \<and> grows live s s'"

lemma new_device_added:
  fixes K :: "('v, 'r, 'k) fk" and s :: "('v, 'r, 'k) fsys"
  assumes B: "storage_laws K live avail" and s: "fs_ok live s" "vnodes s dir = Some d" "vtype d = Directory" "2 \<le> avail (kmm s)"
    and t: "t \<noteq> Directory"
  shows "\<exists>a s'. new_device K dir nm t r w s = Value s' \<and> added live avail dir a (device_node t nm r w) s s'"
proof -
  let ?nd = "device_node t nm r w :: ('v, 'r) vnode"
  obtain a k1 k2 where A: "op_new K (kmm s) = (Some a, k1)" "PushBack_ok K k1 = (True, k2)" "avail k2 + 2 = avail (kmm s)"
    "a \<notin> live (kmm s)" "live (kmm s) \<subseteq> live k2" "a \<in> live k2" using two_allocations [OF B s(4)] by metis
  let ?s1 = "s\<lparr>kmm := k2, vnodes := (vnodes s)(a \<mapsto> ?nd)\<rparr>" and ?f = "\<lambda>d. d\<lparr>children := children d @ [a]\<rparr>"
  have a: "a \<notin> dom (vnodes s)" "dom (vnodes s) \<subseteq> live k2" using s(1) A(4,5) by (auto simp: fs_ok_def)
  have "node_ok Map.empty ?nd" using t by (simp add: node_ok_def PseudoFsNode_new_def Vnode_new_def)
  note g1 = grows_new [OF s(1) a(1) this a(2) A(6)]
  have "in_tree ?s1 a" by (simp add: in_tree_def PseudoFsNode_new_def Vnode_new_def)
  moreover have "vnodes ?s1 dir = Some d" using s(2) a(1) by auto
  ultimately have g2: "grows live ?s1 (upd_vnode dir ?f ?s1)" by (intro add_child_grows grows_ok [OF g1])
  have ne: "a \<noteq> dir" using s(2) a(1) by auto
  have "new_device K dir nm t r w s = Value (upd_vnode dir ?f ?s1)"
    using A(1,2) s(2,3) ne by (simp add: new_device_def InsertChild_def bind_expected_def upd_vnode_def)
  moreover have "added live avail dir a ?nd s (upd_vnode dir ?f ?s1)"
    using a(1) A(3) grows_ok [OF g2] grows_trans [OF g1 g2] ne by (auto simp: added_def upd_vnode_def)
  ultimately show ?thesis by blast
qed

lemma mkdir_added:
  fixes K :: "('v, 'r, 'k) fk" and s :: "('v, 'r, 'k) fsys"
  assumes B: "storage_laws K live avail" and s: "fs_ok live s" "vnodes s dir = Some d" "vtype d = Directory" "2 \<le> avail (kmm s)"
    and new: "List.find (child_named s nm) (children d) = None"
  shows "\<exists>a s'. vnode_Mkdir K dir (Literal nm) s = (Value a, s') \<and> added live avail dir a (RamFsNode_new K Directory (Literal nm)) s s'"
proof -
  let ?nd = "RamFsNode_new K Directory (Literal nm) :: ('v, 'r) vnode"
  obtain a k1 k2 where A: "op_new K (kmm s) = (Some a, k1)" "PushBack_ok K k1 = (True, k2)" "avail k2 + 2 = avail (kmm s)"
    "a \<notin> live (kmm s)" "live (kmm s) \<subseteq> live k2" "a \<in> live k2" using two_allocations [OF B s(4)] by metis
  let ?s1 = "s\<lparr>kmm := k2, vnodes := (vnodes s)(a \<mapsto> ?nd)\<rparr>" and ?f = "\<lambda>d. d\<lparr>children := children d @ [a]\<rparr>"
  have a: "a \<notin> dom (vnodes s)" "dom (vnodes s) \<subseteq> live k2" using s(1) A(4,5) by (auto simp: fs_ok_def)
  note g1 = grows_new [OF s(1) a(1) node_ok_RamFsNode a(2) A(6)]
  have "in_tree ?s1 a" by (simp add: in_tree_def RamFsNode_new_def Vnode_new_def)
  moreover have "vnodes ?s1 dir = Some d" using s(2) a(1) by auto
  ultimately have g2: "grows live ?s1 (upd_vnode dir ?f ?s1)" by (intro add_child_grows grows_ok [OF g1])
  have ne: "a \<noteq> dir" using s(2) a(1) by auto
  have "ops d = Some RamFsOps" using s by (auto simp: fs_ok_def node_ok_def)
  moreover have "chars (memory s) (Literal nm) = nm" by (simp add: chars_def)
  ultimately have "vnode_Mkdir K dir (Literal nm) s = (Value a, upd_vnode dir ?f ?s1)"
    using A(1,2) s(2,3) new by (simp add: vnode_Mkdir_def RamFs_Mkdir_def add_node_def)
  moreover have "added live avail dir a ?nd s (upd_vnode dir ?f ?s1)"
    using a(1) A(3) grows_ok [OF g2] grows_trans [OF g1 g2] ne by (auto simp: added_def upd_vnode_def)
  ultimately show ?thesis by blast
qed

text \<open>The children of a directory by their names.\<close>

definition listing :: "('v, 'r, 'k) fsys \<Rightarrow> addr \<Rightarrow> (string \<times> addr) list \<Rightarrow> bool" where
  "listing s dir xs \<longleftrightarrow>
     (\<exists>d. vnodes s dir = Some d \<and> vtype d = Directory \<and> ops d = Some RamFsOps \<and> children d = map snd xs) \<and>
     (\<forall>(nm, c) \<in> set xs. \<exists>vn. vnodes s c = Some vn \<and> v_name vn = Literal nm)"

lemma find_map_of:
  assumes "\<forall>(nm, c) \<in> set xs. \<exists>vn. vnodes s c = Some vn \<and> v_name vn = Literal nm"
  shows "List.find (child_named s nm) (map snd xs) = map_of xs nm"
  using assms by (induction xs) (auto simp: child_named_def chars_def)

lemma listing_lookup:
  assumes "listing s dir xs"
  shows "RamFs_Lookup dir nm s = (case map_of xs nm of Some c \<Rightarrow> Value c | None \<Rightarrow> Unexpected (- ENOENT))"
  using assms find_map_of [of xs s nm] by (auto simp: listing_def RamFs_Lookup_def)

lemma listing_at:
  assumes "added live avail dir a nd s s'" and "listing s dir xs" and "v_name nd = Literal nm"
  shows "listing s' dir (xs @ [(nm, a)])"
  using assms by (fastforce simp: listing_def added_def)

text \<open>Below other directories nothing changes.\<close>

definition keeps :: "addr \<Rightarrow> ('v, 'r, 'k) fsys \<Rightarrow> ('v, 'r, 'k) fsys \<Rightarrow> bool" where
  "keeps dir s s' \<longleftrightarrow>
     (\<forall>c vn. vnodes s c = Some vn \<longrightarrow> (\<exists>vn'. vnodes s' c = Some vn' \<and> v_name vn' = v_name vn \<and> (c \<noteq> dir \<longrightarrow> vn' = vn)))"

lemma added_keeps: "added live avail dir a nd s s' \<Longrightarrow> keeps dir s s'"
  by (auto simp: added_def keeps_def)

lemma keeps_trans [trans]: "keeps dir s s1 \<Longrightarrow> keeps dir s1 s2 \<Longrightarrow> keeps dir s s2"
  unfolding keeps_def by metis

lemma listing_other:
  assumes "keeps dir s s'" and "listing s d xs" and "d \<noteq> dir"
  shows "listing s' d xs"
  using assms by (fastforce simp: listing_def keeps_def)

lemma node_other:
  assumes "keeps dir s s'" and "vnodes s c = Some vn" and "c \<noteq> dir"
  shows "vnodes s' c = Some vn"
  using assms by (auto simp: keeps_def)

lemma listing_new:
  assumes "added live avail dir a nd s s'" and "vnodes s dir \<noteq> None" and "vtype nd = Directory" and "ops nd = Some RamFsOps" and "children nd = []"
  shows "listing s' a []"
  using assms by (auto simp: listing_def added_def)

text \<open>One step of the boot sequence: a directory, or a device.\<close>

lemma mkdir_step:
  assumes B: "storage_laws K live avail" and s: "fs_ok live s" "listing s dir xs" "map_of xs nm = None" "2 \<le> avail (kmm s)"
  obtains a s' where "must_mkdir K dir nm s = Value (a, s')" "try_mkdir K dir nm s = Value s'"
    "added live avail dir a (RamFsNode_new K Directory (Literal nm)) s s'" "a \<noteq> dir" "listing s' dir (xs @ [(nm, a)])" "listing s' a []"
proof -
  obtain d where d: "vnodes s dir = Some d" "vtype d = Directory" "children d = map snd xs" using s(2) by (auto simp: listing_def)
  have "List.find (child_named s nm) (children d) = None"
    using s(2,3) find_map_of [of xs s nm] d(3) by (auto simp: listing_def)
  with mkdir_added [OF B s(1) d(1,2) s(4)] obtain a s' where
    m: "vnode_Mkdir K dir (Literal nm) s = (Value a, s')" and ad: "added live avail dir a (RamFsNode_new K Directory (Literal nm)) s s'"
    by blast
  have "a \<noteq> dir" using ad d(1) by (auto simp: added_def)
  moreover have "listing s' dir (xs @ [(nm, a)])" by (rule listing_at [OF ad s(2)]) (simp add: RamFsNode_new_def)
  moreover have "listing s' a []"
    by (rule listing_new [OF ad]) (simp_all add: d(1) RamFsNode_new_def Vnode_new_def)
  ultimately show thesis using m ad by (intro that) (simp_all add: must_mkdir_def try_mkdir_def)
qed

lemma device_step:
  assumes B: "storage_laws K live avail" and s: "fs_ok live s" "listing s dir xs" "2 \<le> avail (kmm s)" and t: "t \<noteq> Directory"
  obtains a s' where "new_device K dir nm t r w s = Value s'"
    "added live avail dir a (device_node t nm r w) s s'" "a \<noteq> dir" "listing s' dir (xs @ [(nm, a)])"
    "vnodes s' a = Some (device_node t nm r w)"
proof -
  obtain d where d: "vnodes s dir = Some d" "vtype d = Directory" using s(2) by (auto simp: listing_def)
  from new_device_added [OF B s(1) d s(3) t] obtain a s' where
    m: "new_device K dir nm t r w s = Value s'" and ad: "added live avail dir a (device_node t nm r w) s s'"
    by blast
  have ne: "a \<noteq> dir" using ad d(1) by (auto simp: added_def)
  have "listing s' dir (xs @ [(nm, a)])" by (rule listing_at [OF ad s(2)]) (simp add: PseudoFsNode_new_def)
  moreover have "vnodes s' a = Some (device_node t nm r w)" using ad ne by (simp add: added_def)
  ultimately show thesis using m ad ne by (intro that)
qed

lemma resolve_listing:
  assumes "listing s d xs"
  shows "resolve s d (c # ps) = (case map_of xs c of Some x \<Rightarrow> resolve s x ps | None \<Rightarrow> Unexpected (- ENOENT))"
  using assms listing_lookup [OF assms, of c] by (auto simp: listing_def IsDirectory_def vnode_Lookup_def split: option.split)

lemma added_more:
  assumes "added live avail dir a nd s s'"
  shows "fs_ok live s'" "avail (kmm s') = avail (kmm s) - 2"
  using assms by (auto simp: added_def)

lemma populate_dev_tree:
  assumes B: "storage_laws K live avail" and s: "fs_ok live s" "listing s root []" "8 \<le> avail (kmm s)"
  obtains dev n z t s' where "populate_dev K root s = Value s'" and "fs_ok live s'" and "avail (kmm s') = avail (kmm s) - 8"
    and "listing s' root [(''dev'', dev)]" and "listing s' dev [(''null'', n), (''zero'', z), (''tty'', t)]" and "dev \<noteq> root"
    and "vnodes s' n = Some (device_node CharDevice ''null'' (Some NullRead) (Some NullWrite))"
    and "vnodes s' z = Some (device_node CharDevice ''zero'' (Some ZeroRead) (Some ZeroWrite))"
    and "vnodes s' t = Some (device_node CharDevice ''tty'' (Some TtyRead) (Some TtyWrite))"
proof -
  obtain dev s1 where 1: "must_mkdir K root ''dev'' s = Value (dev, s1)" "added live avail root dev (RamFsNode_new K Directory (Literal ''dev'')) s s1"
      "dev \<noteq> root" "listing s1 root [(''dev'', dev)]" "listing s1 dev []"
    by (rule mkdir_step [OF B s(1,2), where nm = "''dev''"]) (use s(3) in auto)
  note a1 = added_more [OF 1(2)]
  obtain n s2 where 2: "new_device K dev ''null'' CharDevice (Some NullRead) (Some NullWrite) s1 = Value s2"
      "added live avail dev n (device_node CharDevice ''null'' (Some NullRead) (Some NullWrite)) s1 s2"
      "n \<noteq> dev" "listing s2 dev [(''null'', n)]"
      "vnodes s2 n = Some (device_node CharDevice ''null'' (Some NullRead) (Some NullWrite))"
    by (rule device_step [OF B a1(1) 1(5), where nm = "''null''" and t = CharDevice and r = "Some NullRead" and w = "Some NullWrite"])
      (use s(3) a1 in auto)
  note a2 = added_more [OF 2(2)]
  obtain z s3 where 3: "new_device K dev ''zero'' CharDevice (Some ZeroRead) (Some ZeroWrite) s2 = Value s3"
      "added live avail dev z (device_node CharDevice ''zero'' (Some ZeroRead) (Some ZeroWrite)) s2 s3"
      "z \<noteq> dev" "listing s3 dev [(''null'', n), (''zero'', z)]"
      "vnodes s3 z = Some (device_node CharDevice ''zero'' (Some ZeroRead) (Some ZeroWrite))"
    by (rule device_step [OF B a2(1) 2(4), where nm = "''zero''" and t = CharDevice and r = "Some ZeroRead" and w = "Some ZeroWrite"])
      (use s(3) a1 a2 in auto)
  note a3 = added_more [OF 3(2)]
  obtain t s4 where 4: "new_device K dev ''tty'' CharDevice (Some TtyRead) (Some TtyWrite) s3 = Value s4"
      "added live avail dev t (device_node CharDevice ''tty'' (Some TtyRead) (Some TtyWrite)) s3 s4"
      "t \<noteq> dev" "listing s4 dev [(''null'', n), (''zero'', z), (''tty'', t)]"
      "vnodes s4 t = Some (device_node CharDevice ''tty'' (Some TtyRead) (Some TtyWrite))"
    by (rule device_step [OF B a3(1) 3(4), where nm = "''tty''" and t = CharDevice and r = "Some TtyRead" and w = "Some TtyWrite"])
      (use s(3) a1 a2 a3 in auto)
  note a4 = added_more [OF 4(2)]
  have k: "keeps dev s1 s4" using 2(2) 3(2) 4(2) by (meson added_keeps keeps_trans)
  have "listing s4 root [(''dev'', dev)]"
    using listing_other [OF k] 1(3,4) by metis
  moreover have "vnodes s4 n = Some (device_node CharDevice ''null'' (Some NullRead) (Some NullWrite))"
    using node_other [OF added_keeps [OF 4(2)]] node_other [OF added_keeps [OF 3(2)] 2(5,3)] 2(3) by blast
  moreover have "vnodes s4 z = Some (device_node CharDevice ''zero'' (Some ZeroRead) (Some ZeroWrite))"
    using node_other [OF added_keeps [OF 4(2)] 3(5,3)] .
  moreover have "populate_dev K root s = Value s4" using 1(1) 2(1) 3(1) 4(1) by (simp add: populate_dev_def bind_expected_def)
  ultimately show thesis using a1(2) a2(2) a3(2) a4 4(4,5) 1(3) by (intro that) simp_all
qed

lemma populate_proc_tree:
  assumes B: "storage_laws K live avail" and s: "fs_ok live s" "listing s root xs" "map_of xs ''proc'' = None" "4 \<le> avail (kmm s)"
  obtains p v s' where "populate_proc K root s = Value s'" and "fs_ok live s'" and "avail (kmm s') = avail (kmm s) - 4"
    and "listing s' root (xs @ [(''proc'', p)])" and "listing s' p [(''version'', v)]" and "p \<noteq> root"
    and "vnodes s' v = Some (device_node Regular ''version'' (Some VersionRead) None)"
    and "keeps root s s'"
proof -
  obtain p s1 where 1: "must_mkdir K root ''proc'' s = Value (p, s1)" "added live avail root p (RamFsNode_new K Directory (Literal ''proc'')) s s1"
      "p \<noteq> root" "listing s1 root (xs @ [(''proc'', p)])" "listing s1 p []"
    by (rule mkdir_step [OF B s(1,2,3)]) (use s(4) in auto)
  note a1 = added_more [OF 1(2)]
  obtain v s2 where 2: "new_device K p ''version'' Regular (Some VersionRead) None s1 = Value s2"
      "added live avail p v (device_node Regular ''version'' (Some VersionRead) None) s1 s2"
      "v \<noteq> p" "listing s2 p [(''version'', v)]" "vnodes s2 v = Some (device_node Regular ''version'' (Some VersionRead) None)"
    by (rule device_step [OF B a1(1) 1(5), where nm = "''version''" and t = Regular and r = "Some VersionRead" and w = None])
      (use s(4) a1 in auto)
  note a2 = added_more [OF 2(2)]
  have "vnodes s p = None" using 1(2) by (simp add: added_def)
  then have "keeps root s s2" using added_keeps [OF 1(2)] added_keeps [OF 2(2)] unfolding keeps_def by (metis option.distinct(1))
  moreover have "listing s2 root (xs @ [(''proc'', p)])" using listing_other [OF added_keeps [OF 2(2)]] 1(3,4) by metis
  moreover have "populate_proc K root s = Value s2" using 1(1) 2(1) by (simp add: populate_proc_def bind_expected_def)
  ultimately show thesis using a1(2) a2 2(4,5) 1(3) by (intro that) simp_all
qed

lemma try_mkdirs_tree:
  assumes B: "storage_laws K live avail" and s: "fs_ok live s" "listing s root [(''dev'', dev), (''proc'', p)]" "8 \<le> avail (kmm s)"
  obtains b c d e s1 s2 s3 s' where "try_mkdir K root ''sbin'' s = Value s1" and "try_mkdir K root ''bin'' s1 = Value s2"
    and "try_mkdir K root ''tmp'' s2 = Value s3" and "try_mkdir K root ''etc'' s3 = Value s'" and "fs_ok live s'" and "keeps root s s'"
    and "listing s' root [(''dev'', dev), (''proc'', p), (''sbin'', b), (''bin'', c), (''tmp'', d), (''etc'', e)]"
    and "listing s' b []" and "listing s' c []" and "listing s' d []" and "listing s' e []"
proof -
  obtain b s1 where 1: "try_mkdir K root ''sbin'' s = Value s1" "added live avail root b (RamFsNode_new K Directory (Literal ''sbin'')) s s1"
      "b \<noteq> root" "listing s1 root [(''dev'', dev), (''proc'', p), (''sbin'', b)]" "listing s1 b []"
    by (rule mkdir_step [OF B s(1,2), where nm = "''sbin''"]) (use s(3) in auto)
  note a1 = added_more [OF 1(2)]
  obtain c s2 where 2: "try_mkdir K root ''bin'' s1 = Value s2" "added live avail root c (RamFsNode_new K Directory (Literal ''bin'')) s1 s2"
      "c \<noteq> root" "listing s2 root [(''dev'', dev), (''proc'', p), (''sbin'', b), (''bin'', c)]" "listing s2 c []"
    by (rule mkdir_step [OF B a1(1) 1(4), where nm = "''bin''"]) (use s(3) a1 in auto)
  note a2 = added_more [OF 2(2)]
  obtain d s3 where 3: "try_mkdir K root ''tmp'' s2 = Value s3" "added live avail root d (RamFsNode_new K Directory (Literal ''tmp'')) s2 s3"
      "d \<noteq> root" "listing s3 root [(''dev'', dev), (''proc'', p), (''sbin'', b), (''bin'', c), (''tmp'', d)]" "listing s3 d []"
    by (rule mkdir_step [OF B a2(1) 2(4), where nm = "''tmp''"]) (use s(3) a1 a2 in auto)
  note a3 = added_more [OF 3(2)]
  obtain e s4 where 4: "try_mkdir K root ''etc'' s3 = Value s4" "added live avail root e (RamFsNode_new K Directory (Literal ''etc'')) s3 s4"
      "e \<noteq> root" "listing s4 root [(''dev'', dev), (''proc'', p), (''sbin'', b), (''bin'', c), (''tmp'', d), (''etc'', e)]" "listing s4 e []"
    by (rule mkdir_step [OF B a3(1) 3(4), where nm = "''etc''"]) (use s(3) a1 a2 a3 in auto)
  note a4 = added_more [OF 4(2)] and k4 = added_keeps [OF 4(2)]
  have k3: "keeps root s2 s4" and k2: "keeps root s1 s4" and k1: "keeps root s s4"
    using 1(2) 2(2) 3(2) k4 by (meson added_keeps keeps_trans)+
  show thesis
    using that [OF 1(1) 2(1) 3(1) 4(1) a4(1) k1 4(4)] listing_other [OF k2 1(5,3)] listing_other [OF k3 2(5,3)]
      listing_other [OF k4 3(5,3)] 4(5) by blast
qed

lemma boot_tree_nodes:
  assumes B: "storage_laws K live avail" and s: "vnodes s = Map.empty" and m: "21 \<le> avail (kmm s)"
  obtains root s' dev n z t p v b c d e where "boot_tree K s = Value (root, s')" and "fs_ok live s'"
    and "listing s' root [(''dev'', dev), (''proc'', p), (''sbin'', b), (''bin'', c), (''tmp'', d), (''etc'', e)]"
    and "listing s' dev [(''null'', n), (''zero'', z), (''tty'', t)]" and "listing s' p [(''version'', v)]"
    and "listing s' b []" and "listing s' c []" and "listing s' d []" and "listing s' e []"
    and "vnodes s' n = Some (device_node CharDevice ''null'' (Some NullRead) (Some NullWrite))"
    and "vnodes s' z = Some (device_node CharDevice ''zero'' (Some ZeroRead) (Some ZeroWrite))"
    and "vnodes s' t = Some (device_node CharDevice ''tty'' (Some TtyRead) (Some TtyWrite))"
    and "vnodes s' v = Some (device_node Regular ''version'' (Some VersionRead) None)"
proof -
  obtain root k where n: "op_new K (kmm s) = (Some root, k)" "avail k = avail (kmm s) - 1" and live: "root \<in> live k"
    using B m alloc_lawsD(3) unfolding storage_laws_def by (metis less_le_trans zero_less_numeral)
  define s0 where "s0 = s\<lparr>kmm := k, vnodes := (vnodes s)(root \<mapsto> RamFsNode_new K Directory (Literal ''/''))\<rparr>"
  have f0: "fs_ok live s0" "listing s0 root []" "avail (kmm s0) = avail (kmm s) - 1"
    using live n(2) by (auto simp: s0_def s fs_ok_def listing_def node_ok_def RamFsNode_new_def Vnode_new_def split: if_splits)
  obtain dev n z t s1 where 1: "populate_dev K root s0 = Value s1" "fs_ok live s1" "avail (kmm s1) = avail (kmm s0) - 8"
    "listing s1 root [(''dev'', dev)]" "listing s1 dev [(''null'', n), (''zero'', z), (''tty'', t)]" "dev \<noteq> root"
    "vnodes s1 n = Some (device_node CharDevice ''null'' (Some NullRead) (Some NullWrite))"
    "vnodes s1 z = Some (device_node CharDevice ''zero'' (Some ZeroRead) (Some ZeroWrite))"
    "vnodes s1 t = Some (device_node CharDevice ''tty'' (Some TtyRead) (Some TtyWrite))"
    by (rule populate_dev_tree [OF B f0(1,2)]) (use m f0 in auto)
  obtain p v s2 where 2: "populate_proc K root s1 = Value s2" "fs_ok live s2" "avail (kmm s2) = avail (kmm s1) - 4"
    "listing s2 root [(''dev'', dev), (''proc'', p)]" "listing s2 p [(''version'', v)]" "p \<noteq> root"
    "vnodes s2 v = Some (device_node Regular ''version'' (Some VersionRead) None)" "keeps root s1 s2"
    by (rule populate_proc_tree [OF B 1(2,4)]) (use m f0 1(3) in auto)
  obtain b c d e s3 s4 s5 s' where 3: "try_mkdir K root ''sbin'' s2 = Value s3" "try_mkdir K root ''bin'' s3 = Value s4"
    "try_mkdir K root ''tmp'' s4 = Value s5" "try_mkdir K root ''etc'' s5 = Value s'" "fs_ok live s'" "keeps root s2 s'"
    "listing s' root [(''dev'', dev), (''proc'', p), (''sbin'', b), (''bin'', c), (''tmp'', d), (''etc'', e)]"
    "listing s' b []" "listing s' c []" "listing s' d []" "listing s' e []"
    by (rule try_mkdirs_tree [OF B 2(2,4)]) (use m f0 1(3) 2(3) in auto)
  have run: "boot_tree K s = Value (root, s')"
    using n(1) 1(1) 2(1) 3(1-4) by (simp add: boot_tree_def s0_def [symmetric] bind_expected_def)
  have k: "keeps root s1 s'" using keeps_trans [OF 2(8) 3(6)] .
  have "\<exists>vn. vnodes s1 root = Some vn \<and> vtype vn = Directory" "\<exists>vn. vnodes s2 root = Some vn \<and> vtype vn = Directory"
    using 1(4) 2(4) by (auto simp: listing_def)
  then have ne: "n \<noteq> root" "z \<noteq> root" "t \<noteq> root" "v \<noteq> root" using 1(7,8,9) 2(7) by auto
  note L = listing_other [OF k 1(5,6)] listing_other [OF 3(6) 2(5,6)]
  have nodes: "vnodes s' n = Some (device_node CharDevice ''null'' (Some NullRead) (Some NullWrite))"
    "vnodes s' z = Some (device_node CharDevice ''zero'' (Some ZeroRead) (Some ZeroWrite))"
    "vnodes s' t = Some (device_node CharDevice ''tty'' (Some TtyRead) (Some TtyWrite))"
    "vnodes s' v = Some (device_node Regular ''version'' (Some VersionRead) None)"
    using node_other [OF k 1(7) ne(1)] node_other [OF k 1(8) ne(2)] node_other [OF k 1(9) ne(3)] node_other [OF 3(6) 2(7) ne(4)] by auto
  show thesis using that [OF run 3(5,7) L 3(8-11) nodes] .
qed

section \<open>The descriptors of the first process\<close>

text \<open>Opening a file when all slots of the table are in use appends it.\<close>

lemma AllocateFd_full:
  assumes "PushBack_ok K (kmm (fs s)) = (True, l)" and "None \<notin> set T" and "length T < kMaxFds" and "n \<le> length T"
  shows "AllocateFd_loop K d n T s = (Value (of_nat (length T)), T @ [Some d], fd_addref d (s\<lparr>fs := (fs s)\<lparr>kmm := l\<rparr>\<rparr>))"
  using assms(4)
proof (induction "length T - n" arbitrary: n)
  case 0
  then have n: "n = length T" by simp
  show ?case using assms(1,3) by (subst AllocateFd_loop.simps) (simp add: n grow_def)
next
  case (Suc m)
  then have n: "n < length T" by simp
  obtain e where "T ! n = Some e" using assms(2) n by (metis nth_mem option.exhaust)
  moreover have "AllocateFd_loop K d (n + 1) T s = (Value (of_nat (length T)), T @ [Some d], fd_addref d (s\<lparr>fs := (fs s)\<lparr>kmm := l\<rparr>\<rparr>))"
    by (rule Suc(1)) (use Suc(2) n in auto)
  ultimately show ?case using n assms(3) by (subst AllocateFd_loop.simps) (simp add: grow_def)
qed

text \<open>One more descriptor of a node that is no pipe.\<close>

lemma open_std_step:
  assumes B: "storage_laws (lib P) live avail" and k: "procs k p = Some pr" "None \<notin> set (m_fd_table pr)" "length (m_fd_table pr) < kMaxFds"
    and v: "vnodes (fs (io k)) v = Some vn" "ops vn = Some PseudoFsOps" and m: "2 \<le> avail (kmm (fs (io k)))"
  obtains d k' where "open_std P p v k = (Value (), k')" and "d \<notin> live (kmm (fs (io k)))"
    and "live (kmm (fs (io k))) \<subseteq> live (kmm (fs (io k')))" and "d \<in> live (kmm (fs (io k')))"
    and "avail (kmm (fs (io k'))) + 2 = avail (kmm (fs (io k)))" and "vnodes (fs (io k')) = vnodes (fs (io k))"
    and "procs k' = (procs k)(p \<mapsto> pr\<lparr>m_fd_table := m_fd_table pr @ [Some d]\<rparr>)"
    and "files (io k') = (files (io k))(d \<mapsto> \<lparr>fd_vnode = Some v, fd_offset = 0, fd_flags = 0, fd_refs = 1\<rparr>)"
proof -
  obtain d l1 l2 where A: "op_new (lib P) (kmm (fs (io k))) = (Some d, l1)" "PushBack_ok (lib P) l1 = (True, l2)"
    "avail l2 + 2 = avail (kmm (fs (io k)))" "d \<notin> live (kmm (fs (io k)))" "live (kmm (fs (io k))) \<subseteq> live l2" "d \<in> live l2"
    using two_allocations [OF B m] by metis
  let ?s = "(io k)\<lparr>fs := (fs (io k))\<lparr>kmm := l1\<rparr>, files := (files (io k))(d \<mapsto> \<lparr>fd_vnode = Some v, fd_offset = 0, fd_flags = 0, fd_refs = 1\<rparr>)\<rparr>"
  have 1: "FileDescription_new (lib P) (Some v) 0 (io k) = (Value d, ?s)"
    using A(1) v by (simp add: FileDescription_new_def vnode_Open_def)
  have 2: "AllocateFd (lib P) (Some d) (m_fd_table pr) ?s =
      (Value (of_nat (length (m_fd_table pr))), m_fd_table pr @ [Some d], fd_addref d (?s\<lparr>fs := (fs ?s)\<lparr>kmm := l2\<rparr>\<rparr>))"
    unfolding AllocateFd_def option.case by (rule AllocateFd_full) (use A(2) k in simp_all)
  show thesis
    by (rule that [of "snd (open_std P p v k)" d],
      use A k in \<open>simp_all add: open_std_def 1 2 on_table_def fd_addref_def fd_release_def upd_file_def on_io_def upd_proc_def del: One_nat_def\<close>) simp
qed

lemma boot_paths:
  "components ''/dev/null'' = [''dev'', ''null'']" "components ''/dev/zero'' = [''dev'', ''zero'']"
  "components ''/dev/tty'' = [''dev'', ''tty'']" "components ''/proc/version'' = [''proc'', ''version'']"
  "components ''/dev'' = [''dev'']" "components ''/proc'' = [''proc'']" "components ''/sbin'' = [''sbin'']"
  "components ''/bin'' = [''bin'']" "components ''/tmp'' = [''tmp'']" "components ''/etc'' = [''etc'']"
  "components ''/sbin/init'' = [''sbin'', ''init'']"
  by code_simp+

section \<open>Properties\<close>

text \<open>
  C20: The boot sequence builds its tree: given storage for eleven nodes and their ten entries, it ends without a panic in a
  well-typed file system, where the paths of the devices and of the version file reach nodes with the right callbacks, the six
  standard directories exist, and init is not there before the archive is unpacked.
\<close>

theorem boot_tree_layout:
  assumes B: "storage_laws K live avail" and s: "vnodes s = Map.empty" and m: "21 \<le> avail (kmm s)"
  shows "\<exists>root s'. boot_tree K s = Value (root, s') \<and> fs_ok live s' \<and> in_tree s' root \<and>
    (\<forall>(path, r, w) \<in> {(''/dev/null'', NullRead, NullWrite), (''/dev/zero'', ZeroRead, ZeroWrite), (''/dev/tty'', TtyRead, TtyWrite)}.
       \<exists>a vn. PathToVnode root path s' = Value a \<and> vnodes s' a = Some vn \<and> vtype vn = CharDevice \<and> read_cb vn = Some r \<and> write_cb vn = Some w) \<and>
    (\<exists>a vn. PathToVnode root ''/proc/version'' s' = Value a \<and> vnodes s' a = Some vn \<and> vtype vn = Regular \<and>
       read_cb vn = Some VersionRead \<and> write_cb vn = None) \<and>
    (\<forall>path \<in> {''/dev'', ''/proc'', ''/sbin'', ''/bin'', ''/tmp'', ''/etc''}.
       \<exists>a vn. PathToVnode root path s' = Value a \<and> vnodes s' a = Some vn \<and> vtype vn = Directory) \<and>
    PathToVnode root ''/sbin/init'' s' = Unexpected (- ENOENT)"
proof -
  obtain root s' dev n z t p v b c d e where 1: "boot_tree K s = Value (root, s')" "fs_ok live s'"
    "listing s' root [(''dev'', dev), (''proc'', p), (''sbin'', b), (''bin'', c), (''tmp'', d), (''etc'', e)]"
    "listing s' dev [(''null'', n), (''zero'', z), (''tty'', t)]" "listing s' p [(''version'', v)]"
    "listing s' b []" "listing s' c []" "listing s' d []" "listing s' e []"
    "vnodes s' n = Some (device_node CharDevice ''null'' (Some NullRead) (Some NullWrite))"
    "vnodes s' z = Some (device_node CharDevice ''zero'' (Some ZeroRead) (Some ZeroWrite))"
    "vnodes s' t = Some (device_node CharDevice ''tty'' (Some TtyRead) (Some TtyWrite))"
    "vnodes s' v = Some (device_node Regular ''version'' (Some VersionRead) None)"
    by (rule boot_tree_nodes [OF B s m])
  have dirs: "\<exists>vn. vnodes s' x = Some vn \<and> vtype vn = Directory" if "x \<in> {dev, p, b, c, d, e}" for x
    using that 1(4-9) by (auto simp: listing_def)
  note res = PathToVnode_resolve boot_paths resolve_listing [OF 1(3)] resolve_listing [OF 1(4)] resolve_listing [OF 1(5)] resolve_listing [OF 1(6)]
  have paths: "PathToVnode root ''/dev/null'' s' = Value n" "PathToVnode root ''/dev/zero'' s' = Value z"
    "PathToVnode root ''/dev/tty'' s' = Value t" "PathToVnode root ''/proc/version'' s' = Value v"
    "PathToVnode root ''/dev'' s' = Value dev" "PathToVnode root ''/proc'' s' = Value p" "PathToVnode root ''/sbin'' s' = Value b"
    "PathToVnode root ''/bin'' s' = Value c" "PathToVnode root ''/tmp'' s' = Value d" "PathToVnode root ''/etc'' s' = Value e"
    "PathToVnode root ''/sbin/init'' s' = Unexpected (- ENOENT)"
    by (simp_all add: res del: resolve.simps(2))
  have "in_tree s' root" using 1(3) by (auto simp: listing_def in_tree_def)
  moreover have "\<forall>path \<in> {''/dev'', ''/proc'', ''/sbin'', ''/bin'', ''/tmp'', ''/etc''}.
       \<exists>a vn. PathToVnode root path s' = Value a \<and> vnodes s' a = Some vn \<and> vtype vn = Directory"
    using dirs by (simp add: paths)
  ultimately show ?thesis using 1(1,2)
    by (intro exI [of _ root] exI [of _ s']) (simp add: paths 1(10-13) PseudoFsNode_new_def Vnode_new_def)
qed

theorem boot_tree_layout_witness:
  "\<exists>root s'. boot_tree ex_pool (ex_fsys\<lparr>kmm := 0, vnodes := Map.empty\<rparr>) = Value (root, s') \<and>
     PathToVnode root ''/sbin/init'' s' = Unexpected (- ENOENT) \<and> (\<exists>a. PathToVnode root ''/dev/tty'' s' = Value a)"
  using boot_tree_layout [OF ex_pool_laws, of "ex_fsys\<lparr>kmm := 0, vnodes := Map.empty\<rparr>"] by auto

text \<open>
  C21: The first process gets its three descriptors: on a process with an empty table, with storage for the node, the descriptions
  and the table, the boot code ends without a panic, and 0, 1 and 2 are three different open files at offset 0, held by the table
  alone, of one new node that writes to the console and cannot be read; other processes and open files are as before.
\<close>

theorem init_descriptors:
  assumes B: "storage_laws (lib P) live avail" and k: "procs k p = Some pr" "m_fd_table pr = []" and m: "7 \<le> avail (kmm (fs (io k)))"
    and old: "dom (vnodes (fs (io k))) \<union> dom (files (io k)) \<subseteq> live (kmm (fs (io k)))"
  shows "\<exists>v d0 d1 d2 k'. setup_stdio P p k = (Value (), k') \<and> distinct [d0, d1, d2] \<and>
     procs k' = (procs k)(p \<mapsto> pr\<lparr>m_fd_table := [Some d0, Some d1, Some d2]\<rparr>) \<and>
     v \<notin> dom (vnodes (fs (io k))) \<and> {d0, d1, d2} \<inter> dom (files (io k)) = {} \<and>
     vnodes (fs (io k')) = (vnodes (fs (io k)))(v \<mapsto> PseudoFsNode_new (Literal ''stdout'') None (Some StdoutWrite)) \<and>
     (\<forall>d. files (io k') d =
        (if d \<in> {d0, d1, d2} then Some \<lparr>fd_vnode = Some v, fd_offset = 0, fd_flags = 0, fd_refs = 1\<rparr> else files (io k) d))"
proof -
  let ?nd = "PseudoFsNode_new (Literal ''stdout'') None (Some StdoutWrite)"
  have L: "alloc_laws (lib P) live" using B by (simp add: storage_laws_def)
  obtain v l where A: "op_new (lib P) (kmm (fs (io k))) = (Some v, l)" "avail l = avail (kmm (fs (io k))) - 1"
    using B m unfolding storage_laws_def by (metis less_le_trans zero_less_numeral)
  note al = alloc_lawsD(1,2,3) [OF L A(1)]
  define k0 where "k0 = on_io (set_fs ((fs (io k))\<lparr>kmm := l, vnodes := (vnodes (fs (io k)))(v \<mapsto> ?nd)\<rparr>)) k"
  have k0: "procs k0 = procs k" "files (io k0) = files (io k)" "kmm (fs (io k0)) = l" "vnodes (fs (io k0)) = (vnodes (fs (io k)))(v \<mapsto> ?nd)"
    by (simp_all add: k0_def on_io_def set_fs_def)
  have nd: "vnodes (fs (io k0)) v = Some ?nd" "ops ?nd = Some PseudoFsOps" by (simp_all add: k0 PseudoFsNode_new_def Vnode_new_def)
  obtain d0 k1 where 0: "open_std P p v k0 = (Value (), k1)" "d0 \<notin> live l" "live l \<subseteq> live (kmm (fs (io k1)))"
    "d0 \<in> live (kmm (fs (io k1)))" "avail (kmm (fs (io k1))) + 2 = avail l" "vnodes (fs (io k1)) = vnodes (fs (io k0))"
    "procs k1 = (procs k)(p \<mapsto> pr\<lparr>m_fd_table := [Some d0]\<rparr>)"
    "files (io k1) = (files (io k))(d0 \<mapsto> \<lparr>fd_vnode = Some v, fd_offset = 0, fd_flags = 0, fd_refs = 1\<rparr>)"
    by (rule open_std_step [OF B, of k0 p pr v ?nd]) (use k0 k nd m A in \<open>simp_all add: kMaxFds_def\<close>)
  obtain d1 k2 where 1: "open_std P p v k1 = (Value (), k2)" "d1 \<notin> live (kmm (fs (io k1)))" "live (kmm (fs (io k1))) \<subseteq> live (kmm (fs (io k2)))"
    "d1 \<in> live (kmm (fs (io k2)))" "avail (kmm (fs (io k2))) + 2 = avail (kmm (fs (io k1)))" "vnodes (fs (io k2)) = vnodes (fs (io k1))"
    "procs k2 = (procs k)(p \<mapsto> pr\<lparr>m_fd_table := [Some d0, Some d1]\<rparr>)"
    "files (io k2) = (files (io k1))(d1 \<mapsto> \<lparr>fd_vnode = Some v, fd_offset = 0, fd_flags = 0, fd_refs = 1\<rparr>)"
    by (rule open_std_step [OF B, of k1 p "pr\<lparr>m_fd_table := [Some d0]\<rparr>" v ?nd])
      (use 0 nd m A in \<open>simp_all add: kMaxFds_def\<close>)
  obtain d2 k3 where 2: "open_std P p v k2 = (Value (), k3)" "d2 \<notin> live (kmm (fs (io k2)))" "vnodes (fs (io k3)) = vnodes (fs (io k2))"
    "procs k3 = (procs k)(p \<mapsto> pr\<lparr>m_fd_table := [Some d0, Some d1, Some d2]\<rparr>)"
    "files (io k3) = (files (io k2))(d2 \<mapsto> \<lparr>fd_vnode = Some v, fd_offset = 0, fd_flags = 0, fd_refs = 1\<rparr>)"
    by (rule open_std_step [OF B, of k2 p "pr\<lparr>m_fd_table := [Some d0, Some d1]\<rparr>" v ?nd])
      (use 0 1 nd m A in \<open>simp_all add: kMaxFds_def\<close>)
  have run: "setup_stdio P p k = (Value (), k3)"
    using A(1) 0(1) 1(1) 2(1) by (simp add: setup_stdio_def k0_def [symmetric])
  have ne: "distinct [d0, d1, d2]" using 0(4) 1(2,3,4) 2(2) by auto
  have fresh: "v \<notin> dom (vnodes (fs (io k)))" "{d0, d1, d2} \<inter> dom (files (io k)) = {}"
    using al old 0(2,3) 1(2,3) 2(2) by blast+
  show ?thesis
    by (intro exI [of _ v] exI [of _ d0] exI [of _ d1] exI [of _ d2] exI [of _ k3])
      (use run ne fresh 2(3-5) 1(6,8) 0(6,8) k0(4) in simp)
qed

definition ex_boot_kernel :: "((u64 \<times> u64) list, u8 list, nat, (u64 \<times> u64) list) kernel" where
  "ex_boot_kernel = ex_kernel\<lparr>io := \<lparr>fs = ex_fsys\<lparr>kmm := 0, vnodes := Map.empty\<rparr>, files = Map.empty\<rparr>,
     procs := [0x700 \<mapsto> Process_new 1 0x600 2 2]\<rparr>"

theorem init_descriptors_witness:
  "\<exists>k' d0 d1 d2. setup_stdio (ex_plat\<lparr>lib := ex_pool\<rparr>) 0x700 ex_boot_kernel = (Value (), k') \<and> distinct [d0, d1, d2] \<and>
     procs k' 0x700 = Some (Process_new 1 0x600 2 2\<lparr>m_fd_table := [Some d0, Some d1, Some d2]\<rparr>)"
proof -
  have 1: "procs ex_boot_kernel 0x700 = Some (Process_new 1 0x600 2 2)" by (simp add: ex_boot_kernel_def)
  have 2: "storage_laws (lib (ex_plat\<lparr>lib := ex_pool\<rparr>)) ex_live (\<lambda>k. 64 - k)" using ex_pool_laws by simp
  have 3: "m_fd_table (Process_new 1 0x600 2 2) = []" by (simp add: Process_new_def)
  have 4: "7 \<le> 64 - kmm (fs (io ex_boot_kernel))" "dom (vnodes (fs (io ex_boot_kernel))) \<union> dom (files (io ex_boot_kernel)) \<subseteq> A" for A
    by (simp_all add: ex_boot_kernel_def)
  obtain v d0 d1 d2 k' where "setup_stdio (ex_plat\<lparr>lib := ex_pool\<rparr>) 0x700 ex_boot_kernel = (Value (), k')" "distinct [d0, d1, d2]"
    "procs k' = (procs ex_boot_kernel)(0x700 \<mapsto> Process_new 1 0x600 2 2\<lparr>m_fd_table := [Some d0, Some d1, Some d2]\<rparr>)"
    using init_descriptors [OF 2 1 3 4] by (elim exE conjE)
  then show ?thesis by (intro exI [of _ k'] exI [of _ d0] exI [of _ d1] exI [of _ d2]) simp
qed

end
