(* ===== verification/SchedSafety.thy ===== *)
theory SchedSafety
  imports Scheduler
begin

text \<open>
  The scheduler and the reaper together. A terminated thread that waits for the reaper must stay out of the scheduler until it
  is deleted. \<open>parked\<close> says that a thread is out of the queues and neither running nor idle, \<open>keeps_sched\<close> what every operation of the scheduler
  guarantees to parked threads, and \<open>sched_safe\<close> is the invariant that the rest of the kernel is shown to keep.
\<close>

section \<open>Parked threads\<close>

definition parked :: "sched \<Rightarrow> addr \<Rightarrow> bool" where
  "parked s t \<longleftrightarrow> off s t \<and> current_thread s \<noteq> Some t \<and> idle_thread s \<noteq> Some t"

definition sched_safe :: "sched \<Rightarrow> bool" where
  "sched_safe s \<longleftrightarrow> sched_wf s \<and> distinct (dead_list s) \<and> (\<forall>t \<in> set (dead_list s). parked s t \<and> m_state (thr s t) = Terminated)"

lemma sched_safe_dead: "sched_safe s \<Longrightarrow> dead_ok s"
  by (auto simp: sched_safe_def dead_ok_def parked_def)

text \<open>No thread object appears or goes, and parked threads are left alone.\<close>

definition keeps_sched :: "sched \<Rightarrow> sched \<Rightarrow> bool" where
  "keeps_sched s s' \<longleftrightarrow> dom (threads s') = dom (threads s) \<and> dead_list s' = dead_list s \<and> idle_thread s' = idle_thread s \<and>
     (\<forall>t. parked s t \<longrightarrow> parked s' t \<and> threads s' t = threads s t)"

lemma keeps_refl [simp]: "keeps_sched s s"
  by (simp add: keeps_sched_def)

lemma keeps_sched_trans: "keeps_sched s s1 \<Longrightarrow> keeps_sched s1 s2 \<Longrightarrow> keeps_sched s s2"
  by (simp add: keeps_sched_def)

lemma keeps_safe: "sched_safe s \<Longrightarrow> keeps_sched s s' \<Longrightarrow> sched_wf s' \<Longrightarrow> sched_safe s'"
  by (simp add: sched_safe_def keeps_sched_def thr_def)

lemma keeps_upd:
  assumes "\<not> parked s t"
  shows "keeps_sched s (upd_thread t f s)"
  using assms by (auto simp: keeps_sched_def parked_def split: if_splits)

lemma ScheduleLocked_keeps:
  assumes "queues_wf s" and "idle_thread s = Some i" and "off s i"
  shows "keeps_sched s (ScheduleLocked root s)"
proof -
  obtain n s1 where pick: "ScheduleLocked root s =
        (if current_thread s = Some n then s1 else PerformSwitch root (current_thread s) n s1)"
      "ready s = [] \<and> n = i \<or> ready s = n # ready s1"
      "queues_wf s1" "off s1 n" "\<And>u. off s u \<Longrightarrow> off s1 u" "\<And>u. off s1 u \<Longrightarrow> off s u \<or> u = n"
      "threads s1 = threads s" "current_thread s1 = current_thread s" "idle_thread s1 = idle_thread s"
    by (rule ScheduleLocked_pick [OF assms(1-3), where root = root]) blast
  have n: "u \<noteq> n" if "parked s u" for u using pick(2) that assms(2) by (auto simp: parked_def off_def)
  have "dom (threads (ScheduleLocked root s)) = dom (threads s)" by (simp add: dom_def dom_ScheduleLocked)
  moreover have "idle_thread (ScheduleLocked root s) = idle_thread s" using pick(1,9) by simp
  moreover have "parked (ScheduleLocked root s) u \<and> threads (ScheduleLocked root s) u = threads s u" if "parked s u" for u
    using pick(1) pick(5) [of u] pick(7-9) n [OF that] that
    by (auto simp: parked_def PerformSwitch_threads option.map_id0)
  ultimately show ?thesis by (simp add: keeps_sched_def)
qed

text \<open>A thread out of the queues, the one that runs included, is not what is scheduled next.\<close>

lemma ScheduleLocked_leaves:
  assumes "queues_wf s" and "idle_thread s = Some i" and "off s i" and u: "off s u" "u \<noteq> i"
  shows "parked (ScheduleLocked root s) u \<and> m_state (thr (ScheduleLocked root s) u) = m_state (thr s u)"
proof -
  obtain n s1 where pick: "ScheduleLocked root s =
        (if current_thread s = Some n then s1 else PerformSwitch root (current_thread s) n s1)"
      "ready s = [] \<and> n = i \<or> ready s = n # ready s1"
      "queues_wf s1" "off s1 n" "\<And>u. off s u \<Longrightarrow> off s1 u" "\<And>u. off s1 u \<Longrightarrow> off s u \<or> u = n"
      "threads s1 = threads s" "current_thread s1 = current_thread s" "idle_thread s1 = idle_thread s"
    by (rule ScheduleLocked_pick [OF assms(1-3), where root = root]) blast
  have n: "u \<noteq> n" using pick(2) u by (auto simp: off_def)
  have "off s1 u" by (rule pick(5) [OF u(1)])
  moreover have "thr s1 = thr s" using pick(7) by (simp add: thr_def fun_eq_iff)
  ultimately show ?thesis using pick(1,8,9) n u(2) assms(2) by (simp add: parked_def thr_PerformSwitch(4))
qed

text \<open>A thread that runs is put into a queue, then another one is scheduled.\<close>

lemma relink_keeps:
  assumes "current_thread s = Some c" and "idle_thread s = Some i" and "queues_wf s2" and "off s i" and "i \<noteq> c"
    and "\<And>u. off s2 u \<longleftrightarrow> off s u \<and> u \<noteq> c" and "threads s2 = threads (upd_thread c f s)" and "off s c"
    and "current_thread s2 = current_thread s" "idle_thread s2 = idle_thread s" "dead_list s2 = dead_list s"
  shows "keeps_sched s (ScheduleLocked root s2)"
proof (rule keeps_sched_trans)
  show "keeps_sched s s2" using assms by (auto simp: keeps_sched_def parked_def off_def)
  show "keeps_sched s2 (ScheduleLocked root s2)" by (rule ScheduleLocked_keeps [of s2 i]) (use assms in simp_all)
qed

section \<open>The operations\<close>

lemma idle_of: "sched_wf s \<Longrightarrow> \<exists>i. queues_wf s \<and> idle_thread s = Some i \<and> off s i"
  by (auto simp: sched_wf_def)

lemma Yield_keeps:
  assumes wf: "sched_wf s"
  shows "keeps_sched s (Yield root s)"
proof -
  obtain i where i: "queues_wf s" "idle_thread s = Some i" "off s i" using idle_of [OF wf] by blast
  show ?thesis
  proof (cases "\<exists>c. current_thread s = Some c \<and> idle_thread s \<noteq> Some c \<and> m_state (thr s c) = Running")
    case True
    then obtain c where c: "current_thread s = Some c" "i \<noteq> c" "m_state (thr s c) = Running" using i by auto
    have off: "off s c" using wf c(1) by (simp add: sched_wf_def)
    let ?l = "m_mlfq_level (thr s c)"
    let ?f = "\<lambda>th. th\<lparr>m_state := Ready, m_ticks_remaining := kQuantum ! nat ?l\<rparr>"
    note lvl = thr_level [OF i(1) off]
    have l: "nat ?l < kNumLevels" using lvl by simp
    have "queues_wf (push_back (nat ?l) c (upd_thread c ?f s))" using requeue_wf [OF i(1) off, of ?f] lvl by simp
    then have "keeps_sched s (ScheduleLocked root (push_back (nat ?l) c (upd_thread c ?f s)))"
      by (rule relink_keeps [where i = i and c = c and f = ?f, OF c(1) i(2)]) (use i c off l in \<open>simp_all add: requeue_off\<close>)
    then show ?thesis using c i(2) by (simp add: Yield_def Let_def)
  next
    case False
    then have "Yield root s = ScheduleLocked root s" using i(2) by (auto simp: Yield_def Let_def split: option.split)
    then show ?thesis using ScheduleLocked_keeps [OF i] by simp
  qed
qed

lemma Block_keeps:
  assumes wf: "sched_wf s" and cur: "current_thread s \<noteq> idle_thread s"
  shows "keeps_sched s (Block root ch s)"
proof (cases "current_thread s")
  case None
  then show ?thesis by (simp add: Block_def GetCurrentThread_def)
next
  case (Some c)
  obtain i where i: "idle_thread s = Some i" "off s i" using idle_of [OF wf] by blast
  have off: "off s c" using wf Some by (simp add: sched_wf_def)
  let ?f = "\<lambda>th. th\<lparr>m_state := Blocked, wait_channel := ch\<rparr>"
  let ?s2 = "(upd_thread c ?f s)\<lparr>g_wait_queue := g_wait_queue s @ [c]\<rparr>"
  have ne: "idle_thread s \<noteq> Some c" "i \<noteq> c" using Some cur i by auto
  note b = block_schedule [OF wf Some ne(1) refl, where ch = ch]
  have "keeps_sched s (ScheduleLocked root ?s2)"
    by (rule relink_keeps [where i = i and c = c and f = ?f, OF Some i(1) b(1) i(2) ne(2) b(2)]) (use off in simp_all)
  then show ?thesis using Some by (simp add: Block_def GetCurrentThread_def)
qed

lemma wake_thread_dead [simp]: "dead_list (wake_thread t s) = dead_list s" "dom (threads (wake_thread t s)) = dom (threads s)"
  by (auto simp: wake_thread_def Let_def split: if_splits)

lemma fold_wake_dead: "dead_list (fold wake_thread ts s) = dead_list s \<and> dom (threads (fold wake_thread ts s)) = dom (threads s)"
  by (induction ts arbitrary: s) simp_all

lemma Wake_keeps:
  assumes "sched_wf s"
  shows "keeps_sched s (Wake ch wake_all s)"
proof -
  have wf: "queues_wf s" using assms by (simp add: sched_wf_def)
  note w = Wake_effect [OF wf refl, where ch = ch and wa = wake_all]
  have "t \<notin> set (woken ch wake_all (g_wait_queue s) s)" if "off s t" for t
    using that woken_sub(1) [of ch wake_all "g_wait_queue s" s] by (auto simp: off_def)
  then show ?thesis
    using w fold_wake_dead [of _ s] by (auto simp: keeps_sched_def parked_def Wake_fold [OF wf])
qed

lemma Boost_level_dead: "dead_list (Boost_level i ts s) = dead_list s \<and> dom (threads (Boost_level i ts s)) = dom (threads s)"
  by (induction i ts s rule: Boost_level.induct) (auto simp: Let_def push_back_def upd_thread_def split: if_splits)

lemma Boost_dead: "dead_list (Mlfq_Boost s) = dead_list s \<and> dom (threads (Mlfq_Boost s)) = dom (threads s)"
proof -
  have "dead_list (fold (\<lambda>i s. Boost_level i (queues s ! i) s) ns s) = dead_list s \<and>
      dom (threads (fold (\<lambda>i s. Boost_level i (queues s ! i) s) ns s)) = dom (threads s)" for ns
    by (induction ns arbitrary: s) (simp_all add: Boost_level_dead)
  then show ?thesis by (simp add: Mlfq_Boost_def)
qed

lemma tick_start_keeps:
  assumes "sched_wf s"
  shows "keeps_sched s (tick_start s)"
proof -
  have wf: "queues_wf s" using assms by (simp add: sched_wf_def)
  note ts = tick_start_effect [OF wf]
  have d: "dead_list (tick_start s) = dead_list s \<and> dom (threads (tick_start s)) = dom (threads s)"
    by (simp add: tick_start_def Let_def BoostAll_def Boost_dead)
  have "threads (tick_start s) u = threads s u" if "off s u" for u
  proof -
    have "threads s u \<noteq> None" "threads (tick_start s) u \<noteq> None" using that ts(2) [of u] by (simp_all add: off_def)
    then show ?thesis using ts(3) [OF that] by (auto simp: thr_def)
  qed
  then show ?thesis using d ts by (simp add: keeps_sched_def parked_def)
qed

lemma Tick_keeps_parked:
  assumes wf: "sched_wf s"
  shows "keeps_sched s (Tick root s)"
proof (cases "\<exists>c. current_thread s = Some c \<and> idle_thread s \<noteq> Some c")
  case True
  then obtain c where c: "current_thread s = Some c" "idle_thread s \<noteq> Some c" by blast
  have wf': "sched_wf (tick_start s)" by (rule tick_start_wf [OF wf])
  obtain i where i: "queues_wf (tick_start s)" "idle_thread (tick_start s) = Some i" "off (tick_start s) i" using idle_of [OF wf'] by blast
  have c': "current_thread (tick_start s) = Some c" "i \<noteq> c" "off (tick_start s) c" "off s c" "queues_wf s"
    using c i(2) wf wf' tick_start_effect(4,5) [of s] by (auto simp: sched_wf_def)
  let ?f = "\<lambda>_. demote (charge (thr s c))" and ?l = "nat (m_mlfq_level (demote (thr s c)))"
  note lvl = demote_level [OF thr_level(3) [OF c'(5,4)]]
  have l: "?l < kNumLevels" using lvl by simp
  have "keeps_sched (tick_start s) (ScheduleLocked root (push_back ?l c (upd_thread c ?f (tick_start s))))"
  proof (rule relink_keeps [where i = i and c = c and f = ?f, OF c'(1) i(2)])
    show "queues_wf (push_back ?l c (upd_thread c ?f (tick_start s)))" using requeue_wf [OF i(1) c'(3), of ?f] lvl by simp
  qed (use i c' l in \<open>simp_all add: requeue_off\<close>)
  moreover have "keeps_sched (tick_start s) (upd_thread c (\<lambda>_. charge (thr s c)) (tick_start s))"
    by (rule keeps_upd) (simp add: parked_def c')
  ultimately show ?thesis
    unfolding Tick_running [OF wf c] using keeps_sched_trans [OF tick_start_keeps [OF wf]] by simp
next
  case False
  have wf': "sched_wf (tick_start s)" by (rule tick_start_wf [OF wf])
  obtain i where i: "queues_wf (tick_start s)" "idle_thread (tick_start s) = Some i" "off (tick_start s) i" using idle_of [OF wf'] by blast
  show ?thesis
    unfolding Tick_idle [OF wf False] using tick_start_keeps [OF wf] keeps_sched_trans [OF _ ScheduleLocked_keeps [OF i]] by simp
qed

lemmas sched_ops_wf = Yield_wf Block_wf Wake_wf Tick_wf_lost [THEN conjunct1]

lemma sched_ops_safe:
  assumes "sched_safe s"
  shows "sched_safe (Yield root s)" "sched_safe (Wake ch wake_all s)" "sched_safe (Tick root s)"
    "current_thread s \<noteq> idle_thread s \<Longrightarrow> sched_safe (Block root ch s)"
  using keeps_safe [OF assms] assms sched_ops_wf Yield_keeps Wake_keeps Tick_keeps_parked Block_keeps
  by (simp_all add: sched_safe_def)

section \<open>Threads that come and go\<close>

text \<open>The fields of a thread that signals use.\<close>

lemma upd_signals_safe:
  assumes "sched_safe s" and "\<And>th. m_state (f th) = m_state th" "\<And>th. m_mlfq_level (f th) = m_mlfq_level th"
    "\<And>th. m_ticks_remaining (f th) = m_ticks_remaining th"
  shows "sched_safe (upd_thread t f s)"
proof -
  have "queues_wf (upd_thread t f s)" using assms by (intro queues_wf_upd_same) (simp_all add: sched_safe_def sched_wf_def)
  then have "sched_wf (upd_thread t f s)" using assms(1) by (simp add: sched_safe_def sched_wf_def)
  then show ?thesis using assms(1,2) by (auto simp: sched_safe_def parked_def)
qed

text \<open>A thread that ends is terminated, put on the dead list and switched away from.\<close>

lemma end_safe:
  assumes safe: "sched_safe s" and c: "current_thread s = Some c" "idle_thread s \<noteq> Some c"
    and e: "Reaper_Enqueue c (upd_thread c (\<lambda>th. th\<lparr>m_state := Terminated\<rparr>) s) = Value s1"
  shows "sched_safe (Yield root s1)" and "dom (threads (Yield root s1)) = dom (threads s)"
proof -
  let ?s = "upd_thread c (\<lambda>th. th\<lparr>m_state := Terminated\<rparr>) s"
  have wf: "sched_wf s" and off: "off s c" using safe c by (simp_all add: sched_safe_def sched_wf_def)
  obtain i where i: "queues_wf s" "idle_thread s = Some i" "off s i" using idle_of [OF wf] by blast
  have ex: "threads s c \<noteq> None" using off by (simp add: off_def)
  have s1: "s1 = ?s\<lparr>dead_list := dead_list s @ [c]\<rparr>" using e by (simp add: Reaper_Enqueue_def split: if_splits)
  have "queues_wf ?s" using thr_level [OF i(1) off] by (intro queues_wf_upd_off i off) (simp add: thread_ok_def)
  then have q: "queues_wf s1" by (simp add: s1 queues_wf_def ready_def three_levels_def)
  have off1: "off s1 u = off s u" for u by (auto simp: s1 off_def ready_def)
  have i1: "idle_thread s1 = Some i" "off s1 i" using i off1 by (simp_all add: s1)
  obtain th where th: "threads s c = Some th" using ex by blast
  have y: "Yield root s1 = ScheduleLocked root s1" using c th by (simp add: Yield_def Let_def s1 thr_def)
  note k = ScheduleLocked_keeps [OF q i1, of root] and w = ScheduleLocked_wf [OF q i1, of root]
  have dead: "parked (ScheduleLocked root s1) t \<and> m_state (thr (ScheduleLocked root s1) t) = Terminated" if "t \<in> set (dead_list s1)" for t
  proof -
    have "off s1 t \<and> t \<noteq> i \<and> m_state (thr s1 t) = Terminated"
      using that safe off1 [of t] off th i(2) c(2) by (auto simp: s1 sched_safe_def parked_def thr_def)
    then show ?thesis using ScheduleLocked_leaves [OF q i1, of t root] by simp
  qed
  have "distinct (dead_list s1)" using safe c(1) by (auto simp: s1 sched_safe_def parked_def)
  then show "sched_safe (Yield root s1)" using w dead y by (simp add: sched_safe_def)
  show "dom (threads (Yield root s1)) = dom (threads s)" using k y by (auto simp: keeps_sched_def s1 split: if_splits)
qed

text \<open>A new thread object, and a thread put on the queue for the first time.\<close>

lemma linked_exists: "queues_wf s \<Longrightarrow> t \<in> set (ready s) \<or> t \<in> set (g_wait_queue s) \<Longrightarrow> threads s t \<noteq> None"
proof -
  assume q: "queues_wf s" and t: "t \<in> set (ready s) \<or> t \<in> set (g_wait_queue s)"
  have "t \<in> set (ready s) \<Longrightarrow> \<exists>i < kNumLevels. t \<in> set (queues s ! i)" using ready_iff [OF queues_wf_three [OF q]] by simp
  then show ?thesis using q t unfolding queues_wf_def by fastforce
qed

lemma new_object_safe:
  assumes safe: "sched_safe s" and new: "threads s t = None" and ok: "thread_ok th"
  shows "sched_safe (s\<lparr>threads := (threads s)(t \<mapsto> th)\<rparr>)" and "parked (s\<lparr>threads := (threads s)(t \<mapsto> th)\<rparr>) t"
    and "t \<notin> set (dead_list s)"
proof -
  let ?s = "s\<lparr>threads := (threads s)(t \<mapsto> th)\<rparr>"
  have wf: "sched_wf s" "queues_wf s" using safe by (simp_all add: sched_safe_def sched_wf_def)
  have out: "t \<notin> set (ready s)" "t \<notin> set (g_wait_queue s)" using linked_exists [OF wf(2), of t] new by auto
  have r: "ready ?s = ready s" "three_levels ?s = three_levels s" by (simp_all add: ready_def three_levels_def)
  have off: "off ?s u \<longleftrightarrow> off s u \<or> u = t" for u using out by (auto simp: off_def r)
  have "t \<notin> set (queues s ! i)" if "i < kNumLevels" for i using that out(1) ready_iff [of s t] wf(2) by (auto simp: queues_wf_def)
  then have "queues_wf ?s" using wf(2) out ok unfolding queues_wf_def r by auto
  then have "sched_wf ?s" using wf(1) off by (auto simp: sched_wf_def)
  moreover have old: "u \<noteq> t" if "off s u" for u using that new by (auto simp: off_def)
  ultimately show "sched_safe ?s" using safe off by (auto simp: sched_safe_def parked_def thr_def)
  have "idle_thread s \<noteq> Some t" "current_thread s \<noteq> Some t" using wf(1) old [of t] by (auto simp: sched_wf_def)
  then show "parked ?s t" using off by (simp add: parked_def)
  show "t \<notin> set (dead_list s)" using safe old by (auto simp: sched_safe_def parked_def)
qed

lemma first_AddThread:
  assumes "sched_safe s" and "parked s t" and "t \<notin> set (dead_list s)" and l: "0 \<le> level" "level < int kNumLevels"
  shows "\<exists>s'. AddThread t level s = Value s' \<and> sched_safe s' \<and> dom (threads s') = dom (threads s)"
proof -
  let ?f = "\<lambda>th. th\<lparr>m_mlfq_level := level, m_ticks_remaining := kQuantum ! nat level, m_state := Ready\<rparr>"
  let ?s = "push_back (nat level) t (upd_thread t ?f s)"
  have wf: "queues_wf s" and t: "off s t" using assms(1,2) by (simp_all add: sched_safe_def sched_wf_def parked_def)
  have q: "queues_wf ?s" using requeue_wf [OF wf t, of ?f] l by simp
  have off: "off ?s u \<longleftrightarrow> off s u \<and> u \<noteq> t" for u by (rule requeue_off [OF wf]) (use l in simp)
  have "AddThread t level s = Value ?s" using l by (simp add: AddThread_def)
  moreover have "sched_safe ?s"
    using assms(1-3) q off by (auto simp: sched_safe_def sched_wf_def parked_def)
  moreover have "dom (threads ?s) = dom (threads s)" by (auto split: if_splits)
  ultimately show ?thesis by blast
qed

text \<open>One pass of the reaper deletes the dead threads.\<close>

lemma Reaper_pass_safe:
  assumes "sched_safe s"
  shows "sched_safe (Reaper_pass root s)" and "dom (threads (Reaper_pass root s)) = dom (threads s) - set (dead_list s)"
proof -
  let ?s = "delete_threads (dead_list s) (s\<lparr>dead_list := []\<rparr>)"
  have "sched_wf s" using assms by (simp add: sched_safe_def)
  note d = delete_dead_wf [OF this sched_safe_dead [OF assms] refl]
  have "sched_safe ?s" using d(1,2) by (simp add: sched_safe_def)
  then show "sched_safe (Reaper_pass root s)" by (simp add: Reaper_pass_def Let_def sched_ops_safe(1))
  have "dom (threads (Yield root ?s)) = dom (threads ?s)" by (simp add: dom_def dom_Yield)
  also have "threads ?s = (\<lambda>t. if t \<in> set (dead_list s) then None else threads s t)" using d(3,4) by auto
  also have "dom \<dots> = dom (threads s) - set (dead_list s)" by (auto split: if_splits)
  finally show "dom (threads (Reaper_pass root s)) = dom (threads s) - set (dead_list s)" by (simp add: Reaper_pass_def Let_def)
qed

section \<open>The start of the scheduler\<close>

text \<open>The statics before \<open>Start\<close>: no thread, empty queues.\<close>

definition sched_zero :: sched where
  "sched_zero = \<lparr>threads = Map.empty, s_next_tid = 1, queues = [[], [], []], g_wait_queue = [], s_tick_counter = 0,
     current_thread = None, idle_thread = None, kernel_stack = 0, tss_rsp0 = 0, cr3 = 0, cpu_rsp = 0, reaper_thread = None,
     dead_list = []\<rparr>"

lemma Thread_new_ok: "Thread_new p n stack = Value (th, n') \<Longrightarrow> thread_ok th"
  by (auto simp: Thread_new_def thread_ok_def kNumLevels_def kQuantum_def split: option.splits)

text \<open>The stack images change the saved registers only, and \<open>Reaper::Initialize\<close> adds the second thread.\<close>

lemma Reaper_Initialize_safe:
  assumes "sched_safe s" and "threads s t = None" and "thread_ok th"
  shows "\<exists>s'. Reaper_Initialize t th s = Value s' \<and> sched_safe s' \<and> reaper_thread s' = Some t \<and> dom (threads s') = insert t (dom (threads s))"
proof -
  let ?s = "s\<lparr>reaper_thread := Some t\<rparr>"
  have r: "ready ?s = ready s" "three_levels ?s = three_levels s" by (simp_all add: ready_def three_levels_def)
  have "sched_safe ?s"
    using assms(1) by (simp add: sched_safe_def sched_wf_def queues_wf_def parked_def off_def thr_def r)
  note n = new_object_safe [OF this _ assms(3), of t]
  let ?s2 = "?s\<lparr>threads := (threads ?s)(t \<mapsto> th)\<rparr>"
  have "sched_safe ?s2" "parked ?s2 t" "t \<notin> set (dead_list ?s2)" using n assms(2) by simp_all
  from first_AddThread [OF this, of "int kNumLevels - 1"] obtain s' where
    "AddThread t (int kNumLevels - 1) ?s2 = Value s'" "sched_safe s'" "dom (threads s') = dom (threads ?s2)"
    by (auto simp: kNumLevels_def)
  moreover have "?s2 = s\<lparr>threads := (threads s)(t \<mapsto> th), reaper_thread := Some t\<rparr>" by simp
  then have "Reaper_Initialize t th s = AddThread t (int kNumLevels - 1) ?s2" unfolding Reaper_Initialize_def by (simp only:)
  moreover have "reaper_thread s'' = reaper_thread ?s2" if "AddThread t (int kNumLevels - 1) ?s2 = Value s''" for s''
    using that by (auto simp: AddThread_def split: if_splits)
  moreover have "dom (threads ?s2) = insert t (dom (threads s))" by auto
  ultimately show ?thesis by (intro exI [of _ s']) simp
qed

end
