(* ===== verification/Osl.thy ===== *)
theory Osl
  imports Scheduler LinearFb
begin

text \<open>
  The callbacks that the FoundationKit library expects from its host (\<open>lib/osl_stub.cpp\<close>): the log, the identity of the running
  thread, sleeping and waking, the interrupt flag and a busy wait. The four memory functions of the file forward to FoundationKit.
\<close>

section \<open>Log, threads and processor flags\<close>

definition OslLog :: "u8 list \<Rightarrow> (console \<times> mem) \<times> u8 list \<Rightarrow> (console \<times> mem) \<times> u8 list" where
  "OslLog msg = (\<lambda>(cm, out). (linearfb_console_puts msg cm, debugcon_puts msg out))"

definition OslGetCurrentThreadId :: "sched \<Rightarrow> u64" where
  "OslGetCurrentThreadId s = (case GetCurrentThread s of None \<Rightarrow> 0 | Some t \<Rightarrow> m_tid (thr s t))"

definition OslThreadYield :: "(addr option \<Rightarrow> u64) \<Rightarrow> sched \<Rightarrow> sched" where
  "OslThreadYield root_of s = Yield root_of s"

definition OslThreadSleep :: "(addr option \<Rightarrow> u64) \<Rightarrow> addr \<Rightarrow> sched \<Rightarrow> sched" where
  "OslThreadSleep root_of channel s = Block root_of channel s"

definition OslThreadWake :: "addr \<Rightarrow> sched \<Rightarrow> sched" where
  "OslThreadWake channel s = Wake channel False s"

definition OslThreadWakeAll :: "addr \<Rightarrow> sched \<Rightarrow> sched" where
  "OslThreadWakeAll channel s = Wake channel True s"

text \<open>The flags register: \<open>cli\<close> clears the interrupt flag, and \<open>popfq\<close> in the kernel loads what was pushed.\<close>

definition OslInterruptDisable :: "u64 \<Rightarrow> u64 \<times> u64" where
  "OslInterruptDisable flags = (flags, flags AND NOT 0x200)"

definition OslInterruptRestore :: "u64 \<Rightarrow> u64 \<Rightarrow> u64" where
  "OslInterruptRestore state flags = state"

definition OslIsInterruptEnabled :: "u64 \<Rightarrow> bool" where
  "OslIsInterruptEnabled flags \<longleftrightarrow> flags AND push_bit 9 1 \<noteq> 0"

definition OslIsSimdEnabled :: "u64 \<Rightarrow> bool" where
  "OslIsSimdEnabled cr4 \<longleftrightarrow> cr4 AND push_bit 9 1 \<noteq> 0 \<and> cr4 AND push_bit 10 1 \<noteq> 0"

lemma interrupt_nesting:
  assumes "OslInterruptDisable flags = (state, flags')"
  shows "\<not> OslIsInterruptEnabled flags'" and "OslInterruptRestore state flags'' = flags"
proof -
  have "push_bit 9 1 = (0x200 :: u64)" by simp
  then have "flags' = flags AND NOT (push_bit 9 1)" "state = flags" using assms by (auto simp only: OslInterruptDisable_def prod.inject)
  moreover have "(flags AND NOT (push_bit 9 1)) AND push_bit 9 1 = (0 :: u64)" by (rule bit_eqI) (simp add: bit_simps)
  ultimately show "\<not> OslIsInterruptEnabled flags'" "OslInterruptRestore state flags'' = flags"
    by (simp_all only: OslIsInterruptEnabled_def OslInterruptRestore_def not_not simp_thms)
qed

section \<open>The busy wait\<close>

text \<open>
  The readings of the time stamp counter are a parameter; the result is the number of the reading that ends the loop, \<open>None\<close>
  when none does. The product is computed in 64 bits.
\<close>

definition delay_delta :: "u64 \<Rightarrow> u64 \<Rightarrow> u64" where
  "delay_delta microseconds freq = (microseconds * freq) div 1000000"

partial_function (option) delay_loop :: "(nat \<Rightarrow> u64) \<Rightarrow> u64 \<Rightarrow> u64 \<Rightarrow> nat \<Rightarrow> nat option" where
  "delay_loop tsc start delta i = (if tsc i - start < delta then delay_loop tsc start delta (Suc i) else Some i)"

definition OslMicroDelay :: "(nat \<Rightarrow> u64) \<Rightarrow> u64 \<Rightarrow> u64 \<Rightarrow> nat option" where
  "OslMicroDelay tsc freq microseconds = delay_loop tsc (tsc 0) (delay_delta microseconds freq) 1"

lemma delay_loop_least:
  assumes "i \<le> n" and "\<not> tsc n - start < delta"
  shows "\<exists>j. delay_loop tsc start delta i = Some j \<and> i \<le> j \<and> \<not> tsc j - start < delta \<and> (\<forall>l. i \<le> l \<longrightarrow> l < j \<longrightarrow> tsc l - start < delta)"
  using assms(1)
proof (induction "n - i" arbitrary: i)
  case 0
  then have "i = n" by simp
  then show ?case using assms(2) by (subst delay_loop.simps) auto
next
  case (Suc m)
  show ?case
  proof (cases "tsc i - start < delta")
    case True
    have "m = n - Suc i" "Suc i \<le> n" using Suc(2) by simp_all
    from Suc(1) [OF this] obtain j where
      j: "delay_loop tsc start delta (Suc i) = Some j" "Suc i \<le> j" "\<not> tsc j - start < delta" "\<forall>l. Suc i \<le> l \<longrightarrow> l < j \<longrightarrow> tsc l - start < delta"
      by blast
    have "tsc l - start < delta" if "i \<le> l" "l < j" for l using that True j(4) by (cases "l = i") auto
    then show ?thesis using True j by (subst delay_loop.simps) auto
  qed (subst delay_loop.simps, auto)
qed

text \<open>The wait ends at the first reading that is far enough, also when the counter wraps, if the delay is below \<open>2^64\<close> ticks.\<close>

theorem OslMicroDelay_waits:
  assumes "unat microseconds * unat freq < 2 ^ 64" and "1 \<le> n" and "unat microseconds * unat freq div 1000000 \<le> unat (tsc n - tsc 0)"
  shows "\<exists>j. OslMicroDelay tsc freq microseconds = Some j \<and> 1 \<le> j \<and> unat microseconds * unat freq div 1000000 \<le> unat (tsc j - tsc 0) \<and>
     (\<forall>l. 1 \<le> l \<longrightarrow> l < j \<longrightarrow> unat (tsc l - tsc 0) < unat microseconds * unat freq div 1000000)"
proof -
  have u: "unat (delay_delta microseconds freq) = unat microseconds * unat freq div 1000000"
    using assms(1) by (simp add: delay_delta_def unat_div unat_word_ariths)
  have "\<not> tsc n - tsc 0 < delay_delta microseconds freq" using assms(3) by (simp add: word_less_nat_alt u)
  from delay_loop_least [where tsc = tsc and start = "tsc 0" and n = n, OF assms(2) this] show ?thesis
    unfolding OslMicroDelay_def word_less_nat_alt u by (auto simp: not_less)
qed

end
