(* ===== verification/KernelSafety.thy ===== *)
theory KernelSafety
  imports Entry SchedSafety Osl
begin

text \<open>
  The scheduler's invariant in the whole kernel. \<open>quiet\<close> is what every operation outside the scheduler guarantees: it leaves the
  scheduler alone, except for the page table register and the counter of thread ids, and it frees no thread object. \<open>kernel_step\<close> lists
  what can happen to the kernel state: a system call, an interrupt, the delivery of a signal, the parts of calls that run after a
  sleep, the callbacks of FoundationKit, and the reaper.
\<close>

section \<open>Operations outside the scheduler\<close>

definition same_sched :: "sched \<Rightarrow> sched \<Rightarrow> bool" where
  "same_sched s s' \<longleftrightarrow> s'\<lparr>cr3 := 0, s_next_tid := 0\<rparr> = s\<lparr>cr3 := 0, s_next_tid := 0\<rparr>"

definition quiet :: "('k \<Rightarrow> addr set) \<Rightarrow> ('v, 'r, 'k, 'a) kernel \<Rightarrow> ('v, 'r, 'k, 'a) kernel \<Rightarrow> bool" where
  "quiet live k k' \<longleftrightarrow> same_sched (sch k) (sch k') \<and> live (kmm_of k) \<subseteq> live (kmm_of k')"

lemma same_sched_simps [simp]:
  "same_sched s s" "same_sched s (s'\<lparr>cr3 := c\<rparr>) = same_sched s s'" "same_sched s (s'\<lparr>s_next_tid := n\<rparr>) = same_sched s s'"
  by (simp_all add: same_sched_def)

lemma same_sched_trans: "same_sched s s1 \<Longrightarrow> same_sched s1 s2 \<Longrightarrow> same_sched s s2"
  by (simp add: same_sched_def)

lemma same_sched_fields:
  assumes "same_sched s s'"
  shows "threads s' = threads s" "queues s' = queues s" "g_wait_queue s' = g_wait_queue s" "current_thread s' = current_thread s"
    "idle_thread s' = idle_thread s" "dead_list s' = dead_list s" "reaper_thread s' = reaper_thread s"
  using assms [unfolded same_sched_def] by (cases s; cases s'; simp)+

lemma same_sched_safe:
  assumes "same_sched s s'"
  shows "sched_safe s' = sched_safe s"
proof -
  note f = same_sched_fields [OF assms]
  have r: "ready s' = ready s" "three_levels s' = three_levels s" by (simp_all add: ready_def three_levels_def f)
  show ?thesis by (simp add: sched_safe_def sched_wf_def queues_wf_def parked_def off_def thr_def r f)
qed

lemma quiet_refl [simp]: "quiet live k k"
  by (simp add: quiet_def)

lemma quiet_trans [trans]: "quiet live k k1 \<Longrightarrow> quiet live k1 k2 \<Longrightarrow> quiet live k k2"
  unfolding quiet_def using same_sched_trans by blast

lemma quiet_simps [simp]:
  "quiet live k (set_mem m k') = quiet live k k'" "quiet live k (upd_proc p f k') = quiet live k k'"
  "quiet live k (k'\<lparr>procs := x\<rparr>) = quiet live k k'" "quiet live k (k'\<lparr>spaces := y\<rparr>) = quiet live k k'"
  "quiet live k (k'\<lparr>views := z\<rparr>) = quiet live k k'" "quiet live k (k'\<lparr>boot_init := b\<rparr>) = quiet live k k'"
  "quiet live k (k'\<lparr>msrs := w\<rparr>) = quiet live k k'" "quiet live k (WriteMsr r v k') = quiet live k k'"
  by (simp_all add: quiet_def kmm_of_def WriteMsr_def set_mem_def upd_proc_def)

lemma quiet_show_view [simp]: "quiet live k (show_view a b k') = quiet live k k'"
  by (simp add: show_view_def Let_def)

lemma quiet_WriteCr3 [simp]: "quiet live k (WriteCr3 c k') = quiet live k k'"
  by (simp add: WriteCr3_def) (simp add: quiet_def kmm_of_def)

lemma quiet_set_kmm: "quiet live k k' \<Longrightarrow> live (kmm_of k') \<subseteq> live l \<Longrightarrow> quiet live k (set_kmm l k')"
  unfolding quiet_def by auto

lemma quiet_io: "tame live (io k) s \<or> live (kmm (fs (io k))) \<subseteq> live (kmm (fs s)) \<Longrightarrow> quiet live k (k\<lparr>io := s\<rparr>)"
  by (auto simp: quiet_def kmm_of_def tame_def)

lemma quiet_same_refs: "same_refs live (io k) s \<Longrightarrow> quiet live k (k\<lparr>io := s\<rparr>)"
  by (simp add: quiet_def kmm_of_def same_refs_def)

lemma quiet_on_io: "live (kmm (fs (io k))) \<subseteq> live (kmm (fs (f (io k)))) \<Longrightarrow> quiet live k (on_io f k)"
  by (simp add: quiet_def kmm_of_def on_io_def)

section \<open>What is assumed of the platform\<close>

text \<open>None of the services outside the sources frees storage of the live objects that \<open>live\<close> names. (What \<open>live\<close> names is a choice:
  it has to hold at least the thread objects.)\<close>

definition space_law :: "('k \<Rightarrow> addr set) \<Rightarrow> ('a \<times> mem \<times> 'k \<Rightarrow> 'b \<times> 'a \<times> mem \<times> 'k) \<Rightarrow> bool" where
  "space_law live f \<longleftrightarrow> (\<forall>a m l b a' m' l'. f (a, m, l) = (b, a', m', l') \<longrightarrow> live l \<subseteq> live l')"

definition plat_laws :: "('v, 'r, 'k, 'a) plat \<Rightarrow> ('k \<Rightarrow> addr set) \<Rightarrow> bool" where
  "plat_laws P live \<longleftrightarrow> alloc_laws (lib P) live \<and>
     (\<forall>l. live l \<subseteq> live (snd (pid_FindFirstUnsetAndSet P l))) \<and> (\<forall>b l. live l \<subseteq> live (pid_Set P b l)) \<and>
     (\<forall>b l. live l \<subseteq> live (pid_Reset P b l)) \<and> (\<forall>p l. live l \<subseteq> live (FreePages P p l)) \<and>
     (\<forall>a n pr fl. space_law live (as_MapAnonymous P a n pr fl)) \<and> (\<forall>a n. space_law live (as_Unmap P a n)) \<and>
     (\<forall>a n pr. space_law live (as_Protect P a n pr)) \<and> (\<forall>a. space_law live (as_WriteFault P a)) \<and>
     (\<forall>a b m l. case as_Fork P a b m l of (_, _, _, _, l') \<Rightarrow> live l \<subseteq> live l') \<and>
     (\<forall>l. live l \<subseteq> live (snd (AllocateKernel P l))) \<and> (\<forall>l. live l \<subseteq> live (snd (NowNanoseconds P l))) \<and>
     (\<forall>l. live l \<subseteq> live (snd (NowWallClock P l)))"

definition trap_laws :: "('k, 'a) traps \<Rightarrow> ('k \<Rightarrow> addr set) \<Rightarrow> bool" where
  "trap_laws H live \<longleftrightarrow> (\<forall>a e. space_law live (as_HandleFault H a e)) \<and>
     (\<forall>a e m l. case kmm_HandlePageFault H a e (m, l) of (_, _, l') \<Rightarrow> live l \<subseteq> live l') \<and>
     (\<forall>l. live l \<subseteq> live (TimeKeeper_Advance H l))"

lemma plat_lawsD:
  assumes "plat_laws P live"
  shows "alloc_laws (lib P) live"
    "pid_FindFirstUnsetAndSet P l = (b, l') \<Longrightarrow> live l \<subseteq> live l'" "live l \<subseteq> live (pid_Set P w l)" "live l \<subseteq> live (pid_Reset P w l)"
    "live l \<subseteq> live (FreePages P w l)" "space_law live (as_MapAnonymous P a n pr fl)" "space_law live (as_Unmap P a n)"
    "space_law live (as_Protect P a n pr)" "space_law live (as_WriteFault P a)"
    "as_Fork P x y m l = (ok, x', y', m', l') \<Longrightarrow> live l \<subseteq> live l'" "AllocateKernel P l = (q, l') \<Longrightarrow> live l \<subseteq> live l'"
    "NowNanoseconds P l = (ns, l') \<Longrightarrow> live l \<subseteq> live l'" "NowWallClock P l = (ns, l') \<Longrightarrow> live l \<subseteq> live l'"
proof -
  note L = assms [unfolded plat_laws_def]
  show "alloc_laws (lib P) live" "live l \<subseteq> live (pid_Set P w l)" "live l \<subseteq> live (pid_Reset P w l)"
    "live l \<subseteq> live (FreePages P w l)" "space_law live (as_MapAnonymous P a n pr fl)" "space_law live (as_Unmap P a n)"
    "space_law live (as_Protect P a n pr)" "space_law live (as_WriteFault P a)"
    using L by simp_all
  have M: "live l \<subseteq> live (snd (pid_FindFirstUnsetAndSet P l))" "live l \<subseteq> live (snd (AllocateKernel P l))"
    "live l \<subseteq> live (snd (NowNanoseconds P l))" "live l \<subseteq> live (snd (NowWallClock P l))"
    "case as_Fork P x y m l of (_, _, _, _, l') \<Rightarrow> live l \<subseteq> live l'"
    using L by simp_all
  show "pid_FindFirstUnsetAndSet P l = (b, l') \<Longrightarrow> live l \<subseteq> live l'" "AllocateKernel P l = (q, l') \<Longrightarrow> live l \<subseteq> live l'"
    "NowNanoseconds P l = (ns, l') \<Longrightarrow> live l \<subseteq> live l'" "NowWallClock P l = (ns, l') \<Longrightarrow> live l \<subseteq> live l'"
    "as_Fork P x y m l = (ok, x', y', m', l') \<Longrightarrow> live l \<subseteq> live l'"
    using M by simp_all
qed

lemma space_lawsD:
  "trap_laws H live \<Longrightarrow> space_law live (as_HandleFault H a e)" "trap_laws H live \<Longrightarrow> live l \<subseteq> live (TimeKeeper_Advance H l)"
  "trap_laws H live \<Longrightarrow> kmm_HandlePageFault H a e (m, l) = (b, m', l') \<Longrightarrow> live l \<subseteq> live l'"
  unfolding trap_laws_def by (simp, simp) (metis (no_types, lifting) case_prod_conv)

section \<open>Address spaces and processes\<close>

lemma quiet_on_space: "on_space u f k = (b, k') \<Longrightarrow> space_law live f \<Longrightarrow> quiet live k k'"
  by (force simp: on_space_def space_law_def intro!: quiet_set_kmm split: option.splits prod.splits)

lemma quiet_on_proc_space: "on_proc_space p f k = (b, k') \<Longrightarrow> space_law live f \<Longrightarrow> quiet live k k'"
  by (auto simp: on_proc_space_def quiet_on_space split: option.splits)


lemma quiet_Create:
  assumes P: "plat_laws P live" and run: "UserAddressSpace_Create P k = (r, k')"
  shows "quiet live k k'"
proof -
  note A = plat_lawsD(1) [OF P]
  obtain q l where a: "AllocatePage (lib P) (kmm_of k) = (q, l)" by fastforce
  obtain q2 l2 where n: "new_space_objects (lib P) l = (q2, l2)" by fastforce
  obtain x1 m1 where 1: "op_new (lib P) l = (x1, m1)" by fastforce
  obtain x2 m2 where 2: "op_new (lib P) m1 = (x2, m2)" by fastforce
  obtain x3 m3 where 3: "op_new (lib P) m2 = (x3, m3)" by fastforce
  have "live l \<subseteq> live l2"
    using n 1 2 3 alloc_lawsD(2) [OF A 1] alloc_lawsD(2) [OF A 2] alloc_lawsD(2) [OF A 3]
    by (cases x1; cases x2) (auto simp: new_space_objects_def)
  moreover have "live (kmm_of k) \<subseteq> live l" by (rule alloc_lawsD(5) [OF A a])
  ultimately show ?thesis using run a n by (cases q; cases q2) (auto simp: UserAddressSpace_Create_def Let_def intro!: quiet_set_kmm del: subsetI)
qed

lemma quiet_Destroy: "plat_laws P live \<Longrightarrow> quiet live k (UserAddressSpace_Destroy P u k)"
proof -
  assume P: "plat_laws P live"
  have "quiet live k (snd (on_space u (as_Unmap P a n) k))" for a n
    by (rule quiet_on_space [OF prod.collapse [symmetric] plat_lawsD(7) [OF P]])
  then show ?thesis using plat_lawsD(5) [OF P] by (simp add: UserAddressSpace_Destroy_def Let_def quiet_set_kmm split: option.split)
qed

lemma quiet_UFork:
  assumes P: "plat_laws P live" and run: "UserAddressSpace_Fork P u k = (r, k')"
  shows "quiet live k k'"
proof -
  obtain r1 k1 where c: "UserAddressSpace_Create P k = (r1, k1)" by fastforce
  have b: "quiet live k k1" by (rule quiet_Create [OF P c])
  have "quiet live k1 k'" if "r1 = Value x" for x
    using run c that plat_lawsD(10) [OF P]
    by (auto simp: UserAddressSpace_Fork_def Let_def split: prod.splits option.splits if_splits
        intro!: quiet_trans [OF _ quiet_Destroy [OF P]] quiet_set_kmm del: subsetI)
  then show ?thesis using run c b quiet_trans by (cases r1) (auto simp: UserAddressSpace_Fork_def)
qed

lemma quiet_PidAlloc: "plat_laws P live \<Longrightarrow> PidAlloc P k = (r, k') \<Longrightarrow> quiet live k k'"
  by (auto simp: PidAlloc_def split: prod.splits intro!: quiet_set_kmm dest: plat_lawsD(2))

lemma quiet_PidFree: "plat_laws P live \<Longrightarrow> quiet live k (PidFree P pid k)"
  by (simp add: PidFree_def quiet_set_kmm plat_lawsD(4))

lemma tame_fold: "(\<And>x s. tame live s (f x s)) \<Longrightarrow> tame live s (fold f xs s)"
  by (induction xs arbitrary: s) (simp, metis fold_simps(2) tame_trans)

lemma tame_close_all:
  fixes s :: "('v, 'r, 'k) filesys"
  shows "close_all T s = (T', s') \<Longrightarrow> tame live s s'"
proof -
  have "tame live s (snd (fold (\<lambda>fd (T, s). reset_slot fd T s) ns (T, s)))"
    for ns T and s :: "('v, 'r, 'k) filesys"
  proof (induction ns arbitrary: T s)
    case (Cons n ns)
    obtain T1 s1 where r: "reset_slot n T s = (T1, s1)" by fastforce
    show ?case using Cons [where T = T1 and s = s1] tame_trans [OF tame_reset_slot [OF r]] r by simp
  qed simp
  then show "close_all T s = (T', s') \<Longrightarrow> tame live s s'" by (auto simp: close_all_def apfst_def map_prod_def split: prod.splits) (metis snd_conv)
qed

lemma quiet_close_fds: "quiet live k (close_fds p k)"
  by (auto simp: close_fds_def quiet_io tame_close_all split: option.split prod.split)

lemma quiet_delete: "quiet live k (delete_process p k)"
  by (simp add: delete_process_def Let_def quiet_close_fds)

lemma quiet_Reap: "plat_laws P live \<Longrightarrow> quiet live k (Process_Reap P p k)"
  by (auto simp: Process_Reap_def Let_def split: option.split
      intro!: quiet_trans [OF _ quiet_delete] quiet_trans [OF _ quiet_Destroy] quiet_PidFree)

lemma quiet_RemoveChild: "RemoveChild p c k = Value k' \<Longrightarrow> quiet live k k'"
  by (auto simp: RemoveChild_def split: option.splits if_splits)

section \<open>Loading programs\<close>

lemma quiet_read_file:
  assumes run: "read_file P v b n pos k = (r, k')"
  shows "quiet live k k'"
proof -
  obtain q t where v: "vnode_Read (lib P) v b n pos (fs (io k)) = (q, t)" by fastforce
  have "k' = k\<lparr>io := set_fs t (io k)\<rparr>" using run v by (simp add: read_file_def)
  then show ?thesis using kmm_vnode_Read [OF v] by (simp add: quiet_def kmm_of_def set_fs_def)
qed

lemma quiet_fault_pages: "plat_laws P live \<Longrightarrow> fault_pages P u va n k = (b, k') \<Longrightarrow> quiet live k k'"
proof (induction n arbitrary: va k)
  case (Suc n)
  obtain o1 k1 where 1: "on_space u (as_WriteFault P va) k = (o1, k1)" by fastforce
  note k1 = quiet_on_space [OF 1 plat_lawsD(9) [OF Suc.prems(1)]]
  show ?case
    using Suc.prems 1 k1 Suc.IH [of "va + 0x1000" k1] quiet_trans [OF k1]
    by (auto split: option.splits bool.splits)
qed simp

lemma quiet_segment:
  assumes P: "plat_laws P live" and run: "load_segment P u v bias ph k = (r, k')"
  shows "quiet live k k'"
  using run
  by (auto simp: load_segment_def Let_def split: prod.splits option.splits bool.splits expected.splits if_splits
      dest!: quiet_on_space [where live = live, OF _ plat_lawsD(6) [OF P]] quiet_fault_pages [OF P] quiet_read_file [where live = live] intro: quiet_trans)

lemma quiet_segments: "plat_laws P live \<Longrightarrow> load_segments P u v bias buf hdr n i mx k = (r, k') \<Longrightarrow> quiet live k k'"
proof (induction n arbitrary: i mx k)
  case (Suc n)
  obtain r1 k1 where 1: "read_file P v buf 56 (e_phoff hdr + scast (ucast i * ucast (e_phentsize hdr) :: u32)) k = (r1, k1)"
    by fastforce
  note kr = quiet_read_file [OF 1, of live]
  obtain r2 k2 where 2: "load_segment P u v bias (get_phdr (kmem_of k1) buf) k1 = (r2, k2)" by fastforce
  note k2 = quiet_trans [OF kr quiet_segment [OF Suc.prems(1) 2]]
  show ?case
    using Suc.prems 1 2 kr k2 quiet_trans [OF kr] quiet_trans [OF k2]
    by (cases r1; cases r2) (auto simp: Let_def split: if_splits dest!: Suc.IH [rotated])
qed auto

lemma quiet_body:
  assumes P: "plat_laws P live" and run: "load_body P u v bias buf hdr k = (r, k')"
  shows "quiet live k k'"
proof -
  obtain r1 k1 where 1: "load_segments P u v bias buf hdr (unat (e_phnum hdr)) 0 0 k = (r1, k1)" by fastforce
  note f = quiet_segments [OF P 1]
  obtain o2 k2 where 2: "on_space u (as_MapAnonymous P (user_top P - kStackBytes - 0x1000) kStackBytes UserReadWrite
      {FlagPrivate, FlagAnonymous}) k1 = (o2, k2)" by fastforce
  note k2 = quiet_trans [OF f quiet_on_space [OF 2 plat_lawsD(6) [OF P]]]
  have k3: "quiet live k (snd (on_space u (as_WriteFault P w) k2))" for w
    by (rule quiet_trans [OF k2 quiet_on_space [OF prod.collapse [symmetric] plat_lawsD(9) [OF P]]])
  show ?thesis
    using run 1 2 f k2 k3 by (auto simp: load_body_def Let_def split: expected.splits option.splits)
qed

lemma quiet_Load:
  assumes P: "plat_laws P live" and run: "Load P buf p v bias k = (r, k')"
  shows "quiet live k k'"
proof -
  obtain r1 k1 where rd: "read_file P v buf 64 0 k = (r1, k1)" by fastforce
  note k1 = quiet_read_file [OF rd, of live]
  have b: "quiet live k k2" if "load_body P u v bias' buf hdr (WriteCr3 c k1) = (q, k2)" for u bias' hdr c q k2
    using quiet_trans [OF _ quiet_body [OF P that], of k] k1 by simp
  show ?thesis
    using run rd k1 b
    by (auto simp: Load_def Let_def split: option.splits expected.splits if_splits prod.splits)
qed


section \<open>The calls on files\<close>

lemma quiet_with_fd:
  assumes "with_fd p fd body k = (r, k')" and "\<And>d k1 r1 k2. body d k1 = (r1, k2) \<Longrightarrow> quiet live k1 k2"
  shows "quiet live k k'"
proof -
  have ref: "quiet live k1 (on_io (fd_addref d) k1)" "quiet live k1 (on_io (fd_release d) k1)" for d k1
    using tame_addref [of live "io k1" d] tame_release [of live "io k1" d] by (simp_all add: on_io_def quiet_io)
  have "quiet live k k2" "quiet live k (on_io (fd_release d) k2)" if "body d (on_io (fd_addref d) k) = (q, k2)" for d q k2
    using quiet_trans [OF ref(1) assms(2) [OF that]] quiet_trans [OF _ ref(2)] by blast+
  then show ?thesis
    using assms(1) by (auto simp: with_fd_def split: option.splits prod.splits sysret.splits)
qed

lemma quiet_on_table:
  assumes "on_table p f k = (r, k')" and "\<And>T s q T' s'. f T s = (q, T', s') \<Longrightarrow> tame live s s'"
  shows "quiet live k k'"
  using assms by (auto simp: on_table_def split: option.splits prod.splits intro!: quiet_io)

lemma quiet_apfst_table:
  assumes "apfst g (on_table p f k) = (r, k')" and "\<And>T s q T' s'. f T s = (q, T', s') \<Longrightarrow> tame live s s'"
  shows "quiet live k k'"
proof -
  obtain q where "on_table p f k = (q, k')" using assms(1) by (cases "on_table p f k") auto
  then show ?thesis by (rule quiet_on_table [OF _ assms(2)])
qed

lemma tame_dupfd: "alloc_laws K live \<Longrightarrow> dupfd_loop K d fd T s = (r, T', s') \<Longrightarrow> tame live s s'"
proof (induction K d fd T s rule: dupfd_loop.induct)
  case (1 K d fd T s)
  obtain r1 T1 s1 where a: "AllocateFdAt K fd (Some d) T s = (r1, T1, s1)" by (metis prod_cases3)
  note t = tame_AllocateFdAt [OF "1.prems"(1) a]
  show ?case
  proof (cases "unat fd < kMaxFds \<and> GetFd T fd = None")
    case False
    then show ?thesis using 1 by (cases "unat fd < kMaxFds") (auto simp: dupfd_loop.simps [of K d fd])
  next
    case True
    show ?thesis
    proof (cases "\<exists>x. r1 = Value x")
      case v: True
      then show ?thesis using "1.prems" True a t by (auto simp: dupfd_loop.simps [of K d fd])
    next
      case v: False
      then have "dupfd_loop K d (fd + 1) T1 s1 = (r, T', s')"
        using "1.prems" True a by (cases r1) (auto simp: dupfd_loop.simps [of K d fd])
      then have "tame live s1 s'" using v "1.IH" True a "1.prems"(1) by (cases r1) auto
      then show ?thesis using t tame_trans by blast
    qed
  qed
qed

lemma quiet_writev: "alloc_laws (lib P) live \<Longrightarrow> writev_loop P d iov n tot k = (r, k') \<Longrightarrow> quiet live k k'"
proof (induction P d iov n tot k rule: writev_loop.induct)
  case (2 P d iov n tot k)
  obtain b s where w: "FileDescription_Write (lib P) d (load64 (kmem_of k) iov) (load64 (kmem_of k) (iov + 8)) (io k) = (b, s)"
    by fastforce
  note c = quiet_same_refs [OF same_refs_Write [OF 2(3) w]]
  show ?case using 2 w c quiet_trans [OF c] by (fastforce split: if_splits blocking.splits expected.splits)
qed simp

lemma quiet_readv: "readv_loop P d iov n tot k = (r, k') \<Longrightarrow> quiet live k k'"
proof (induction P d iov n tot k rule: readv_loop.induct)
  case (2 P d iov n tot k)
  obtain b s where w: "FileDescription_Read (lib P) d (load64 (kmem_of k) iov) (load64 (kmem_of k) (iov + 8)) (io k) = (b, s)"
    by fastforce
  note c = quiet_same_refs [OF same_refs_Read [OF w], of live]
  show ?case using 2 w c quiet_trans [OF c] by (fastforce simp: Let_def split: if_splits blocking.splits expected.splits)
qed simp

lemma quiet_set_offset [simp]: "quiet live k (set_offset d w k') = quiet live k k'"
  by (simp add: quiet_def set_offset_def on_io_def kmm_of_def upd_file_def)

lemma quiet_set_flags [simp]: "quiet live k (on_io (set_flags d w) k') = quiet live k k'"
  by (simp add: quiet_def set_flags_def on_io_def kmm_of_def upd_file_def)

lemma quiet_put_stat: "put_stat v b k = (r, k') \<Longrightarrow> quiet live k k'"
  by (auto simp: put_stat_def split: option.splits)

lemma quiet_iterate: "RamFs_Iterate v b n c (fs (io k)) = (r, t) \<Longrightarrow> quiet live k (on_io (set_fs t) k)"
proof -
  assume "RamFs_Iterate v b n c (fs (io k)) = (r, t)"
  then have "kmm t = kmm (fs (io k))" by (auto simp: RamFs_Iterate_def split: option.splits if_splits prod.splits)
  then show ?thesis by (simp add: quiet_on_io set_fs_def)
qed

lemma quiet_io_calls:
  assumes "alloc_laws (lib P) live"
  shows "sys_read P p regs k = (r, k') \<Longrightarrow> quiet live k k'" "sys_write P p regs k = (r, k') \<Longrightarrow> quiet live k k'"
    "sys_readv P p regs k = (r, k') \<Longrightarrow> quiet live k k'" "sys_writev P p regs k = (r, k') \<Longrightarrow> quiet live k k'"
    "sys_lseek p regs k = (r, k') \<Longrightarrow> quiet live k k'"
  unfolding sys_read_def sys_write_def sys_readv_def sys_writev_def sys_lseek_def
  by (erule quiet_with_fd,
      auto split: prod.splits if_splits option.splits simp: Let_def
        intro: quiet_same_refs same_refs_Read same_refs_Write [OF assms] quiet_readv quiet_writev [OF assms])+

lemma quiet_table_calls:
  assumes A: "alloc_laws (lib P) live"
  shows "sys_close p regs k = (r, k') \<Longrightarrow> quiet live k k'" "sys_dup P p regs k = (r, k') \<Longrightarrow> quiet live k k'"
    "sys_dup2 P p regs k = (r, k') \<Longrightarrow> quiet live k k'" "sys_fcntl P p regs k = (r, k') \<Longrightarrow> quiet live k k'"
proof -
  show "sys_close p regs k = (r, k') \<Longrightarrow> quiet live k k'"
    unfolding sys_close_def by (erule quiet_apfst_table) (auto dest: tame_FreeFd)
  show "sys_dup P p regs k = (r, k') \<Longrightarrow> quiet live k k'"
    unfolding sys_dup_def by (erule quiet_with_fd, erule quiet_apfst_table, erule tame_AllocateFd [OF A])
  have d: "with_fd p q (\<lambda>d k. apfst g (on_table p (AllocateFdAt (lib P) n (Some d)) k)) k = (r, k') \<Longrightarrow> quiet live k k'" for q g n
    by (erule quiet_with_fd, erule quiet_apfst_table, erule tame_AllocateFdAt [OF A])
  then show "sys_dup2 P p regs k = (r, k') \<Longrightarrow> quiet live k k'"
    by (auto simp: sys_dup2_def Let_def split: if_splits)
  have t: "apfst g (on_table p (dupfd_loop (lib P) d n) k1) = (q, k2) \<Longrightarrow> quiet live k1 k2" for g d n q k1 k2
    by (erule quiet_apfst_table, erule tame_dupfd [OF A])
  show "sys_fcntl P p regs k = (r, k') \<Longrightarrow> quiet live k k'"
    unfolding sys_fcntl_def Let_def by (erule quiet_with_fd) (auto split: if_splits option.splits intro: t)
qed

lemma quiet_info_calls:
  "sys_stat p a b k = (r, k') \<Longrightarrow> quiet live k k'" "sys_fstat p regs k = (r, k') \<Longrightarrow> quiet live k k'"
  "sys_access p regs k = (r, k') \<Longrightarrow> quiet live k k'" "sys_ioctl p regs k = (r, k') \<Longrightarrow> quiet live k k'"
  "sys_getdents64 p regs k = (r, k') \<Longrightarrow> quiet live k k'"
proof -
  show "sys_stat p a b k = (r, k') \<Longrightarrow> quiet live k k'" by (auto simp: sys_stat_def quiet_put_stat split: expected.splits)
  show "sys_fstat p regs k = (r, k') \<Longrightarrow> quiet live k k'"
    unfolding sys_fstat_def by (erule quiet_with_fd) (auto split: option.splits intro: quiet_put_stat)
  show "sys_access p regs k = (r, k') \<Longrightarrow> quiet live k k'" by (simp add: sys_access_def)
  show "sys_ioctl p regs k = (r, k') \<Longrightarrow> quiet live k k'"
    unfolding sys_ioctl_def by (erule quiet_with_fd) (auto simp: Let_def split: if_splits)
  show "sys_getdents64 p regs k = (r, k') \<Longrightarrow> quiet live k k'"
    unfolding sys_getdents64_def
    by (erule quiet_with_fd)
      (auto simp: Let_def split: option.splits if_splits prod.splits expected.splits dest: quiet_iterate)
qed

lemma quiet_new_file:
  assumes A: "alloc_laws (lib P) live" and n: "FileDescription_new (lib P) v flags (io k) = (r, s)"
  shows "quiet live k (k\<lparr>io := s\<rparr>)"
proof -
  obtain q l where o: "op_new (lib P) (kmm (fs (io k))) = (q, l)" by fastforce
  have "kmm (fs s) = l" using n o by (cases q) (auto simp: FileDescription_new_def split: option.splits)
  then show ?thesis using alloc_lawsD(2) [OF A o] by (simp add: quiet_def kmm_of_def)
qed

lemma quiet_open_target:
  assumes A: "alloc_laws (lib P) live" and run: "open_target P p ptr flags k = (r, k')"
  shows "quiet live k k'"
proof -
  have cr: "quiet live k (on_io (set_fs t) k)" if "vnode_Create (lib P) dir nm (fs (io k)) = (q, t)" for dir nm q t
    using live_vnode_Create [OF A that] by (simp add: quiet_on_io set_fs_def)
  have "quiet live k (on_io (\<lambda>s. set_fs (upd_vnode v g (fs s)) s) k)" for v g
    by (simp add: quiet_on_io set_fs_def upd_vnode_def)
  then show ?thesis
    using run cr by (auto simp: open_target_def open_create_def split: expected.splits if_splits option.splits prod.splits)
qed

lemma quiet_alloc_release:
  assumes A: "alloc_laws (lib P) live" and t: "on_table p (AllocateFd (lib P) fo) k = (r, k')"
  shows "quiet live k k'" "quiet live k (on_io (fd_release d) k')"
proof -
  show q: "quiet live k k'" by (rule quiet_on_table [OF t]) (erule tame_AllocateFd [OF A])
  have "quiet live k' (on_io (fd_release d) k')" using tame_release [of live "io k'" d] by (simp add: on_io_def quiet_io)
  then show "quiet live k (on_io (fd_release d) k')" by (rule quiet_trans [OF q])
qed

lemma quiet_open:
  assumes A: "alloc_laws (lib P) live" and run: "sys_open P p regs k = (r, k')"
  shows "quiet live k k'"
proof -
  let ?fl = "ucast (rsi regs) :: u32"
  obtain r1 k1 where t: "open_target P p (rdi regs) ?fl k = (r1, k1)" by fastforce
  note q1 = quiet_open_target [OF A t]
  show ?thesis
  proof (cases r1)
    case (Value v)
    obtain r2 s2 where n: "FileDescription_new (lib P) (Some v) ?fl (io k1) = (r2, s2)" by fastforce
    note q2 = quiet_trans [OF q1 quiet_new_file [OF A n]]
    show ?thesis
    proof (cases r2)
      case d: (Value d)
      let ?k2 = "k1\<lparr>io := s2\<rparr>"
      let ?k3 = "if ?fl AND 0x400 \<noteq> 0 then (case vnode_of v ?k2 of Some vn \<Rightarrow> set_offset d (v_size vn) ?k2 | None \<Rightarrow> ?k2) else ?k2"
      have q3: "quiet live k ?k3" using q2 by (simp split: option.split)
      obtain r4 k4 where a: "on_table p (AllocateFd (lib P) (Some d)) ?k3 = (r4, k4)" by fastforce
      have "k' = on_io (fd_release d) k4" using run t Value n d a by (simp add: sys_open_def Let_def)
      then show ?thesis using quiet_trans [OF q3 quiet_alloc_release(2) [OF A a]] by simp
    qed (use run t Value n q2 in \<open>auto simp: sys_open_def Let_def\<close>)
  qed (use run t q1 in \<open>auto simp: sys_open_def Let_def\<close>)
qed


lemma quiet_pipe:
  assumes A: "alloc_laws (lib P) live" and run: "sys_pipe P p regs k = (r, k')"
  shows "quiet live k k'"
proof -
  obtain r1 t where v: "PipeVnode_Create (lib P) (fs (io k)) = (r1, t)" by fastforce
  obtain q1 l1 where a: "op_new (lib P) (kmm (fs (io k))) = (q1, l1)" by fastforce
  obtain q2 l2 where b: "op_new (lib P) l1 = (q2, l2)" by fastforce
  have "live (kmm (fs (io k))) \<subseteq> live l1" "live l1 \<subseteq> live l2" using alloc_lawsD(2) [OF A] a b by blast+
  then have "live (kmm (fs (io k))) \<subseteq> live (kmm t)" using v a b by (cases q1; cases q2) (auto simp: PipeVnode_Create_def)
  then have q0: "quiet live k (on_io (set_fs t) k)" by (simp add: quiet_on_io set_fs_def)
  show ?thesis
  proof (cases r1)
    case (Value vn)
    obtain r2 s2 where n: "FileDescription_new (lib P) (Some vn) kPipeRead (set_fs t (io k)) = (r2, s2)" by fastforce
    have q2: "quiet live k (k\<lparr>io := s2\<rparr>)"
      using quiet_trans [OF q0 quiet_new_file [OF A, of "Some vn" kPipeRead "on_io (set_fs t) k" r2 s2]] n by (simp add: on_io_def)
    obtain r3 s3 where m: "FileDescription_new (lib P) (Some vn) kPipeWrite s2 = (r3, s3)" by fastforce
    have q3: "quiet live k (k\<lparr>io := s3\<rparr>)"
      using quiet_trans [OF q2 quiet_new_file [OF A, of "Some vn" kPipeWrite "k\<lparr>io := s2\<rparr>" r3 s3]] m by simp
    have fr: "quiet live k (snd (on_table p (\<lambda>T s. (Value (), FreeFd x T s)) k6))" if "quiet live k k6" for x k6
    proof -
      obtain q k7 where q: "on_table p (\<lambda>T s. (Value (), FreeFd x T s)) k6 = (q, k7)" by fastforce
      have "quiet live k6 k7" by (rule quiet_on_table [OF q]) (auto dest: tame_FreeFd)
      then show ?thesis using q that quiet_trans by simp
    qed
    have dr: "quiet live k (on_io (fd_release d) k6)" if "quiet live k k6" for d k6
      using quiet_trans [OF that quiet_io] tame_release [of live "io k6" d] by (simp add: on_io_def)
    show ?thesis
    proof (cases "\<exists>rd wr. r2 = Value rd \<and> r3 = Value wr")
      case True
      then obtain rd wr where rw: "r2 = Value rd" "r3 = Value wr" by blast
      obtain fd1 k4 where a1: "on_table p (AllocateFd (lib P) (Some rd)) (k\<lparr>io := s3\<rparr>) = (fd1, k4)" by fastforce
      obtain fd2 k5 where a2: "on_table p (AllocateFd (lib P) (Some wr)) k4 = (fd2, k5)" by fastforce
      have "quiet live k k5"
        by (rule quiet_trans [OF quiet_trans [OF q3 quiet_alloc_release(1) [OF A a1]] quiet_alloc_release(1) [OF A a2]])
      then show ?thesis using run v Value n rw m a1 a2
        by (cases fd1; cases fd2) (auto simp: sys_pipe_def intro!: dr fr)
    next
      case False
      then show ?thesis using run v Value n m q2 q3 by (cases r2; cases r3) (auto simp: sys_pipe_def)
    qed
  qed (use run v q0 in \<open>auto simp: sys_pipe_def\<close>)
qed

section \<open>Memory, signals, time\<close>

lemma quiet_memory_calls:
  assumes P: "plat_laws P live"
  shows "sys_mmap P p regs k = (r, k') \<Longrightarrow> quiet live k k'" "sys_munmap P p regs k = (r, k') \<Longrightarrow> quiet live k k'"
    "sys_mprotect P p regs k = (r, k') \<Longrightarrow> quiet live k k'" "sys_brk P p regs k = (r, k') \<Longrightarrow> quiet live k k'"
proof -
  note S = plat_lawsD(6-8) [OF P]
  show "sys_mmap P p regs k = (r, k') \<Longrightarrow> quiet live k k'" "sys_munmap P p regs k = (r, k') \<Longrightarrow> quiet live k k'"
    "sys_mprotect P p regs k = (r, k') \<Longrightarrow> quiet live k k'"
    by (auto simp: sys_mmap_def sys_munmap_def sys_mprotect_def S split: if_splits prod.splits option.splits
        dest!: quiet_on_proc_space [where live = live])
  have "brk_pages P p c n k = (b, k1) \<Longrightarrow> quiet live k k1" for c n b k1
    by (auto simp: brk_pages_def Let_def apfst_def map_prod_def S split: if_splits prod.splits dest!: quiet_on_proc_space [where live = live])
  then show "sys_brk P p regs k = (r, k') \<Longrightarrow> quiet live k k'"
    by (auto simp: sys_brk_def Let_def split: option.splits if_splits prod.splits bool.splits)
qed

lemma quiet_query_calls:
  assumes P: "plat_laws P live"
  shows "sys_rt_sigaction q regs k = (r, k') \<Longrightarrow> quiet live k k'" "sys_clock_gettime P regs k = (r, k') \<Longrightarrow> quiet live k k'"
    "sys_gettimeofday P regs k = (r, k') \<Longrightarrow> quiet live k k'" "sys_arch_prctl regs k = (r, k') \<Longrightarrow> quiet live k k'"
    "sys_uname regs k = (r, k') \<Longrightarrow> quiet live k k'" "sys_gettid t k = (r, k') \<Longrightarrow> quiet live k k'"
    "sys_getpid q k = (r, k') \<Longrightarrow> quiet live k k'" "sys_getppid q k = (r, k') \<Longrightarrow> quiet live k k'"
proof -
  show "sys_rt_sigaction q regs k = (r, k') \<Longrightarrow> quiet live k k'"
    by (auto simp: sys_rt_sigaction_def Let_def split: if_splits option.splits)
  have "quiet live k (put_time a x y (set_kmm l k))" if "live (kmm_of k) \<subseteq> live l" for a x y l
    using that by (simp add: put_time_def quiet_set_kmm)
  then show "sys_clock_gettime P regs k = (r, k') \<Longrightarrow> quiet live k k'" "sys_gettimeofday P regs k = (r, k') \<Longrightarrow> quiet live k k'"
    using plat_lawsD(12,13) [OF P, of "kmm_of k"]
    by (auto simp: sys_clock_gettime_def sys_gettimeofday_def split: if_splits prod.splits)
  show "sys_arch_prctl regs k = (r, k') \<Longrightarrow> quiet live k k'" "sys_gettid t k = (r, k') \<Longrightarrow> quiet live k k'"
    "sys_getpid q k = (r, k') \<Longrightarrow> quiet live k k'"
    by (auto simp: sys_arch_prctl_def sys_gettid_def sys_getpid_def Let_def split: if_splits option.splits)
  show "sys_uname regs k = (r, k') \<Longrightarrow> quiet live k k'"
    by (auto simp: sys_uname_def Let_def simp del: copy_str.simps split: if_splits)
  show "sys_getppid q k = (r, k') \<Longrightarrow> quiet live k k'"
    by (auto simp: sys_getppid_def sys_getpid_def split: option.splits)
qed

lemma quiet_waitpid_tail:
  assumes P: "plat_laws P live" and run: "waitpid_tail P p c w k = (r, k')"
  shows "quiet live k k'"
proof -
  let ?k1 = "\<lambda>ch. if w \<noteq> 0 then set_mem (store32 (kmem_of k) w (push_bit 8 (m_exit_status ch AND 0xFF))) k else k"
  have "quiet live k (Process_Reap P c k2)" if "RemoveChild p c (?k1 ch) = Value k2" for ch k2
    using quiet_trans [OF quiet_trans [OF _ quiet_RemoveChild [OF that]] quiet_Reap [OF P]] by simp
  then show ?thesis using run by (auto simp: waitpid_tail_def Let_def split: option.splits if_splits expected.splits)
qed

lemma quiet_execve:
  assumes P: "plat_laws P live" and run: "sys_execve P buf p regs k = (r, regs', k')"
  shows "quiet live k k'"
proof -
  note D = quiet_trans [OF _ quiet_Destroy [OF P]]
  have L: "quiet live k k2" if "Load P buf p vn 0 (WriteCr3 c (upd_proc p f k1)) = (q, k2)" "UserAddressSpace_Create P k = (Value u, k1)"
    for vn c f k1 q k2 u
    using quiet_trans [OF _ quiet_Load [OF P that(1)], of k] quiet_Create [OF P that(2)] by simp
  show ?thesis
    using run L quiet_Create [OF P]
    by (auto simp: sys_execve_def Let_def split: expected.splits option.splits prod.splits intro!: D)
qed


section \<open>The invariant\<close>

text \<open>The scheduler is sound, and its thread objects are storage in use.\<close>

definition kernel_safe :: "('k \<Rightarrow> addr set) \<Rightarrow> ('v, 'r, 'k, 'a) kernel \<Rightarrow> bool" where
  "kernel_safe live k \<longleftrightarrow> sched_safe (sch k) \<and> dom (threads (sch k)) \<subseteq> live (kmm_of k)"

text \<open>A thread other than the idle thread runs. The idle thread only halts the processor.\<close>

definition on_cpu :: "addr \<Rightarrow> ('v, 'r, 'k, 'a) kernel \<Rightarrow> bool" where
  "on_cpu t k \<longleftrightarrow> current_thread (sch k) = Some t \<and> idle_thread (sch k) \<noteq> Some t"

lemma quiet_safe: "kernel_safe live k \<Longrightarrow> quiet live k k' \<Longrightarrow> kernel_safe live k'"
proof -
  assume k: "kernel_safe live k" and q: "quiet live k k'"
  then have "same_sched (sch k) (sch k')" by (simp add: quiet_def)
  note s = same_sched_safe [OF this] same_sched_fields(1) [OF this]
  then show ?thesis using k q unfolding kernel_safe_def quiet_def s by blast
qed

lemma quiet_on_cpu: "quiet live k k' \<Longrightarrow> on_cpu t k' = on_cpu t k"
proof -
  assume "quiet live k k'"
  then have "same_sched (sch k) (sch k')" by (simp add: quiet_def)
  then show ?thesis by (simp add: on_cpu_def same_sched_fields(4,5))
qed

lemma run_sched_simps [simp]: "sch (run_sched f k) = f (sch k)" "kmm_of (run_sched f k) = kmm_of k"
  by (simp_all add: run_sched_def Let_def show_view_def) (simp add: kmm_of_def)

lemma kmm_of_sch [simp]: "kmm_of (k\<lparr>sch := s\<rparr>) = kmm_of k"
  by (simp add: kmm_of_def)

lemma safe_sch: "kernel_safe live k \<Longrightarrow> sched_safe s \<Longrightarrow> dom (threads s) \<subseteq> dom (threads (sch k)) \<Longrightarrow> kernel_safe live (k\<lparr>sch := s\<rparr>)"
  unfolding kernel_safe_def by auto

lemma safe_run_sched: "kernel_safe live k \<Longrightarrow> sched_safe (f (sch k)) \<Longrightarrow> dom (threads (f (sch k))) \<subseteq> dom (threads (sch k)) \<Longrightarrow>
    kernel_safe live (run_sched f k)"
  unfolding kernel_safe_def by auto

lemma ops_safe:
  assumes k: "kernel_safe live k"
  shows "kernel_safe live (run_sched (Yield root) k)" "kernel_safe live (k\<lparr>sch := Wake ch wake_all (sch k)\<rparr>)"
    "kernel_safe live (run_sched (Tick root) k)" "on_cpu t k \<Longrightarrow> kernel_safe live (run_sched (Block root ch) k)"
    "kernel_safe live (run_sched (Reaper_pass root) k)"
proof -
  have s: "sched_safe (sch k)" "sched_wf (sch k)" using k by (simp_all add: kernel_safe_def sched_safe_def)
  have run: "kernel_safe live (run_sched f k)" if "sched_safe (f (sch k))" "keeps_sched (sch k) (f (sch k))" for f
    using safe_run_sched [OF k, of f] that by (simp add: keeps_sched_def)
  show "kernel_safe live (run_sched (Yield root) k)" by (rule run [where f = "Yield root", OF sched_ops_safe(1) [OF s(1)] Yield_keeps [OF s(2)]])
  show "kernel_safe live (run_sched (Tick root) k)" by (rule run [where f = "Tick root", OF sched_ops_safe(3) [OF s(1)] Tick_keeps_parked [OF s(2)]])
  show "kernel_safe live (k\<lparr>sch := Wake ch wake_all (sch k)\<rparr>)"
    by (rule safe_sch [OF k sched_ops_safe(2) [OF s(1)]]) (use Wake_keeps [OF s(2), of ch wake_all] in \<open>simp add: keeps_sched_def\<close>)
  show "kernel_safe live (run_sched (Reaper_pass root) k)"
    using safe_run_sched [OF k, of "Reaper_pass root"] Reaper_pass_safe [OF s(1), of root] by auto
  assume "on_cpu t k"
  then have c: "current_thread (sch k) \<noteq> idle_thread (sch k)" by (auto simp: on_cpu_def)
  show "kernel_safe live (run_sched (Block root ch) k)" by (rule run [where f = "Block root ch", OF sched_ops_safe(4) [OF s(1) c] Block_keeps [OF s(2) c]])
qed

section \<open>Signals and the end of a thread\<close>

lemma safe_signal_fields:
  assumes "kernel_safe live k"
  shows "kernel_safe live (k\<lparr>sch := upd_thread t (\<lambda>th. th\<lparr>m_pending_signals := f th\<rparr>) (sch k)\<rparr>)"
    "kernel_safe live (k\<lparr>sch := upd_thread t (\<lambda>th. th\<lparr>m_blocked_signals := g th\<rparr>) (sch k)\<rparr>)"
proof -
  have s: "sched_safe (sch k)" using assms by (simp add: kernel_safe_def)
  show "kernel_safe live (k\<lparr>sch := upd_thread t (\<lambda>th. th\<lparr>m_pending_signals := f th\<rparr>) (sch k)\<rparr>)"
    by (rule safe_sch [OF assms upd_signals_safe [OF s]]) (auto split: if_splits)
  show "kernel_safe live (k\<lparr>sch := upd_thread t (\<lambda>th. th\<lparr>m_blocked_signals := g th\<rparr>) (sch k)\<rparr>)"
    by (rule safe_sch [OF assms upd_signals_safe [OF s]]) (auto split: if_splits)
qed

lemma Send_safe: "kernel_safe live k \<Longrightarrow> kernel_safe live (Signal_Send t sig k)"
  by (simp add: Signal_Send_def safe_signal_fields split: option.split)

lemma Exit_safe:
  assumes k: "kernel_safe live k"
  shows "kernel_safe live (Process_Exit p status k)" "on_cpu t (Process_Exit p status k) = on_cpu t k"
proof -
  let ?k = "upd_proc p (\<lambda>pr. pr\<lparr>m_proc_state := ProcZombie, m_exit_status := status\<rparr>) (close_fds p k)"
  have q: "quiet live k ?k" by (simp add: quiet_close_fds)
  note s = quiet_safe [OF k q]
  show "kernel_safe live (Process_Exit p status k)"
    using s ops_safe(2) [OF s] by (simp add: Process_Exit_def Let_def split: option.split)
  have "queues_wf (sch ?k)" using s by (simp add: kernel_safe_def sched_safe_def sched_wf_def)
  note w = Wake_effect(6,7) [OF this refl, of p False]
  show "on_cpu t (Process_Exit p status k) = on_cpu t k"
    using w quiet_on_cpu [OF q, of t] by (simp add: Process_Exit_def Let_def on_cpu_def split: option.split)
qed

lemma end_thread_safe:
  assumes k: "kernel_safe live k" and c: "on_cpu t k" and e: "end_thread P t k = (Value u, k')"
  shows "kernel_safe live k'"
proof -
  let ?k = "k\<lparr>sch := upd_thread t (\<lambda>th. th\<lparr>m_state := Terminated\<rparr>) (sch k)\<rparr>"
  obtain s1 where s1: "Reaper_Enqueue t (upd_thread t (\<lambda>th. th\<lparr>m_state := Terminated\<rparr>) (sch k)) = Value s1"
      "k' = run_sched (Yield (root_of_proc P (?k\<lparr>sch := s1\<rparr>))) (?k\<lparr>sch := s1\<rparr>)"
    using e by (auto simp: end_thread_def Let_def split: expected.splits)
  have "sched_safe (sch k)" "current_thread (sch k) = Some t" "idle_thread (sch k) \<noteq> Some t"
    using k c by (simp_all add: kernel_safe_def on_cpu_def)
  note e = end_safe [OF this s1(1), of "root_of_proc P (?k\<lparr>sch := s1\<rparr>)"]
  have "kmm_of k' = kmm_of k" by (simp add: s1(2))
  then show ?thesis using e k by (simp add: kernel_safe_def s1(2))
qed

lemma signal_loop_safe:
  "kernel_safe live k \<Longrightarrow> on_cpu t k \<Longrightarrow> signal_loop P t p pending fr is k = (d, k') \<Longrightarrow> d \<noteq> Panic \<Longrightarrow> kernel_safe live k'"
proof (induction "is" arbitrary: k)
  case (Cons i "is")
  let ?k = "clear_pending t i k"
  have k1: "kernel_safe live ?k" unfolding clear_pending_def by (rule safe_signal_fields(1) [OF Cons.prems(1)])
  have c1: "on_cpu t ?k" using Cons.prems(2) by (simp add: on_cpu_def clear_pending_def)
  have fatal: "kernel_safe live k2" if "end_thread P t (Process_Exit p st ?k) = (Value u, k2)" for st u k2
    using end_thread_safe [OF Exit_safe(1) [OF k1] _ that] c1 Exit_safe(2) [OF k1] by simp
  have m: "kernel_safe live (set_mem m ?k)" for m using k1 by (simp add: quiet_safe [where k = ?k])
  show ?case
    using Cons.prems Cons.IH [OF k1 c1] Cons.IH [OF Cons.prems(1,2)] fatal m
    by (auto simp: Let_def split: if_splits option.splits prod.splits expected.splits)
qed simp

lemma DoPendingSignals_safe:
  assumes "kernel_safe live k" and "on_cpu t k" and "DoPendingSignals P fr k = (d, k')" and "d \<noteq> Panic"
  shows "kernel_safe live k'"
  using assms signal_loop_safe [OF assms(1,2)]
  by (auto simp: DoPendingSignals_def Let_def GetCurrentThread_def on_cpu_def simp del: upt_Suc split: option.splits if_splits)

section \<open>New threads\<close>

lemma thread_ok_fields [simp]:
  "thread_ok (SetName n th) = thread_ok th" "thread_ok (fst (InitializeForkStack F regs th m)) = thread_ok th"
  "thread_ok (fst (InitializeUserStack F a b th m)) = thread_ok th"
  by (auto simp: thread_ok_def SetName_def InitializeForkStack_def InitializeUserStack_def Let_def split: option.split prod.split)

lemma new_thread_safe:
  assumes P: "plat_laws P live" and k: "kernel_safe live k" and n: "new_thread P p k = (Value (Some (t, th)), k')"
  shows "kernel_safe live k'" "threads (sch k') t = None" "t \<in> live (kmm_of k')" "thread_ok th"
proof -
  note A = plat_lawsD(1) [OF P]
  obtain l1 where o: "op_new (lib P) (kmm_of k) = (Some t, l1)" using n by (auto simp: new_thread_def split: prod.splits option.splits expected.splits)
  obtain stack l2 where a: "AllocateKernel P l1 = (stack, l2)" by fastforce
  obtain tid where th: "Thread_new (Some p) (s_next_tid (sch k)) stack = Value (th, tid)"
    and k': "k' = (set_kmm l2 k)\<lparr>sch := (sch k)\<lparr>s_next_tid := tid\<rparr>\<rparr>"
    using n o a by (auto simp: new_thread_def split: expected.splits)
  have l: "live (kmm_of k) \<subseteq> live l1" "live l1 \<subseteq> live l2" "t \<in> live l1" "t \<notin> live (kmm_of k)"
    using alloc_lawsD(1-3) [OF A o] plat_lawsD(11) [OF P a] by blast+
  have "quiet live k k'" using l by (auto simp: quiet_def k')
  then show "kernel_safe live k'" by (rule quiet_safe [OF k])
  show "threads (sch k') t = None" using l(4) k by (auto simp: kernel_safe_def k')
  show "t \<in> live (kmm_of k')" using l by (auto simp: k')
  show "thread_ok th" by (rule Thread_new_ok [OF th])
qed

lemma start_thread_safe:
  assumes k: "kernel_safe live k" and t: "threads (sch k) t = None" "t \<in> live (kmm_of k)" "thread_ok th"
    and run: "start_thread t (th, m) k = (r, k')"
  shows "kernel_safe live k'"
proof -
  let ?s = "(sch k)\<lparr>threads := (threads (sch k))(t \<mapsto> th)\<rparr>"
  have "sched_safe (sch k)" using k by (simp add: kernel_safe_def)
  note n = new_object_safe [OF this t(1,3)]
  have "t \<notin> set (dead_list ?s)" using n(3) by simp
  from first_AddThread [OF n(1,2) this, of 0] obtain s' where
    s': "AddThread t 0 ?s = Value s'" "sched_safe s'" "dom (threads s') = dom (threads ?s)" by (auto simp: kNumLevels_def)
  have "k' = k\<lparr>sch := s', kstacks := m\<rparr>" using run s'(1) by (simp add: start_thread_def Let_def)
  then show ?thesis using s' k t(2) by (simp add: kernel_safe_def kmm_of_def)
qed


lemma Process_Fork_safe:
  assumes P: "plat_laws P live" and k: "kernel_safe live k" and run: "Process_Fork P p regs k = (r, k')" and ok: "r \<noteq> Bug"
  shows "kernel_safe live k'"
proof -
  note A = plat_lawsD(1) [OF P]
  obtain pr where pr: "procs k p = Some pr" using run ok by (auto simp: Process_Fork_def split: option.splits)
  obtain r1 k1 where f: "UserAddressSpace_Fork P (m_address_space pr) k = (r1, k1)" by fastforce
  note q1 = quiet_UFork [OF P f]
  obtain r2 k2 where a: "PidAlloc P k1 = (r2, k2)" by fastforce
  note q2 = quiet_trans [OF q1 quiet_PidAlloc [OF P a]]
  obtain r3 l where n: "op_new (lib P) (kmm_of k2) = (r3, l)" by fastforce
  have q3: "quiet live k ((set_kmm l k2)\<lparr>procs := x\<rparr>)" for x
    using quiet_set_kmm [OF q2 alloc_lawsD(2) [OF A n]] by simp
  note D = quiet_trans [OF _ quiet_Destroy [OF P]] and F = quiet_trans [OF _ quiet_PidFree [OF P]]
  have fail: "quiet live k (Process_Reap P c k5)" if "RemoveChild p c k4 = Value k5" "quiet live k k4" for c k4 k5
    by (rule quiet_trans [OF quiet_trans [OF that(2) quiet_RemoveChild [OF that(1)]] quiet_Reap [OF P]])
  show ?thesis
  proof (cases "\<exists>u pid c. r1 = Value u \<and> r2 = Value pid \<and> r3 = Some c")
    case False
    have "quiet live k (UserAddressSpace_Destroy P u k2)" "quiet live k (UserAddressSpace_Destroy P u (PidFree P pid (set_kmm l k2)))" for u pid
      using D [OF q2] D [OF F [OF quiet_set_kmm [OF q2 alloc_lawsD(2) [OF A n]]]] by blast+
    then have "quiet live k k'"
      using False run pr f a n q1 q2 by (cases r1; cases r2; cases r3) (auto simp: Process_Fork_def Let_def)
    then show ?thesis by (rule quiet_safe [OF k])
  next
    case True
    then obtain u pid c where v: "r1 = Value u" "r2 = Value pid" "r3 = Some c" by blast
    let ?k3 = "(set_kmm l k2)\<lparr>procs := (procs k2)(c \<mapsto> Process_new (ucast pid) u (m_root pr) (m_cwd pr))\<rparr>"
    obtain ok G s1 where g: "grow (lib P) (length (m_fd_table pr)) [] (io ?k3) = (ok, G, s1)" by (metis prod_cases3)
    have q4: "quiet live k (?k3\<lparr>io := s1\<rparr>)" by (rule quiet_trans [OF q3 quiet_io]) (use tame_grow [OF A g] in simp)
    obtain T s2 where cl: "clone_table (m_fd_table pr) s1 = (T, s2)" by fastforce
    have "tame live s1 s2" using cl tame_fold [where live = live and f = fd_addref and xs = "occupied (m_fd_table pr)" and s = s1] by (auto simp: clone_table_fold)
    then have q5: "quiet live k (?k3\<lparr>io := s2\<rparr>)" using quiet_trans [OF q4 quiet_io, of s2] by simp
    let ?k5 = "upd_proc p (\<lambda>pr. pr\<lparr>m_children := m_children pr @ [c]\<rparr>) (upd_proc c (inherit p pr T) (?k3\<lparr>io := s2\<rparr>))"
    have q6: "quiet live k ?k5" using q5 by simp
    obtain r6 k6 where t: "new_thread P c ?k5 = (r6, k6)" by fastforce
    note run' = run [unfolded Process_Fork_def pr option.case f a n v prod.case expected.case Let_def g]
    show ?thesis
    proof (cases ok)
      case False
      then have "quiet live k k'" using run' ok fail [OF _ q4] by (auto split: expected.splits)
      then show ?thesis by (rule quiet_safe [OF k])
    next
      case True
      show ?thesis
      proof (cases "\<exists>tt th. r6 = Value (Some (tt, th))")
        case ex: True
        then obtain tt th where w: "r6 = Value (Some (tt, th))" by blast
        note nt = new_thread_safe [OF P quiet_safe [OF k q6] t [unfolded w]]
        obtain th2 m where im: "InitializeForkStack (ForkReturn P) regs (SetName (Some ''fork_child'') th) (kstacks k6) = (th2, m)" by fastforce
        then have ok2: "thread_ok th2" using nt(4) thread_ok_fields(1,2) by (metis fst_conv)
        obtain r7 k7 where st: "start_thread tt (th2, m) k6 = (r7, k7)" by fastforce
        have "k' = k7" using run' True cl t w im st by simp
        then show ?thesis using start_thread_safe [OF nt(1-3) ok2 st] by simp
      next
        case none: False
        have "quiet live ?k5 k6" if "r6 = Value None" using t that alloc_lawsD(2) [OF A]
          by (auto simp: new_thread_def split: prod.splits option.splits expected.splits intro!: quiet_set_kmm del: subsetI)
        then have "quiet live k k'"
          using run' ok True cl t none fail quiet_trans [OF q6] by (auto split: expected.splits option.splits)
        then show ?thesis by (rule quiet_safe [OF k])
      qed
    qed
  qed
qed

lemma clone_safe:
  assumes P: "plat_laws P live" and k: "kernel_safe live k" and run: "sys_clone P p regs k = (r, k')" and ok: "r \<noteq> Crash"
  shows "kernel_safe live k'"
proof (cases "rdi regs AND 0x100 = 0")
  case True
  obtain r1 k1 where f: "Process_Fork P p regs k = (r1, k1)" by fastforce
  then have "r1 \<noteq> Bug" "k' = k1" using run True ok by (auto simp: sys_clone_def sys_fork_def split: expected.splits option.splits)
  then show ?thesis using Process_Fork_safe [OF P k f] by simp
next
  case False
  obtain t th k1 where n: "new_thread P p k = (Value (Some (t, th)), k1)"
    using run False ok by (auto simp: sys_clone_def split: prod.splits expected.splits option.splits)
  note nt = new_thread_safe [OF P k n]
  obtain th2 m where im: "InitializeUserStack (UserspaceTrampoline P) (rdx regs) (rsi regs) th (kstacks k1) = (th2, m)" by fastforce
  then have ok2: "thread_ok (SetName (Some ''clone_thread'') th2)" using nt(4) thread_ok_fields(1,3) by (metis fst_conv)
  obtain r2 k2 where st: "start_thread t (SetName (Some ''clone_thread'') th2, m) k1 = (r2, k2)" by fastforce
  have "k' = k2" using run False n im st by (simp add: sys_clone_def)
  then show ?thesis using start_thread_safe [OF nt(1-3) ok2 st] by simp
qed


section \<open>Every call, every interrupt\<close>

lemma sched_calls_safe:
  assumes P: "plat_laws P live" and k: "kernel_safe live k" and c: "on_cpu t k"
  shows "sys_rt_sigprocmask (Some t) regs k = (r, k') \<Longrightarrow> kernel_safe live k'"
    "sys_tkill (Some t) sig k = (r, k') \<Longrightarrow> kernel_safe live k'"
    "nanosleep_loop P deadline k = (r, k') \<Longrightarrow> kernel_safe live k'"
    "sys_nanosleep P regs k = (r, k') \<Longrightarrow> kernel_safe live k'"
    "sys_waitpid P p regs k = (r, k') \<Longrightarrow> kernel_safe live k'"
    "sys_exit P (Some t) q regs k = (r, k') \<Longrightarrow> r \<noteq> Crash \<Longrightarrow> kernel_safe live k'"
proof -
  have "kernel_safe live (set_mem m k)" for m by (rule quiet_safe [OF k]) simp
  note m = safe_signal_fields(2) [OF this]
  show "sys_rt_sigprocmask (Some t) regs k = (r, k') \<Longrightarrow> kernel_safe live k'"
    using m [where t = t] safe_signal_fields(2) [OF k, where t = t] quiet_safe [OF k]
    by (auto simp: sys_rt_sigprocmask_def Let_def split: if_splits option.splits)
  show "sys_tkill (Some t) sig k = (r, k') \<Longrightarrow> kernel_safe live k'"
    using k Send_safe [OF k] by (auto simp: sys_tkill_def split: if_splits)
  have n: "nanosleep_loop P dl k1 = (r, k2) \<Longrightarrow> kernel_safe live k2" if "kernel_safe live k1" for dl k1 r k2
  proof -
    obtain ns l where ns: "NowNanoseconds P (kmm_of k1) = (ns, l)" by fastforce
    have "kernel_safe live (set_kmm l k1)" by (rule quiet_safe [OF that quiet_set_kmm [OF _ plat_lawsD(12) [OF P ns]]]) simp
    then show "nanosleep_loop P dl k1 = (r, k2) \<Longrightarrow> kernel_safe live k2"
      using ns ops_safe(1) [of live "set_kmm l k1"] by (auto simp: nanosleep_loop_def Let_def split: if_splits)
  qed
  show "nanosleep_loop P deadline k = (r, k') \<Longrightarrow> kernel_safe live k'" by (rule n [OF k])
  obtain ns l where ns: "NowNanoseconds P (kmm_of k) = (ns, l)" by fastforce
  have l: "kernel_safe live (set_kmm l k)" by (rule quiet_safe [OF k quiet_set_kmm [OF _ plat_lawsD(12) [OF P ns]]]) simp
  have z: "rdi regs = 0 \<Longrightarrow> sys_nanosleep P regs k = (r, k') \<Longrightarrow> k' = k"
    "rdi regs \<noteq> 0 \<Longrightarrow> sys_nanosleep P regs k = nanosleep_loop P (ns + (load64 (kmem_of k) (rdi regs) * 1000000000 + load64 (kmem_of k) (rdi regs + 8))) (set_kmm l k)"
    by (simp_all add: sys_nanosleep_def ns)
  then show "sys_nanosleep P regs k = (r, k') \<Longrightarrow> kernel_safe live k'"
    using k n [OF l] by (cases "rdi regs = 0") simp_all
  show "sys_waitpid P p regs k = (r, k') \<Longrightarrow> kernel_safe live k'"
    using k ops_safe(4) [OF k c] quiet_safe [OF k quiet_waitpid_tail [OF P]]
    by (auto simp: sys_waitpid_def Let_def split: option.splits if_splits)
  have e: "kernel_safe live (case q of Some p \<Rightarrow> Process_Exit p s k | None \<Rightarrow> k)" "on_cpu t (case q of Some p \<Rightarrow> Process_Exit p s k | None \<Rightarrow> k)" for s
    using Exit_safe [OF k] k c by (simp_all split: option.split)
  show "sys_exit P (Some t) q regs k = (r, k') \<Longrightarrow> r \<noteq> Crash \<Longrightarrow> kernel_safe live k'"
    using end_thread_safe [OF e] by (auto simp: sys_exit_def Let_def split: prod.splits expected.splits)
qed

lemma fork_safe:
  assumes P: "plat_laws P live" and k: "kernel_safe live k" and run: "sys_fork P p regs k = (r, k')" and ok: "r \<noteq> Crash"
  shows "kernel_safe live k'"
proof -
  obtain q k1 where f: "Process_Fork P p regs k = (q, k1)" by fastforce
  have q: "q \<noteq> Bug" "k' = k1" using run f ok by (auto simp: sys_fork_def split: expected.splits option.splits)
  show ?thesis unfolding q(2) by (rule Process_Fork_safe [OF P k f q(1)])
qed

lemma dispatch_call_safe:
  fixes k :: "('v, 'r, 'k, 'a) kernel"
  assumes P: "plat_laws P live" and k: "kernel_safe live k" and c: "on_cpu t k"
    and run: "dispatch_call P (Some t) p regs k = (r, k')" and ok: "r \<noteq> Crash"
  shows "kernel_safe live k'"
proof -
  note A = plat_lawsD(1) [OF P]
  note Q = quiet_info_calls [THEN quiet_safe [OF k]] quiet_io_calls [OF A, THEN quiet_safe [OF k]]
    quiet_table_calls [OF A, THEN quiet_safe [OF k]] quiet_open [OF A, THEN quiet_safe [OF k]] quiet_pipe [OF A, THEN quiet_safe [OF k]]
    quiet_memory_calls [OF P, THEN quiet_safe [OF k]] quiet_query_calls [OF P, THEN quiet_safe [OF k]]
    sched_calls_safe(1,2,4,5) [OF P k c]
  have need: "kernel_safe live k'" if "need e p f k = (r, k')" "\<And>q. f q k = (r, k') \<Longrightarrow> kernel_safe live k'" for e f
    using that k by (auto simp: need_def split: option.splits)
  have brk: "kernel_safe live k'" if "(case p of None \<Rightarrow> (Ret 0, k) | Some q \<Rightarrow> sys_brk P q regs k) = (r, k')"
    using that k Q by (auto split: option.splits)
  have self: "kernel_safe live k'" if "(x, k) = (r, k')" for x using that k by simp
  have split: "(b \<Longrightarrow> x = z \<Longrightarrow> R) \<Longrightarrow> (y = z \<Longrightarrow> R) \<Longrightarrow> R" if "(if b then x else y) = z" for b z R and x y :: "sysret \<times> ('v, 'r, 'k, 'a) kernel"
    using that by (cases b) simp_all
  note S = clone_safe [OF P k _ ok] fork_safe [OF P k _ ok] sched_calls_safe(6) [OF P k c _ ok]
  show ?thesis
    using run unfolding dispatch_call_def Let_def
    by (elim split) (erule need, (erule Q | erule S) | erule Q | erule S | erule brk | erule self)+
qed


lemma Dispatch_safe:
  fixes k :: "('v, 'r, 'k, 'a) kernel"
  assumes P: "plat_laws P live" and k: "kernel_safe live k" and c: "on_cpu t k"
    and run: "Dispatch P buf sp regs k = (r, regs', k')" and ok: "r \<noteq> Crash"
  shows "kernel_safe live k'"
proof -
  have t: "GetCurrentThread (sch k) = Some t" using c by (simp add: on_cpu_def GetCurrentThread_def)
  have ret: "kernel_safe live k1" if "sys_rt_sigreturn sp t regs k = (w, f, k1)" for w f k1
    using that safe_signal_fields(2) [OF k, where t = t] by (auto simp: sys_rt_sigreturn_def Let_def)
  have ex: "kernel_safe live k1" if "sys_execve P buf p regs k = (q, f, k1)" for p q f k1
    by (rule quiet_safe [OF k quiet_execve [OF P that]])
  have call: "kernel_safe live k1" if "dispatch_call P (Some t) p f k = (r, k1)" for p f k1
    by (rule dispatch_call_safe [OF P k c that ok])
  show ?thesis
    using run k unfolding Dispatch_def t Let_def option.case
    by (auto split: if_splits prod.splits option.splits dest: ret ex call)
qed

lemma InterruptDispatch_safe:
  assumes P: "plat_laws P live" and H: "trap_laws H live" and k: "kernel_safe live k"
    and run: "InterruptDispatch H P hs cr2 fr (d, k) = (ok, d', k')"
  shows "kernel_safe live k'"
proof -
  have tick: "kernel_safe live (run_sched (Tick root) (set_kmm (TimeKeeper_Advance H (kmm_of k)) k))" for root
    by (rule ops_safe(3), rule quiet_safe [OF k], rule quiet_set_kmm) (simp_all add: space_lawsD(2) [OF H])
  have user: "kernel_safe live k1" if "on_proc_space p (as_HandleFault H a e) k = (b, k1)" for p a e b k1
    by (rule quiet_safe [OF k quiet_on_proc_space [OF that space_lawsD(1) [OF H]]])
  have kern: "kernel_safe live (set_kmm l (set_mem m k))" if "kmm_HandlePageFault H a e (kmem_of k, kmm_of k) = (b, m, l)" for a e b m l
    by (rule quiet_safe [OF k quiet_set_kmm]) (use space_lawsD(3) [OF H that] in simp_all)
  have fault: "kernel_safe live k1" if "page_fault H P cr2 fr k = (b, k1)" for b k1
    using that k by (auto simp: page_fault_def Let_def split: if_splits option.splits prod.splits bool.splits intro: Send_safe user kern)
  show ?thesis
    using run k tick fault Send_safe [OF k]
    by (auto simp: InterruptDispatch_def Let_def split: if_splits option.splits InterruptHandler.splits prod.splits)
qed

section \<open>Steps of the kernel\<close>

inductive kernel_step :: "('k, 'a) traps \<Rightarrow> ('v, 'r, 'k, 'a) plat \<Rightarrow> ('v, 'r, 'k, 'a) kernel \<Rightarrow> ('v, 'r, 'k, 'a) kernel \<Rightarrow> bool"
  for H P where
  system_call: "on_cpu t k \<Longrightarrow> Dispatch P buf sp regs k = (r, regs', k') \<Longrightarrow> r \<noteq> Crash \<Longrightarrow> kernel_step H P k k'"
| delivery: "on_cpu t k \<Longrightarrow> DoPendingSignals P fr k = (d, k') \<Longrightarrow> d \<noteq> Panic \<Longrightarrow> kernel_step H P k k'"
| interrupt: "InterruptDispatch H P hs cr2 fr (d, k) = (True, d', k') \<Longrightarrow> kernel_step H P k k'"
| child_ended: "waitpid_tail P p c w k = (r, k') \<Longrightarrow> r \<noteq> Crash \<Longrightarrow> kernel_step H P k k'"
| slept: "on_cpu t k \<Longrightarrow> nanosleep_loop P deadline k = (r, k') \<Longrightarrow> kernel_step H P k k'"
| pipe_work: "sch k' = sch k \<Longrightarrow> kmm_of k' = kmm_of k \<Longrightarrow> kernel_step H P k k'"
| osl_sleep: "on_cpu t k \<Longrightarrow> kernel_step H P k (run_sched (OslThreadSleep (root_of_proc P k) channel) k)"
| osl_yield: "kernel_step H P k (run_sched (OslThreadYield (root_of_proc P k)) k)"
| osl_wake: "kernel_step H P k (k\<lparr>sch := OslThreadWake channel (sch k)\<rparr>)"
| osl_wake_all: "kernel_step H P k (k\<lparr>sch := OslThreadWakeAll channel (sch k)\<rparr>)"
| reap: "current_thread (sch k) = reaper_thread (sch k) \<Longrightarrow> kernel_step H P k (run_sched (Reaper_pass (root_of_proc P k)) k)"

lemma kernel_step_safe:
  assumes step: "kernel_step H P k k'" and P: "plat_laws P live" and H: "trap_laws H live" and k: "kernel_safe live k"
  shows "kernel_safe live k'"
  using step k
proof cases
  case (system_call t buf sp regs r regs')
  show ?thesis by (rule Dispatch_safe [OF P k system_call])
next
  case (delivery t fr d)
  show ?thesis by (rule DoPendingSignals_safe [OF k delivery])
next
  case (interrupt hs cr2 fr d d')
  show ?thesis by (rule InterruptDispatch_safe [OF P H k interrupt])
next
  case (child_ended p c w r)
  show ?thesis by (rule quiet_safe [OF k quiet_waitpid_tail [OF P child_ended(1)]])
next
  case (slept t deadline r)
  show ?thesis by (rule sched_calls_safe(3) [OF P k slept])
next
  case pipe_work
  then show ?thesis using k by (simp add: kernel_safe_def)
qed (simp_all add: OslThreadSleep_def [abs_def] OslThreadYield_def [abs_def] OslThreadWake_def OslThreadWakeAll_def ops_safe)

lemma kernel_run_safe:
  assumes "(kernel_step H P)\<^sup>*\<^sup>* k k'" and "plat_laws P live" and "trap_laws H live" and "kernel_safe live k"
  shows "kernel_safe live k'"
  using assms by (induction rule: rtranclp_induct) (auto intro: kernel_step_safe)

section \<open>What the invariant says\<close>

lemma sched_safe_lists:
  assumes "sched_safe s"
  shows "distinct (ready s @ g_wait_queue s @ dead_list s)" and "t \<in> set (ready s @ g_wait_queue s @ dead_list s) \<Longrightarrow> threads s t \<noteq> None"
proof -
  have q: "queues_wf s" using assms by (simp add: sched_safe_def sched_wf_def)
  have "t \<notin> set (g_wait_queue s)" if "t \<in> set (ready s)" for t
  proof -
    have "\<exists>i < kNumLevels. t \<in> set (queues s ! i)" using ready_iff [OF queues_wf_three [OF q], of t] that by simp
    then have "\<exists>th. threads s t = Some th \<and> m_state th = Ready" using q unfolding queues_wf_def by metis
    moreover have "\<exists>th. threads s t = Some th \<and> m_state th = Blocked" if "t \<in> set (g_wait_queue s)"
      using q that unfolding queues_wf_def by blast
    ultimately show ?thesis by auto
  qed
  moreover have "distinct (ready s)" "distinct (g_wait_queue s)" using q by (simp_all add: queues_wf_def)
  moreover have d: "distinct (dead_list s)" "off s t" if "t \<in> set (dead_list s)" for t
    using assms that by (simp_all add: sched_safe_def parked_def)
  ultimately show "distinct (ready s @ g_wait_queue s @ dead_list s)"
    using d assms by (auto simp: off_def sched_safe_def)
  show "t \<in> set (ready s @ g_wait_queue s @ dead_list s) \<Longrightarrow> threads s t \<noteq> None"
    using d(2) [of t] linked_exists [OF q, of t] by (auto simp: off_def)
qed

lemma sched_safe_sound:
  assumes s: "sched_safe s"
  shows "sched_wf s \<and> distinct (ready s @ g_wait_queue s @ dead_list s) \<and>
    (\<forall>t. t \<in> set (ready s @ g_wait_queue s @ dead_list s) \<or> current_thread s = Some t \<or> idle_thread s = Some t \<longrightarrow>
       (\<exists>th. threads s t = Some th)) \<and>
    (\<forall>t \<in> set (dead_list s). m_state (thr s t) = Terminated \<and> current_thread s \<noteq> Some t)"
proof -
  have wf: "sched_wf s" using s by (simp add: sched_safe_def)
  have "threads s t \<noteq> None" if "current_thread s = Some t \<or> idle_thread s = Some t" for t
    using wf that by (auto simp: sched_wf_def off_def)
  then show ?thesis
    using wf sched_safe_lists [OF s] s by (auto simp: sched_safe_def parked_def)
qed

lemma ex_plat_laws: "plat_laws (ex_plat\<lparr>lib := ex_pool\<rparr>) ex_live" "trap_laws ex_traps ex_live"
proof -
  have m: "ex_live k \<subseteq> ex_live (Suc k)" for k by (auto simp: ex_live_def)
  show "plat_laws (ex_plat\<lparr>lib := ex_pool\<rparr>) ex_live"
    unfolding plat_laws_def using ex_pool_alloc m by (simp add: ex_plat_def space_law_def)
  show "trap_laws ex_traps ex_live"
    unfolding trap_laws_def using m by (auto simp: ex_traps_def space_law_def)
qed

end
