(* ===== verification/PhysMem.thy ===== *)
theory PhysMem
  imports Prelude
begin

text \<open>
  The physical memory part of \<open>MemoryManager::Initialize\<close> (\<open>arch/x86_64/mm/MemoryManager.cpp\<close>): the scan of the boot memory
  map, the choice of a region for the page descriptor array, and the zones handed to the page frame allocator. The size of
  the descriptor array (\<open>PageDescriptorArray::StorageSize\<close>, FoundationKit) is a parameter; the calls of \<open>RegisterZone\<close> are the
  list of their arguments. What follows in \<open>Initialize\<close> only constructs FoundationKit objects.
\<close>

section \<open>The memory map\<close>

record limine_memmap_entry =
  me_base :: u64
  me_length :: u64
  me_type :: u64

definition LIMINE_MEMMAP_USABLE :: u64 where "LIMINE_MEMMAP_USABLE = 0"

definition LIMINE_MEMMAP_BOOTLOADER_RECLAIMABLE :: u64 where "LIMINE_MEMMAP_BOOTLOADER_RECLAIMABLE = 5"

definition usable :: "limine_memmap_entry \<Rightarrow> bool" where
  "usable e \<longleftrightarrow> me_type e = LIMINE_MEMMAP_USABLE"

definition max_phys_addr :: "limine_memmap_entry list \<Rightarrow> u64" where
  "max_phys_addr es =
     fold (\<lambda>e m. if (usable e \<or> me_type e = LIMINE_MEMMAP_BOOTLOADER_RECLAIMABLE) \<and> me_base e + me_length e > m
                 then me_base e + me_length e else m) es 0"

definition total_pages :: "limine_memmap_entry list \<Rightarrow> u64" where
  "total_pages es = (max_phys_addr es + 0x1000 - 1) div 0x1000"

text \<open>The index of the first longest usable entry that is large enough.\<close>

definition best_entry :: "u64 \<Rightarrow> limine_memmap_entry list \<Rightarrow> nat option" where
  "best_entry pd_array_size es =
     fold (\<lambda>i best.
        if usable (es ! i) \<and> me_length (es ! i) \<ge> pd_array_size \<and>
           (case best of None \<Rightarrow> True | Some b \<Rightarrow> me_length (es ! i) > me_length (es ! b))
        then Some i else best) [0..<length es] None"

section \<open>Zones\<close>

definition kMaxZoneSize :: u64 where
  "kMaxZoneSize = push_bit 20 1 * 0x1000"

function zone_chunks :: "u64 \<Rightarrow> u64 \<Rightarrow> (u64 \<times> u64) list" where
  "zone_chunks base len =
     (if len \<ge> 0x1000 then
        (let chunk_size = (if len > kMaxZoneSize then kMaxZoneSize else len)
         in (base, chunk_size div 0x1000) # zone_chunks (base + chunk_size) (len - chunk_size))
      else [])"
  by pat_completeness auto
termination
proof (relation "measure (\<lambda>(base, len). unat len)", goal_cases)
  case (2 base len x)
  then have "0 < x" "x \<le> len"
    by (auto simp: kMaxZoneSize_def word_gt_0 not_less split: if_splits)
  then have "unat x \<noteq> 0" "unat x \<le> unat len" "unat (len - x) = unat len - unat x"
    by (auto simp: word_gt_0 unat_eq_0 word_le_nat_alt unat_sub)
  then show ?case by simp
qed simp

declare zone_chunks.simps [simp del]

definition entry_zones :: "bool \<Rightarrow> u64 \<Rightarrow> limine_memmap_entry \<Rightarrow> (u64 \<times> u64) list" where
  "entry_zones is_best used_by_pd e =
     (if \<not> usable e then []
      else if is_best then
        (if me_length e \<le> used_by_pd then [] else zone_chunks (me_base e + used_by_pd) (me_length e - used_by_pd))
      else zone_chunks (me_base e) (me_length e))"

fun register_zones :: "nat \<Rightarrow> nat \<Rightarrow> u64 \<Rightarrow> limine_memmap_entry list \<Rightarrow> (u64 \<times> u64) list" where
  "register_zones i best used_by_pd [] = []"
| "register_zones i best used_by_pd (e # es) =
     entry_zones (i = best) used_by_pd e @ register_zones (Suc i) best used_by_pd es"

record physmem =
  pd_base :: u64
  pd_used :: u64
  pd_pages :: u64
  zones :: "(u64 \<times> u64) list"

definition InitPhysical :: "(u64 \<Rightarrow> u64) \<Rightarrow> limine_memmap_entry list \<Rightarrow> physmem expected" where
  "InitPhysical StorageSize es =
     (let pages = total_pages es;
          pd_array_size = StorageSize pages
      in case best_entry pd_array_size es of
           None \<Rightarrow> Bug
         | Some b \<Rightarrow>
             (let used_by_pd = (pd_array_size + 0x1000 - 1) AND NOT (0x1000 - 1)
              in Value \<lparr>pd_base = me_base (es ! b), pd_used = used_by_pd, pd_pages = pages,
                        zones = register_zones 0 b used_by_pd es\<rparr>))"

section \<open>Byte ranges\<close>

definition entry_bytes :: "limine_memmap_entry \<Rightarrow> nat set" where
  "entry_bytes e = {unat (me_base e) ..< unat (me_base e) + unat (me_length e)}"

definition zone_bytes :: "u64 \<times> u64 \<Rightarrow> nat set" where
  "zone_bytes z = {unat (fst z) ..< unat (fst z) + 0x1000 * unat (snd z)}"

text \<open>What the boot protocol promises of the map: usable regions are page aligned, do not wrap and do not overlap.\<close>

definition memmap_ok :: "limine_memmap_entry list \<Rightarrow> bool" where
  "memmap_ok es \<longleftrightarrow>
     (\<forall>e \<in> set es. usable e \<longrightarrow> 0x1000 dvd unat (me_base e) \<and> 0x1000 dvd unat (me_length e) \<and>
        unat (me_base e) + unat (me_length e) < 2 ^ 64) \<and>
     (\<forall>i < length es. \<forall>j < length es. i \<noteq> j \<longrightarrow> usable (es ! i) \<longrightarrow> usable (es ! j) \<longrightarrow> entry_bytes (es ! i) \<inter> entry_bytes (es ! j) = {})"

section \<open>Lemmas\<close>

lemma kMaxZone: "unat kMaxZoneSize = 0x100000000"
  by (simp add: kMaxZoneSize_def)

lemma zone_chunks_cover:
  assumes "0x1000 dvd unat len" and "unat base + unat len < 2 ^ 64"
  shows "(\<Union>z \<in> set (zone_chunks base len). zone_bytes z) = {unat base ..< unat base + unat len} \<and>
    sorted_wrt (\<lambda>y z. zone_bytes y \<inter> zone_bytes z = {}) (zone_chunks base len) \<and>
    (\<forall>z \<in> set (zone_chunks base len). 0 < unat (snd z) \<and> unat (snd z) \<le> 0x100000)"
  using assms
proof (induction base len rule: zone_chunks.induct)
  case (1 base len)
  show ?case
  proof (cases "len \<ge> 0x1000")
    case False
    then have "unat len < 0x1000" by (simp add: word_le_nat_alt)
    then have "unat len = 0" using "1.prems"(1) nat_dvd_not_less [of "unat len" "0x1000"] by (cases "unat len = 0") simp_all
    moreover have "zone_chunks base len = []" using False by (subst zone_chunks.simps) simp
    ultimately show ?thesis by simp
  next
    case True
    define c where "c = (if len > kMaxZoneSize then kMaxZoneSize else len)"
    have L: "0x1000 \<le> unat len" using True by (simp add: word_le_nat_alt)
    have c_eq: "unat c = (if unat len > 0x100000000 then 0x100000000 else unat len)"
      unfolding c_def word_less_nat_alt kMaxZone by (simp only: if_distrib [of unat] kMaxZone)
    have cl: "unat c \<le> unat len" "0x1000 dvd unat c" "0 < unat c" "unat c \<le> 0x100000000"
      using "1.prems"(1) L by (simp_all add: c_eq)
    have sub: "unat (len - c) = unat len - unat c" using cl(1) by (simp add: unat_sub word_le_nat_alt)
    have add: "unat (base + c) = unat base + unat c" using cl(1) "1.prems"(2) by (intro unat_plus_no_wrap) simp
    have pages: "0x1000 * unat (c div 0x1000) = unat c" using cl(2) by (simp add: unat_div)
    have rng: "0 < unat (c div 0x1000)" "unat (c div 0x1000) \<le> 0x100000" using cl(3,4) pages by linarith+
    have lt: "unat base + unat c + (unat len - unat c) < 2 ^ 64" and end_eq: "unat base + unat c + (unat len - unat c) = unat base + unat len"
      using cl(1) "1.prems"(2) by linarith+
    note ih = "1.IH" [OF True c_def, unfolded sub add, OF dvd_diff_nat [OF "1.prems"(1) cl(2)] lt, unfolded end_eq]
    note IH = ih [THEN conjunct1] ih [THEN conjunct2, THEN conjunct1] ih [THEN conjunct2, THEN conjunct2]
    have eq: "zone_chunks base len = (base, c div 0x1000) # zone_chunks (base + c) (len - c)"
      using True by (subst zone_chunks.simps) (simp add: c_def Let_def)
    have zb: "zone_bytes (base, c div 0x1000) = {unat base ..< unat base + unat c}" using pages by (simp add: zone_bytes_def)
    have "zone_bytes (base, c div 0x1000) \<inter> zone_bytes z = {}" if "z \<in> set (zone_chunks (base + c) (len - c))" for z
    proof -
      have "zone_bytes z \<subseteq> {unat base + unat c ..< unat base + unat len}" unfolding IH(1) [symmetric] using that by blast
      then show ?thesis unfolding zb by auto
    qed
    moreover have "{unat base ..< unat base + unat c} \<union> {unat base + unat c ..< unat base + unat len} = {unat base ..< unat base + unat len}"
      using cl(1) by (intro ivl_disj_un_two(3)) simp_all
    ultimately show ?thesis unfolding eq list.set sorted_wrt.simps UN_insert IH(1) zb using IH(2,3) rng by simp
  qed
qed

text \<open>The zones of one entry: all of it, less the front that the descriptor array takes.\<close>

definition left_of :: "bool \<Rightarrow> u64 \<Rightarrow> limine_memmap_entry \<Rightarrow> nat set" where
  "left_of is_best used e =
     (if usable e then entry_bytes e - (if is_best then {unat (me_base e) ..< unat (me_base e) + unat used} else {}) else {})"

definition zones_of :: "(u64 \<times> u64) list \<Rightarrow> nat set \<Rightarrow> bool" where
  "zones_of zs A \<longleftrightarrow> (\<Union>z \<in> set zs. zone_bytes z) = A \<and> sorted_wrt (\<lambda>y z. zone_bytes y \<inter> zone_bytes z = {}) zs \<and>
     (\<forall>z \<in> set zs. 0 < unat (snd z) \<and> unat (snd z) \<le> 0x100000)"

lemma zones_of_Nil [simp]: "zones_of [] {}"
  by (simp add: zones_of_def)

lemma zones_of_append:
  assumes "zones_of ys A" and "zones_of zs B" and "A \<inter> B = {}"
  shows "zones_of (ys @ zs) (A \<union> B)"
proof -
  have "zone_bytes y \<inter> zone_bytes z = {}" if "y \<in> set ys" "z \<in> set zs" for y z
    using that assms by (auto simp: zones_of_def)
  then show ?thesis using assms(1,2) by (auto simp: zones_of_def sorted_wrt_append)
qed

lemma entry_zones_left:
  assumes "usable e \<Longrightarrow> 0x1000 dvd unat (me_length e) \<and> unat (me_base e) + unat (me_length e) < 2 ^ 64" and "0x1000 dvd unat used"
  shows "zones_of (entry_zones is_best used e) (left_of is_best used e)"
proof (cases "usable e")
  case True
  note e = assms(1) [OF True]
  show ?thesis
  proof (cases is_best)
    case False
    then show ?thesis
      using True zone_chunks_cover [of "me_length e" "me_base e"] e by (simp add: entry_zones_def left_of_def zones_of_def entry_bytes_def)
  next
    case best: True
    show ?thesis
    proof (cases "me_length e \<le> used")
      case True
      then have "unat (me_length e) \<le> unat used" by (simp add: word_le_nat_alt)
      then have "left_of is_best used e = {}" by (auto simp: left_of_def entry_bytes_def best)
      then show ?thesis using best True by (simp add: entry_zones_def)
    next
      case False
      then have lt: "unat used < unat (me_length e)" by (simp add: word_le_nat_alt)
      have sub: "unat (me_length e - used) = unat (me_length e) - unat used" using lt by (simp add: unat_sub word_le_nat_alt)
      have add: "unat (me_base e + used) = unat (me_base e) + unat used" using lt e by (intro unat_plus_no_wrap) simp
      have "left_of is_best used e = {unat (me_base e) + unat used ..< unat (me_base e) + unat (me_length e)}"
        using best \<open>usable e\<close> by (auto simp: left_of_def entry_bytes_def)
      moreover have "0x1000 dvd unat (me_length e - used)" "unat (me_base e + used) + unat (me_length e - used) < 2 ^ 64"
        using e lt assms(2) by (simp_all add: sub add dvd_diff_nat)
      ultimately show ?thesis
        using best False \<open>usable e\<close> lt zone_chunks_cover [of "me_length e - used" "me_base e + used"]
        by (simp add: entry_zones_def zones_of_def sub add)
    qed
  qed
qed (simp add: entry_zones_def left_of_def)

lemma left_of_sub: "left_of b u e \<subseteq> (if usable e then entry_bytes e else {})"
  by (auto simp: left_of_def)

lemma register_zones_left:
  assumes "memmap_ok es" and "0x1000 dvd unat used"
  shows "zones_of (register_zones i best used es) (\<Union>j < length es. left_of (i + j = best) used (es ! j))"
  using assms(1)
proof (induction es arbitrary: i)
  case (Cons e es)
  have ok: "memmap_ok es"
  proof -
    have "\<forall>i < length es. \<forall>j < length es. i \<noteq> j \<longrightarrow> usable (es ! i) \<longrightarrow> usable (es ! j) \<longrightarrow> entry_bytes (es ! i) \<inter> entry_bytes (es ! j) = {}"
    proof (intro allI impI)
      fix i j assume "i < length es" "j < length es" "i \<noteq> j" "usable (es ! i)" "usable (es ! j)"
      then show "entry_bytes (es ! i) \<inter> entry_bytes (es ! j) = {}"
        using Cons.prems unfolding memmap_ok_def by (elim conjE allE [of _ "Suc i"]) (auto elim!: allE [of _ "Suc j"])
    qed
    then show ?thesis using Cons.prems by (simp add: memmap_ok_def)
  qed
  have split: "(\<Union>j < length (e # es). left_of (i + j = best) used ((e # es) ! j)) =
      left_of (i = best) used e \<union> (\<Union>j < length es. left_of (Suc i + j = best) used (es ! j))"
    by (simp add: lessThan_Suc_eq_insert_0 image_image)
  have apart: "left_of (i = best) used e \<inter> (\<Union>j < length es. left_of (Suc i + j = best) used (es ! j)) = {}"
  proof -
    have "left_of (i = best) used e \<inter> left_of (Suc i + j = best) used (es ! j) = {}" if "j < length es" for j
    proof -
      have "usable e \<longrightarrow> usable (es ! j) \<longrightarrow> entry_bytes e \<inter> entry_bytes (es ! j) = {}"
        using Cons.prems that unfolding memmap_ok_def by (elim conjE allE [of _ "0"]) (auto elim!: allE [of _ "Suc j"])
      then show ?thesis using left_of_sub [of "i = best" used e] left_of_sub [of "Suc i + j = best" used "es ! j"]
        by (auto split: if_splits)
    qed
    then show ?thesis by auto
  qed
  have "zones_of (entry_zones (i = best) used e) (left_of (i = best) used e)"
    using Cons.prems assms(2) by (intro entry_zones_left) (auto simp: memmap_ok_def)
  then show ?case unfolding split register_zones.simps using Cons.IH [OF ok, of "Suc i"] apart by (rule zones_of_append)
qed simp

text \<open>The chosen entry is usable, large enough and a longest one; there is none only when none is large enough.\<close>

definition best_step :: "u64 \<Rightarrow> limine_memmap_entry list \<Rightarrow> nat \<Rightarrow> nat option \<Rightarrow> nat option" where
  "best_step n es = (\<lambda>i best.
     if usable (es ! i) \<and> me_length (es ! i) \<ge> n \<and>
        (case best of None \<Rightarrow> True | Some b \<Rightarrow> me_length (es ! i) > me_length (es ! b))
     then Some i else best)"

lemma best_fold:
  "case fold (best_step n es) [0..<m] None of
      None \<Rightarrow> \<forall>i < m. usable (es ! i) \<longrightarrow> me_length (es ! i) < n
    | Some b \<Rightarrow> b < m \<and> usable (es ! b) \<and> n \<le> me_length (es ! b) \<and> (\<forall>i < m. usable (es ! i) \<longrightarrow> me_length (es ! i) \<le> me_length (es ! b))"
proof (induction m)
  case (Suc m)
  then show ?case
    by (cases "fold (best_step n es) [0..<m] None") (auto simp: best_step_def less_Suc_eq not_less not_le)
qed simp

lemma best_entry_Some:
  assumes "best_entry n es = Some b"
  shows "b < length es \<and> usable (es ! b) \<and> n \<le> me_length (es ! b)"
  using best_fold [where n = n and es = es and m = "length es"] assms by (auto simp: best_entry_def best_step_def [symmetric])

lemma best_entry_None:
  assumes "best_entry n es = None"
  shows "\<forall>e \<in> set es. usable e \<longrightarrow> me_length e < n"
  using best_fold [where n = n and es = es and m = "length es"] assms by (auto simp: best_entry_def best_step_def [symmetric] in_set_conv_nth)

text \<open>The bytes left are the usable ones without the front of the chosen region.\<close>

lemma left_of_union:
  assumes "memmap_ok es" and "b < length es" and "usable (es ! b)"
    and "{unat (me_base (es ! b)) ..< unat (me_base (es ! b)) + unat used} \<subseteq> entry_bytes (es ! b)"
  shows "(\<Union>j < length es. left_of (j = b) used (es ! j)) =
     (\<Union>e \<in> {e \<in> set es. usable e}. entry_bytes e) - {unat (me_base (es ! b)) ..< unat (me_base (es ! b)) + unat used}"
    (is "?L = ?U - ?pd")
proof (rule set_eqI)
  fix a
  have dis: "a \<in> entry_bytes (es ! j) \<Longrightarrow> usable (es ! j) \<Longrightarrow> j < length es \<Longrightarrow> a \<in> ?pd \<Longrightarrow> j = b" for j
    using assms unfolding memmap_ok_def by blast
  have "a \<in> ?L \<longleftrightarrow> (\<exists>j < length es. usable (es ! j) \<and> a \<in> entry_bytes (es ! j) \<and> (j = b \<longrightarrow> a \<notin> ?pd))"
    by (auto simp: left_of_def split: if_splits)
  also have "\<dots> \<longleftrightarrow> (\<exists>j < length es. usable (es ! j) \<and> a \<in> entry_bytes (es ! j)) \<and> a \<notin> ?pd" using dis by blast
  also have "\<dots> \<longleftrightarrow> a \<in> ?U - ?pd" by (auto simp: in_set_conv_nth)
  finally show "a \<in> ?L \<longleftrightarrow> a \<in> ?U - ?pd" .
qed

lemma page_round:
  fixes n :: u64
  assumes "unat n \<le> L" and "0x1000 dvd L" and "L < 2 ^ 64"
  shows "0x1000 dvd unat ((n + 0x1000 - 1) AND NOT (0x1000 - 1))" "unat n \<le> unat ((n + 0x1000 - 1) AND NOT (0x1000 - 1))"
    "unat ((n + 0x1000 - 1) AND NOT (0x1000 - 1)) \<le> L"
proof -
  have m: "(0x1000 - 1 :: u64) = mask 12" by (simp add: mask_eq_exp_minus_1)
  have L: "L + 0x1000 \<le> 2 ^ 64" using assms(2,3) by (auto simp: dvd_def)
  have "unat (n + 0xFFF) = unat n + 0xFFF" using assms(1) L by (intro unat_plus_no_wrap [where a = n and b = "0xFFF", simplified]) simp
  then have w: "unat ((n + 0x1000 - 1) AND NOT (0x1000 - 1)) = (unat n + 0xFFF) div 0x1000 * 0x1000"
  proof -
    have "(unat n + 0xFFF) div 0x1000 * 0x1000 < 2 ^ 64" using assms(1) L by (intro le_less_trans [OF div_times_less_eq_dividend]) simp
    moreover have "n + 0x1000 - 1 = n + 0xFFF" by simp
    ultimately show ?thesis unfolding m and_not_mask
      using \<open>unat (n + 0xFFF) = _\<close> by (simp only: unat_push_bit unat_drop_bit) simp
  qed
  show "0x1000 dvd unat ((n + 0x1000 - 1) AND NOT (0x1000 - 1))" unfolding w by simp
  show "unat n \<le> unat ((n + 0x1000 - 1) AND NOT (0x1000 - 1))" unfolding w by simp
  show "unat ((n + 0x1000 - 1) AND NOT (0x1000 - 1)) \<le> L"
  proof -
    obtain q where q: "L = 0x1000 * q" using assms(2) by (auto simp: dvd_def)
    then have "(unat n + 0xFFF) div 0x1000 \<le> q" using assms(1) by linarith
    then show ?thesis unfolding w q by simp
  qed
qed

section \<open>Properties\<close>

text \<open>
  C25: The page frame allocator is given all usable memory once, and never the page descriptors. For a memory map as the boot
  protocol promises it, the zones registered are pairwise disjoint, of 1 to \<open>2 ^ 20\<close> pages each (the largest block of the
  allocator), and together they are exactly the bytes of the usable regions less the pages taken at the front of the
  chosen region, which hold the descriptor array and lie inside that region. Initialization panics only when no usable region is large
  enough for the array.
\<close>

theorem zones_partition_usable:
  assumes "memmap_ok es"
  shows "case InitPhysical StorageSize es of
      Value p \<Rightarrow>
        (let pd = {unat (pd_base p) ..< unat (pd_base p) + unat (pd_used p)} in
         (\<Union>z \<in> set (zones p). zone_bytes z) = (\<Union>e \<in> {e \<in> set es. usable e}. entry_bytes e) - pd \<and>
         sorted_wrt (\<lambda>y z. zone_bytes y \<inter> zone_bytes z = {}) (zones p) \<and>
         (\<forall>z \<in> set (zones p). 0 < unat (snd z) \<and> unat (snd z) \<le> 2 ^ 20) \<and>
         (\<exists>e \<in> set es. usable e \<and> pd \<subseteq> entry_bytes e) \<and> unat (StorageSize (pd_pages p)) \<le> unat (pd_used p))
    | r \<Rightarrow> r = Bug \<and> (\<forall>e \<in> set es. usable e \<longrightarrow> me_length e < StorageSize (total_pages es))"
proof (cases "best_entry (StorageSize (total_pages es)) es")
  case None
  then have "\<forall>e \<in> set es. usable e \<longrightarrow> me_length e < StorageSize (total_pages es)" by (rule best_entry_None)
  with None show ?thesis by (simp add: InitPhysical_def Let_def)
next
  case (Some b)
  define used where "used = (StorageSize (total_pages es) + 0x1000 - 1) AND NOT (0x1000 - 1)"
  note b = best_entry_Some [OF Some]
  have e: "es ! b \<in> set es" "usable (es ! b)" using b by simp_all
  then have ok: "0x1000 dvd unat (me_length (es ! b))" "unat (me_base (es ! b)) + unat (me_length (es ! b)) < 2 ^ 64"
    using assms by (auto simp: memmap_ok_def)
  have "unat (StorageSize (total_pages es)) \<le> unat (me_length (es ! b))" using b by (simp add: word_le_nat_alt)
  from page_round [OF this ok(1)] ok(2) have pr: "0x1000 dvd unat used" "unat (StorageSize (total_pages es)) \<le> unat used"
    "unat used \<le> unat (me_length (es ! b))" by (simp_all add: used_def)
  have r: "InitPhysical StorageSize es = Value \<lparr>pd_base = me_base (es ! b), pd_used = used, pd_pages = total_pages es,
      zones = register_zones 0 b used es\<rparr>"
    using Some by (simp add: InitPhysical_def Let_def used_def)
  let ?pd = "{unat (me_base (es ! b)) ..< unat (me_base (es ! b)) + unat used}"
  have sub: "?pd \<subseteq> entry_bytes (es ! b)" using pr(3) by (auto simp: entry_bytes_def)
  have "(\<Union>j < length es. left_of (0 + j = b) used (es ! j)) = (\<Union>e \<in> {e \<in> set es. usable e}. entry_bytes e) - ?pd"
    using left_of_union [OF assms, of b used] b sub by simp
  then have "zones_of (register_zones 0 b used es) ((\<Union>e \<in> {e \<in> set es. usable e}. entry_bytes e) - ?pd)"
    using register_zones_left [OF assms pr(1), of 0 b] by simp
  then show ?thesis unfolding r using e sub pr(2) by (auto simp: zones_of_def Let_def)
qed

text \<open>Two usable regions of 1 MiB and 8 GiB with a reserved one between them.\<close>

definition ex_memmap :: "limine_memmap_entry list" where
  "ex_memmap = [\<lparr>me_base = 0x1000, me_length = 0x100000, me_type = 0\<rparr>, \<lparr>me_base = 0x101000, me_length = 0x1000, me_type = 1\<rparr>,
     \<lparr>me_base = 0x200000, me_length = 0x200000000, me_type = 0\<rparr>]"

theorem zones_partition_usable_witness:
  "\<exists>p. InitPhysical (\<lambda>n. 64 * n) ex_memmap = Value p \<and> (\<forall>z \<in> set (zones p). 0 < unat (snd z)) \<and>
     0x1000 \<in> (\<Union>z \<in> set (zones p). zone_bytes z)"
proof -
  have ok: "memmap_ok ex_memmap"
    by (auto simp: memmap_ok_def ex_memmap_def usable_def LIMINE_MEMMAP_USABLE_def entry_bytes_def less_Suc_eq dvd_def
        intro!: exI [of _ "0x200"] exI [of _ "0x100"] exI [of _ "1"] exI [of _ "0x200000"])
  have b: "best_entry (64 * total_pages ex_memmap) ex_memmap = Some 2" by code_simp
  obtain p where p: "InitPhysical (\<lambda>n. 64 * n) ex_memmap = Value p" "pd_base p = 0x200000"
    by (simp add: InitPhysical_def Let_def b) (simp add: ex_memmap_def)
  have "ex_memmap ! 0 \<in> {e \<in> set ex_memmap. usable e}" "0x1000 \<in> entry_bytes (ex_memmap ! 0)"
    by (simp_all add: ex_memmap_def usable_def LIMINE_MEMMAP_USABLE_def entry_bytes_def)
  then have "0x1000 \<in> (\<Union>e \<in> {e \<in> set ex_memmap. usable e}. entry_bytes e)" by blast
  then have in_U: "0x1000 \<in> (\<Union>e \<in> {e \<in> set ex_memmap. usable e}. entry_bytes e) - {0x200000 ..< 0x200000 + unat (pd_used p)}" by simp
  from zones_partition_usable [OF ok, of "\<lambda>n. 64 * n"]
  have z: "(\<Union>z \<in> set (zones p). zone_bytes z) = (\<Union>e \<in> {e \<in> set ex_memmap. usable e}. entry_bytes e) - {0x200000 ..< 0x200000 + unat (pd_used p)}"
    "\<forall>z \<in> set (zones p). 0 < unat (snd z)"
    by (simp_all add: p Let_def)
  show ?thesis by (intro exI [of _ p] conjI p(1) z(2)) (subst z(1), rule in_U)
qed

end
