(* ===== verification/MemManager.thy ===== *)
theory MemManager
  imports PhysMem Entry
begin

text \<open>
  The kernel memory manager object (\<open>include/ceryx/mm/MemoryManager.hpp\<close>, \<open>Initialize\<close> in \<open>arch/x86_64/mm/MemoryManager.cpp\<close>): the order in
  which the allocators are built on the zones of \<open>PhysMem\<close>, the pointers that become valid, the getters, and the accessor of the
  direct map. The allocators are classes of FoundationKit: their constructors and calls are the parameter \<open>mm_lib\<close>, acting on the
  same abstract state as the rest of the library. An object lives in a static buffer, whose address \<open>mm_statics\<close> gives.
\<close>

section \<open>State\<close>

record MemoryManager =
  m_pfa :: "addr option"
  m_ptm :: "addr option"
  m_pd_array :: "addr option"
  m_vma_alloc :: "addr option"
  m_kmm :: "addr option"
  m_heap_alloc :: "addr option"

definition MemoryManager_new :: MemoryManager where
  "MemoryManager_new = \<lparr>m_pfa = None, m_ptm = None, m_pd_array = None, m_vma_alloc = None, m_kmm = None, m_heap_alloc = None\<rparr>"

record mm_statics =
  pfa_storage :: addr
  ptm_storage :: addr
  pd_array_storage_obj :: addr
  vma_storage :: addr
  kmm_storage :: addr
  heap_alloc_storage :: addr

record 'k mm_lib =
  StorageSize :: "u64 \<Rightarrow> u64"
  pd_Initialize :: "addr \<Rightarrow> u64 \<Rightarrow> u64 \<Rightarrow> 'k \<Rightarrow> 'k"
  RegisterZone :: "u64 \<Rightarrow> u64 \<Rightarrow> addr \<Rightarrow> 'k \<Rightarrow> 'k"
  pfa_Boot :: "'k \<Rightarrow> 'k"
  ptm_new :: "u64 \<Rightarrow> bool \<Rightarrow> u64 \<Rightarrow> 'k \<Rightarrow> 'k"
  pfa_AllocatePages :: "u64 \<Rightarrow> 'k \<Rightarrow> u64 option \<times> 'k"
  vma_Initialize :: "addr \<Rightarrow> u64 \<Rightarrow> 'k \<Rightarrow> 'k"
  kmm_new :: "u64 \<Rightarrow> u64 \<Rightarrow> 'k \<Rightarrow> 'k"
  EnqueueUnlocked :: "u64 \<Rightarrow> 'k \<Rightarrow> 'k"
  SetWatermarks :: "u64 \<Rightarrow> u64 \<Rightarrow> u64 \<Rightarrow> 'k \<Rightarrow> 'k"
  kmm_AllocateKernel :: "u64 \<Rightarrow> 'k \<Rightarrow> addr option \<times> 'k"
  heap_Initialize :: "addr \<Rightarrow> u64 \<Rightarrow> 'k \<Rightarrow> 'k"
  InitializeGlobalAllocator :: "'k \<Rightarrow> 'k"
  heap_Allocate :: "u64 \<Rightarrow> u64 \<Rightarrow> 'k \<Rightarrow> addr option \<times> 'k"
  heap_Deallocate :: "addr \<Rightarrow> u64 \<Rightarrow> 'k \<Rightarrow> 'k"

section \<open>The direct map\<close>

definition ToVirtual :: "u64 \<Rightarrow> u64 \<Rightarrow> addr" where
  "ToVirtual hhdm_offset pa = hhdm_offset + pa"

definition ToPhysical :: "u64 \<Rightarrow> addr \<Rightarrow> u64" where
  "ToPhysical hhdm_offset va = va - hhdm_offset"

definition ZeroPage :: "u64 \<Rightarrow> u64 \<Rightarrow> mem \<Rightarrow> mem" where
  "ZeroPage hhdm_offset pa m = MemoryZero m (ToVirtual hhdm_offset pa) kPageSize"

definition CopyPage :: "u64 \<Rightarrow> u64 \<Rightarrow> u64 \<Rightarrow> mem \<Rightarrow> mem" where
  "CopyPage hhdm_offset src dst m = MemoryCopy m (ToVirtual hhdm_offset dst) (ToVirtual hhdm_offset src) kPageSize"

section \<open>Initialization\<close>

definition GetKernelTop :: u64 where
  "GetKernelTop = 0xFFFFFFFFFFFFF000"

text \<open>Steps 2 and 3: the array of page descriptors and the zones of the page frame allocator.\<close>

definition init_frames ::
  "'k mm_lib \<Rightarrow> mm_statics \<Rightarrow> u64 \<Rightarrow> limine_memmap_entry list \<Rightarrow> MemoryManager \<times> 'k \<Rightarrow> (u64 \<times> MemoryManager \<times> 'k) expected" where
  "init_frames L S hhdm_offset es ml =
     (case ml of (mm, l) \<Rightarrow>
      case InitPhysical (StorageSize L) es of
        Value ph \<Rightarrow>
          (let l = pd_Initialize L (ToVirtual hhdm_offset (pd_base ph)) 0 (pd_pages ph) l;
               l = fold (\<lambda>(base, n). RegisterZone L base n (ToVirtual hhdm_offset base)) (zones ph) l
           in Value (pd_pages ph, mm\<lparr>m_pd_array := Some (pd_array_storage_obj S), m_pfa := Some (pfa_storage S)\<rparr>, pfa_Boot L l))
      | _ \<Rightarrow> Bug)"

text \<open>Steps 4 to 6: page tables on the root that the boot loader left, the allocator of mapping nodes, the kernel memory manager.\<close>

definition kVmaPages :: u64 where "kVmaPages = 8192"

definition init_mappings ::
  "'k mm_lib \<Rightarrow> mm_statics \<Rightarrow> ('v, 'r, 'k, 'a) plat \<Rightarrow> u64 \<Rightarrow> u64 \<Rightarrow> MemoryManager \<times> 'k \<Rightarrow> (MemoryManager \<times> 'k) expected" where
  "init_mappings L S P cr3_base hhdm_offset ml =
     (case ml of (mm, l) \<Rightarrow>
        (let l = ptm_new L cr3_base (paging_level5 P) hhdm_offset l;
             mm = mm\<lparr>m_ptm := Some (ptm_storage S)\<rparr>
         in case pfa_AllocatePages L kVmaPages l of
              (None, l) \<Rightarrow> Bug
            | (Some pfn, l) \<Rightarrow>
                (let l = vma_Initialize L (ToVirtual hhdm_offset (pfn * kPageSize)) (kVmaPages * kPageSize) l;
                     l = kmm_new L (GetKernelBase P) GetKernelTop l
                 in Value (mm\<lparr>m_vma_alloc := Some (vma_storage S), m_kmm := Some (kmm_storage S)\<rparr>, l))))"

text \<open>Steps 7 to 9: every page on the free queue, the watermarks, the heap.\<close>

definition kHeapInitialSize :: u64 where "kHeapInitialSize = 32 * 1024 * 1024"

definition init_heap ::
  "'k mm_lib \<Rightarrow> mm_statics \<Rightarrow> u64 \<Rightarrow> MemoryManager \<times> 'k \<Rightarrow> (MemoryManager \<times> 'k) expected" where
  "init_heap L S n_pages ml =
     (case ml of (mm, l) \<Rightarrow>
        (let l = fold (\<lambda>i. EnqueueUnlocked L (of_nat i)) [0..<unat n_pages] l;
             l = SetWatermarks L ((1 * 1024 * 1024) div kPageSize) ((4 * 1024 * 1024) div kPageSize) ((16 * 1024 * 1024) div kPageSize) l
         in case kmm_AllocateKernel L (kHeapInitialSize div kPageSize) l of
              (None, l) \<Rightarrow> Bug
            | (Some heap_addr, l) \<Rightarrow>
                Value (mm\<lparr>m_heap_alloc := Some (heap_alloc_storage S)\<rparr>, InitializeGlobalAllocator L (heap_Initialize L heap_addr kHeapInitialSize l))))"

text \<open>The last step allocates 64 bytes from the new heap and gives them back.\<close>

definition heap_test :: "'k mm_lib \<Rightarrow> 'k \<Rightarrow> 'k expected" where
  "heap_test L l = (case heap_Allocate L 64 16 l of (None, l) \<Rightarrow> Bug | (Some q, l) \<Rightarrow> Value (heap_Deallocate L q 64 l))"

text \<open>The whole of \<open>Initialize\<close>. The state is \<open>s_instance\<close> (\<open>None\<close> while it is null), the interrupt handlers and the library.\<close>

definition MemoryManager_Initialize ::
  "'k mm_lib \<Rightarrow> mm_statics \<Rightarrow> ('v, 'r, 'k, 'a) plat \<Rightarrow> u64 \<Rightarrow> limine_memmap_entry list option \<Rightarrow> u64 option \<Rightarrow>
   MemoryManager option \<times> (nat \<rightharpoonup> InterruptHandler) \<times> 'k \<Rightarrow> (MemoryManager option \<times> (nat \<rightharpoonup> InterruptHandler) \<times> 'k) expected" where
  "MemoryManager_Initialize L S P cr3_base memmap_response hhdm_response ihl =
     (case (ihl, memmap_response, hhdm_response) of
        ((None, hs, l), Some es, Some hhdm_offset) \<Rightarrow>
          bind_expected (init_frames L S hhdm_offset es (MemoryManager_new, l)) (\<lambda>(n_pages, ml).
          bind_expected (init_mappings L S P cr3_base hhdm_offset ml) (\<lambda>ml.
          bind_expected (init_heap L S n_pages ml) (\<lambda>(mm, l).
          bind_expected (heap_test L l) (\<lambda>l. Value (Some mm, RegisterHandler 14 PageFaultHandler hs, l)))))
      | _ \<Rightarrow> Bug)"

section \<open>The getters\<close>

definition getter :: "(MemoryManager \<Rightarrow> addr option) \<Rightarrow> MemoryManager option \<Rightarrow> addr expected" where
  "getter f s_instance = (case Option.bind s_instance f of None \<Rightarrow> Bug | Some a \<Rightarrow> Value a)"

definition GetPfa :: "MemoryManager option \<Rightarrow> addr expected" where "GetPfa = getter m_pfa"

definition GetPtm :: "MemoryManager option \<Rightarrow> addr expected" where "GetPtm = getter m_ptm"

definition GetKmm :: "MemoryManager option \<Rightarrow> addr expected" where "GetKmm = getter m_kmm"

definition GetVmaAllocator :: "MemoryManager option \<Rightarrow> addr expected" where "GetVmaAllocator = getter m_vma_alloc"

definition GetPdArray :: "MemoryManager option \<Rightarrow> addr expected" where "GetPdArray = getter m_pd_array"

text \<open>The queues are a member of the kernel memory manager: the model returns the address of that object.\<close>

definition GetQueues :: "MemoryManager option \<Rightarrow> addr expected" where "GetQueues = getter m_kmm"

section \<open>Lemmas\<close>

lemma direct_map_inverse [simp]: "ToPhysical h (ToVirtual h pa) = pa" "ToVirtual h (ToPhysical h va) = va"
  by (simp_all add: ToPhysical_def ToVirtual_def)

text \<open>The manager after each group of steps.\<close>

lemma init_parts:
  shows "init_frames L S h es (mm, l) = Value (n, mm', l') \<Longrightarrow>
      mm' = mm\<lparr>m_pd_array := Some (pd_array_storage_obj S), m_pfa := Some (pfa_storage S)\<rparr> \<and> n = total_pages es"
    "init_mappings L S P c h (mm, l) = Value (mm', l') \<Longrightarrow>
      mm' = mm\<lparr>m_ptm := Some (ptm_storage S), m_vma_alloc := Some (vma_storage S), m_kmm := Some (kmm_storage S)\<rparr>"
    "init_heap L S k (mm, l) = Value (mm', l') \<Longrightarrow> mm' = mm\<lparr>m_heap_alloc := Some (heap_alloc_storage S)\<rparr>"
  by (auto simp: init_frames_def init_mappings_def init_heap_def InitPhysical_def Let_def split: expected.splits option.splits prod.splits)

text \<open>
  Initialization happens once, with both responses of the boot loader, and makes every getter return its static object; before
  it, every getter panics.
\<close>

lemma getters_before: "GetPfa None = Bug" "GetPtm None = Bug" "GetKmm None = Bug" "GetVmaAllocator None = Bug" "GetPdArray None = Bug" "GetQueues None = Bug"
  by (simp_all add: GetPfa_def GetPtm_def GetKmm_def GetVmaAllocator_def GetPdArray_def GetQueues_def getter_def)

lemma MemoryManager_Initialize_ready:
  assumes "MemoryManager_Initialize L S P c memmap hhdm_r (inst, hs, l) = Value (inst', hs', l')"
  shows "inst = None" "memmap \<noteq> None" "hhdm_r \<noteq> None" "hs' = hs(14 \<mapsto> PageFaultHandler)"
    "GetPfa inst' = Value (pfa_storage S)" "GetPtm inst' = Value (ptm_storage S)" "GetKmm inst' = Value (kmm_storage S)"
    "GetVmaAllocator inst' = Value (vma_storage S)" "GetPdArray inst' = Value (pd_array_storage_obj S)" "GetQueues inst' = Value (kmm_storage S)"
proof -
  note run = assms [unfolded MemoryManager_Initialize_def]
  show i: "inst = None" "memmap \<noteq> None" "hhdm_r \<noteq> None" using run by (simp_all split: option.splits)
  then obtain es h where eh: "memmap = Some es" "hhdm_r = Some h" by blast
  obtain n mm1 l1 mm2 l2 mm3 l3 where 1: "init_frames L S h es (MemoryManager_new, l) = Value (n, mm1, l1)"
    and 2: "init_mappings L S P c h (mm1, l1) = Value (mm2, l2)" and 3: "init_heap L S n (mm2, l2) = Value (mm3, l3)"
    using run by (auto simp: i eh bind_expected_Value)
  have "inst' = Some mm3" and hs: "hs' = hs(14 \<mapsto> PageFaultHandler)"
    using run by (auto simp: i eh 1 2 3 bind_expected_Value RegisterHandler_def)
  then show "GetPfa inst' = Value (pfa_storage S)" "GetPtm inst' = Value (ptm_storage S)" "GetKmm inst' = Value (kmm_storage S)"
    "GetVmaAllocator inst' = Value (vma_storage S)" "GetPdArray inst' = Value (pd_array_storage_obj S)" "GetQueues inst' = Value (kmm_storage S)"
    using init_parts(1) [OF 1] init_parts(2) [OF 2] init_parts(3) [OF 3]
    by (simp_all add: GetPfa_def GetPtm_def GetKmm_def GetVmaAllocator_def GetPdArray_def GetQueues_def getter_def)
  show "hs' = hs(14 \<mapsto> PageFaultHandler)" by (rule hs)
qed

end
