(* ===== verification/Startup.thy ===== *)
theory Startup
  imports Boot KernelSafety MemManager
begin

text \<open>
  The whole of \<open>start_kernel\<close> (\<open>init/main.cpp\<close>), composed of the initialization functions of the other theories, with the start of the
  scheduler on the kernel state (\<open>Scheduler::Start\<close>, \<open>Reaper::Initialize\<close>) and the choice of the clock source. The main result is that
  the state in which interrupts are enabled satisfies the invariant of \<open>KernelSafety\<close>, so that it holds in every run from power on.
\<close>

section \<open>State\<close>

text \<open>\<open>clock\<close> is the source handed to \<open>TimeKeeper::Register\<close>; its \<open>mult\<close> is computed by the library.\<close>

record ClockSourceDescriptor =
  cs_mult :: u64
  cs_shift :: nat
  cs_mask :: u64
  cs_uses_rdtscp :: bool

record ('v, 'r, 'k, 'a) machine =
  cpu_tables :: "(GdtTable \<times> Tss \<times> segments) option"
  idt_gates :: "IdtGate list"
  int_handlers :: "nat \<rightharpoonup> InterruptHandler"
  cr0_reg :: u64
  apic :: lapic
  mm_instance :: "MemoryManager option"
  clock_source :: "ClockSourceDescriptor option"
  interrupts_on :: bool
  kern :: "('v, 'r, 'k, 'a) kernel"

text \<open>What the boot loader and the linker provide: responses to the requests, addresses of code and of static objects.\<close>

record boot_info =
  framebuffer_response :: "framebuffer option"
  memmap_response :: "limine_memmap_entry list option"
  hhdm_response :: "u64 option"
  first_module :: "(addr \<times> u64) option"
  has_rdtscp :: bool

record code_addrs =
  at_console_font :: addr
  at_gdt :: addr
  at_tss :: addr
  at_isr_stubs :: "nat \<Rightarrow> u64"
  at_bsp_cpu_data :: addr
  at_bsp_kernel_stack :: addr
  at_SyscallEntry :: addr
  at_ThreadTrampoline :: addr
  at_idle_func :: addr
  at_ThreadFunc :: addr
  at_elf_header :: addr

section \<open>Operations\<close>

text \<open>\<open>new Thread(nullptr, true)\<close> with \<open>InitializeStack(entry, 0)\<close>; without storage the object is a null pointer that is used.\<close>

definition new_kernel_thread ::
  "('v, 'r, 'k, 'a) plat \<Rightarrow> code_addrs \<Rightarrow> addr \<Rightarrow> ('v, 'r, 'k, 'a) kernel \<Rightarrow> ((addr \<times> thread) \<times> ('v, 'r, 'k, 'a) kernel) expected" where
  "new_kernel_thread P C entry k =
     (case op_new (lib P) (kmm_of k) of
        (None, l) \<Rightarrow> Bug
      | (Some t, l) \<Rightarrow>
          (case AllocateKernel P l of
             (stack, l) \<Rightarrow>
               (case Thread_new None (s_next_tid (sch k)) stack of
                  Value (th, tid) \<Rightarrow>
                    (case InitializeStack (at_ThreadTrampoline C) t entry 0 th (kstacks k) of
                       (th, m) \<Rightarrow> Value ((t, th), (set_kmm l k)\<lparr>sch := (sch k)\<lparr>s_next_tid := tid\<rparr>, kstacks := m\<rparr>))
                | _ \<Rightarrow> Bug)))"

definition Reaper_start ::
  "('v, 'r, 'k, 'a) plat \<Rightarrow> code_addrs \<Rightarrow> ('v, 'r, 'k, 'a) kernel \<Rightarrow> ('v, 'r, 'k, 'a) kernel expected" where
  "Reaper_start P C k =
     bind_expected (new_kernel_thread P C (at_ThreadFunc C) k) (\<lambda>((t, th), k).
     bind_expected (Reaper_Initialize t (SetName (Some ''reaper'') th) (sch k)) (\<lambda>s. Value (k\<lparr>sch := s\<rparr>)))"

definition Scheduler_Start ::
  "('v, 'r, 'k, 'a) plat \<Rightarrow> code_addrs \<Rightarrow> ('v, 'r, 'k, 'a) kernel \<Rightarrow> ('v, 'r, 'k, 'a) kernel expected" where
  "Scheduler_Start P C k =
     bind_expected (new_kernel_thread P C (at_idle_func C) k) (\<lambda>((t, th), k). Reaper_start P C (k\<lparr>sch := Start t th (sch k)\<rparr>))"

definition tsc_clock :: "(u64 \<Rightarrow> u64) \<Rightarrow> bool \<Rightarrow> u64 \<Rightarrow> ClockSourceDescriptor" where
  "tsc_clock CalibrateMult rdtscp tsc_freq =
     \<lparr>cs_mult = CalibrateMult tsc_freq, cs_shift = 32, cs_mask = NOT 0, cs_uses_rdtscp = rdtscp\<rparr>"

text \<open>Up to the memory manager: console, descriptor tables, the per-processor data, paging and the heap.\<close>

definition kBspStackSize :: u64 where "kBspStackSize = 16384"

definition start_cpu ::
  "code_addrs \<Rightarrow> boot_info \<Rightarrow> ('v, 'r, 'k, 'a) machine \<Rightarrow> ('v, 'r, 'k, 'a) machine expected" where
  "start_cpu C B M =
     (let t = fs (io (kern M));
          (st, c, m) = linearfb_console_init (framebuffer_response B) (at_console_font C) (screen_console t, memory t);
          k = on_io (set_fs (t\<lparr>screen_console := c, memory := m\<rparr>)) (kern M);
          k = k\<lparr>sch := (sch k)\<lparr>kernel_stack := at_bsp_kernel_stack C + kBspStackSize\<rparr>\<rparr>
      in case arch_cpu_init_per_cpu (at_SyscallEntry C) (at_bsp_cpu_data C) (cr0_reg M, k) of
           Value (cr0, k) \<Rightarrow>
             Value (M\<lparr>cpu_tables := Some (Gdt_Initialize (at_gdt C) (at_tss C)), idt_gates := Idt_Initialize (at_isr_stubs C),
                      int_handlers := (\<lambda>_. None), cr0_reg := cr0, kern := k\<rparr>)
         | _ \<Rightarrow> Bug)"

definition start_memory ::
  "'k mm_lib \<Rightarrow> mm_statics \<Rightarrow> ('v, 'r, 'k, 'a) plat \<Rightarrow> boot_info \<Rightarrow> ('v, 'r, 'k, 'a) machine \<Rightarrow> ('v, 'r, 'k, 'a) machine expected" where
  "start_memory L S P B M =
     (if memmap_response B = None \<and> hhdm_response B = None then Bug
      else bind_expected
        (MemoryManager_Initialize L S P (Cr3PhysBase P (cr3 (sch (kern M)))) (memmap_response B) (hhdm_response B)
           (mm_instance M, int_handlers M, kmm_of (kern M)))
        (\<lambda>(inst, hs, l). Value (M\<lparr>mm_instance := inst, int_handlers := hs, kern := set_kmm l (kern M)\<rparr>)))"

text \<open>\<open>None\<close>: the calibration of the timer or the unpacking of the archive does not end. At the end \<open>sti\<close>; the loop that follows halts.\<close>

definition start_kernel ::
  "'k mm_lib \<Rightarrow> mm_statics \<Rightarrow> ('v, 'r, 'k, 'a) plat \<Rightarrow> code_addrs \<Rightarrow> timer_dev \<Rightarrow> (u64 \<Rightarrow> u64) \<Rightarrow> boot_info \<Rightarrow>
   ('v, 'r, 'k, 'a) machine \<Rightarrow> (addr option \<times> ('v, 'r, 'k, 'a) machine) expected option" where
  "start_kernel L S P C T CalibrateMult B M =
     (case bind_expected (start_cpu C B M) (start_memory L S P B) of
        Value M \<Rightarrow>
          (case ApicTimer_Initialize T (Lapic_Initialize T (apic M)) of
             None \<Rightarrow> None
           | Some d \<Rightarrow>
               (case Scheduler_Start P C (kern M) of
                  Value k \<Rightarrow>
                    (case start_userland P (at_SyscallEntry C) (at_elf_header C) (first_module B) (d, k) of
                       None \<Rightarrow> None
                     | Some (Value p, d', k) \<Rightarrow>
                         Some (Value (p, M\<lparr>apic := d', clock_source := Some (tsc_clock CalibrateMult (has_rdtscp B) (s_tsc_freq d)),
                                           interrupts_on := True, kern := k\<rparr>))
                     | Some _ \<Rightarrow> Some Bug)
                | _ \<Rightarrow> Some Bug))
      | _ \<Rightarrow> Some Bug)"

section \<open>Building and filling the tree frees nothing\<close>

lemma live_new_device:
  assumes K: "alloc_laws K live" and run: "new_device K dir nm t r w s = Value s'"
  shows "live (kmm s) \<subseteq> live (kmm s')"
proof -
  obtain a l where 1: "op_new K (kmm s) = (Some a, l)"
    using run by (auto simp: new_device_def split: prod.splits option.splits)
  obtain b l2 where 2: "PushBack_ok K l = (b, l2)" by fastforce
  have "live (kmm s) \<subseteq> live l" "live l \<subseteq> live l2" using alloc_lawsD(2,4) [OF K] 1 2 by blast+
  then show ?thesis using run 1 2
    by (auto simp: new_device_def bind_expected_Value InsertChild_def upd_vnode_def split: option.splits bool.splits if_splits)
qed

lemma live_boot_tree:
  assumes K: "alloc_laws K live" and run: "boot_tree K s = Value (root, s')"
  shows "live (kmm s) \<subseteq> live (kmm s')"
proof -
  have mk: "must_mkdir K dir nm x = Value (v, y) \<Longrightarrow> live (kmm x) \<subseteq> live (kmm y)"
    "try_mkdir K dir nm x = Value y \<Longrightarrow> live (kmm x) \<subseteq> live (kmm y)" for dir nm x v y
    using live_vnode_Mkdir [OF K] by (auto simp: must_mkdir_def try_mkdir_def split: prod.splits expected.splits)
  note D = live_new_device [OF K]
  have dev: "live (kmm x) \<subseteq> live (kmm y)" if "populate_dev K r x = Value y" for r x y
    using that unfolding populate_dev_def bind_expected_Value prod.case split_paired_Ex
    by (elim exE conjE) (drule mk D, drule D, drule D, drule D, blast)
  have pr: "live (kmm x) \<subseteq> live (kmm y)" if "populate_proc K r x = Value y" for r x y
    using that unfolding populate_proc_def bind_expected_Value prod.case split_paired_Ex
    by (elim exE conjE) (drule mk D, drule D, blast)
  obtain r l where n: "op_new K (kmm s) = (Some r, l)"
    using run by (auto simp: boot_tree_def split: prod.splits option.splits)
  note l = alloc_lawsD(2) [OF K n]
  show ?thesis
    using run l unfolding boot_tree_def n prod.case option.case bind_expected_Value split_paired_Ex
    by (elim exE conjE) (drule dev, drule pr, drule mk(2), drule mk(2), drule mk(2), drule mk(2), force)
qed

lemma live_entry_dirs:
  "alloc_laws K live \<Longrightarrow> entry_dirs K current ptr rest s = (r, s') \<Longrightarrow> live (kmm s) \<subseteq> live (kmm s')"
proof (induction K current ptr rest s arbitrary: r s' rule: entry_dirs.induct)
  case (1 K current ptr rest s)
  show ?case
  proof (cases "dropWhile (\<lambda>c. c \<noteq> CHR ''/'') rest")
    case Nil
    have "entry_dirs K current ptr rest s = (Value (current, View ptr (length rest)), s)"
      by (subst entry_dirs.simps) (simp only: Nil list.case)
    then show ?thesis using "1.prems"(2) by simp
  next
    case (Cons x rest')
    define dn where "dn = takeWhile (\<lambda>c. c \<noteq> CHR ''/'') rest"
    define p' where "p' = ptr + of_nat (length dn + 1)"
    obtain q s1 where mk: "vnode_Mkdir K current (View ptr (length dn)) s = (q, s1)" by fastforce
    have "entry_dirs K current ptr rest s =
        (if dn = [] \<or> dn = ''.'' then entry_dirs K current p' rest' s
         else case vnode_Lookup current dn s of
           Value v \<Rightarrow> entry_dirs K v p' rest' s
         | Unexpected _ \<Rightarrow> (case q of Value v \<Rightarrow> entry_dirs K v p' rest' s1 | Unexpected e \<Rightarrow> (Unexpected e, s1) | Bug \<Rightarrow> (Bug, s1))
         | Bug \<Rightarrow> (Bug, s))"
      by (subst entry_dirs.simps) (simp only: Cons list.case Let_def dn_def [symmetric] p'_def [symmetric] mk prod.case)
    note run = "1.prems"(2) [unfolded this]
    note IH = "1.IH" [OF Cons dn_def p'_def] and l1 = live_vnode_Mkdir [OF "1.prems"(1) mk]
    show ?thesis
    proof (cases "dn = [] \<or> dn = ''.''")
      case True
      then show ?thesis using IH(1) [OF True "1.prems"(1)] run by simp
    next
      case False
      show ?thesis
      proof (cases "vnode_Lookup current dn s")
        case (Value v)
        then show ?thesis using IH(2) [OF False Value "1.prems"(1)] run False by simp
      next
        case (Unexpected e)
        then show ?thesis using IH(3) [OF False Unexpected mk [symmetric] _ "1.prems"(1)] run False l1
          by (cases q) (simp_all, meson subset_trans)
      qed (use run False in simp)
    qed
  qed
qed

lemma live_CreateEntry:
  assumes K: "alloc_laws K live" and run: "CreateEntry K root path md dat sz s = (r, s')"
  shows "live (kmm s) \<subseteq> live (kmm s')"
proof -
  obtain q s1 where ed: "entry_dirs K root (case path of View p _ \<Rightarrow> p | Literal _ \<Rightarrow> 0) (chars (memory s) path) s = (q, s1)"
    by fastforce
  note l1 = live_entry_dirs [OF K ed]
  have mk: "live (kmm s) \<subseteq> live (kmm s2)" if "vnode_Mkdir K d nm s1 = (q2, s2)" for d nm q2 s2
    using l1 live_vnode_Mkdir [OF K that] by blast
  have cr: "live (kmm s) \<subseteq> live (kmm s2)" if "vnode_Create K d nm s1 = (q2, s2)" for d nm q2 s2
    using l1 live_vnode_Create [OF K that] by blast
  have wr: "live (kmm s) \<subseteq> live (kmm s3)" if "vnode_Create K d nm s1 = (q2, s2)" "vnode_Write K f dat sz 0 s2 = (q3, s3)" for d nm q2 s2 f q3 s3
    using cr [OF that(1)] live_vnode_Write [OF K that(2)] by blast
  show ?thesis
    using run l1 mk cr wr unfolding CreateEntry_def ed
    by (auto split: if_splits expected.splits prod.splits blocking.splits del: subsetI)
qed

lemma live_Populate_loop:
  assumes "Populate_loop K root ptr pend s = Some rs" and "alloc_laws K live"
  shows "live (kmm s) \<subseteq> live (kmm (snd rs))"
proof (rule Populate_loop.raw_induct [OF _ assms(1), where P = "\<lambda>K' root ptr pend s rs.
    K' = K \<longrightarrow> live (kmm s) \<subseteq> live (kmm (snd rs))", rule_format], goal_cases)
  case (1 loop K' root ptr pend s rs)
  show ?case
  proof (cases "ptr < pend \<and> read_entry (memory s) ptr \<noteq> None")
    case False
    then show ?thesis using "1"(2) by (auto split: if_splits option.splits)
  next
    case True
    then obtain e ptr' where e: "ptr < pend" "read_entry (memory s) ptr = Some (e, ptr')" by auto
    obtain q s1 where c: "CreateEntry K root (entry_name e) (e_mode e) (e_data e) (e_filesize e) s = (q, s1)" by fastforce
    note l = live_CreateEntry [OF assms(2) c]
    show ?thesis
    proof (cases q)
      case (Value u)
      then have "loop K root ptr' pend s1 = Some rs" using "1"(2,3) e c by simp
      from "1"(1) [OF this refl] show ?thesis using l by simp
    qed (use "1"(2,3) e c l in auto)
  qed
qed simp

section \<open>The invariant at the end of the start\<close>

lemma thread_ok_InitializeStack [simp]: "thread_ok (fst (InitializeStack F a e x th m)) = thread_ok th"
  by (simp add: thread_ok_def InitializeStack_def Let_def split: prod.split)

text \<open>A kernel thread object before it is linked.\<close>

lemma new_kernel_thread_facts:
  assumes P: "plat_laws P live" and n: "new_kernel_thread P C entry k = Value ((t, th), k')"
  shows "t \<notin> live (kmm_of k)" "live (kmm_of k) \<subseteq> live (kmm_of k')" "t \<in> live (kmm_of k')" "thread_ok th" "same_sched (sch k) (sch k')"
    "m_process th = None"
proof -
  note A = plat_lawsD(1) [OF P]
  obtain l1 where o: "op_new (lib P) (kmm_of k) = (Some t, l1)"
    using n by (auto simp: new_kernel_thread_def split: prod.splits option.splits expected.splits)
  obtain stack l2 where a: "AllocateKernel P l1 = (stack, l2)" by fastforce
  obtain th0 tid where th0: "Thread_new None (s_next_tid (sch k)) stack = Value (th0, tid)"
    using n o a by (auto simp: new_kernel_thread_def split: expected.splits)
  let ?im = "InitializeStack (at_ThreadTrampoline C) t entry 0 th0 (kstacks k)"
  have r: "th = fst ?im" "k' = (set_kmm l2 k)\<lparr>sch := (sch k)\<lparr>s_next_tid := tid\<rparr>, kstacks := snd ?im\<rparr>"
    using n o a th0 by (auto simp: new_kernel_thread_def split: prod.splits)
  have l: "live (kmm_of k) \<subseteq> live l1" "live l1 \<subseteq> live l2" "t \<in> live l1"
    using alloc_lawsD(2,3) [OF A o] plat_lawsD(11) [OF P a] by blast+
  have k': "kmm_of k' = l2" by (simp add: r(2)) (simp add: kmm_of_def set_kmm_def)
  show "t \<notin> live (kmm_of k)" by (rule alloc_lawsD(1) [OF A o])
  show "live (kmm_of k) \<subseteq> live (kmm_of k')" "t \<in> live (kmm_of k')" using l by (auto simp: k')
  show "thread_ok th" using Thread_new_ok [OF th0] by (simp add: r(1))
  show "same_sched (sch k) (sch k')" by (simp add: r(2))
  have "m_process th0 = None" using th0 by (auto simp: Thread_new_def split: option.splits)
  then show "m_process th = None" by (simp add: r(1) InitializeStack_def Let_def split: prod.split)
qed

text \<open>The statics of the scheduler before it starts: no thread, empty lists.\<close>

definition no_threads :: "sched \<Rightarrow> bool" where
  "no_threads s \<longleftrightarrow> threads s = Map.empty \<and> queues s = [[], [], []] \<and> g_wait_queue s = [] \<and> dead_list s = [] \<and>
     current_thread s = None \<and> idle_thread s = None"

lemma Start_safe:
  assumes "no_threads s" and "thread_ok th"
  shows "sched_safe (Start idle th s)" and "dom (threads (Start idle th s)) = {idle}"
proof -
  let ?th = "th\<lparr>m_state := Running, m_mlfq_level := int kNumLevels - 1\<rparr>"
  have "m_ticks_remaining th \<le> 20"
    using assms(2) by (auto simp: thread_ok_def kNumLevels_def kQuantum_def nth_Cons split: nat.splits)
  then have "thread_ok ?th" using assms(2) by (simp add: thread_ok_def kNumLevels_def kQuantum_def)
  then show "sched_safe (Start idle th s)"
    using assms(1)
    by (auto simp: no_threads_def sched_safe_def sched_wf_def queues_wf_def off_def ready_def three_levels_def kNumLevels_def Start_def Let_def
        less_Suc_eq numeral_3_eq_3)
  show "dom (threads (Start idle th s)) = {idle}" using assms(1) by (simp add: no_threads_def Start_def Let_def)
qed

lemma Scheduler_Start_safe:
  assumes P: "plat_laws P live" and s: "no_threads (sch k)" and run: "Scheduler_Start P C k = Value k'"
  shows "kernel_safe live k'"
proof -
  obtain i ith k1 where 1: "new_kernel_thread P C (at_idle_func C) k = Value ((i, ith), k1)"
    and R: "Reaper_start P C (k1\<lparr>sch := Start i ith (sch k1)\<rparr>) = Value k'"
    using run by (auto simp: Scheduler_Start_def bind_expected_Value)
  note f1 = new_kernel_thread_facts [OF P 1]
  have n1: "no_threads (sch k1)" using s same_sched_fields [OF f1(5)] by (simp add: no_threads_def)
  define k2 where "k2 = k1\<lparr>sch := Start i ith (sch k1)\<rparr>"
  have k2: "kernel_safe live k2" using Start_safe [OF n1 f1(4), of i] f1(3) by (simp add: kernel_safe_def k2_def)
  obtain t th k3 s3 where 3: "new_kernel_thread P C (at_ThreadFunc C) k2 = Value ((t, th), k3)"
    and 4: "Reaper_Initialize t (SetName (Some ''reaper'') th) (sch k3) = Value s3" "k' = k3\<lparr>sch := s3\<rparr>"
    using R by (auto simp: Reaper_start_def bind_expected_Value k2_def)
  note f3 = new_kernel_thread_facts [OF P 3]
  have k3: "kernel_safe live k3" by (rule quiet_safe [OF k2]) (use f3(2,5) in \<open>simp add: quiet_def\<close>)
  have "threads (sch k3) t = None"
    using f3(1) k2 same_sched_fields(1) [OF f3(5)] by (auto simp: kernel_safe_def)
  then obtain s' where "Reaper_Initialize t (SetName (Some ''reaper'') th) (sch k3) = Value s'" "sched_safe s'"
      "dom (threads s') = insert t (dom (threads (sch k3)))"
    using Reaper_Initialize_safe [of "sch k3" t "SetName (Some ''reaper'') th"] k3 f3(4) by (auto simp: kernel_safe_def)
  then show ?thesis using 4 k3 f3(3) by (simp add: kernel_safe_def)
qed

lemma quiet_Process_Create:
  assumes P: "plat_laws P live" and run: "Process_Create P root cwd k = (r, k')"
  shows "quiet live k k'"
proof -
  obtain q k1 where c: "UserAddressSpace_Create P k = (q, k1)" by fastforce
  note q1 = quiet_Create [OF P c]
  show ?thesis
  proof (cases q)
    case (Value u)
    define k2 where "k2 = (if boot_init k1 then k1 else (set_kmm (pid_Set P 0 (kmm_of k1)) k1)\<lparr>boot_init := True\<rparr>)"
    have q2: "quiet live k k2" using q1 plat_lawsD(3) [OF P] by (simp add: k2_def quiet_set_kmm)
    obtain pr k3 where a: "PidAlloc P k2 = (pr, k3)" by fastforce
    note q3 = quiet_trans [OF q2 quiet_PidAlloc [OF P a]]
    obtain p l where n: "op_new (lib P) (kmm_of k3) = (p, l)" by fastforce
    note q4 = quiet_set_kmm [OF q3 alloc_lawsD(2) [OF plat_lawsD(1) [OF P] n]]
    show ?thesis
      using run c Value a n q4 by (cases p) (auto simp: Process_Create_def k2_def [symmetric])
  qed (use run c q1 in \<open>auto simp: Process_Create_def\<close>)
qed

lemma Spawn_safe:
  assumes P: "plat_laws P live" and k: "kernel_safe live k" and run: "Process_Spawn P buf root path k = (r, k')" and ok: "r \<noteq> Bug"
  shows "kernel_safe live k'"
proof (cases "PathToVnode root path (fs (io k))")
  case (Value v)
  obtain q1 k1 where c: "Process_Create P root root k = (q1, k1)" by fastforce
  note k1 = quiet_safe [OF k quiet_Process_Create [OF P c]]
  show ?thesis
  proof (cases q1)
    case p: (Value p)
    obtain q2 k2 where l: "Load P buf p v 0 k1 = (q2, k2)" by fastforce
    note k2 = quiet_safe [OF k1 quiet_Load [OF P l]]
    show ?thesis
    proof (cases q2)
      case res: (Value res)
      let ?k3 = "upd_proc p (\<lambda>pr. pr\<lparr>m_heap_start := heap_base res, m_heap_end := heap_base res\<rparr>) k2"
      have k3: "kernel_safe live ?k3" using quiet_safe [OF k2] by simp
      obtain t th k4 where n: "new_thread P p ?k3 = (Value (Some (t, th)), k4)"
        using run ok Value c p l res
        by (auto simp: Process_Spawn_def Let_def split: prod.splits expected.splits option.splits)
      note nt = new_thread_safe [OF P k3 n]
      obtain th2 m where im: "InitializeUserStack (UserspaceTrampoline P) (entry_point res) (stack_top res) th (kstacks k4) = (th2, m)" by fastforce
      then have ok2: "thread_ok (SetName (Some ''user_proc'') th2)" using nt(4) thread_ok_fields(1,3) by (metis fst_conv)
      obtain r5 k5 where st: "start_thread t (SetName (Some ''user_proc'') th2, m) k4 = (r5, k5)" by fastforce
      have "k' = k5" using run Value c p l res n im st by (simp add: Process_Spawn_def Let_def)
      then show ?thesis using start_thread_safe [OF nt(1-3) ok2 st] by simp
    next
      case (Unexpected e)
      have "k' = Process_Destroy P p k2" using run Value c p l Unexpected by (simp add: Process_Spawn_def)
      moreover have "quiet live k2 (Process_Destroy P p k2)"
        by (auto simp: Process_Destroy_def Let_def split: option.split
            intro!: quiet_trans [OF _ quiet_delete] quiet_trans [OF _ quiet_Destroy [OF P]] quiet_trans [OF quiet_PidFree [OF P] quiet_close_fds])
      ultimately show ?thesis using quiet_safe [OF k2] by simp
    qed (use run ok Value c p l in \<open>simp add: Process_Spawn_def\<close>)
  qed (use run Value c k1 in \<open>auto simp: Process_Spawn_def\<close>)
qed (use run k in \<open>auto simp: Process_Spawn_def\<close>)

lemma quiet_set_fs: "live (kmm (fs (io k))) \<subseteq> live (kmm t) \<Longrightarrow> quiet live k (on_io (set_fs t) k)"
  by (simp add: quiet_on_io set_fs_def)

lemma quiet_stdio:
  assumes P: "plat_laws P live" and run: "setup_stdio P p k = (Value u, k')"
  shows "quiet live k k'"
proof -
  note A = plat_lawsD(1) [OF P]
  have one: "quiet live k1 k2" if std: "open_std P p v k1 = (Value w, k2)" for v k1 w k2
  proof -
    obtain r s where fd: "FileDescription_new (lib P) (Some v) 0 (io k1) = (r, s)" by fastforce
    then obtain d where n: "FileDescription_new (lib P) (Some v) 0 (io k1) = (Value d, s)"
      using std by (cases r) (auto simp: open_std_def)
    obtain q k3 where a: "on_table p (AllocateFd (lib P) (Some d)) (k1\<lparr>io := s\<rparr>) = (q, k3)" by fastforce
    have "k2 = on_io (fd_release d) k3" using std n a by (cases q) (auto simp: open_std_def)
    then show ?thesis using quiet_trans [OF quiet_new_file [OF A n] quiet_alloc_release(2) [OF A a]] by simp
  qed
  obtain v l where n: "op_new (lib P) (kmm (fs (io k))) = (Some v, l)"
    using run by (auto simp: setup_stdio_def Let_def split: prod.splits option.splits)
  let ?nd = "PseudoFsNode_new (Literal ''stdout'') None (Some StdoutWrite)"
  let ?k0 = "on_io (set_fs ((fs (io k))\<lparr>kmm := l, vnodes := (vnodes (fs (io k)))(v \<mapsto> ?nd)\<rparr>)) k"
  have q0: "quiet live k ?k0" by (rule quiet_set_fs) (use alloc_lawsD(2) [OF A n] in simp)
  obtain k1 k2 where "open_std P p v ?k0 = (Value (), k1)" "open_std P p v k1 = (Value (), k2)" "open_std P p v k2 = (Value u, k')"
    using run n by (auto simp: setup_stdio_def Let_def split: prod.splits expected.splits)
  then show ?thesis using quiet_trans [OF q0] quiet_trans one by meson
qed

lemma launch_init_safe:
  assumes P: "plat_laws P live" and k: "kernel_safe live k" and run: "launch_init P buf root k = (Value p, k')"
  shows "kernel_safe live k'"
proof (cases "PathToVnode root ''/sbin/init'' (fs (io k))")
  case (Value v)
  obtain r k1 where s: "Process_Spawn P buf root ''/sbin/init'' k = (r, k1)" by fastforce
  have "r \<noteq> Bug" using run Value s by (auto simp: launch_init_def)
  note k1 = Spawn_safe [OF P k s this]
  have q: "quiet live k1 k2" if "setup_stdio P x k1 = (Value u, k2)" for x u k2 by (rule quiet_stdio [OF P that])
  show ?thesis
    using run Value s k1 quiet_safe [OF k1 q]
    by (cases r) (auto simp: launch_init_def split: prod.splits expected.splits)
qed (use run k in \<open>auto simp: launch_init_def\<close>)

lemma start_userland_safe:
  assumes P: "plat_laws P live" and k: "kernel_safe live k" and run: "start_userland P E buf initrd (d, k) = Some (Value p, d', k')"
  shows "kernel_safe live k'"
proof -
  note A = plat_lawsD(1) [OF P]
  obtain root t where b: "boot_tree (lib P) (fs (io k)) = Value (root, t)"
    using run by (auto simp: start_userland_def split: expected.splits)
  let ?k1 = "Syscall_Initialize E (on_io (set_fs t) k)"
  have q1: "quiet live k ?k1"
    using quiet_set_fs [OF live_boot_tree [OF A b]] by (simp add: Syscall_Initialize_def Let_def)
  let ?init = "case initrd of None \<Rightarrow> Some (Value (), fs (io ?k1)) | Some (address, sz) \<Rightarrow> Populate (lib P) root address sz (fs (io ?k1))"
  obtain u t2 where 2: "?init = Some (Value u, t2)"
    using run b by (auto simp: start_userland_def Let_def split: option.splits expected.splits)
  have "live (kmm (fs (io ?k1))) \<subseteq> live (kmm t2)"
    using 2 live_Populate_loop [OF _ A] by (force simp: Populate_def split: option.splits)
  note k2 = quiet_safe [OF k quiet_trans [OF q1 quiet_set_fs [OF this]]]
  have "launch_init P buf root (on_io (set_fs t2) ?k1) = (Value p, k')"
    using run b 2 by (auto simp: start_userland_def Let_def split: prod.splits)
  then show ?thesis by (rule launch_init_safe [OF P k2])
qed

lemma start_cpu_facts:
  assumes "start_cpu C B M = Value M1"
  shows "no_threads (sch (kern M1)) = no_threads (sch (kern M))" "int_handlers M1 = Map.empty" "kmm_of (kern M1) = kmm_of (kern M)"
    "mm_instance M1 = mm_instance M"
  using assms
  by (auto simp: start_cpu_def Let_def arch_cpu_init_per_cpu_def Syscall_Initialize_def WriteMsr_def on_io_def set_fs_def no_threads_def
      kmm_of_def set_mem_def split: prod.splits expected.splits if_splits)

lemma start_cpu_runs:
  assumes "at_bsp_cpu_data C \<noteq> 0"
  shows "\<exists>M1. start_cpu C B M = Value M1 \<and> sch (kern M1) = (sch (kern M))\<lparr>kernel_stack := at_bsp_kernel_stack C + kBspStackSize\<rparr> \<and>
    kmm_of (kern M1) = kmm_of (kern M) \<and> mm_instance M1 = mm_instance M \<and> vnodes (fs (io (kern M1))) = vnodes (fs (io (kern M)))"
  using assms
  by (auto simp: start_cpu_def Let_def arch_cpu_init_per_cpu_def Syscall_Initialize_def WriteMsr_def on_io_def set_fs_def kmm_of_def set_mem_def
      split: prod.split)

lemma start_kernel_safe:
  assumes P: "plat_laws P live" and s: "no_threads (sch (kern M))" and run: "start_kernel L S P C T cal B M = Some (Value (p, M'))"
  shows "kernel_safe live (kern M')" "interrupts_on M'" "int_handlers M' = [14 \<mapsto> PageFaultHandler]"
    "GetKmm (mm_instance M') = Value (kmm_storage S)"
proof -
  obtain M2 where b: "bind_expected (start_cpu C B M) (start_memory L S P B) = Value M2"
    using run by (auto simp: start_kernel_def split: expected.splits)
  then obtain M1 where 1: "start_cpu C B M = Value M1" and 2: "start_memory L S P B M1 = Value M2"
    by (auto simp: bind_expected_Value)
  note R = run [unfolded start_kernel_def b expected.case]
  obtain inst hs l where 3: "MemoryManager_Initialize L S P (Cr3PhysBase P (cr3 (sch (kern M1)))) (memmap_response B) (hhdm_response B)
       (mm_instance M1, int_handlers M1, kmm_of (kern M1)) = Value (inst, hs, l)"
    and M2: "M2 = M1\<lparr>mm_instance := inst, int_handlers := hs, kern := set_kmm l (kern M1)\<rparr>"
    using 2 by (auto simp: start_memory_def bind_expected_Value split: if_splits)
  note ready = MemoryManager_Initialize_ready [OF 3] and c = start_cpu_facts [OF 1]
  have s2: "no_threads (sch (kern M2))" using s c(1) by (simp add: M2)
  obtain d k where d: "ApicTimer_Initialize T (Lapic_Initialize T (apic M2)) = Some d" and k: "Scheduler_Start P C (kern M2) = Value k"
    using R by (auto split: option.splits expected.splits)
  obtain d' k' where u: "start_userland P (at_SyscallEntry C) (at_elf_header C) (first_module B) (d, k) = Some (Value p, d', k')"
    and M': "M' = M2\<lparr>apic := d', clock_source := Some (tsc_clock cal (has_rdtscp B) (s_tsc_freq d)), interrupts_on := True, kern := k'\<rparr>"
    using R d k by (auto split: option.splits expected.splits prod.splits)
  show "kernel_safe live (kern M')"
    using start_userland_safe [OF P Scheduler_Start_safe [OF P s2 k] u] by (simp add: M')
  show "interrupts_on M'" "int_handlers M' = [14 \<mapsto> PageFaultHandler]" "GetKmm (mm_instance M') = Value (kmm_storage S)"
    using ready(4,7) c(2) by (simp_all add: M' M2)
qed

section \<open>Properties\<close>

text \<open>
  C1: The thread structures stay sound from power on. If \<open>start_kernel\<close>, given any response of the boot loader and any archive, reaches
  the end, interrupts are on, the page fault handler and the kernel memory manager are in place, and whatever
  sequence of system calls, interrupts, signal deliveries, sleeps, wake-ups and passes of the reaper follows, the scheduler is
  well formed: no thread is linked twice, whether in the ready queues, the wait queue or the dead list; every thread in a list,
  and the running and the idle thread, is a thread object that exists; and a dead thread is terminated and not running. (Before
  the start there is no thread. The allocator returns storage of no live object, and no service outside the sources frees a thread object.)
\<close>

theorem power_on_threads_safe:
  assumes "plat_laws P live" and "trap_laws H live" and "no_threads (sch (kern M))"
    and "start_kernel L S P C T cal B M = Some (Value (p, M'))" and "(kernel_step H P)\<^sup>*\<^sup>* (kern M') k"
  shows "interrupts_on M' \<and> int_handlers M' 14 = Some PageFaultHandler \<and> GetKmm (mm_instance M') = Value (kmm_storage S) \<and>
    sched_wf (sch k) \<and> distinct (ready (sch k) @ g_wait_queue (sch k) @ dead_list (sch k)) \<and>
    (\<forall>t. t \<in> set (ready (sch k) @ g_wait_queue (sch k) @ dead_list (sch k)) \<or> current_thread (sch k) = Some t \<or> idle_thread (sch k) = Some t \<longrightarrow>
       (\<exists>th. threads (sch k) t = Some th)) \<and>
    (\<forall>t \<in> set (dead_list (sch k)). m_state (thr (sch k) t) = Terminated \<and> current_thread (sch k) \<noteq> Some t)"
proof -
  note b = start_kernel_safe [OF assms(1,3,4)]
  have "sched_safe (sch k)" using kernel_run_safe [OF assms(5,1,2) b(1)] by (simp add: kernel_safe_def)
  from sched_safe_sound [OF this] b(2-4) show ?thesis by simp
qed

text \<open>A start without framebuffer and initial archive, on the allocator of \<open>ex_pool\<close>.\<close>

definition ex_mm_lib :: "nat mm_lib" where
  "ex_mm_lib = \<lparr>StorageSize = (\<lambda>n. 64 * n), pd_Initialize = (\<lambda>_ _ _ k. k), RegisterZone = (\<lambda>_ _ _ k. k), pfa_Boot = (\<lambda>k. k),
     ptm_new = (\<lambda>_ _ _ k. k), pfa_AllocatePages = (\<lambda>_ k. (Some 0x300, k)), vma_Initialize = (\<lambda>_ _ k. k), kmm_new = (\<lambda>_ _ k. k),
     EnqueueUnlocked = (\<lambda>_ k. k), SetWatermarks = (\<lambda>_ _ _ k. k), kmm_AllocateKernel = (\<lambda>_ k. (Some 0xFFFF900000000000, k)),
     heap_Initialize = (\<lambda>_ _ k. k), InitializeGlobalAllocator = (\<lambda>k. k), heap_Allocate = (\<lambda>_ _ k. (Some 0xFFFF900000001000, k)),
     heap_Deallocate = (\<lambda>_ _ k. k)\<rparr>"

definition ex_statics :: mm_statics where
  "ex_statics = \<lparr>pfa_storage = 0x1000, ptm_storage = 0x2000, pd_array_storage_obj = 0x3000, vma_storage = 0x4000,
     kmm_storage = 0x5000, heap_alloc_storage = 0x6000\<rparr>"

definition ex_code :: code_addrs where
  "ex_code = \<lparr>at_console_font = 0x10000, at_gdt = 0x20000, at_tss = 0x20100, at_isr_stubs = (\<lambda>i. 0x30000 + 16 * of_nat i),
     at_bsp_cpu_data = 0x40000, at_bsp_kernel_stack = 0x41000, at_SyscallEntry = 0x50000, at_ThreadTrampoline = 0x50100,
     at_idle_func = 0x50200, at_ThreadFunc = 0x50300, at_elf_header = 0x50400\<rparr>"

definition ex_boot_info :: boot_info where
  "ex_boot_info = \<lparr>framebuffer_response = None, memmap_response = Some ex_memmap, hhdm_response = Some 0xFFFF800000000000,
     first_module = None, has_rdtscp = True\<rparr>"

definition ex_pit :: timer_dev where
  "ex_pit = \<lparr>tsc_start = 0, tsc_end = 1000, pit_byte = (\<lambda>i. if i = 2 then 1 else 0), svr = 0, timer_current = 0xFFFF0000\<rparr>"

definition ex_machine :: "((u64 \<times> u64) list, u8 list, nat, (u64 \<times> u64) list) machine" where
  "ex_machine = \<lparr>cpu_tables = None, idt_gates = [], int_handlers = Map.empty, cr0_reg = 0, apic = ex_lapic, mm_instance = None,
     clock_source = None, interrupts_on = False,
     kern = ex_kernel\<lparr>sch := sched_zero, procs := Map.empty, spaces := Map.empty,
       io := \<lparr>fs = ex_fsys\<lparr>kmm := 0, vnodes := Map.empty\<rparr>, files = Map.empty\<rparr>\<rparr>\<rparr>"

lemma fold_same: "fold (\<lambda>_ s. s) xs s = s"
  by (induction xs) simp_all

lemma ex_memory:
  "\<exists>mm. MemoryManager_Initialize ex_mm_lib ex_statics P c (Some ex_memmap) (Some h) (None, hs, l) = Value (mm, RegisterHandler 14 PageFaultHandler hs, l)"
proof -
  have b: "best_entry (64 * total_pages ex_memmap) ex_memmap = Some 2" by code_simp
  have f: "fold (\<lambda>(base, n) k. k) zs l = l" for zs :: "(u64 \<times> u64) list" and l :: nat
    by (induction zs arbitrary: l) auto
  have "\<exists>n mm. init_frames ex_mm_lib ex_statics h ex_memmap (MemoryManager_new, l) = Value (n, mm, l)"
    by (simp add: init_frames_def ex_mm_lib_def InitPhysical_def Let_def b f)
  then show ?thesis
    by (auto simp: MemoryManager_Initialize_def bind_expected_def init_mappings_def init_heap_def heap_test_def ex_mm_lib_def Let_def fold_same)
qed

lemma ex_scheduler:
  assumes "sch k = sched_zero\<lparr>kernel_stack := ks\<rparr>" and "kmm_of k = 0"
  shows "\<exists>k'. Scheduler_Start (ex_plat\<lparr>lib := ex_pool\<rparr>) ex_code k = Value k' \<and> kmm_of k' = 4 \<and> io k' = (io k)\<lparr>fs := (fs (io k))\<lparr>kmm := 4\<rparr>\<rparr>"
  using assms
  by (simp add: Scheduler_Start_def Reaper_start_def new_kernel_thread_def bind_expected_def ex_plat_def ex_pool_def Thread_new_def
      InitializeStack_def Let_def Reaper_Initialize_def AddThread_def kNumLevels_def set_kmm_def kmm_of_def Start_def split: prod.split)

lemma ex_tree:
  assumes "vnodes s = Map.empty" and "kmm s = 4"
  shows "\<exists>root s'. boot_tree ex_pool s = Value (root, s') \<and> PathToVnode root ''/sbin/init'' s' = Unexpected (- ENOENT)"
proof -
  have m: "21 \<le> 64 - kmm s" using assms(2) by simp
  obtain root s' dev p b c d e where t: "boot_tree ex_pool s = Value (root, s')" "listing s' b []"
    "listing s' root [(''dev'', dev), (''proc'', p), (''sbin'', b), (''bin'', c), (''tmp'', d), (''etc'', e)]"
    by (rule boot_tree_nodes [OF ex_pool_laws assms(1) m])
  have "PathToVnode root ''/sbin/init'' s' = Unexpected (- ENOENT)"
    by (simp add: PathToVnode_resolve boot_paths resolve_listing [OF t(3)] resolve_listing [OF t(2)] del: resolve.simps(2))
  with t(1) show ?thesis by blast
qed

theorem power_on_threads_safe_witness:
  "\<exists>p M' k. start_kernel ex_mm_lib ex_statics (ex_plat\<lparr>lib := ex_pool\<rparr>) ex_code ex_pit (\<lambda>f. f) ex_boot_info ex_machine = Some (Value (p, M')) \<and>
     interrupts_on M' \<and> kernel_step ex_traps (ex_plat\<lparr>lib := ex_pool\<rparr>) (kern M') k \<and> sched_wf (sch k)"
proof -
  let ?P = "ex_plat\<lparr>lib := ex_pool\<rparr>"
  obtain M1 where 1: "start_cpu ex_code ex_boot_info ex_machine = Value M1" "sch (kern M1) = sched_zero\<lparr>kernel_stack := 0x45000\<rparr>"
    "kmm_of (kern M1) = 0" "mm_instance M1 = None" "vnodes (fs (io (kern M1))) = Map.empty"
    using start_cpu_runs [of ex_code ex_boot_info ex_machine]
    by (auto simp: ex_code_def ex_machine_def kBspStackSize_def kmm_of_def)
  obtain mm where 2: "MemoryManager_Initialize ex_mm_lib ex_statics ?P (Cr3PhysBase ?P (cr3 (sch (kern M1)))) (Some ex_memmap) (Some 0xFFFF800000000000)
      (None, int_handlers M1, 0) = Value (mm, RegisterHandler 14 PageFaultHandler (int_handlers M1), 0)"
    using ex_memory by blast
  let ?M2 = "M1\<lparr>mm_instance := mm, int_handlers := RegisterHandler 14 PageFaultHandler (int_handlers M1), kern := set_kmm 0 (kern M1)\<rparr>"
  have M2: "start_memory ex_mm_lib ex_statics ?P ex_boot_info M1 = Value ?M2"
    using 1(3,4) 2 by (simp add: start_memory_def ex_boot_info_def bind_expected_def)
  have "\<exists>i. pit_count ex_pit i < pit_count ex_pit (Suc i)"
    by (rule exI [of _ 0]) (simp add: pit_count_def ex_pit_def)
  then have W: "\<exists>d. wait_wrap ex_pit 0 0xFFFF x = Some d" for x by (simp add: wait_wrap_iff)
  have "\<exists>d. ApicTimer_Initialize ex_pit x = Some d" for x
    using W [of "Lapic_Write kRegTimerInitial 0xFFFFFFFF (PitPrepare 11932 (Lapic_Write kRegTimerDivide 3 x))"]
    by (auto simp: ApicTimer_Initialize_def Calibrate_def Let_def)
  then obtain d where 3: "ApicTimer_Initialize ex_pit (Lapic_Initialize ex_pit (apic ?M2)) = Some d" by blast
  obtain k where 4: "Scheduler_Start ?P ex_code (kern ?M2) = Value k" "kmm_of k = 4" "io k = (io (kern ?M2))\<lparr>fs := (fs (io (kern ?M2)))\<lparr>kmm := 4\<rparr>\<rparr>"
    using ex_scheduler [of "kern ?M2" "0x45000"] 1(2) by auto
  have "vnodes (fs (io k)) = Map.empty" "kmm (fs (io k)) = 4" using 4(3) 1(5) by simp_all
  then obtain root t where 5: "boot_tree ex_pool (fs (io k)) = Value (root, t)" "PathToVnode root ''/sbin/init'' t = Unexpected (- ENOENT)"
    using ex_tree by blast
  have "\<exists>d' k'. start_userland ?P (at_SyscallEntry ex_code) (at_elf_header ex_code) (first_module ex_boot_info) (d, k) = Some (Value None, d', k')"
    using 5 by (simp add: start_userland_def ex_boot_info_def Let_def launch_init_def Syscall_Initialize_def WriteMsr_def on_io_def set_fs_def)
  then obtain M' where run: "start_kernel ex_mm_lib ex_statics ?P ex_code ex_pit (\<lambda>f. f) ex_boot_info ex_machine = Some (Value (None, M'))"
    using 1(1) M2 3 4(1) by (auto simp: start_kernel_def bind_expected_def)
  have n: "no_threads (sch (kern ex_machine))" by (simp add: no_threads_def ex_machine_def sched_zero_def)
  let ?k = "run_sched (OslThreadYield (root_of_proc ?P (kern M'))) (kern M')"
  have step: "kernel_step ex_traps ?P (kern M') ?k" by (rule osl_yield)
  from power_on_threads_safe [OF ex_plat_laws n run r_into_rtranclp [of "kernel_step ex_traps ?P", OF step]]
  have "interrupts_on M'" "sched_wf (sch ?k)" by blast+
  with run step show ?thesis by blast
qed

end
