(* ===== verification/PipeCalls.thy ===== *)
theory PipeCalls
  imports Syscalls
begin

text \<open>
  A pipe through the system calls: \<open>pipe\<close>, \<open>write\<close>, \<open>read\<close> and \<open>close\<close> (\<open>arch/x86_64/syscall/SyscallDispatch.cpp\<close>) on the descriptor table, the open
  files, the pipe vnode and the ring buffer together. \<open>pipe_state\<close> says what a program that holds both ends relies on.
\<close>

section \<open>Transfers that return\<close>

lemma sys_write_returns:
  assumes "procs k p = Some pr" and "GetFd (m_fd_table pr) (ucast (rdi regs)) = Some d" and "files (io k) d = Some f" and "0 < fd_refs f"
    and "fd_vnode f = Some v" and "Option.bind (vnodes (fs (io k)) v) ops \<noteq> None"
    and "vnode_Write (lib P) v (rsi regs) (rdx regs) (fd_offset f) (fs (io k)) = (Return (Value n), t)"
  shows "sys_write P p regs k = (Ret n, k\<lparr>io := \<lparr>fs = t, files = (files (io k))(d \<mapsto> f\<lparr>fd_offset := fd_offset f + n\<rparr>)\<rparr>\<rparr>)"
  using assms
  by (auto simp: sys_write_def with_fd_def on_io_def fd_addref_def upd_file_def FileDescription_Write_def advance_def set_fs_def of_blocking_def
      of_expected_def fd_release_def)

lemma sys_read_returns:
  assumes "procs k p = Some pr" and "GetFd (m_fd_table pr) (ucast (rdi regs)) = Some d" and "files (io k) d = Some f" and "0 < fd_refs f"
    and "fd_vnode f = Some v" and "Option.bind (vnodes (fs (io k)) v) ops \<noteq> None"
    and "vnode_Read (lib P) v (rsi regs) (rdx regs) (fd_offset f) (fs (io k)) = (Return (Value n), t)"
  shows "sys_read P p regs k = (Ret n, k\<lparr>io := \<lparr>fs = t, files = (files (io k))(d \<mapsto> f\<lparr>fd_offset := fd_offset f + n\<rparr>)\<rparr>\<rparr>)"
  using assms
  by (auto simp: sys_read_def with_fd_def on_io_def fd_addref_def upd_file_def FileDescription_Read_def advance_def set_fs_def of_blocking_def
      of_expected_def fd_release_def)

section \<open>The state of a pipe with its descriptors\<close>

text \<open>
  \<open>a\<close> is the read end, \<open>ob\<close> the write end while it is open, \<open>bs\<close> the bytes in the ring. Each end is one open file, which only its descriptor holds.
\<close>

definition write_end :: "fd_table \<Rightarrow> (addr \<rightharpoonup> FileDescription) \<Rightarrow> addr \<Rightarrow> addr \<Rightarrow> u32 \<Rightarrow> u32 \<Rightarrow> bool" where
  "write_end T fl v rd a b \<longleftrightarrow> b \<noteq> a \<and>
     (\<exists>wr wf. GetFd T b = Some wr \<and> wr \<noteq> rd \<and> fl wr = Some wf \<and> fd_vnode wf = Some v \<and> fd_refs wf = 1 \<and> fd_flags wf = kPipeWrite)"

definition pipe_state :: "('r \<Rightarrow> u8 list) \<Rightarrow> addr \<Rightarrow> u32 \<Rightarrow> u32 option \<Rightarrow> u8 list \<Rightarrow> ('v, 'r, 'k, 'a) kernel \<Rightarrow> bool" where
  "pipe_state con p a ob bs k \<longleftrightarrow> (\<exists>pr rd rf v vn q.
     procs k p = Some pr \<and> GetFd (m_fd_table pr) a = Some rd \<and> files (io k) rd = Some rf \<and> fd_vnode rf = Some v \<and> fd_refs rf = 1 \<and>
     vnodes (fs (io k)) v = Some vn \<and> ops vn = Some PipeOps \<and> v_pipe vn = Some q \<and> con (m_buffer q) = bs \<and> m_readers q = 1 \<and>
     (case ob of None \<Rightarrow> m_writers q = 0 | Some b \<Rightarrow> m_writers q = 1 \<and> write_end (m_fd_table pr) (files (io k)) v rd a b))"

lemma pipe_state_open:
  assumes "pipe_state con p a (Some b) bs k"
  obtains pr rd rf v vn q wr wf where "procs k p = Some pr" and "GetFd (m_fd_table pr) a = Some rd" and "files (io k) rd = Some rf" and "fd_vnode rf = Some v"
    and "fd_refs rf = 1" and "vnodes (fs (io k)) v = Some vn" and "ops vn = Some PipeOps" and "v_pipe vn = Some q" and "con (m_buffer q) = bs" and "m_readers q = 1"
    and "m_writers q = 1" and "b \<noteq> a" and "GetFd (m_fd_table pr) b = Some wr" and "wr \<noteq> rd" and "files (io k) wr = Some wf" and "fd_vnode wf = Some v" and "fd_refs wf = 1"
    and "fd_flags wf = kPipeWrite"
  using assms by (auto simp: pipe_state_def write_end_def)

text \<open>What printing relies on: descriptor 1 is the open file \<open>d\<close> of a console node. \<open>keeps_output\<close>: a step leaves this, the threads and what was printed alone.\<close>

definition stdout_file :: "addr \<Rightarrow> addr \<Rightarrow> ('v, 'r, 'k, 'a) kernel \<Rightarrow> bool" where
  "stdout_file p d k \<longleftrightarrow> (\<exists>pr f v vn. procs k p = Some pr \<and> GetFd (m_fd_table pr) 1 = Some d \<and> files (io k) d = Some f \<and> 0 < fd_refs f \<and>
     fd_vnode f = Some v \<and> vnodes (fs (io k)) v = Some vn \<and> ops vn = Some PseudoFsOps \<and> write_cb vn = Some StdoutWrite)"

definition keeps_output :: "addr \<Rightarrow> ('v, 'r, 'k, 'a) kernel \<Rightarrow> ('v, 'r, 'k, 'a) kernel \<Rightarrow> bool" where
  "keeps_output p k k' \<longleftrightarrow> sch k' = sch k \<and> screen_console (fs (io k')) = screen_console (fs (io k)) \<and>
     debug_port (fs (io k')) = debug_port (fs (io k)) \<and> (\<forall>d. stdout_file p d k \<longrightarrow> stdout_file p d k')"

lemma keeps_outputI:
  assumes "sch k' = sch k" and "screen_console (fs (io k')) = screen_console (fs (io k))" and "debug_port (fs (io k')) = debug_port (fs (io k))"
    and "procs k p = Some pr" and "\<exists>pr'. procs k' p = Some pr' \<and> (\<forall>d. GetFd (m_fd_table pr) 1 = Some d \<longrightarrow> d \<notin> D \<longrightarrow> GetFd (m_fd_table pr') 1 = Some d)"
    and "\<And>d. d \<notin> D \<Longrightarrow> files (io k) d \<noteq> None \<Longrightarrow> files (io k') d = files (io k) d"
    and "\<And>u vn. vnodes (fs (io k)) u = Some vn \<Longrightarrow> ops vn = Some PseudoFsOps \<Longrightarrow> vnodes (fs (io k')) u = Some vn"
    and "\<And>d f u. d \<in> D \<Longrightarrow> files (io k) d = Some f \<Longrightarrow> fd_vnode f = Some u \<Longrightarrow> (\<forall>vn. vnodes (fs (io k)) u = Some vn \<longrightarrow> ops vn \<noteq> Some PseudoFsOps)"
  shows "keeps_output p k k'"
  unfolding keeps_output_def
proof (intro conjI allI impI assms(1-3))
  fix d
  assume "stdout_file p d k"
  then obtain f v vn where *: "GetFd (m_fd_table pr) 1 = Some d" "files (io k) d = Some f" "0 < fd_refs f"
     "fd_vnode f = Some v" "vnodes (fs (io k)) v = Some vn" "ops vn = Some PseudoFsOps" "write_cb vn = Some StdoutWrite"
    using assms(4) by (auto simp: stdout_file_def)
  then have "d \<notin> D" using assms(8) by blast
  moreover obtain pr' where "procs k' p = Some pr'" "GetFd (m_fd_table pr') 1 = Some d" using assms(5) * calculation by blast
  moreover have "files (io k') d = Some f" "vnodes (fs (io k')) v = Some vn" using assms(6,7) * calculation(1) by auto
  ultimately show "stdout_file p d k'" using * by (auto simp: stdout_file_def)
qed

lemma Pipe_Write_fits:
  assumes "ring_laws R con cap" and "m_readers q \<noteq> 0" and "length (con (m_buffer q)) + length bs \<le> cap"
  shows "\<exists>b ns. con b = con (m_buffer q) @ bs \<and> Pipe_Write R bs q = Some (Return (Value (of_nat (length bs))), q\<lparr>m_buffer := b\<rparr>, ns)"
proof -
  let ?room = "cap - length (con (m_buffer q))"
  have room: "length bs \<le> ?room" "take ?room bs = bs" using assms(3) by simp_all
  obtain b ns where "con b = con (m_buffer q) @ bs" "Write_loop R bs 0 q [] = Some (Return (Value (of_nat (length bs))), q\<lparr>m_buffer := b\<rparr>, ns)"
    using Write_loop_eq [OF assms(1), of 0 bs ?room q "[]"] room by auto
  then show ?thesis using assms(2) by (auto simp: Pipe_Write_def)
qed

lemma write_pipe:
  assumes "ring_laws (ring_ops (lib P)) con cap" and "pipe_state con p a (Some b) bs k"
    and "ucast (rdi w) = b" and "length bs + unat (rdx w) \<le> cap"
  shows "\<exists>k'. sys_write P p w k = (Ret (rdx w), k') \<and> kmem_of k' = kmem_of k \<and>
     pipe_state con p a (Some b) (bs @ read_bytes (kmem_of k) (rsi w) (unat (rdx w))) k' \<and> keeps_output p k k'"
proof -
  obtain pr rd rf v vn q wr wf where s: "procs k p = Some pr" "GetFd (m_fd_table pr) a = Some rd" "files (io k) rd = Some rf" "fd_vnode rf = Some v"
    "fd_refs rf = 1" "vnodes (fs (io k)) v = Some vn" "ops vn = Some PipeOps" "v_pipe vn = Some q" "con (m_buffer q) = bs" "m_readers q = 1"
    "m_writers q = 1" "b \<noteq> a" "GetFd (m_fd_table pr) b = Some wr" "wr \<noteq> rd" "files (io k) wr = Some wf" "fd_vnode wf = Some v" "fd_refs wf = 1"
    "fd_flags wf = kPipeWrite"
    by (rule pipe_state_open [OF assms(2)])
  let ?xs = "read_bytes (kmem_of k) (rsi w) (unat (rdx w))"
  obtain b' ns where b': "con b' = bs @ ?xs" "Pipe_Write (ring_ops (lib P)) ?xs q = Some (Return (Value (rdx w)), q\<lparr>m_buffer := b'\<rparr>, ns)"
    using Pipe_Write_fits [OF assms(1), of q ?xs] s(9,10) assms(4) by auto
  have "vnode_Write (lib P) v (rsi w) (rdx w) (fd_offset wf) (fs (io k)) =
      (Return (Value (rdx w)), upd_vnode v (\<lambda>vn. vn\<lparr>v_pipe := Some (q\<lparr>m_buffer := b'\<rparr>)\<rparr>) (fs (io k)))"
    using s(6-8) b'(2) by (simp add: vnode_Write_def PipeVnode_Write_def kmem_of_def)
  note run = sys_write_returns [OF s(1) _ s(15) _ s(16) _ this]
  obtain k' where k': "sys_write P p w k = (Ret (rdx w), k')" "kmem_of k' = kmem_of k"
    "pipe_state con p a (Some b) (bs @ ?xs) k'"
    "io k' = \<lparr>fs = upd_vnode v (\<lambda>vn. vn\<lparr>v_pipe := Some (q\<lparr>m_buffer := b'\<rparr>)\<rparr>) (fs (io k)), files = (files (io k))(wr \<mapsto> wf\<lparr>fd_offset := fd_offset wf + rdx w\<rparr>)\<rparr>"
    "sch k' = sch k" "procs k' = procs k"
    using run s b'(1) assms(3) by (auto simp: pipe_state_def write_end_def upd_vnode_def kmem_of_def)
  have "keeps_output p k k'"
    by (rule keeps_outputI [where D = "{wr}" and pr = pr]) (use s in \<open>auto simp: k' upd_vnode_def\<close>)
  with k' show ?thesis by blast
qed

lemma read_pipe:
  assumes "ring_laws (ring_ops (lib P)) con cap" and "pipe_state con p a ob bs k" and "ucast (rdi r) = a" and "bs \<noteq> [] \<or> ob = None"
  shows "\<exists>k'. sys_read P p r k = (Ret (of_nat (length (take (unat (rdx r)) bs))), k') \<and>
     kmem_of k' = write_bytes (kmem_of k) (rsi r) (take (unat (rdx r)) bs) \<and> pipe_state con p a ob (drop (unat (rdx r)) bs) k' \<and>
     keeps_output p k k'"
proof -
  obtain pr rd rf v vn q where s: "procs k p = Some pr" "GetFd (m_fd_table pr) a = Some rd" "files (io k) rd = Some rf" "fd_vnode rf = Some v"
    "fd_refs rf = 1" "vnodes (fs (io k)) v = Some vn" "ops vn = Some PipeOps" "v_pipe vn = Some q" "con (m_buffer q) = bs" "m_readers q = 1"
    and e: "case ob of None \<Rightarrow> m_writers q = 0 | Some b \<Rightarrow> m_writers q = 1 \<and> write_end (m_fd_table pr) (files (io k)) v rd a b"
    using assms(2) by (auto simp: pipe_state_def)
  obtain q' ns where q': "Pipe_Read (ring_ops (lib P)) (rdx r) q = (Return (Value (take (unat (rdx r)) bs)), q', ns)"
    "con (m_buffer q') = drop (unat (rdx r)) bs" "m_readers q' = 1" "m_writers q' = m_writers q"
  proof (cases "bs = []")
    case True
    then have "Pipe_Read (ring_ops (lib P)) (rdx r) q = (Return (Value []), q, [])"
      using Pipe_Read_eq [OF assms(1), of "rdx r" q] s(9) assms(4) e by auto
    then show thesis using that [of q "[]"] True s(9,10) by simp
  next
    case False
    then show thesis using Pipe_Read_eq [OF assms(1), of "rdx r" q] s(9,10) that by auto
  qed
  have "vnode_Read (lib P) v (rsi r) (rdx r) (fd_offset rf) (fs (io k)) = (Return (Value (of_nat (length (take (unat (rdx r)) bs)))),
      (upd_vnode v (\<lambda>vn. vn\<lparr>v_pipe := Some q'\<rparr>) (fs (io k)))\<lparr>memory := write_bytes (kmem_of k) (rsi r) (take (unat (rdx r)) bs)\<rparr>)"
    using s(6-8) q'(1) by (simp add: vnode_Read_def PipeVnode_Read_def kmem_of_def upd_vnode_def)
  note run = sys_read_returns [OF s(1) _ s(3) _ s(4) _ this]
  let ?n = "of_nat (length (take (unat (rdx r)) bs)) :: u64"
  obtain k' where k': "sys_read P p r k = (Ret ?n, k')" "kmem_of k' = write_bytes (kmem_of k) (rsi r) (take (unat (rdx r)) bs)"
    "pipe_state con p a ob (drop (unat (rdx r)) bs) k'"
    "io k' = \<lparr>fs = (upd_vnode v (\<lambda>vn. vn\<lparr>v_pipe := Some q'\<rparr>) (fs (io k)))\<lparr>memory := write_bytes (kmem_of k) (rsi r) (take (unat (rdx r)) bs)\<rparr>,
       files = (files (io k))(rd \<mapsto> rf\<lparr>fd_offset := fd_offset rf + ?n\<rparr>)\<rparr>" "sch k' = sch k" "procs k' = procs k"
    using run s e q' assms(3) by (auto simp: pipe_state_def write_end_def upd_vnode_def kmem_of_def split: option.splits)
  have "keeps_output p k k'"
    by (rule keeps_outputI [where D = "{rd}" and pr = pr]) (use s in \<open>auto simp: k' upd_vnode_def\<close>)
  with k' show ?thesis by blast
qed

lemma GetFd_reset: "GetFd (T[unat b := None]) a = (if a = b then None else GetFd T a)"
proof -
  have "a \<noteq> b \<Longrightarrow> unat b \<noteq> unat a" by (simp add: word_unat_eq_iff)
  then show ?thesis by (auto simp: GetFd_def)
qed

lemma close_pipe_file:
  assumes "procs k p = Some pr" and "GetFd (m_fd_table pr) (ucast (rdi c)) = Some e" and "files (io k) e = Some f" and "fd_vnode f = Some v"
    and "fd_refs f = 1" and "vnodes (fs (io k)) v = Some vn" and "ops vn = Some PipeOps"
  shows "\<exists>k'. sys_close p c k = (Ret 0, k') \<and> kmem_of k' = kmem_of k \<and>
     procs k' = (procs k)(p \<mapsto> pr\<lparr>m_fd_table := (m_fd_table pr)[unat (ucast (rdi c) :: u32) := None]\<rparr>) \<and> files (io k') = (files (io k))(e := None) \<and>
     vnodes (fs (io k')) = (vnodes (fs (io k)))(v \<mapsto> vn\<lparr>v_pipe := map_option (pipe_close (fd_flags f)) (v_pipe vn)\<rparr>) \<and> keeps_output p k k'"
proof -
  let ?b = "ucast (rdi c) :: u32"
  let ?T = "(m_fd_table pr)[unat ?b := None]"
  let ?s = "\<lparr>fs = vnode_Close v (fd_flags f) (fs (io k)), files = (files (io k))(e := None)\<rparr>"
  have t: "unat ?b < length (m_fd_table pr)" "m_fd_table pr ! unat ?b = Some e" using assms(2) by (auto simp: GetFd_def split: if_splits)
  have "FreeFd ?b (m_fd_table pr) (io k) = (?T, ?s)"
    using t assms(3-5) by (simp add: FreeFd_def reset_slot_def fd_release_def FileDescription_Destroy_def)
  then have run: "sys_close p c k = (Ret 0, upd_proc p (\<lambda>pr. pr\<lparr>m_fd_table := ?T\<rparr>) (k\<lparr>io := ?s\<rparr>))"
    using assms(1) by (simp add: sys_close_def on_table_def of_expected_def)
  define k' where "k' = upd_proc p (\<lambda>pr. pr\<lparr>m_fd_table := ?T\<rparr>) (k\<lparr>io := ?s\<rparr>)"
  have vc: "vnode_Close v (fd_flags f) (fs (io k)) =
      (fs (io k))\<lparr>vnodes := (vnodes (fs (io k)))(v \<mapsto> vn\<lparr>v_pipe := map_option (pipe_close (fd_flags f)) (v_pipe vn)\<rparr>)\<rparr>"
    using assms(6,7) by (simp add: vnode_Close_def upd_vnode_def)
  have k': "kmem_of k' = kmem_of k" "procs k' = (procs k)(p \<mapsto> pr\<lparr>m_fd_table := ?T\<rparr>)" "files (io k') = (files (io k))(e := None)"
    "vnodes (fs (io k')) = (vnodes (fs (io k)))(v \<mapsto> vn\<lparr>v_pipe := map_option (pipe_close (fd_flags f)) (v_pipe vn)\<rparr>)"
    "sch k' = sch k" "screen_console (fs (io k')) = screen_console (fs (io k))" "debug_port (fs (io k')) = debug_port (fs (io k))"
    using assms(1) by (simp_all add: k'_def vc upd_proc_def kmem_of_def)
  have "keeps_output p k k'"
  proof (rule keeps_outputI [where D = "{e}" and pr = pr, OF k'(5-7) assms(1)])
    show "\<exists>pr'. procs k' p = Some pr' \<and> (\<forall>d. GetFd (m_fd_table pr) 1 = Some d \<longrightarrow> d \<notin> {e} \<longrightarrow> GetFd (m_fd_table pr') 1 = Some d)"
      using assms(2) by (auto simp: k'(2) GetFd_reset)
  qed (use assms in \<open>auto simp: k'\<close>)
  then show ?thesis using run k'(1-4) unfolding k'_def [symmetric] by blast
qed

lemma close_write_end:
  assumes "pipe_state con p a (Some b) bs k" and "ucast (rdi c) = b"
  shows "\<exists>k'. sys_close p c k = (Ret 0, k') \<and> kmem_of k' = kmem_of k \<and> pipe_state con p a None bs k' \<and> keeps_output p k k'"
proof -
  obtain pr rd rf v vn q wr wf where s: "procs k p = Some pr" "GetFd (m_fd_table pr) a = Some rd" "files (io k) rd = Some rf" "fd_vnode rf = Some v"
    "fd_refs rf = 1" "vnodes (fs (io k)) v = Some vn" "ops vn = Some PipeOps" "v_pipe vn = Some q" "con (m_buffer q) = bs" "m_readers q = 1"
    "m_writers q = 1" "b \<noteq> a" "GetFd (m_fd_table pr) b = Some wr" "wr \<noteq> rd" "files (io k) wr = Some wf" "fd_vnode wf = Some v" "fd_refs wf = 1"
    "fd_flags wf = kPipeWrite"
    by (rule pipe_state_open [OF assms(1)])
  have "pipe_close kPipeWrite q = q\<lparr>m_writers := 0\<rparr>"
    using s(11) by (simp add: pipe_close_def kPipeRead_def kPipeWrite_def DecrementWriters_def Let_def)
  then show ?thesis
    using close_pipe_file [OF s(1) _ s(15-17) s(6,7), of c] s assms(2)
    by (fastforce simp: pipe_state_def GetFd_reset)
qed

text \<open>The read end first, and then the write end, as a program may do.\<close>

lemma close_both_ends:
  assumes "pipe_state con p a (Some b) bs k" and "ucast (rdi c) = a" and "ucast (rdi c') = b"
  shows "\<exists>k1 k2. sys_close p c k = (Ret 0, k1) \<and> sys_close p c' k1 = (Ret 0, k2) \<and> kmem_of k1 = kmem_of k \<and> kmem_of k2 = kmem_of k \<and>
     keeps_output p k k1 \<and> keeps_output p k k2"
proof -
  obtain pr rd rf v vn q wr wf where s: "procs k p = Some pr" "GetFd (m_fd_table pr) a = Some rd" "files (io k) rd = Some rf" "fd_vnode rf = Some v"
    "fd_refs rf = 1" "vnodes (fs (io k)) v = Some vn" "ops vn = Some PipeOps" "v_pipe vn = Some q" "con (m_buffer q) = bs" "m_readers q = 1"
    "m_writers q = 1" "b \<noteq> a" "GetFd (m_fd_table pr) b = Some wr" "wr \<noteq> rd" "files (io k) wr = Some wf" "fd_vnode wf = Some v" "fd_refs wf = 1"
    "fd_flags wf = kPipeWrite"
    by (rule pipe_state_open [OF assms(1)])
  obtain k1 where k1: "sys_close p c k = (Ret 0, k1)" "kmem_of k1 = kmem_of k" "procs k1 p = Some (pr\<lparr>m_fd_table := (m_fd_table pr)[unat a := None]\<rparr>)"
    "files (io k1) = (files (io k))(rd := None)"
    "vnodes (fs (io k1)) v = Some (vn\<lparr>v_pipe := map_option (pipe_close (fd_flags rf)) (v_pipe vn)\<rparr>)" "keeps_output p k k1"
    using close_pipe_file [OF s(1) _ s(3-7), of c] s(2) assms(2) by auto
  obtain k2 where "sys_close p c' k1 = (Ret 0, k2)" "kmem_of k2 = kmem_of k1" "keeps_output p k1 k2"
    using close_pipe_file [OF k1(3) _ _ s(16,17) k1(5), of c' wr] s k1(4) assms(3) by (auto simp: GetFd_reset)
  with k1 show ?thesis by (auto simp: keeps_output_def)
qed

section \<open>A new pipe\<close>

text \<open>What \<open>AllocateFd\<close> does to the file system: one more reference, and storage of the table.\<close>

lemma AllocateFd_loop_io:
  "AllocateFd_loop K d fd T s = (Value n, T', s') \<Longrightarrow>
     files s' = files (fd_addref d s) \<and> vnodes (fs s') = vnodes (fs s) \<and> memory (fs s') = memory (fs s) \<and>
     screen_console (fs s') = screen_console (fs s) \<and> debug_port (fs s') = debug_port (fs s)"
proof (induction K d fd T s rule: AllocateFd_loop.induct)
  case (1 K d fd T s)
  obtain ok T1 s1 where g: "grow K (fd + 1) T s = (ok, T1, s1)" by (cases "grow K (fd + 1) T s") auto
  then have "files s1 = files s" "vnodes (fs s1) = vnodes (fs s)" "memory (fs s1) = memory (fs s)"
    "screen_console (fs s1) = screen_console (fs s)" "debug_port (fs s1) = debug_port (fs s)"
    by (auto simp: grow_def split: if_splits prod.splits)
  then show ?case
    using 1(2) g 1(1) [OF _ g [symmetric] _ refl]
    by (subst (asm) AllocateFd_loop.simps) (auto simp: fd_addref_def upd_file_def split: if_splits bool.splits)
qed

lemma new_descriptor:
  assumes "on_table p (AllocateFd (lib P) (Some d)) k = (Value a, k')" and "procs k p = Some pr" and "m_fd_table pr = T" and "refs_ok oth T (io k)"
    and "0 < refs (io k) d"
  obtains T' where "procs k' p = Some (pr\<lparr>m_fd_table := T'\<rparr>)" and "\<forall>j. GetFd T' j = (if j = a then Some d else GetFd T j)"
    and "GetFd T a = None" and "refs_ok oth T' (io k')" and "files (io k') = files (fd_addref d (io k))"
    and "vnodes (fs (io k')) = vnodes (fs (io k))" and "kmem_of k' = kmem_of k" and "sch k' = sch k"
    and "screen_console (fs (io k')) = screen_console (fs (io k))" and "debug_port (fs (io k')) = debug_port (fs (io k))"
proof -
  obtain T' s where r: "AllocateFd (lib P) (Some d) T (io k) = (Value a, T', s)"
    and k': "k' = upd_proc p (\<lambda>pr. pr\<lparr>m_fd_table := T'\<rparr>) (k\<lparr>io := s\<rparr>)"
    using assms(1-3) by (auto simp: on_table_def split: prod.splits)
  have "AllocateFd_loop (lib P) d 0 T (io k) = (Value a, T', s)" using r by (simp add: AllocateFd_def)
  from AllocateFd_loop_io [OF this] AllocateFd_lowest [OF assms(4,5), of "lib P"] r show ?thesis
    using assms(2) by (intro that [of T']) (simp_all add: k' upd_proc_def kmem_of_def)
qed

lemma load32_store32_next: "load32 (store32 (store32 m a v) (a + 4) w) a = v"
proof -
  have "region a 4 \<inter> region (a + 4) 4 = {}" using region_offsets_disjoint [of 0 4 4 4 a] by simp
  then show ?thesis
    unfolding load32_def store32_def [of _ "a + 4"] by (subst read_write_disjoint) (simp_all flip: load32_def)
qed

lemma release_shared:
  assumes "files s d = Some f" and "1 < fd_refs f"
  shows "fs (fd_release d s) = fs s" and "files (fd_release d s) = (files s)(d \<mapsto> f\<lparr>fd_refs := fd_refs f - 1\<rparr>)"
  using assms by (simp_all add: fd_release_def upd_file_def)

text \<open>The objects of \<open>pipe\<close>: a vnode with an empty ring, open at both ends, and two open files of it.\<close>

lemma pipe_files:
  fixes k :: "('v, 'r, 'k, 'a) kernel"
  assumes K: "alloc_laws (lib P) live" and c: "counted live oth p k" and v: "PipeVnode_Create (lib P) (fs (io k)) = (Value vn, t)"
    and n: "FileDescription_new (lib P) (Some vn) kPipeRead (set_fs t (io k)) = (Value rd, s2)"
    and m: "FileDescription_new (lib P) (Some vn) kPipeWrite s2 = (Value wr, s3)"
  shows "wr \<noteq> rd" and "files (io k) rd = None" and "files (io k) wr = None" and "vn \<notin> live (kmm_of k)"
    and "files s3 = (files (io k))(rd \<mapsto> \<lparr>fd_vnode = Some vn, fd_offset = 0, fd_flags = kPipeRead, fd_refs = 1\<rparr>,
                                   wr \<mapsto> \<lparr>fd_vnode = Some vn, fd_offset = 0, fd_flags = kPipeWrite, fd_refs = 1\<rparr>)"
    and "vnodes (fs s3) = (vnodes (fs (io k)))(vn \<mapsto> (Vnode_new Fifo PipeOps)
          \<lparr>v_pipe := Some \<lparr>m_buffer = ring_new (lib P) kDefaultCapacity, m_readers = 1, m_writers = 1\<rparr>\<rparr>)"
    and "screen_console (fs s3) = screen_console (fs (io k))" and "debug_port (fs s3) = debug_port (fs (io k))" and "memory (fs s3) = kmem_of k"
    and "\<exists>oo. counted live oo p (k\<lparr>io := s3\<rparr>)"
proof -
  have c1: "counted live oth p (on_io (set_fs t) k)" using pipe_vnode_counts [OF K c v] .
  have c2: "counted live (oth(rd := oth rd + 1)) p (k\<lparr>io := s2\<rparr>)"
    using new_counts [OF K c1, of "Some vn" kPipeRead rd s2] n by (simp add: on_io_def)
  show "\<exists>oo. counted live oo p (k\<lparr>io := s3\<rparr>)" using new_counts [OF K c2, of "Some vn" kPipeWrite wr s3] m by auto
  obtain l1 l2 l3 l4 x where o: "op_new (lib P) (kmm (fs (io k))) = (Some vn, l1)" "op_new (lib P) l1 = (Some x, l2)"
    "op_new (lib P) l2 = (Some rd, l3)" "op_new (lib P) l3 = (Some wr, l4)"
    and t: "vnodes t = (vnodes (fs (io k)))(vn \<mapsto> (Vnode_new Fifo PipeOps)\<lparr>v_pipe := Some (Pipe_new (ring_new (lib P) kDefaultCapacity))\<rparr>)"
      "kmm t = l2" "screen_console t = screen_console (fs (io k))" "debug_port t = debug_port (fs (io k))" "memory t = kmem_of k"
    using v n m by (auto simp: PipeVnode_Create_def FileDescription_new_def set_fs_def vnode_Open_def upd_vnode_def kmem_of_def
        split: prod.splits option.splits VnodeOps.splits)
  note L = alloc_lawsD(1) [OF K] and I = alloc_lawsD(2) [OF K]
  show "vn \<notin> live (kmm_of k)" using L [OF o(1)] by (simp add: kmm_of_def)
  have "rd \<notin> live (kmm (fs (io k)))" using L [OF o(3)] I [OF o(1)] I [OF o(2)] by blast
  then show "files (io k) rd = None" using c by (auto simp: counted_def kmm_of_def)
  have "wr \<notin> live (kmm (fs (io k)))" using L [OF o(4)] I [OF o(1)] I [OF o(2)] I [OF o(3)] by blast
  then show "files (io k) wr = None" using c by (auto simp: counted_def kmm_of_def)
  show "wr \<noteq> rd" using L [OF o(4)] alloc_lawsD(3) [OF K o(3)] by auto
  have s2: "files s2 = (files (io k))(rd \<mapsto> \<lparr>fd_vnode = Some vn, fd_offset = 0, fd_flags = kPipeRead, fd_refs = 1\<rparr>)"
    "fs s2 = vnode_Open vn kPipeRead (t\<lparr>kmm := l3\<rparr>)" using n o(3) t(2) by (auto simp: FileDescription_new_def set_fs_def)
  have "kmm (fs s2) = l3" using s2(2) by (auto simp: vnode_Open_def upd_vnode_def split: option.split VnodeOps.split)
  then have s3: "files s3 = (files s2)(wr \<mapsto> \<lparr>fd_vnode = Some vn, fd_offset = 0, fd_flags = kPipeWrite, fd_refs = 1\<rparr>)"
    "fs s3 = vnode_Open vn kPipeWrite ((fs s2)\<lparr>kmm := l4\<rparr>)" using m o(4) by (auto simp: FileDescription_new_def)
  show "files s3 = (files (io k))(rd \<mapsto> \<lparr>fd_vnode = Some vn, fd_offset = 0, fd_flags = kPipeRead, fd_refs = 1\<rparr>,
      wr \<mapsto> \<lparr>fd_vnode = Some vn, fd_offset = 0, fd_flags = kPipeWrite, fd_refs = 1\<rparr>)" using s2 s3 by simp
  have f2: "fs s2 = t\<lparr>kmm := l3, vnodes := (vnodes (fs (io k)))(vn \<mapsto> (Vnode_new Fifo PipeOps)
      \<lparr>v_pipe := Some \<lparr>m_buffer = ring_new (lib P) kDefaultCapacity, m_readers = 1, m_writers = 0\<rparr>\<rparr>)\<rparr>"
    using t(1) by (simp add: s2(2) vnode_Open_def upd_vnode_def Vnode_new_def pipe_open_def kPipeRead_def kPipeWrite_def Pipe_new_def
        IncrementReaders_def Let_def)
  have f3: "fs s3 = t\<lparr>kmm := l4, vnodes := (vnodes (fs (io k)))(vn \<mapsto> (Vnode_new Fifo PipeOps)
      \<lparr>v_pipe := Some \<lparr>m_buffer = ring_new (lib P) kDefaultCapacity, m_readers = 1, m_writers = 1\<rparr>\<rparr>)\<rparr>"
    by (simp add: s3(2) f2 vnode_Open_def upd_vnode_def Vnode_new_def pipe_open_def kPipeRead_def kPipeWrite_def IncrementWriters_def Let_def)
  show "vnodes (fs s3) = (vnodes (fs (io k)))(vn \<mapsto> (Vnode_new Fifo PipeOps)
          \<lparr>v_pipe := Some \<lparr>m_buffer = ring_new (lib P) kDefaultCapacity, m_readers = 1, m_writers = 1\<rparr>\<rparr>)"
    "screen_console (fs s3) = screen_console (fs (io k))" "debug_port (fs s3) = debug_port (fs (io k))" "memory (fs s3) = kmem_of k"
    using t(3-5) by (simp_all add: f3)
qed

lemma sys_pipe_steps:
  assumes run: "sys_pipe P p regs k = (Ret 0, k')"
  obtains vn t rd s2 wr s3 a k4 b k5 where "PipeVnode_Create (lib P) (fs (io k)) = (Value vn, t)"
    and "FileDescription_new (lib P) (Some vn) kPipeRead (set_fs t (io k)) = (Value rd, s2)"
    and "FileDescription_new (lib P) (Some vn) kPipeWrite s2 = (Value wr, s3)"
    and "on_table p (AllocateFd (lib P) (Some rd)) (k\<lparr>io := s3\<rparr>) = (Value a, k4)"
    and "on_table p (AllocateFd (lib P) (Some wr)) k4 = (Value b, k5)"
    and "k' = on_io (fd_release rd) (on_io (fd_release wr) (set_mem (store32 (store32 (kmem_of k5) (rdi regs) a) (rdi regs + 4) b) k5))"
proof -
  obtain r1 t where v: "PipeVnode_Create (lib P) (fs (io k)) = (r1, t)" by fastforce
  obtain vn where r1: "r1 = Value vn" using run v by (cases r1) (simp_all add: sys_pipe_def err_def)
  obtain r2 s2 where n: "FileDescription_new (lib P) (Some vn) kPipeRead (set_fs t (io k)) = (r2, s2)" by fastforce
  obtain rd where rd: "r2 = Value rd" using run v r1 n by (cases r2) (simp_all add: sys_pipe_def)
  obtain r3 s3 where m: "FileDescription_new (lib P) (Some vn) kPipeWrite s2 = (r3, s3)" by fastforce
  obtain wr where wr: "r3 = Value wr" using run v r1 n rd m by (cases r3) (simp_all add: sys_pipe_def)
  obtain fd1 k4 where a1: "on_table p (AllocateFd (lib P) (Some rd)) (k\<lparr>io := s3\<rparr>) = (fd1, k4)" by fastforce
  obtain fd2 k5 where a2: "on_table p (AllocateFd (lib P) (Some wr)) k4 = (fd2, k5)" by fastforce
  have "err (- ENOMEM) \<noteq> 0" by (simp add: err_def)
  note R = run [unfolded sys_pipe_def v r1 prod.case expected.case n rd m wr a1 a2 Let_def]
  obtain a b where "fd1 = Value a" "fd2 = Value b"
    using R \<open>err (- ENOMEM) \<noteq> 0\<close> by (cases fd1; cases fd2) (simp_all split: if_splits)
  with R show thesis using v r1 n rd m wr a1 a2 by (intro that [of vn t rd s2 wr s3 a k4 b k5]) simp_all
qed

text \<open>Descriptors for two new files.\<close>

lemma two_descriptors:
  assumes a1: "on_table p (AllocateFd (lib P) (Some rd)) k = (Value a, k4)" and a2: "on_table p (AllocateFd (lib P) (Some wr)) k4 = (Value b, k5)"
    and pr: "procs k p = Some pr" "refs_ok oo (m_fd_table pr) (io k)" and f: "files (io k) rd = Some f1" "files (io k) wr = Some f2"
    "fd_refs f1 = 1" "fd_refs f2 = 1" "wr \<noteq> rd"
  obtains T where "procs k5 p = Some (pr\<lparr>m_fd_table := T\<rparr>)" and "b \<noteq> a" and "GetFd (m_fd_table pr) a = None" and "GetFd (m_fd_table pr) b = None"
    and "\<forall>j. GetFd T j = (if j = b then Some wr else if j = a then Some rd else GetFd (m_fd_table pr) j)"
    and "files (io k5) = (files (io k))(rd \<mapsto> f1\<lparr>fd_refs := 2\<rparr>, wr \<mapsto> f2\<lparr>fd_refs := 2\<rparr>)"
    and "vnodes (fs (io k5)) = vnodes (fs (io k))" and "kmem_of k5 = kmem_of k" and "sch k5 = sch k"
    and "screen_console (fs (io k5)) = screen_console (fs (io k))" and "debug_port (fs (io k5)) = debug_port (fs (io k))"
proof -
  have r1: "0 < refs (io k) rd" using f by (simp add: refs_def)
  obtain T1 where T1: "procs k4 p = Some (pr\<lparr>m_fd_table := T1\<rparr>)"
    "\<forall>j. GetFd T1 j = (if j = a then Some rd else GetFd (m_fd_table pr) j)" "GetFd (m_fd_table pr) a = None" "refs_ok oo T1 (io k4)"
    "files (io k4) = files (fd_addref rd (io k))" "vnodes (fs (io k4)) = vnodes (fs (io k))" "kmem_of k4 = kmem_of k" "sch k4 = sch k"
    "screen_console (fs (io k4)) = screen_console (fs (io k))" "debug_port (fs (io k4)) = debug_port (fs (io k))"
    by (rule new_descriptor [OF a1 pr(1) refl pr(2) r1])
  have r2: "0 < refs (io k4) wr" using f by (simp add: refs_def T1(5) fd_addref_def upd_file_def)
  obtain T2 where T2: "procs k5 p = Some (pr\<lparr>m_fd_table := T1, m_fd_table := T2\<rparr>)"
    "\<forall>j. GetFd T2 j = (if j = b then Some wr else GetFd T1 j)" "GetFd T1 b = None" "refs_ok oo T2 (io k5)"
    "files (io k5) = files (fd_addref wr (io k4))" "vnodes (fs (io k5)) = vnodes (fs (io k4))" "kmem_of k5 = kmem_of k4" "sch k5 = sch k4"
    "screen_console (fs (io k5)) = screen_console (fs (io k4))" "debug_port (fs (io k5)) = debug_port (fs (io k4))"
    by (rule new_descriptor [OF a2 T1(1) _ T1(4) r2]) simp
  have ba: "b \<noteq> a" using T1(2) T2(3) by auto
  show thesis
  proof (rule that [of T2])
    show "b \<noteq> a" by (rule ba)
    show "GetFd (m_fd_table pr) b = None" using T1(2) T2(3) ba by (auto split: if_splits)
    show "\<forall>j. GetFd T2 j = (if j = b then Some wr else if j = a then Some rd else GetFd (m_fd_table pr) j)" using T1(2) T2(2) by auto
    show "files (io k5) = (files (io k))(rd \<mapsto> f1\<lparr>fd_refs := 2\<rparr>, wr \<mapsto> f2\<lparr>fd_refs := 2\<rparr>)"
      using f by (simp add: T2(5) fd_addref_def upd_file_def T1(5) numeral_2_eq_2)
  qed (use T1 T2 in simp_all)
qed

lemma new_pipe:
  fixes k :: "('v, 'r, 'k, 'a) kernel"
  assumes K: "alloc_laws (lib P) live" and c: "counted live oth p k" and z: "con (ring_new (lib P) kDefaultCapacity) = []"
    and run: "sys_pipe P p regs k = (Ret 0, k')"
  shows "pipe_state con p (load32 (kmem_of k') (rdi regs)) (Some (load32 (kmem_of k') (rdi regs + 4))) [] k'"
    and "only_in (region (rdi regs) 8) (kmem_of k) (kmem_of k')"
    and "dom (vnodes (fs (io k))) \<subseteq> live (kmm_of k) \<Longrightarrow> keeps_output p k k'"
proof -
  obtain vn t rd s2 wr s3 a k4 b k5 where v: "PipeVnode_Create (lib P) (fs (io k)) = (Value vn, t)"
    and n: "FileDescription_new (lib P) (Some vn) kPipeRead (set_fs t (io k)) = (Value rd, s2)"
    and m: "FileDescription_new (lib P) (Some vn) kPipeWrite s2 = (Value wr, s3)"
    and a1: "on_table p (AllocateFd (lib P) (Some rd)) (k\<lparr>io := s3\<rparr>) = (Value a, k4)"
    and a2: "on_table p (AllocateFd (lib P) (Some wr)) k4 = (Value b, k5)"
    and k': "k' = on_io (fd_release rd) (on_io (fd_release wr) (set_mem (store32 (store32 (kmem_of k5) (rdi regs) a) (rdi regs + 4) b) k5))"
    by (rule sys_pipe_steps [OF run])
  note F = pipe_files [OF K c v n m]
  let ?f = "\<lambda>fl n. \<lparr>fd_vnode = Some vn, fd_offset = 0, fd_flags = fl, fd_refs = n\<rparr> :: FileDescription"
  obtain oo pr where pr: "procs k p = Some pr" "procs (k\<lparr>io := s3\<rparr>) p = Some pr" "refs_ok oo (m_fd_table pr) (io (k\<lparr>io := s3\<rparr>))"
    using F(10) by (auto simp: counted_def)
  have f3: "files (io (k\<lparr>io := s3\<rparr>)) rd = Some (?f kPipeRead 1)" "files (io (k\<lparr>io := s3\<rparr>)) wr = Some (?f kPipeWrite 1)"
    using F(1,5) by simp_all
  have f1: "fd_refs (?f kPipeRead 1) = 1" "fd_refs (?f kPipeWrite 1) = 1" by simp_all
  obtain T where T: "procs k5 p = Some (pr\<lparr>m_fd_table := T\<rparr>)" "b \<noteq> a" "GetFd (m_fd_table pr) a = None" "GetFd (m_fd_table pr) b = None"
    "\<forall>j. GetFd T j = (if j = b then Some wr else if j = a then Some rd else GetFd (m_fd_table pr) j)"
    "files (io k5) = (files (io (k\<lparr>io := s3\<rparr>)))(rd \<mapsto> (?f kPipeRead 1)\<lparr>fd_refs := 2\<rparr>, wr \<mapsto> (?f kPipeWrite 1)\<lparr>fd_refs := 2\<rparr>)"
    "vnodes (fs (io k5)) = vnodes (fs (io (k\<lparr>io := s3\<rparr>)))" "kmem_of k5 = kmem_of (k\<lparr>io := s3\<rparr>)" "sch k5 = sch (k\<lparr>io := s3\<rparr>)"
    "screen_console (fs (io k5)) = screen_console (fs (io (k\<lparr>io := s3\<rparr>)))" "debug_port (fs (io k5)) = debug_port (fs (io (k\<lparr>io := s3\<rparr>)))"
    by (rule two_descriptors [OF a1 a2 pr(2,3) f3 f1 F(1)])
  define k6 where "k6 = set_mem (store32 (store32 (kmem_of k5) (rdi regs) a) (rdi regs + 4) b) k5"
  have f6: "files (io k6) = (files (io k))(rd \<mapsto> ?f kPipeRead 2, wr \<mapsto> ?f kPipeWrite 2)"
    using F(1) by (auto simp: k6_def T(6) F(5))
  note R = release_shared [of "io k6" wr "?f kPipeWrite 2"] release_shared [of "fd_release wr (io k6)" rd "?f kPipeRead 2"]
  have fs': "fs (io k') = (fs (io k5))\<lparr>memory := store32 (store32 (kmem_of k5) (rdi regs) a) (rdi regs + 4) b\<rparr>"
    and fl: "files (io k') = files s3"
    unfolding k' k6_def [symmetric] using R F(1) by (simp_all add: on_io_def f6 F(5) fun_upd_twist) (simp add: k6_def set_mem_def)
  have mem: "kmem_of k' = store32 (store32 (kmem_of k) (rdi regs) a) (rdi regs + 4) b"
    using fs' T(8) F(9) by (simp add: kmem_of_def)
  have pr': "procs k' p = Some (pr\<lparr>m_fd_table := T\<rparr>)" using T(1) by (simp add: k' on_io_def)
  have fd: "GetFd T a = Some rd" "GetFd T b = Some wr" using T(2,5) by simp_all
  have vn: "vnodes (fs (io k')) = vnodes (fs s3)" using T(7) fs' by simp
  show "pipe_state con p (load32 (kmem_of k') (rdi regs)) (Some (load32 (kmem_of k') (rdi regs + 4))) [] k'"
    using F(1) z T(2) fd pr' by (auto simp: pipe_state_def write_end_def load32_store32_next Vnode_new_def mem vn F(5,6) fl)
  show "only_in (region (rdi regs) 8) (kmem_of k) (kmem_of k')"
    unfolding mem store32_def using only_in_trans [OF only_in_write [of 0 _ 8 "rdi regs"] only_in_write [of 4 _ 8 "rdi regs"]] by simp
  show "keeps_output p k k'" if "dom (vnodes (fs (io k))) \<subseteq> live (kmm_of k)"
  proof (rule keeps_outputI [where D = "{}", OF _ _ _ pr(1)])
    show "sch k' = sch k" using T(9) by (simp add: k' on_io_def set_mem_def)
    show "screen_console (fs (io k')) = screen_console (fs (io k))" "debug_port (fs (io k')) = debug_port (fs (io k))"
      using T(10,11) F(7,8) fs' by simp_all
    show "\<exists>pr'. procs k' p = Some pr' \<and> (\<forall>d. GetFd (m_fd_table pr) 1 = Some d \<longrightarrow> d \<notin> {} \<longrightarrow> GetFd (m_fd_table pr') 1 = Some d)"
      using pr' T(3-5) by auto
    show "files (io k') d = files (io k) d" if "files (io k) d \<noteq> None" for d using that F(2,3,5) by (auto simp: fl)
    show "vnodes (fs (io k')) u = Some w" if "vnodes (fs (io k)) u = Some w" "ops w = Some PseudoFsOps" for u w
      using that F(4) \<open>dom (vnodes (fs (io k))) \<subseteq> live (kmm_of k)\<close> by (auto simp: vn F(6))
  qed (erule emptyE)
qed

section \<open>Room for a new pipe\<close>

text \<open>Below the limit of the table a descriptor is found, and the table grows by at most one slot.\<close>

lemma AllocateFd_loop_room:
  assumes "storage_laws K live avail" and "0 < avail (kmm (fs s))" and "length T < kMaxFds" and "fd \<le> length T"
  shows "\<exists>n T' s'. AllocateFd_loop K d fd T s = (Value n, T', s') \<and> length T' \<le> Suc (length T) \<and> avail (kmm (fs s)) \<le> Suc (avail (kmm (fs s')))"
  using assms(4)
proof (induction "length T - fd" arbitrary: fd)
  case 0
  then have fd: "fd = length T" by simp
  obtain l where l: "PushBack_ok K (kmm (fs s)) = (True, l)" "avail l = avail (kmm (fs s)) - 1"
    using assms(1,2) unfolding storage_laws_def by blast
  then have "grow K (fd + 1) T s = (True, T @ [None], s\<lparr>fs := (fs s)\<lparr>kmm := l\<rparr>\<rparr>)" by (simp add: grow_def fd)
  then have "AllocateFd_loop K d fd T s = (Value (of_nat fd), T @ [Some d], fd_addref d (s\<lparr>fs := (fs s)\<lparr>kmm := l\<rparr>\<rparr>))"
    using assms(3) by (subst AllocateFd_loop.simps) (simp add: fd)
  then show ?case using l(2) by (simp add: fd_addref_def upd_file_def)
next
  case (Suc n)
  then have fd: "fd < length T" by simp
  then have g: "grow K (fd + 1) T s = (True, T, s)" by (simp add: grow_def)
  show ?case
  proof (cases "T ! fd = None")
    case True
    then have "AllocateFd_loop K d fd T s = (Value (of_nat fd), T[fd := Some d], fd_addref d s)"
      using assms(3) fd g by (subst AllocateFd_loop.simps) simp
    then show ?thesis by (simp add: fd_addref_def upd_file_def)
  next
    case False
    then have "AllocateFd_loop K d fd T s = AllocateFd_loop K d (fd + 1) T s"
      using assms(3) fd g by (subst AllocateFd_loop.simps) auto
    then show ?thesis using Suc.hyps(1) [of "fd + 1"] Suc.hyps(2) fd by auto
  qed
qed

lemma table_room:
  assumes "storage_laws (lib P) live avail" and "0 < avail (kmm_of k)" and "procs k p = Some pr" and "length (m_fd_table pr) < kMaxFds"
  shows "\<exists>n k' pr'. on_table p (AllocateFd (lib P) (Some d)) k = (Value n, k') \<and> procs k' p = Some pr' \<and>
     length (m_fd_table pr') \<le> Suc (length (m_fd_table pr)) \<and> avail (kmm_of k) \<le> Suc (avail (kmm_of k'))"
proof -
  obtain n T s where "AllocateFd (lib P) (Some d) (m_fd_table pr) (io k) = (Value n, T, s)" "length T \<le> Suc (length (m_fd_table pr))"
    "avail (kmm_of k) \<le> Suc (avail (kmm (fs s)))"
    using AllocateFd_loop_room [OF assms(1) _ assms(4), of "io k" 0 d] assms(2) by (auto simp: AllocateFd_def kmm_of_def)
  then show ?thesis using assms(3) by (auto simp: on_table_def upd_proc_def kmm_of_def)
qed

lemma storage_new:
  assumes "storage_laws K live avail" and "0 < avail l"
  shows "\<exists>a l'. op_new K l = (Some a, l') \<and> avail l' = avail l - 1"
  using assms unfolding storage_laws_def by blast

lemma new_file_room:
  assumes "storage_laws K live avail" and "0 < avail (kmm (fs s))"
  shows "\<exists>d s'. FileDescription_new K (Some v) flags s = (Value d, s') \<and> avail (kmm (fs s')) = avail (kmm (fs s)) - 1"
proof -
  obtain d l where o: "op_new K (kmm (fs s)) = (Some d, l)" "avail l = avail (kmm (fs s)) - 1" using storage_new [OF assms] by blast
  have "kmm (vnode_Open v flags t) = kmm t" for t :: "('a, 'b, 'c) fsys"
    by (simp add: vnode_Open_def upd_vnode_def split: option.split VnodeOps.split)
  then show ?thesis using o by (simp add: FileDescription_new_def)
qed

lemma pipe_succeeds:
  assumes S: "storage_laws (lib P) live avail" and "6 \<le> avail (kmm_of k)" and pr: "procs k p = Some pr" and "length (m_fd_table pr) + 2 \<le> kMaxFds"
  shows "\<exists>k'. sys_pipe P p regs k = (Ret 0, k')"
proof -
  obtain v l1 where l1: "op_new (lib P) (kmm (fs (io k))) = (Some v, l1)" "5 \<le> avail l1"
    using storage_new [OF S, of "kmm (fs (io k))"] assms(2) by (auto simp: kmm_of_def)
  obtain x l2 where l2: "op_new (lib P) l1 = (Some x, l2)" "4 \<le> avail l2" using storage_new [OF S, of l1] l1(2) by auto
  obtain t where t: "PipeVnode_Create (lib P) (fs (io k)) = (Value v, t)" "4 \<le> avail (kmm t)"
    using l1(1) l2 by (simp add: PipeVnode_Create_def)
  obtain rd s2 where s2: "FileDescription_new (lib P) (Some v) kPipeRead (set_fs t (io k)) = (Value rd, s2)" "3 \<le> avail (kmm (fs s2))"
    using new_file_room [OF S, of "set_fs t (io k)" v kPipeRead] t(2) by (auto simp: set_fs_def)
  obtain wr s3 where s3: "FileDescription_new (lib P) (Some v) kPipeWrite s2 = (Value wr, s3)" "2 \<le> avail (kmm (fs s3))"
    using new_file_room [OF S, of s2 v kPipeWrite] s2(2) by auto
  obtain a k4 pr4 where k4: "on_table p (AllocateFd (lib P) (Some rd)) (k\<lparr>io := s3\<rparr>) = (Value a, k4)" "procs k4 p = Some pr4"
    "length (m_fd_table pr4) \<le> Suc (length (m_fd_table pr))" "1 \<le> avail (kmm_of k4)"
    using table_room [OF S, of "k\<lparr>io := s3\<rparr>" p pr rd] pr assms(4) s3(2) by (auto simp: kmm_of_def)
  obtain b k5 where "on_table p (AllocateFd (lib P) (Some wr)) k4 = (Value b, k5)"
    using table_room [OF S, of k4 p pr4 wr] k4 assms(4) by auto
  then show ?thesis using t(1) s2(1) s3(1) k4(1) by (simp add: sys_pipe_def Let_def)
qed

section \<open>Properties\<close>

text \<open>
  C19: Data through a pipe, from system call to system call. After \<open>pipe\<close> stored its two descriptors, writing up to the capacity of the ring to the
  second returns the number of bytes; a read of at least as many from the first returns that number and puts exactly these bytes at its buffer,
  and no other byte of memory changes; when the write end is closed, the next read returns 0, the end of file. (The ring buffer is a bounded queue
  and empty when new, new storage is that of no live object, and the reference counts are exact.)
\<close>

theorem pipe_calls_transfer:
  assumes "alloc_laws (lib P) live" and "counted live oth p k" and R: "ring_laws (ring_ops (lib P)) con cap" "con (ring_new (lib P) kDefaultCapacity) = []"
    and "sys_pipe P p regs k = (Ret 0, k1)"
    and w: "ucast (rdi w) = load32 (kmem_of k1) (rdi regs + 4)" "0 < rdx w" "unat (rdx w) \<le> cap"
    and r: "ucast (rdi r) = load32 (kmem_of k1) (rdi regs)" "rdx w \<le> rdx r" and c: "rdi c = rdi w"
  shows "\<exists>k2 k3 k4 k5. sys_write P p w k1 = (Ret (rdx w), k2) \<and> kmem_of k2 = kmem_of k1 \<and>
     sys_read P p r k2 = (Ret (rdx w), k3) \<and> kmem_of k3 = write_bytes (kmem_of k1) (rsi r) (read_bytes (kmem_of k1) (rsi w) (unat (rdx w))) \<and>
     sys_close p c k3 = (Ret 0, k4) \<and> sys_read P p r k4 = (Ret 0, k5) \<and> kmem_of k5 = kmem_of k3"
proof -
  let ?a = "load32 (kmem_of k1) (rdi regs)" and ?b = "load32 (kmem_of k1) (rdi regs + 4)"
  let ?bs = "read_bytes (kmem_of k1) (rsi w) (unat (rdx w))"
  note N = new_pipe(1) [where con = con, OF assms(1,2) R(2) assms(5)]
  obtain k2 where k2: "sys_write P p w k1 = (Ret (rdx w), k2)" "kmem_of k2 = kmem_of k1" "pipe_state con p ?a (Some ?b) ?bs k2"
    using write_pipe [OF R(1) N w(1)] w(3) by auto
  have l: "0 < unat (rdx w)" "unat (rdx w) \<le> unat (rdx r)" using w(2) r(2) by (simp_all add: word_less_nat_alt word_le_nat_alt)
  then have t: "?bs \<noteq> []" "take (unat (rdx r)) ?bs = ?bs" "drop (unat (rdx r)) ?bs = []" by (auto simp flip: length_0_conv)
  obtain k3 where k3: "sys_read P p r k2 = (Ret (rdx w), k3)" "kmem_of k3 = write_bytes (kmem_of k1) (rsi r) ?bs" "pipe_state con p ?a (Some ?b) [] k3"
    using read_pipe [OF R(1) k2(3) r(1)] k2(2) t by auto
  obtain k4 where k4: "sys_close p c k3 = (Ret 0, k4)" "kmem_of k4 = kmem_of k3" "pipe_state con p ?a None [] k4"
    using close_write_end [OF k3(3), of c] w(1) c by auto
  obtain k5 where "sys_read P p r k4 = (Ret 0, k5)" "kmem_of k5 = kmem_of k4" using read_pipe [OF R(1) k4(3) r(1)] by auto
  with k2 k3 k4 show ?thesis by auto
qed

theorem pipe_calls_transfer_witness:
  "\<exists>k1 w r k2 k3. sys_pipe (ex_plat\<lparr>lib := ex_pool\<rparr>) 0x500 (zero_frame\<lparr>rdi := 0x4000\<rparr>) ex_kernel = (Ret 0, k1) \<and>
     sys_write (ex_plat\<lparr>lib := ex_pool\<rparr>) 0x500 w k1 = (Ret 3, k2) \<and> sys_read (ex_plat\<lparr>lib := ex_pool\<rparr>) 0x500 r k2 = (Ret 3, k3) \<and>
     kmem_of k3 = write_bytes (kmem_of k1) 0x6000 (read_bytes (kmem_of k1) 0x5000 3)"
proof -
  let ?P = "ex_plat\<lparr>lib := ex_pool\<rparr>" and ?regs = "zero_frame\<lparr>rdi := 0x4000\<rparr>"
  have "\<exists>k1. sys_pipe ?P 0x500 ?regs ex_kernel = (Ret 0, k1)"
    by (simp add: sys_pipe_def PipeVnode_Create_def FileDescription_new_def ex_kernel_def Process_new_def ex_filesys_def ex_fsys_def ex_pool_def
        ex_fk_def set_fs_def vnode_Open_def upd_vnode_def Vnode_new_def
        ex_table_def on_table_def AllocateFd_def AllocateFd_loop.simps [of _ _ "0"]
        AllocateFd_loop.simps [of _ _ "Suc 0"] AllocateFd_loop.simps [of _ _ "Suc (Suc 0)"]
        AllocateFd_loop.simps [of _ _ "Suc (Suc (Suc 0))"] AllocateFd_loop.simps [of _ _ "Suc (Suc (Suc (Suc 0)))"] kMaxFds_def grow_def fd_addref_def upd_file_def Let_def upd_proc_def)
  then obtain k1 where k1: "sys_pipe ?P 0x500 ?regs ex_kernel = (Ret 0, k1)" by (elim exE)
  let ?w = "zero_frame\<lparr>rdi := ucast (load32 (kmem_of k1) (rdi ?regs + 4)), rsi := 0x5000, rdx := 3\<rparr>"
  let ?r = "zero_frame\<lparr>rdi := ucast (load32 (kmem_of k1) (rdi ?regs)), rsi := 0x6000, rdx := 8\<rparr>"
  have "alloc_laws (lib ?P) ex_live" "ring_laws (ring_ops (lib ?P)) (take 4) 4" "take 4 (ring_new (lib ?P) kDefaultCapacity) = []"
    using ex_pool_alloc list_ring_laws by (simp_all add: ex_pool_def ex_fk_def)
  from pipe_calls_transfer [OF this(1) ex_counted this(2,3) k1, of ?w ?r ?w] obtain k2 k3 where
    "sys_write ?P 0x500 ?w k1 = (Ret 3, k2)" "sys_read ?P 0x500 ?r k2 = (Ret 3, k3)"
    "kmem_of k3 = write_bytes (kmem_of k1) 0x6000 (read_bytes (kmem_of k1) 0x5000 3)" by (auto simp: ucast_ucast_u32)
  with k1 show ?thesis by (intro exI conjI)
qed

end
