(* ===== verification/UserProg.thy ===== *)
theory UserProg
  imports Entry PipeCalls
begin

text \<open>
  The first user program (\<open>userspace/init.c\<close>) on the kernel: the system call stubs (\<open>userspace/syscalls.asm\<close>), the entry point
  (\<open>userspace/crt0.asm\<close>), the printing functions and the sections of \<open>main\<close>.

  A program is a tree: it calls a stub and goes on with the result, reads or writes its memory, or loops for ever. \<open>run\<close> executes the tree against
  \<open>Dispatch\<close>, as the only runnable thread, until a call does not come back (it sleeps, ends, or panics) or an access is to a page that
  is not there. Where the linker and the compiler put strings and locals whose address is taken is the record \<open>layout\<close>.
\<close>

section \<open>Stubs\<close>

datatype stub = u_write | u_exit | u_read | u_close | u_mmap | u_munmap | u_brk | u_execve | u_pipe | u_rt_sigaction | u_sig_restorer |
  u_fork | u_getpid | u_getppid | u_waitpid

fun stub_number :: "stub \<Rightarrow> u64" where
  "stub_number u_write = 1"
| "stub_number u_exit = 60"
| "stub_number u_read = 0"
| "stub_number u_close = 3"
| "stub_number u_mmap = 9"
| "stub_number u_munmap = 11"
| "stub_number u_brk = 12"
| "stub_number u_execve = 59"
| "stub_number u_pipe = 22"
| "stub_number u_rt_sigaction = 13"
| "stub_number u_sig_restorer = 15"
| "stub_number u_fork = 57"
| "stub_number u_getpid = 39"
| "stub_number u_getppid = 110"
| "stub_number u_waitpid = 61"

text \<open>The registers at the \<open>syscall\<close> instruction: the arguments of the C call, and what the stub moves. The instruction then puts the return point
  into \<open>rcx\<close> and the flags into \<open>r11\<close>, which the calls of this program do not read.\<close>

definition arg :: "u64 list \<Rightarrow> nat \<Rightarrow> u64 \<Rightarrow> u64" where
  "arg args i old = (if i < length args then args ! i else old)"

definition stub_regs :: "stub \<Rightarrow> u64 list \<Rightarrow> InterruptFrame \<Rightarrow> InterruptFrame" where
  "stub_regs f args regs =
     (let regs = regs\<lparr>rdi := arg args 0 (rdi regs), rsi := arg args 1 (rsi regs), rdx := arg args 2 (rdx regs),
                     rcx := arg args 3 (rcx regs), r8 := arg args 4 (r8 regs), r9 := arg args 5 (r9 regs)\<rparr>;
          regs = (if f = u_mmap then regs\<lparr>r10 := rcx regs\<rparr> else regs)
      in regs\<lparr>rax := stub_number f\<rparr>)"

section \<open>Programs\<close>

datatype prog =
    Call stub "u64 list" "u64 \<Rightarrow> prog"
  | Look "mem \<Rightarrow> prog"
  | Get addr nat "u8 list \<Rightarrow> prog"
  | Put addr "u8 list" prog
  | Spin

datatype stop = NoReturn sysret "u64 \<Rightarrow> prog" | Spinning | SegFault addr

text \<open>\<open>mapped\<close> says which addresses have a page.\<close>

primrec run ::
  "('v, 'r, 'k, 'a) plat \<Rightarrow> addr \<Rightarrow> u64 \<Rightarrow> (addr \<Rightarrow> bool) \<Rightarrow> prog \<Rightarrow> InterruptFrame \<Rightarrow> ('v, 'r, 'k, 'a) kernel \<Rightarrow> stop \<times> ('v, 'r, 'k, 'a) kernel" where
  "run P buf user_rsp mapped (Call f args c) regs k =
     (case Dispatch P buf user_rsp (stub_regs f args regs) k of
        (r, regs, k) \<Rightarrow>
          (case r of
             Ret w \<Rightarrow> run P buf user_rsp mapped (c w) (regs\<lparr>rax := w\<rparr>) k
           | _ \<Rightarrow> (NoReturn r c, k)))"
| "run P buf user_rsp mapped (Look f) regs k = run P buf user_rsp mapped (f (kmem_of k)) regs k"
| "run P buf user_rsp mapped (Get a n f) regs k =
     (if mapped a then run P buf user_rsp mapped (f (read_bytes (kmem_of k) a n)) regs k else (SegFault a, k))"
| "run P buf user_rsp mapped (Put a bs p) regs k =
     (if mapped a then run P buf user_rsp mapped p regs (set_mem (write_bytes (kmem_of k) a bs) k) else (SegFault a, k))"
| "run P buf user_rsp mapped Spin regs k = (Spinning, k)"

section \<open>Printing\<close>

record layout =
  at_lit :: "string \<Rightarrow> addr"
  at_digits :: addr
  at_p_fds :: addr
  at_buf :: addr
  at_wstatus :: addr
  at_sa :: addr
  at_sigsegv_caught :: addr
  at_handle_sigsegv :: addr
  at_sig_restorer :: addr

text \<open>The loop over the characters does not end when no byte of memory is NUL.\<close>

definition print :: "addr \<Rightarrow> prog \<Rightarrow> prog" where
  "print s c =
     Look (\<lambda>m. case cstr m s of
                 None \<Rightarrow> Spin
               | Some str \<Rightarrow> Call u_write [1, s, of_nat (length str)] (\<lambda>_. c))"

definition print_lit :: "layout \<Rightarrow> string \<Rightarrow> prog \<Rightarrow> prog" where
  "print_lit U str c = print (at_lit U str) c"

text \<open>The digit loop fills the buffer of 20 bytes from its end: the index, and the bytes from the index on.\<close>

function digits_loop :: "int \<Rightarrow> nat \<Rightarrow> u8 list \<Rightarrow> nat \<times> u8 list" where
  "digits_loop n i bs = (if n > 0 then digits_loop (n div 10) (i - 1) (of_int (48 + n mod 10) # bs) else (i, bs))"
  by pat_completeness auto
termination
  by (relation "measure (\<lambda>(n, i, bs). nat n)") auto

declare digits_loop.simps [simp del]

text \<open>\<open>n\<close> is a \<open>long long\<close>; the negation of the least one overflows, which C leaves open: here it wraps.\<close>

definition print_int :: "layout \<Rightarrow> int \<Rightarrow> prog \<Rightarrow> prog" where
  "print_int U n c =
     (let rest = (\<lambda>n. if n = 0 then Call u_write [1, at_lit U ''0'', 1] (\<lambda>_. c)
                      else (case digits_loop n 20 [] of
                              (i, bs) \<Rightarrow> Put (at_digits U + of_nat i) bs
                                          (Call u_write [1, at_digits U + of_nat i, of_nat (20 - i)] (\<lambda>_. c))))
      in if n < 0 then Call u_write [1, at_lit U ''-'', 1] (\<lambda>_. rest (sint (- word_of_int n :: u64))) else rest n)"

section \<open>The sections of main\<close>

definition init_brk :: "layout \<Rightarrow> (addr \<Rightarrow> prog) \<Rightarrow> prog" where
  "init_brk U c =
     Call u_brk [0] (\<lambda>initial_brk.
     Call u_brk [initial_brk + 4096] (\<lambda>new_brk.
     if new_brk > initial_brk then
       print_lit U ''[INIT] brk expansion successful. Testing write...\<newline>'' (
       Put initial_brk (to_bytes 4 (0xDEADC0DE :: u32)) (
       Get initial_brk 4 (\<lambda>v. if of_bytes v = (0xDEADC0DE :: u32)
                              then print_lit U ''[INIT] brk write/read verified.\<newline>'' (c initial_brk)
                              else c initial_brk)))
     else print_lit U ''[INIT] brk expansion failed!\<newline>'' (c initial_brk)))"

definition init_mmap :: "layout \<Rightarrow> prog \<Rightarrow> prog" where
  "init_mmap U c =
     print_lit U ''[INIT] Testing mmap anonymous...\<newline>'' (
     Call u_mmap [0, 4096, 1 OR 2, 0x02 OR 0x20, - 1, 0] (\<lambda>map_addr.
     if sint map_addr > 0 then
       print_lit U ''[INIT] mmap successful. Testing write...\<newline>'' (
       Put map_addr (to_bytes 4 (0xCAFEBABE :: u32)) (
       Get map_addr 4 (\<lambda>v.
         let done_map = Call u_munmap [map_addr, 4096] (\<lambda>_. print_lit U ''[INIT] munmap completed.\<newline>'' c)
         in if of_bytes v = (0xCAFEBABE :: u32) then print_lit U ''[INIT] mmap write/read verified.\<newline>'' done_map else done_map)))
     else print_lit U ''[INIT] mmap failed!\<newline>'' c))"

definition get_int :: "addr \<Rightarrow> (u64 \<Rightarrow> prog) \<Rightarrow> prog" where
  "get_int a f = Get a 4 (\<lambda>bs. f (scast (of_bytes bs :: u32)))"

definition init_pipe :: "layout \<Rightarrow> prog \<Rightarrow> prog" where
  "init_pipe U c =
     print_lit U ''[INIT] Testing pipe...\<newline>'' (
     Call u_pipe [at_p_fds U] (\<lambda>r.
     if cint r = 0 then
       print_lit U ''[INIT] pipe successful. Testing data transfer...\<newline>'' (
       get_int (at_p_fds U + 4) (\<lambda>wr.
       Call u_write [wr, at_lit U ''Hello from Pipe!'', 16] (\<lambda>_.
       get_int (at_p_fds U) (\<lambda>rd_fd.
       Call u_read [rd_fd, at_buf U, 32] (\<lambda>rd.
       let finish = get_int (at_p_fds U) (\<lambda>rd_fd. Call u_close [rd_fd] (\<lambda>_.
                    get_int (at_p_fds U + 4) (\<lambda>wr. Call u_close [wr] (\<lambda>_.
                    print_lit U ''[INIT] pipe descriptors closed.\<newline>'' c))))
       in if rd = 16 then
            Put (at_buf U + 16) [0] (
            print_lit U ''[INIT] Read from pipe: '' (
            print (at_buf U) (
            print_lit U ''\<newline>'' finish)))
          else print_lit U ''[INIT] pipe read failed or unexpected size.\<newline>'' finish)))))
     else print_lit U ''[INIT] pipe failed!\<newline>'' c))"

definition WEXITSTATUS :: "u32 \<Rightarrow> u32" where
  "WEXITSTATUS st = drop_bit 8 st AND 0xFF"

definition init_child :: "layout \<Rightarrow> addr \<Rightarrow> prog \<Rightarrow> prog" where
  "init_child U initial_brk c =
     Call u_getpid [] (\<lambda>cpid. Call u_getppid [] (\<lambda>ppid.
     print_lit U ''[CHILD] Hello from child process! PID='' (print_int U (cint cpid) (
     print_lit U '' PPID='' (print_int U (cint ppid) (
     print_lit U ''\<newline>'' (
     Put initial_brk (to_bytes 4 (0x11223344 :: u32)) (
     print_lit U ''[CHILD] CoW write to heap succeeded.\<newline>'' (
     Call u_exit [42] (\<lambda>_. c))))))))))"

definition init_parent :: "layout \<Rightarrow> addr \<Rightarrow> u64 \<Rightarrow> prog \<Rightarrow> prog" where
  "init_parent U initial_brk child c =
     (let check = Get initial_brk 4 (\<lambda>v. if of_bytes v = (0xDEADC0DE :: u32)
            then print_lit U (''[INIT] CoW isolation verified: parent'' @ CHR 0x27 # ''s memory is unmodified.\<newline>'') c
            else print_lit U (''[INIT] CoW FAILURE: parent'' @ CHR 0x27 # ''s memory was corrupted!\<newline>'') c)
      in
      print_lit U ''[INIT] fork() returned child PID: '' (print_int U (cint child) (print_lit U ''\<newline>'' (
      Put (at_wstatus U) (to_bytes 4 (0 :: u32)) (
      Call u_waitpid [child, at_wstatus U, 0] (\<lambda>waited.
      if cint waited = cint child then
        Get (at_wstatus U) 4 (\<lambda>ws.
          let exited_status = WEXITSTATUS (of_bytes ws) in
          print_lit U ''[INIT] waitpid() collected child '' (print_int U (cint waited) (
          print_lit U '', exit status='' (print_int U (sint exited_status) (
          print_lit U ''\<newline>'' (
          if exited_status = 42 then print_lit U ''[INIT] fork/waitpid: PASSED.\<newline>'' check
          else print_lit U ''[INIT] fork/waitpid: FAILED (wrong exit status).\<newline>'' check))))))
      else print_lit U ''[INIT] waitpid() failed!\<newline>'' check))))))"

definition init_fork :: "layout \<Rightarrow> addr \<Rightarrow> prog \<Rightarrow> prog" where
  "init_fork U initial_brk c =
     print_lit U ''[INIT] Testing fork()...\<newline>'' (
     Call u_getpid [] (\<lambda>my_pid.
     print_lit U ''[INIT] Parent PID: '' (print_int U (cint my_pid) (print_lit U ''\<newline>'' (
     Call u_fork [] (\<lambda>child.
     if cint child < 0 then print_lit U ''[INIT] fork() failed!\<newline>'' c
     else if cint child = 0 then init_child U initial_brk c
     else init_parent U initial_brk child c))))))"

definition handle_sigsegv :: "layout \<Rightarrow> prog" where
  "handle_sigsegv U =
     Put (at_sigsegv_caught U) (to_bytes 4 (1 :: u32)) (
     print_lit U ''[INIT] Caught SIGSEGV! Signal subsystem is working.\<newline>'' (
     Call u_exit [0] (\<lambda>_. Call u_sig_restorer [] (\<lambda>_. Spin))))"

definition init_signal :: "layout \<Rightarrow> prog \<Rightarrow> prog" where
  "init_signal U c =
     print_lit U ''[INIT] Testing signals (SIGSEGV)...\<newline>'' (
     Put (at_sa U) (to_bytes 8 (at_handle_sigsegv U)) (
     Put (at_sa U + 8) (to_bytes 8 (0 :: u64)) (
     Put (at_sa U + 24) (to_bytes 4 (0x04000000 :: u32)) (
     Put (at_sa U + 32) (to_bytes 8 (at_sig_restorer U)) (
     Put (at_sa U + 16) (to_bytes 8 (0 :: u64)) (
     Call u_rt_sigaction [11, at_sa U, 0] (\<lambda>r.
     if cint r = 0 then
       print_lit U ''[INIT] rt_sigaction successful. Triggering page fault...\<newline>'' (
       Put 0 (to_bytes 4 (123 :: u32)) (
       print_lit U ''[INIT] ERROR: Should not reach here after SIGSEGV!\<newline>'' c))
     else print_lit U ''[INIT] rt_sigaction failed!\<newline>'' c)))))))"

definition init_main :: "layout \<Rightarrow> (u64 \<Rightarrow> prog) \<Rightarrow> prog" where
  "init_main U ret =
     print_lit U ''[INIT] Starting syscall validation...\<newline>'' (
     init_brk U (\<lambda>initial_brk.
     init_mmap U (
     init_pipe U (
     init_fork U initial_brk (
     init_signal U (
     print_lit U ''[INIT] All tests passed. Exiting.\<newline>'' (
     Call u_exit [0] (\<lambda>_. ret 0))))))))"

text \<open>\<open>_start\<close>: \<open>main\<close>, then \<open>_exit\<close> with its result; \<open>hlt\<close> faults in user mode, and the loop would repeat it.\<close>

definition user_start :: "layout \<Rightarrow> prog" where
  "user_start U = init_main U (\<lambda>r. Call u_exit [r] (\<lambda>_. Spin))"

section \<open>Calls that return\<close>

lemma stub_regs_simps [simp]:
  "rax (stub_regs f args regs) = stub_number f" "rdi (stub_regs f args regs) = arg args 0 (rdi regs)"
  "rsi (stub_regs f args regs) = arg args 1 (rsi regs)" "rdx (stub_regs f args regs) = arg args 2 (rdx regs)"
  by (simp_all add: stub_regs_def Let_def)

lemma arg_simps [simp]: "arg (x # xs) 0 old = x" "arg (x # xs) (Suc n) old = arg xs n old" "arg [] n old = old"
  "arg (x # xs) (numeral v) old = arg xs (numeral v - 1) old"
  by (simp_all add: arg_def numeral_eq_Suc)

text \<open>A call by the process \<open>p\<close> on the processor.\<close>

definition runs :: "addr \<Rightarrow> ('v, 'r, 'k, 'a) kernel \<Rightarrow> bool" where
  "runs p k \<longleftrightarrow> (\<exists>t. current_thread (sch k) = Some t \<and> m_process (thr (sch k) t) = Some p)"

lemma run_Call:
  assumes "runs p k" and "f \<notin> {u_execve, u_sig_restorer}"
    and "\<And>t. dispatch_call P t (Some p) (stub_regs f args regs) k = (Ret w, k')"
  shows "\<exists>regs'. run P buf user_rsp mapped (Call f args c) regs k = run P buf user_rsp mapped (c w) regs' k'"
proof -
  have n: "stub_number f \<noteq> 15" "stub_number f \<noteq> 59" "stub_number f \<noteq> 257" using assms(2) by (cases f; simp)+
  obtain t where t: "GetCurrentThread (sch k) = Some t" "m_process (thr (sch k) t) = Some p"
    using assms(1) by (auto simp: runs_def GetCurrentThread_def)
  have "Dispatch P buf user_rsp (stub_regs f args regs) k = (Ret w, stub_regs f args regs, k')"
    using n t assms(3) [of "Some t"] by (simp add: Dispatch_def)
  then show ?thesis by (intro exI [of _ "(stub_regs f args regs)\<lparr>rax := w\<rparr>"]) simp
qed

section \<open>Output\<close>

lemma console_write_effect:
  assumes "screen_fits (screen_console s)" and "region buf (unat sz) \<inter> screen_area (screen_console s) = {}" and "s' = console_write buf sz s"
  shows "debug_port s' = debug_port s @ read_bytes (memory s) buf (unat sz)" "only_in (screen_area (screen_console s)) (memory s) (memory s')"
    "screen_fits (screen_console s')" "screen_area (screen_console s') = screen_area (screen_console s)"
    "vnodes s' = vnodes s" "kmm s' = kmm s"
proof -
  let ?f = "\<lambda>i s. let ch = memory s (buf + of_nat i); (c, m) = linearfb_console_putc ch (screen_console s, memory s)
                 in s\<lparr>screen_console := c, memory := m, debug_port := debug_port s @ [ch]\<rparr>"
  let ?A = "screen_area (screen_console s)"
  have "debug_port (fold ?f [0..<n] s) = debug_port s @ read_bytes (memory s) buf n \<and> only_in ?A (memory s) (memory (fold ?f [0..<n] s)) \<and>
      screen_fits (screen_console (fold ?f [0..<n] s)) \<and> screen_area (screen_console (fold ?f [0..<n] s)) = ?A \<and>
      vnodes (fold ?f [0..<n] s) = vnodes s \<and> kmm (fold ?f [0..<n] s) = kmm s" if "n \<le> unat sz" for n
    using that
  proof (induction n)
    case 0
    then show ?case using assms(1) by simp
  next
    case (Suc n)
    let ?s = "fold ?f [0..<n] s"
    obtain c m where p: "linearfb_console_putc (memory ?s (buf + of_nat n)) (screen_console ?s, memory ?s) = (c, m)" by fastforce
    have IH: "debug_port ?s = debug_port s @ read_bytes (memory s) buf n" "only_in ?A (memory s) (memory ?s)"
      "screen_fits (screen_console ?s)" "screen_area (screen_console ?s) = ?A" "vnodes ?s = vnodes s" "kmm ?s = kmm s"
      using Suc by simp_all
    have st: "fold ?f [0..<Suc n] s = ?s\<lparr>screen_console := c, memory := m, debug_port := debug_port ?s @ [memory ?s (buf + of_nat n)]\<rparr>"
      using p by (simp add: Let_def)
    have "buf + of_nat n \<in> region buf (unat sz)" using Suc.prems by (auto simp: region_def)
    then have b: "memory ?s (buf + of_nat n) = memory s (buf + of_nat n)" using IH(2) assms(2) by (auto simp: only_in_def)
    note a = putc_area [OF IH(3), where m = "memory ?s" and ch = "memory ?s (buf + of_nat n)", unfolded p IH(4)]
    show ?case unfolding st
      using IH a only_in_trans [OF IH(2)] b read_bytes_append [of "memory s" buf n 1] by (simp add: read_bytes_Suc)
  qed
  from this [of "unat sz"] show "debug_port s' = debug_port s @ read_bytes (memory s) buf (unat sz)"
    "only_in (screen_area (screen_console s)) (memory s) (memory s')"
    "screen_fits (screen_console s')" "screen_area (screen_console s') = screen_area (screen_console s)"
    "vnodes s' = vnodes s" "kmm s' = kmm s"
    by (simp_all add: assms(3) console_write_def)
qed

text \<open>
  \<open>console_user p d A k\<close>: process \<open>p\<close> runs, its descriptor 1 is the open file \<open>d\<close> of a console node, and the screen lies in \<open>A\<close>.
  \<open>printed d A bs k k'\<close>: the bytes were sent to the debug port, and only the screen and the offset of the file changed besides.
\<close>

definition console_user :: "addr \<Rightarrow> addr \<Rightarrow> addr set \<Rightarrow> ('v, 'r, 'k, 'a) kernel \<Rightarrow> bool" where
  "console_user p d A k \<longleftrightarrow> runs p k \<and> screen_fits (screen_console (fs (io k))) \<and> screen_area (screen_console (fs (io k))) = A \<and>
     stdout_file p d k"

definition printed :: "addr \<Rightarrow> addr set \<Rightarrow> u8 list \<Rightarrow> ('v, 'r, 'k, 'a) kernel \<Rightarrow> ('v, 'r, 'k, 'a) kernel \<Rightarrow> bool" where
  "printed d A bs k k' \<longleftrightarrow> debug_port (fs (io k')) = debug_port (fs (io k)) @ bs \<and> only_in A (kmem_of k) (kmem_of k') \<and>
     procs k' = procs k \<and> sch k' = sch k \<and> spaces k' = spaces k \<and> vnodes (fs (io k')) = vnodes (fs (io k)) \<and> kmm_of k' = kmm_of k \<and>
     (\<exists>w. files (io k') = (files (io k))(d := map_option (\<lambda>f. f\<lparr>fd_offset := w\<rparr>) (files (io k) d)))"

lemma printed_trans:
  assumes "printed d A xs k k1" and "printed d A ys k1 k2"
  shows "printed d A (xs @ ys) k k2"
proof -
  obtain w w' where "files (io k1) = (files (io k))(d := map_option (\<lambda>f. f\<lparr>fd_offset := w\<rparr>) (files (io k) d))"
    "files (io k2) = (files (io k1))(d := map_option (\<lambda>f. f\<lparr>fd_offset := w'\<rparr>) (files (io k1) d))"
    using assms by (auto simp: printed_def)
  then have "files (io k2) = (files (io k))(d := map_option (\<lambda>f. f\<lparr>fd_offset := w'\<rparr>) (files (io k) d))"
    by (simp add: map_option.compositionality comp_def)
  then show ?thesis using assms only_in_trans by (auto simp: printed_def)
qed

lemma write_console:
  assumes c: "console_user p d A k" and a: "region a n \<inter> A = {}" "n < 2 ^ 64"
  shows "\<exists>regs' k'. run P buf user_rsp mapped (Call u_write [1, a, of_nat n] c) regs k = run P buf user_rsp mapped (c (of_nat n)) regs' k' \<and>
     printed d A (read_bytes (kmem_of k) a n) k k' \<and> console_user p d A k'"
proof -
  obtain pr f v vn where k: "procs k p = Some pr" "GetFd (m_fd_table pr) 1 = Some d" "files (io k) d = Some f" "0 < fd_refs f" "fd_vnode f = Some v"
    "vnodes (fs (io k)) v = Some vn" "ops vn = Some PseudoFsOps" "write_cb vn = Some StdoutWrite" "runs p k"
    "screen_fits (screen_console (fs (io k)))" "screen_area (screen_console (fs (io k))) = A"
    using c by (auto simp: console_user_def stdout_file_def)
  have n: "unat (of_nat n :: u64) = n" using a(2) by (simp add: unat_of_nat)
  define t where "t = console_write a (of_nat n) (fs (io k))"
  note E = console_write_effect [OF k(10) _ t_def, unfolded n k(11), OF a(1)]
  define k' where "k' = k\<lparr>io := \<lparr>fs = t, files = (files (io k))(d \<mapsto> f\<lparr>fd_offset := fd_offset f + of_nat n\<rparr>)\<rparr>\<rparr>"
  have "sys_write P p (stub_regs u_write [1, a, of_nat n] regs) k = (Ret (of_nat n), k')"
    unfolding k'_def using k(1-8)
    by (intro sys_write_returns) (auto simp: vnode_Write_def PseudoFs_Write_def t_def apfst_def)
  then have ex: "dispatch_call P t (Some p) (stub_regs u_write [1, a, of_nat n] regs) k = (Ret (of_nat n), k')" for t
    by (simp add: dispatch_call_def need_def)
  have "\<exists>regs'. run P buf user_rsp mapped (Call u_write [1, a, of_nat n] c) regs k = run P buf user_rsp mapped (c (of_nat n)) regs' k'"
    by (rule run_Call [OF k(9) _ ex]) simp
  moreover have "printed d A (read_bytes (kmem_of k) a n) k k'"
    using E k(3) by (auto simp: printed_def k'_def kmem_of_def kmm_of_def)
  moreover have "console_user p d A k'"
    using E k by (auto simp: console_user_def stdout_file_def k'_def runs_def)
  ultimately show ?thesis by (elim exE) (intro exI conjI)
qed

text \<open>A C string in memory: its characters, and its length is below the size of the address space.\<close>

lemma byte_of_char_of_byte [simp]: "byte_of_char (char_of_byte b) = b"
  by (simp add: byte_of_char_def char_of_byte_def unat_lt_2p [of b, simplified])

lemma cstr_bytes:
  assumes "cstr m a = Some str"
  shows "read_bytes m a (length str) = map byte_of_char str" and "m (a + of_nat (length str)) = 0"
    and "i < length str \<Longrightarrow> m (a + of_nat i) \<noteq> 0"
proof -
  have "read_bytes m a (length str) = map byte_of_char str \<and> m (a + of_nat (length str)) = 0 \<and> (\<forall>i < length str. m (a + of_nat i) \<noteq> 0)"
    using assms
  proof (induction str arbitrary: a)
    case Nil
    then have "m a = 0" unfolding cstr.simps [of m a] by (simp split: if_splits bind_splits)
    then show ?case by simp
  next
    case (Cons x xs)
    then have "m a \<noteq> 0" "cstr m (a + 1) = Some xs" "x = char_of_byte (m a)"
      unfolding cstr.simps [of m a] by (auto split: if_splits bind_splits)
    then show ?case using Cons.IH [of "a + 1"] by (auto simp: read_bytes_Suc add.assoc less_Suc_eq_0_disj)
  qed
  then show "read_bytes m a (length str) = map byte_of_char str" "m (a + of_nat (length str)) = 0"
    "i < length str \<Longrightarrow> m (a + of_nat i) \<noteq> 0" by blast+
qed

lemma cstr_length:
  assumes "cstr m a = Some str"
  shows "length str < 2 ^ 64"
proof (rule ccontr)
  assume "\<not> length str < 2 ^ 64"
  then have "length str - 2 ^ 64 < length str" "(of_nat (length str - 2 ^ 64) :: u64) = of_nat (length str)"
    by (auto simp: of_nat_diff not_less)
  then show False using cstr_bytes(2) [OF assms] cstr_bytes(3) [OF assms, of "length str - 2 ^ 64"] by simp
qed

lemma print_console:
  assumes "console_user p d A k" and "cstr (kmem_of k) a = Some str" and "region a (length str) \<inter> A = {}"
  shows "\<exists>regs' k'. run P buf user_rsp mapped (print a c) regs k = run P buf user_rsp mapped c regs' k' \<and>
     printed d A (map byte_of_char str) k k' \<and> console_user p d A k'"
  using write_console [OF assms(1,3) cstr_length [OF assms(2)], of P buf user_rsp mapped "\<lambda>_. c" regs] assms(2) cstr_bytes(1) [OF assms(2)]
  by (simp add: print_def)

section \<open>Decimal numbers\<close>

definition decimal_value :: "int list \<Rightarrow> int" where
  "decimal_value ds = foldl (\<lambda>a d. 10 * a + d) 0 ds"

definition digit_byte :: "int \<Rightarrow> u8" where
  "digit_byte d = of_int (48 + d)"

text \<open>\<open>numeral_of n ds\<close>: the digits \<open>ds\<close> are the decimal notation of \<open>n\<close>, with no leading zero.\<close>

definition numeral_of :: "int \<Rightarrow> int list \<Rightarrow> bool" where
  "numeral_of n ds \<longleftrightarrow> ds \<noteq> [] \<and> (\<forall>d \<in> set ds. 0 \<le> d \<and> d < 10) \<and> decimal_value ds = n \<and> (hd ds = 0 \<longrightarrow> n = 0)"

lemma decimal_value_snoc: "decimal_value (ds @ [d]) = 10 * decimal_value ds + d"
  by (simp add: decimal_value_def)

lemma decimal_value_bound:
  assumes "\<forall>d \<in> set ds. 0 \<le> d"
  shows "0 \<le> decimal_value ds \<and> (ds \<noteq> [] \<and> 0 < hd ds \<longrightarrow> 10 ^ (length ds - 1) \<le> decimal_value ds)"
  using assms
proof (induction ds rule: rev_induct)
  case Nil
  then show ?case by (simp add: decimal_value_def)
next
  case (snoc d ds)
  show ?case
  proof (cases ds)
    case Nil
    then show ?thesis using snoc.prems by (simp add: decimal_value_def)
  next
    case (Cons e es)
    then have l: "length ds = Suc (length ds - 1)" "ds \<noteq> []" by simp_all
    have IH: "0 \<le> decimal_value ds" "0 < hd ds \<Longrightarrow> 10 ^ (length ds - 1) \<le> decimal_value ds" using snoc l(2) by auto
    have "10 ^ length ds \<le> decimal_value (ds @ [d])" if "0 < hd ds"
      using IH(2) [OF that] snoc.prems by (subst l(1)) (simp add: decimal_value_snoc)
    then show ?thesis using IH(1) snoc.prems l(2) by (simp add: decimal_value_snoc)
  qed
qed

lemma digits_loop_numeral:
  assumes "0 < n"
  shows "\<exists>ds. numeral_of n ds \<and> digits_loop n i bs = (i - length ds, map digit_byte ds @ bs)"
  using assms
proof (induction n i bs rule: digits_loop.induct)
  case (1 n i bs)
  show ?case
  proof (cases "n div 10 > 0")
    case True
    then obtain ds where ds: "numeral_of (n div 10) ds"
      "digits_loop (n div 10) (i - 1) (of_int (48 + n mod 10) # bs) = (i - 1 - length ds, map digit_byte ds @ of_int (48 + n mod 10) # bs)"
      using "1.IH" "1.prems" by blast
    have "numeral_of n (ds @ [n mod 10])"
      using ds(1) True by (auto simp: numeral_of_def decimal_value_snoc)
    then show ?thesis
      using ds(2) "1.prems" by (intro exI [of _ "ds @ [n mod 10]"]) (simp add: digits_loop.simps [of n] digit_byte_def)
  next
    case False
    then have n: "n div 10 = 0" "n mod 10 = n" using "1.prems" by auto
    then have "digits_loop n i bs = (i - 1, digit_byte n # bs)"
      using "1.prems" by (simp add: digits_loop.simps [of n] digits_loop.simps [of 0] digit_byte_def)
    moreover have "numeral_of n [n]" using n "1.prems" by (simp add: numeral_of_def decimal_value_def)
    ultimately show ?thesis by (intro exI [of _ "[n]"]) simp
  qed
qed

lemma numeral_of_length:
  assumes "numeral_of n ds" and "0 < n" and "n < 10 ^ w"
  shows "length ds \<le> w"
proof -
  have "0 < hd ds" using assms(1,2) by (cases ds) (auto simp: numeral_of_def le_less)
  then have "(10 :: int) ^ (length ds - 1) < 10 ^ w"
    using decimal_value_bound [of ds] assms by (intro order.strict_trans1 [OF _ assms(3)]) (simp add: numeral_of_def)
  then have "length ds - 1 < w" using power_less_imp_less_exp [of "10 :: int" "length ds - 1" w] by simp
  then show ?thesis by simp
qed

section \<open>Printing numbers\<close>

lemma console_user_set_mem [simp]: "console_user p d A (set_mem m k) = console_user p d A k"
  by (simp add: console_user_def stdout_file_def runs_def set_mem_def)

lemma write_one:
  assumes "console_user p d A k" and "cstr (kmem_of k) a = Some [ch]" and "region a 1 \<inter> A = {}"
  shows "\<exists>regs' k'. run P buf user_rsp mapped (Call u_write [1, a, 1] c) regs k = run P buf user_rsp mapped (c 1) regs' k' \<and>
     printed d A [byte_of_char ch] k k' \<and> console_user p d A k'"
  using write_console [of p d A k a 1 P buf user_rsp mapped c regs] assms cstr_bytes(1) [OF assms(2)] by simp

lemma print_int_positive:
  assumes "console_user p d A k" and "0 < n" and "n < 2 ^ 63" and "region (at_digits U) 20 \<inter> A = {}" and "\<forall>a \<in> region (at_digits U) 20. mapped a"
  shows "\<exists>ds regs' k'. run P buf user_rsp mapped (print_int U n c) regs k = run P buf user_rsp mapped c regs' k' \<and> numeral_of n ds \<and>
     length ds \<le> 19 \<and> debug_port (fs (io k')) = debug_port (fs (io k)) @ map digit_byte ds \<and>
     only_in (A \<union> region (at_digits U) 20) (kmem_of k) (kmem_of k') \<and> console_user p d A k'"
proof -
  obtain ds where ds: "numeral_of n ds" "digits_loop n 20 [] = (20 - length ds, map digit_byte ds)"
    using digits_loop_numeral [OF assms(2), of 20 "[]"] by auto
  have l: "length ds \<le> 19" by (rule numeral_of_length [OF ds(1) assms(2)]) (use assms(3) in simp)
  have l0: "length ds > 0" using ds(1) by (simp add: numeral_of_def)
  let ?a = "at_digits U + of_nat (20 - length ds)"
  let ?bs = "map digit_byte ds"
  have sub: "region ?a (length ds) \<subseteq> region (at_digits U) 20"
    by (rule region_sub) (use l in simp)
  have e: "20 - (20 - length ds) = length ds" using l by simp
  have m: "mapped ?a" using sub assms(5) l0 by (auto simp: region_def)
  define k1 where "k1 = set_mem (write_bytes (kmem_of k) ?a ?bs) k"
  have "console_user p d A k1" using assms(1) by (simp add: k1_def)
  moreover have "region ?a (length ds) \<inter> A = {}" using sub assms(4) by blast
  moreover have "length ds < 2 ^ 64" using l by simp
  ultimately obtain regs' k' where r: "run P buf user_rsp mapped (Call u_write [1, ?a, of_nat (length ds)] (\<lambda>_. c)) regs k1 = run P buf user_rsp mapped c regs' k'"
    and p: "printed d A (read_bytes (kmem_of k1) ?a (length ds)) k1 k'" and u: "console_user p d A k'"
    using write_console [of p d A k1 ?a "length ds" P buf user_rsp mapped "\<lambda>_. c" regs] by blast
  have rb: "read_bytes (kmem_of k1) ?a (length ds) = ?bs"
    using l by (simp add: k1_def read_write_same)
  have "run P buf user_rsp mapped (print_int U n c) regs k = run P buf user_rsp mapped c regs' k'"
    using assms(2) m r by (simp add: print_int_def ds(2) e k1_def del: run.simps(1))
  moreover have "debug_port (fs (io k')) = debug_port (fs (io k)) @ ?bs"
    using p by (simp add: printed_def rb) (simp add: k1_def set_mem_def)
  moreover have "only_in (A \<union> region (at_digits U) 20) (kmem_of k) (kmem_of k')"
  proof -
    have "only_in (region (at_digits U) 20) (kmem_of k) (kmem_of k1)" unfolding k1_def kernel_access(1) using l by (intro only_in_write) simp
    then show ?thesis using p by (auto simp: printed_def only_in_def)
  qed
  ultimately show ?thesis using ds(1) l u by blast
qed

text \<open>A string constant: its characters are in memory, away from \<open>A\<close>.\<close>

definition literal :: "mem \<Rightarrow> addr set \<Rightarrow> addr \<Rightarrow> string \<Rightarrow> bool" where
  "literal m A a str \<longleftrightarrow> cstr m a = Some str \<and> region a (length str) \<inter> A = {}"

lemma literal_kept:
  assumes "literal m A a str" and "only_in A m m'" and "a + of_nat (length str) \<notin> A"
  shows "literal m' A a str"
proof -
  have "cstr m' a = Some str"
    using assms
  proof (induction str arbitrary: a)
    case Nil
    then have "cstr m a = Some []" "a \<notin> A" by (simp_all add: literal_def)
    then show ?case using assms(2) unfolding cstr.simps [of _ a] by (simp add: only_in_def split: if_splits bind_splits)
  next
    case (Cons x xs)
    then have c: "m a \<noteq> 0" "cstr m (a + 1) = Some xs" "x = char_of_byte (m a)"
      unfolding literal_def cstr.simps [of m a] by (auto split: if_splits bind_splits)
    have "a \<notin> A" "region (a + 1) (length xs) \<inter> A = {}"
      using Cons.prems(1) by (auto simp: literal_def region_Suc)
    moreover from this c Cons.prems have "cstr m' (a + 1) = Some xs" by (intro Cons.IH) (auto simp: literal_def algebra_simps)
    ultimately show ?case using c assms(2) unfolding cstr.simps [of m' a] by (simp add: only_in_def)
  qed
  then show ?thesis using assms(1) by (simp add: literal_def)
qed

text \<open>
  C39: \<open>print_int\<close> of the user program, through the stub of \<open>write\<close>, the dispatcher, the open file of descriptor 1, the console node and the
  framebuffer: for every \<open>long long\<close> but the least, the debug port gets the sign and the decimal notation of the number, without leading zero
  and of at most 19 digits (so they fit the buffer of 20 bytes); memory changes only on the screen and in that buffer, and the call returns.
\<close>

theorem print_int_prints:
  assumes u: "console_user p d A k" and n: "- (2 ^ 63) < n" "n < 2 ^ 63"
    and buf: "region (at_digits U) 20 \<inter> A = {}" "\<forall>a \<in> region (at_digits U) 20. mapped a"
    and lit: "literal (kmem_of k) A (at_lit U ''-'') ''-''" "literal (kmem_of k) A (at_lit U ''0'') ''0''"
  shows "\<exists>ds regs' k'. run P buf user_rsp mapped (print_int U n c) regs k = run P buf user_rsp mapped c regs' k' \<and> numeral_of \<bar>n\<bar> ds \<and>
     length ds \<le> 19 \<and> debug_port (fs (io k')) = debug_port (fs (io k)) @ (if n < 0 then [45] else []) @ map digit_byte ds \<and>
     only_in (A \<union> region (at_digits U) 20) (kmem_of k) (kmem_of k') \<and> console_user p d A k'"
proof -
  note L = lit [unfolded literal_def list.size add_0 plus_1_eq_Suc, folded One_nat_def]
  have wide: "only_in (A \<union> B) m m'" if "only_in A m m'" for B m m' using that by (simp add: only_in_def)
  consider "n = 0" | "0 < n" | "n < 0" by linarith
  then show ?thesis
  proof cases
    case 1
    obtain regs' k' where w: "run P buf user_rsp mapped (Call u_write [1, at_lit U ''0'', 1] (\<lambda>_. c)) regs k = run P buf user_rsp mapped c regs' k'"
      and p: "printed d A [byte_of_char CHR ''0''] k k'" "console_user p d A k'"
      using write_one [OF u conjunct1 [OF L(2)] conjunct2 [OF L(2)], of P buf user_rsp mapped "\<lambda>_. c" regs] by blast
    have "numeral_of \<bar>n\<bar> [0]" "byte_of_char CHR ''0'' = digit_byte 0"
      using 1 by (simp_all add: numeral_of_def decimal_value_def byte_of_char_def digit_byte_def)
    then show ?thesis
      using w p 1 wide by (intro exI [of _ "[0]"] exI [of _ regs'] exI [of _ k']) (simp add: print_int_def printed_def del: run.simps(1))
  next
    case 2
    then show ?thesis using print_int_positive [OF u 2 n(2) buf, of P buf user_rsp c regs] by simp
  next
    case 3
    have m: "sint (- word_of_int n :: u64) = - n"
      using n 3 by (simp add: sint_sbintrunc' signed_take_bit_int_eq_self flip: of_int_minus)
    obtain regs1 k1 where w: "run P buf user_rsp mapped (Call u_write [1, at_lit U ''-'', 1] (\<lambda>_. print_int U (- n) c)) regs k =
        run P buf user_rsp mapped (print_int U (- n) c) regs1 k1"
      and p: "printed d A [byte_of_char CHR ''-''] k k1" "console_user p d A k1"
      using write_one [OF u conjunct1 [OF L(1)] conjunct2 [OF L(1)], of P buf user_rsp mapped "\<lambda>_. print_int U (- n) c" regs] by blast
    have e: "print_int U n c = Call u_write [1, at_lit U ''-'', 1] (\<lambda>_. print_int U (- n) c)"
      using 3 by (simp add: print_int_def m)
    have "0 < - n" "- n < 2 ^ 63" using 3 n by simp_all
    from print_int_positive [OF p(2) this buf, of P buf user_rsp c regs1] obtain ds regs' k' where q:
      "run P buf user_rsp mapped (print_int U (- n) c) regs1 k1 = run P buf user_rsp mapped c regs' k'" "numeral_of (- n) ds" "length ds \<le> 19"
      "debug_port (fs (io k')) = debug_port (fs (io k1)) @ map digit_byte ds"
      "only_in (A \<union> region (at_digits U) 20) (kmem_of k1) (kmem_of k')" "console_user p d A k'" by blast
    moreover have "byte_of_char CHR ''-'' = 45" by (simp add: byte_of_char_def)
    moreover have "only_in (A \<union> region (at_digits U) 20) (kmem_of k) (kmem_of k1)" using p(1) wide by (simp add: printed_def)
    ultimately show ?thesis
      using w p(1) 3 only_in_trans by (intro exI [of _ ds] exI [of _ regs'] exI [of _ k']) (simp add: e printed_def del: run.simps(1))
  qed
qed

text \<open>A process whose descriptor 1 is a console node, with the characters of the sign and of zero in its memory.\<close>

definition ex_user :: "((u64 \<times> u64) list, u8 list, nat, (u64 \<times> u64) list) kernel" where
  "ex_user = ex_kernel\<lparr>
     io := \<lparr>fs = ex_fsys\<lparr>memory := (\<lambda>_. 0)(0x2000 := 45, 0x2010 := 48),
                        vnodes := [1 \<mapsto> (Vnode_new CharDevice PseudoFsOps)\<lparr>write_cb := Some StdoutWrite\<rparr>]\<rparr>,
            files = [100 \<mapsto> \<lparr>fd_vnode = Some 1, fd_offset = 0, fd_flags = 2, fd_refs = 1\<rparr>]\<rparr>,
     procs := [0x500 \<mapsto> (Process_new 1 0x510 2 2)\<lparr>m_fd_table := [None, Some 100]\<rparr>]\<rparr>"

definition ex_layout :: layout where
  "ex_layout = \<lparr>at_lit = (\<lambda>str. if str = ''-'' then 0x2000 else 0x2010), at_digits = 0x3000, at_p_fds = 0x3100, at_buf = 0x3200,
     at_wstatus = 0x3300, at_sa = 0x3400, at_sigsegv_caught = 0x3500, at_handle_sigsegv = 0x1000, at_sig_restorer = 0x1100\<rparr>"

lemma ex_user_console: "console_user 0x500 100 {} ex_user"
  by (simp add: console_user_def stdout_file_def runs_def ex_user_def ex_kernel_def ex_ksched_def ex_sched_def ex_thread_def screen_fits_def screen_area_def
      ex_fsys_def console_boot_def GetFd_def Process_new_def Vnode_new_def)

theorem print_int_prints_witness:
  "\<exists>ds regs' k'. run ex_plat 0 0 (\<lambda>_. True) (print_int ex_layout (- 205) Spin) zero_frame ex_user = run ex_plat 0 0 (\<lambda>_. True) Spin regs' k' \<and>
     numeral_of 205 ds \<and> debug_port (fs (io k')) = 45 # map digit_byte ds"
proof -
  have "literal (kmem_of ex_user) {} (at_lit ex_layout ''-'') ''-''" "literal (kmem_of ex_user) {} (at_lit ex_layout ''0'') ''0''"
    by (simp_all add: literal_def ex_layout_def kmem_of_def ex_user_def ex_fsys_def cstr.simps char_of_byte_def char_of_def bit_0)
  from print_int_prints [OF ex_user_console _ _ _ _ this, of "- 205" "\<lambda>_. True" ex_plat 0 0 Spin zero_frame]
  obtain ds regs' k' where r: "run ex_plat 0 0 (\<lambda>_. True) (print_int ex_layout (- 205) Spin) zero_frame ex_user = run ex_plat 0 0 (\<lambda>_. True) Spin regs' k'"
    "numeral_of 205 ds" "debug_port (fs (io k')) = debug_port (fs (io ex_user)) @ [45] @ map digit_byte ds"
    by (auto simp del: run.simps)
  have "debug_port (fs (io ex_user)) = []" by (simp add: ex_user_def ex_fsys_def)
  with r(3) have "debug_port (fs (io k')) = 45 # map digit_byte ds" by simp
  with r(1,2) show ?thesis by (intro exI conjI)
qed

section \<open>The pipe section of main\<close>

text \<open>The strings of the section, in memory at their places outside the set \<open>B\<close> of bytes that the section changes.\<close>

definition pipe_texts :: "string list" where
  "pipe_texts = [''[INIT] Testing pipe...\<newline>'', ''[INIT] pipe successful. Testing data transfer...\<newline>'', ''Hello from Pipe!'',
     ''[INIT] Read from pipe: '', ''\<newline>'', ''[INIT] pipe descriptors closed.\<newline>'']"

definition texts_ok :: "layout \<Rightarrow> addr set \<Rightarrow> mem \<Rightarrow> bool" where
  "texts_ok U B m \<longleftrightarrow> (\<forall>str \<in> set pipe_texts. literal m B (at_lit U str) str \<and> at_lit U str + of_nat (length str) \<notin> B)"

lemma texts_kept: "texts_ok U B m \<Longrightarrow> only_in B m m' \<Longrightarrow> texts_ok U B m'"
  by (auto simp: texts_ok_def intro: literal_kept)

lemma only_in_mono: "only_in A m m' \<Longrightarrow> A \<subseteq> B \<Longrightarrow> only_in B m m'"
  by (auto simp: only_in_def)

lemma printed_pipe_state:
  assumes "printed d A bs k k'" and "pipe_state con p a (Some b) data k"
  shows "pipe_state con p a (Some b) data k'"
proof -
  obtain w where f: "files (io k') = (files (io k))(d := map_option (\<lambda>f. f\<lparr>fd_offset := w\<rparr>) (files (io k) d))"
    and e: "procs k' = procs k" "vnodes (fs (io k')) = vnodes (fs (io k))" using assms(1) by (auto simp: printed_def)
  have *: "\<exists>g. files (io k') x = Some g \<and> fd_vnode g = fd_vnode h \<and> fd_refs g = fd_refs h \<and> fd_flags g = fd_flags h"
    if "files (io k) x = Some h" for x h
    using that by (auto simp: f)
  obtain pr rd rf v vn q wr wf where s: "procs k p = Some pr" "GetFd (m_fd_table pr) a = Some rd" "files (io k) rd = Some rf" "fd_vnode rf = Some v"
    "fd_refs rf = 1" "vnodes (fs (io k)) v = Some vn" "ops vn = Some PipeOps" "v_pipe vn = Some q" "con (m_buffer q) = data" "m_readers q = 1"
    "m_writers q = 1" "b \<noteq> a" "GetFd (m_fd_table pr) b = Some wr" "wr \<noteq> rd" "files (io k) wr = Some wf" "fd_vnode wf = Some v" "fd_refs wf = 1"
    "fd_flags wf = kPipeWrite"
    by (rule pipe_state_open [OF assms(2)])
  obtain rf' wf' where "files (io k') rd = Some rf'" "fd_vnode rf' = fd_vnode rf" "fd_refs rf' = fd_refs rf"
    "files (io k') wr = Some wf'" "fd_vnode wf' = fd_vnode wf" "fd_refs wf' = fd_refs wf" "fd_flags wf' = fd_flags wf"
    using * [OF s(3)] * [OF s(15)] by blast
  then show ?thesis using s e by (simp add: pipe_state_def write_end_def)
qed

text \<open>Inside the section: the output, the pipe, its descriptors in memory, and the strings.\<close>

definition in_pipe ::
  "layout \<Rightarrow> addr \<Rightarrow> addr \<Rightarrow> addr set \<Rightarrow> addr set \<Rightarrow> ('r \<Rightarrow> u8 list) \<Rightarrow> u32 \<Rightarrow> u32 \<Rightarrow> u8 list \<Rightarrow> ('v, 'r, 'k, 'a) kernel \<Rightarrow> bool" where
  "in_pipe U p d A B con a b bs k \<longleftrightarrow> console_user p d A k \<and> pipe_state con p a (Some b) bs k \<and>
     load32 (kmem_of k) (at_p_fds U) = a \<and> load32 (kmem_of k) (at_p_fds U + 4) = b \<and> texts_ok U B (kmem_of k)"

lemma load32_only: "only_in A m m' \<Longrightarrow> region x 4 \<inter> A = {} \<Longrightarrow> load32 m' x = load32 m x"
  unfolding load32_def by (rule arg_cong [where f = of_bytes], rule read_bytes_cong) (auto simp: only_in_def)

lemma in_pipe_print:
  assumes I: "in_pipe U p d A B con a b bs k" and f: "region (at_p_fds U) 8 \<inter> A = {}" "A \<subseteq> B"
    and str: "cstr (kmem_of k) x = Some str" "region x (length str) \<inter> A = {}"
  shows "\<exists>regs' k'. run P buf user_rsp mapped (print x c) regs k = run P buf user_rsp mapped c regs' k' \<and> in_pipe U p d A B con a b bs k' \<and>
     debug_port (fs (io k')) = debug_port (fs (io k)) @ map byte_of_char str \<and> only_in A (kmem_of k) (kmem_of k')"
proof -
  have c: "console_user p d A k" using I by (simp add: in_pipe_def)
  obtain regs' k' where r: "run P buf user_rsp mapped (print x c) regs k = run P buf user_rsp mapped c regs' k'"
    and p: "printed d A (map byte_of_char str) k k'" "console_user p d A k'"
    using print_console [OF c str, of P buf user_rsp mapped c regs] by blast
  have m: "only_in A (kmem_of k) (kmem_of k')" using p(1) by (simp add: printed_def)
  have sub: "region (at_p_fds U) 4 \<inter> A = {}" "region (at_p_fds U + 4) 4 \<inter> A = {}"
    using f(1) region_sub [of 0 4 8 "at_p_fds U"] region_sub [of 4 4 8 "at_p_fds U"] by auto
  have "in_pipe U p d A B con a b bs k'"
    using I p printed_pipe_state [OF p(1)] texts_kept only_in_mono [OF m f(2)] load32_only [OF m sub(1)] load32_only [OF m sub(2)]
    by (auto simp: in_pipe_def)
  with r p(1) m show ?thesis by (auto simp: printed_def)
qed

lemma in_pipe_print_lit:
  assumes I: "in_pipe U p d A B con a b bs k" and f: "region (at_p_fds U) 8 \<inter> A = {}" "A \<subseteq> B" and str: "str \<in> set pipe_texts"
  shows "\<exists>regs' k'. run P buf user_rsp mapped (print_lit U str c) regs k = run P buf user_rsp mapped c regs' k' \<and> in_pipe U p d A B con a b bs k' \<and>
     debug_port (fs (io k')) = debug_port (fs (io k)) @ map byte_of_char str \<and> only_in A (kmem_of k) (kmem_of k')"
  unfolding print_lit_def using I str f(2)
  by (intro in_pipe_print [OF I f]) (auto simp: in_pipe_def texts_ok_def literal_def)

lemma get_int_run:
  assumes "mapped x" and "load32 (kmem_of k) x = w"
  shows "run P buf user_rsp mapped (get_int x f) regs k = run P buf user_rsp mapped (f (scast w)) regs k"
  using assms by (simp add: get_int_def load32_def)

lemma ucast_scast_u32: "ucast (scast (w :: u32) :: u64) = w"
  by (rule bit_word_eqI) (auto simp: bit_simps)

lemma keeps_console:
  assumes "keeps_output p k k'" and "console_user p d A k"
  shows "console_user p d A k'"
  using assms by (simp add: keeps_output_def console_user_def runs_def)

text \<open>The calls of the section, from what the handlers return.\<close>

lemma run_file_calls:
  assumes "runs p k"
  shows "sys_pipe P p (stub_regs u_pipe args regs) k = (Ret w, k') \<Longrightarrow>
      \<exists>regs'. run P buf user_rsp mapped (Call u_pipe args c) regs k = run P buf user_rsp mapped (c w) regs' k'"
    and "sys_write P p (stub_regs u_write args regs) k = (Ret w, k') \<Longrightarrow>
      \<exists>regs'. run P buf user_rsp mapped (Call u_write args c) regs k = run P buf user_rsp mapped (c w) regs' k'"
    and "sys_read P p (stub_regs u_read args regs) k = (Ret w, k') \<Longrightarrow>
      \<exists>regs'. run P buf user_rsp mapped (Call u_read args c) regs k = run P buf user_rsp mapped (c w) regs' k'"
    and "sys_close p (stub_regs u_close args regs) k = (Ret w, k') \<Longrightarrow>
      \<exists>regs'. run P buf user_rsp mapped (Call u_close args c) regs k = run P buf user_rsp mapped (c w) regs' k'"
proof -
  show "sys_pipe P p (stub_regs u_pipe args regs) k = (Ret w, k') \<Longrightarrow>
      \<exists>regs'. run P buf user_rsp mapped (Call u_pipe args c) regs k = run P buf user_rsp mapped (c w) regs' k'"
    by (rule run_Call [OF assms]) (simp, simp add: dispatch_call_def need_def)
  show "sys_write P p (stub_regs u_write args regs) k = (Ret w, k') \<Longrightarrow>
      \<exists>regs'. run P buf user_rsp mapped (Call u_write args c) regs k = run P buf user_rsp mapped (c w) regs' k'"
    by (rule run_Call [OF assms]) (simp, simp add: dispatch_call_def need_def)
  show "sys_read P p (stub_regs u_read args regs) k = (Ret w, k') \<Longrightarrow>
      \<exists>regs'. run P buf user_rsp mapped (Call u_read args c) regs k = run P buf user_rsp mapped (c w) regs' k'"
    by (rule run_Call [OF assms]) (simp, simp add: dispatch_call_def need_def)
  show "sys_close p (stub_regs u_close args regs) k = (Ret w, k') \<Longrightarrow>
      \<exists>regs'. run P buf user_rsp mapped (Call u_close args c) regs k = run P buf user_rsp mapped (c w) regs' k'"
    by (rule run_Call [OF assms]) (simp, simp add: dispatch_call_def need_def)
qed

lemma in_pipe_runs: "in_pipe U p d A B con a b bs k \<Longrightarrow> runs p k"
  by (simp add: in_pipe_def console_user_def)

lemma in_pipe_write:
  assumes R: "ring_laws (ring_ops (lib P)) con cap" "length bs + unat n \<le> cap" and I: "in_pipe U p d A B con a b bs k" and fd: "ucast fd = b"
  shows "\<exists>regs' k'. run P buf user_rsp mapped (Call u_write [fd, x, n] c) regs k = run P buf user_rsp mapped (c n) regs' k' \<and>
     in_pipe U p d A B con a b (bs @ read_bytes (kmem_of k) x (unat n)) k' \<and> kmem_of k' = kmem_of k \<and>
     debug_port (fs (io k')) = debug_port (fs (io k))"
proof -
  let ?w = "stub_regs u_write [fd, x, n] regs"
  have ps: "pipe_state con p a (Some b) bs k" using I by (simp add: in_pipe_def)
  have "ucast (rdi ?w) = b" "length bs + unat (rdx ?w) \<le> cap" using fd R(2) by simp_all
  from write_pipe [OF R(1) ps this] obtain k' where k': "sys_write P p ?w k = (Ret n, k')" "kmem_of k' = kmem_of k"
    "pipe_state con p a (Some b) (bs @ read_bytes (kmem_of k) x (unat n)) k'" "keeps_output p k k'" by auto
  have "in_pipe U p d A B con a b (bs @ read_bytes (kmem_of k) x (unat n)) k'"
    using I k'(2,3) keeps_console [OF k'(4)] by (simp add: in_pipe_def)
  then show ?thesis
    using run_file_calls(2) [OF in_pipe_runs [OF I] k'(1), of buf user_rsp mapped c] k'(2,4) by (auto simp: keeps_output_def simp del: run.simps)
qed

lemma in_pipe_read:
  assumes R: "ring_laws (ring_ops (lib P)) con cap" and I: "in_pipe U p d A B con a b bs k" and fd: "ucast fd = a"
    and bs: "bs \<noteq> []" "length bs \<le> unat n" and x: "region x (unat n) \<inter> region (at_p_fds U) 8 = {}" "region x (unat n) \<subseteq> B"
  shows "\<exists>regs' k'. run P buf user_rsp mapped (Call u_read [fd, x, n] c) regs k = run P buf user_rsp mapped (c (of_nat (length bs))) regs' k' \<and>
     in_pipe U p d A B con a b [] k' \<and> kmem_of k' = write_bytes (kmem_of k) x bs \<and> debug_port (fs (io k')) = debug_port (fs (io k))"
proof -
  let ?r = "stub_regs u_read [fd, x, n] regs"
  have ps: "pipe_state con p a (Some b) bs k" using I by (simp add: in_pipe_def)
  have "ucast (rdi ?r) = a" using fd by simp
  from read_pipe [OF R ps this] bs obtain k' where k': "sys_read P p ?r k = (Ret (of_nat (length bs)), k')"
    "kmem_of k' = write_bytes (kmem_of k) x bs" "pipe_state con p a (Some b) [] k'" "keeps_output p k k'" by auto
  have m: "only_in (region x (unat n)) (kmem_of k) (kmem_of k')" unfolding k'(2) using only_in_write [of 0 bs "unat n" x] bs(2) by simp
  have sub: "region (at_p_fds U) 4 \<inter> region x (unat n) = {}" "region (at_p_fds U + 4) 4 \<inter> region x (unat n) = {}"
    using x(1) region_sub [of 0 4 8 "at_p_fds U"] region_sub [of 4 4 8 "at_p_fds U"] by auto
  have "in_pipe U p d A B con a b [] k'"
    using I k'(3) keeps_console [OF k'(4)] load32_only [OF m sub(1)] load32_only [OF m sub(2)] texts_kept [OF _ only_in_mono [OF m x(2)]]
    by (simp add: in_pipe_def)
  then show ?thesis
    using run_file_calls(3) [OF in_pipe_runs [OF I] k'(1), of buf user_rsp mapped c] k'(2,4) by (auto simp: keeps_output_def simp del: run.simps)
qed

lemma in_pipe_put:
  assumes I: "in_pipe U p d A B con a b bs k" and x: "region x (length xs) \<inter> region (at_p_fds U) 8 = {}" "region x (length xs) \<subseteq> B"
  shows "in_pipe U p d A B con a b bs (set_mem (write_bytes (kmem_of k) x xs) k)"
proof -
  let ?m = "write_bytes (kmem_of k) x xs"
  have m: "only_in (region x (length xs)) (kmem_of k) ?m" using only_in_write [of 0 xs "length xs" x] by simp
  have sub: "region (at_p_fds U) 4 \<inter> region x (length xs) = {}" "region (at_p_fds U + 4) 4 \<inter> region x (length xs) = {}"
    using x(1) region_sub [of 0 4 8 "at_p_fds U"] region_sub [of 4 4 8 "at_p_fds U"] by auto
  have "pipe_state con p a (Some b) bs (set_mem ?m k) = pipe_state con p a (Some b) bs k" by (simp add: pipe_state_def set_mem_def)
  then show ?thesis
    using I load32_only [OF m sub(1)] load32_only [OF m sub(2)] texts_kept [OF _ only_in_mono [OF m x(2)]] by (simp add: in_pipe_def)
qed

lemma in_pipe_finish:
  assumes I: "in_pipe U p d A B con a b bs k" and mp: "mapped (at_p_fds U)" "mapped (at_p_fds U + 4)" and AB: "A \<subseteq> B"
  shows "\<exists>regs' k'. run P buf user_rsp mapped (get_int (at_p_fds U) (\<lambda>rd_fd. Call u_close [rd_fd] (\<lambda>_.
                    get_int (at_p_fds U + 4) (\<lambda>wr. Call u_close [wr] (\<lambda>_.
                    print_lit U ''[INIT] pipe descriptors closed.\<newline>'' c))))) regs k = run P buf user_rsp mapped c regs' k' \<and>
     console_user p d A k' \<and> debug_port (fs (io k')) = debug_port (fs (io k)) @ map byte_of_char ''[INIT] pipe descriptors closed.\<newline>'' \<and>
     only_in A (kmem_of k) (kmem_of k')"
proof -
  let ?T = "''[INIT] pipe descriptors closed.\<newline>''"
  have I': "console_user p d A k" "pipe_state con p a (Some b) bs k" "load32 (kmem_of k) (at_p_fds U) = a" "load32 (kmem_of k) (at_p_fds U + 4) = b"
    "literal (kmem_of k) B (at_lit U ?T) ?T" using I by (simp_all add: in_pipe_def texts_ok_def pipe_texts_def)
  have "ucast (scast a :: u64) = a" "ucast (scast b :: u64) = b" by (simp_all add: ucast_scast_u32)
  then obtain k1 k2 where k: "\<And>r. rdi r = scast a \<Longrightarrow> sys_close p r k = (Ret 0, k1)" "\<And>r. rdi r = scast b \<Longrightarrow> sys_close p r k1 = (Ret 0, k2)"
    and m: "kmem_of k1 = kmem_of k" "kmem_of k2 = kmem_of k" and o: "keeps_output p k k1" "keeps_output p k k2"
    using close_both_ends [OF I'(2), of "zero_frame\<lparr>rdi := scast a\<rparr>" "zero_frame\<lparr>rdi := scast b\<rparr>"] by (auto simp: sys_close_def)
  have c: "runs p k" "runs p k1" "console_user p d A k2"
    using keeps_console [OF o(1) I'(1)] keeps_console [OF o(2) I'(1)] I'(1) by (simp_all add: console_user_def)
  define c1 where "c1 = (\<lambda>_ :: u64. print_lit U ?T c)"
  define c0 where "c0 = (\<lambda>_ :: u64. get_int (at_p_fds U + 4) (\<lambda>wr. Call u_close [wr] c1))"
  obtain regs1 where r1: "run P buf user_rsp mapped (Call u_close [scast a] c0) regs k = run P buf user_rsp mapped (c0 0) regs1 k1"
    using run_file_calls(4) [OF c(1) k(1)] by force
  obtain regs2 where r2: "run P buf user_rsp mapped (Call u_close [scast b] c1) regs1 k1 = run P buf user_rsp mapped (c1 0) regs2 k2"
    using run_file_calls(4) [OF c(2) k(2)] by force
  have lit: "cstr (kmem_of k2) (at_lit U ?T) = Some ?T" "region (at_lit U ?T) (length ?T) \<inter> A = {}"
    using I'(5) AB unfolding m(2) literal_def by auto
  obtain regs3 k3 where r3: "run P buf user_rsp mapped (c1 0) regs2 k2 = run P buf user_rsp mapped c regs3 k3"
    and p3: "printed d A (map byte_of_char ?T) k2 k3" "console_user p d A k3"
    using print_console [OF c(3) lit, of P buf user_rsp mapped c regs2] unfolding c1_def print_lit_def by (elim exE conjE)
  have "run P buf user_rsp mapped (get_int (at_p_fds U) (\<lambda>rd_fd. Call u_close [rd_fd] c0)) regs k = run P buf user_rsp mapped c regs3 k3"
    using get_int_run [of mapped "at_p_fds U" k a P buf user_rsp] get_int_run [of mapped "at_p_fds U + 4" k1 b P buf user_rsp] mp I'(3,4) m(1) r1 r2 r3
    by (simp add: c0_def del: run.simps)
  moreover have "debug_port (fs (io k3)) = debug_port (fs (io k)) @ map byte_of_char ?T" "only_in A (kmem_of k) (kmem_of k3)"
    using p3(1) o(2) m(2) by (simp_all add: printed_def keeps_output_def del: list.map)
  ultimately show ?thesis using p3(2) unfolding c0_def c1_def by blast
qed

lemma printed_counted:
  assumes "printed d A bs k k'" and "counted live oth p k"
  shows "counted live oth p k'"
proof (rule counted_same [OF assms(2)])
  show "procs k' = procs k" using assms(1) by (simp add: printed_def)
  obtain w where "files (io k') = (files (io k))(d := map_option (\<lambda>f. f\<lparr>fd_offset := w\<rparr>) (files (io k) d))" "kmm_of k' = kmm_of k"
    using assms(1) by (auto simp: printed_def)
  then show "same_refs live (io k) (io k')" by (auto simp: same_refs_def kmm_of_def option.map_comp comp_def)
qed

text \<open>What the section needs of the kernel: storage for six objects, two free descriptors, and exact reference counts.\<close>

definition pipe_ready :: "('v, 'r, 'k, 'a) plat \<Rightarrow> ('k \<Rightarrow> addr set) \<Rightarrow> ('k \<Rightarrow> nat) \<Rightarrow> (addr \<Rightarrow> nat) \<Rightarrow> addr \<Rightarrow> ('v, 'r, 'k, 'a) kernel \<Rightarrow> bool" where
  "pipe_ready P live avail oth p k \<longleftrightarrow> storage_laws (lib P) live avail \<and> 6 \<le> avail (kmm_of k) \<and> counted live oth p k \<and>
     dom (vnodes (fs (io k))) \<subseteq> live (kmm_of k) \<and> (\<exists>pr. procs k p = Some pr \<and> length (m_fd_table pr) + 2 \<le> kMaxFds)"

lemma in_pipe_start:
  assumes u: "console_user p d A k" and K: "pipe_ready P live avail oth p k" and z: "con (ring_new (lib P) kDefaultCapacity) = []"
    and t: "texts_ok U B (kmem_of k)" and AB: "A \<subseteq> B" "region (at_p_fds U) 8 \<subseteq> B"
  shows "\<exists>a b regs' k'. run P buf user_rsp mapped (print_lit U ''[INIT] Testing pipe...\<newline>'' (Call u_pipe [at_p_fds U] c)) regs k =
       run P buf user_rsp mapped (c 0) regs' k' \<and> in_pipe U p d A B con a b [] k' \<and>
     debug_port (fs (io k')) = debug_port (fs (io k)) @ map byte_of_char ''[INIT] Testing pipe...\<newline>'' \<and> only_in B (kmem_of k) (kmem_of k')"
proof -
  let ?T = "''[INIT] Testing pipe...\<newline>''"
  have lit: "cstr (kmem_of k) (at_lit U ?T) = Some ?T" "region (at_lit U ?T) (length ?T) \<inter> A = {}"
    using t AB(1) by (auto simp: texts_ok_def pipe_texts_def literal_def)
  obtain regs1 k1 where r1: "run P buf user_rsp mapped (print_lit U ?T (Call u_pipe [at_p_fds U] c)) regs k =
      run P buf user_rsp mapped (Call u_pipe [at_p_fds U] c) regs1 k1" and p1: "printed d A (map byte_of_char ?T) k k1" "console_user p d A k1"
    using print_console [OF u lit, of P buf user_rsp mapped "Call u_pipe [at_p_fds U] c" regs] unfolding print_lit_def by (elim exE conjE)
  have eq: "procs k1 = procs k" "vnodes (fs (io k1)) = vnodes (fs (io k))" "kmm_of k1 = kmm_of k" using p1(1) by (simp_all add: printed_def)
  have K1: "storage_laws (lib P) live avail" "6 \<le> avail (kmm_of k1)" "counted live oth p k1" "dom (vnodes (fs (io k1))) \<subseteq> live (kmm_of k1)"
    using K printed_counted [OF p1(1)] unfolding pipe_ready_def eq by simp_all
  obtain pr where "procs k1 p = Some pr" "length (m_fd_table pr) + 2 \<le> kMaxFds" using K unfolding pipe_ready_def eq by (elim exE conjE)
  from pipe_succeeds [OF K1(1,2) this, of "stub_regs u_pipe [at_p_fds U] regs1"] obtain k2 where
    k2: "sys_pipe P p (stub_regs u_pipe [at_p_fds U] regs1) k1 = (Ret 0, k2)" by (elim exE)
  note N = new_pipe [where con = con, OF storage_allocD [OF K1(1)] K1(3) z k2]
  let ?a = "load32 (kmem_of k2) (at_p_fds U)" and ?b = "load32 (kmem_of k2) (at_p_fds U + 4)"
  have ps: "pipe_state con p ?a (Some ?b) [] k2" using N(1) by simp
  have o: "keeps_output p k1 k2" by (rule N(3) [OF K1(4)])
  have m: "only_in B (kmem_of k) (kmem_of k1)" "only_in B (kmem_of k1) (kmem_of k2)"
    using p1(1) N(2) only_in_mono AB by (auto simp: printed_def)
  have "in_pipe U p d A B con ?a ?b [] k2"
    using keeps_console [OF o p1(2)] ps texts_kept [OF texts_kept [OF t m(1)] m(2)] by (simp add: in_pipe_def)
  moreover obtain regs2 where "run P buf user_rsp mapped (Call u_pipe [at_p_fds U] c) regs1 k1 = run P buf user_rsp mapped (c 0) regs2 k2"
    using run_file_calls(1) [OF _ k2, of buf user_rsp mapped c] p1(2) by (auto simp: console_user_def simp del: run.simps)
  moreover have "debug_port (fs (io k2)) = debug_port (fs (io k)) @ map byte_of_char ?T"
    using p1(1) o by (simp add: printed_def keeps_output_def del: list.map)
  ultimately show ?thesis using r1 only_in_trans [OF m] by (intro exI [of _ ?a] exI [of _ ?b] exI [of _ regs2] exI [of _ k2]) simp
qed

lemma map_chars_back: "map char_of_byte (map byte_of_char str) = str"
  by (induction str) simp_all

lemma in_pipe_exchange:
  assumes R: "ring_laws (ring_ops (lib P)) con cap" "16 \<le> cap" and I: "in_pipe U p d A B con a b [] k"
    and x: "region (at_buf U) 32 \<inter> region (at_p_fds U) 8 = {}" "region (at_buf U) 32 \<subseteq> B"
    and mp: "mapped (at_p_fds U)" "mapped (at_p_fds U + 4)"
  shows "\<exists>regs' k'. run P buf user_rsp mapped (get_int (at_p_fds U + 4) (\<lambda>wr. Call u_write [wr, at_lit U ''Hello from Pipe!'', 16] (\<lambda>_.
       get_int (at_p_fds U) (\<lambda>rd_fd. Call u_read [rd_fd, at_buf U, 32] c3)))) regs k = run P buf user_rsp mapped (c3 16) regs' k' \<and>
     in_pipe U p d A B con a b [] k' \<and> kmem_of k' = write_bytes (kmem_of k) (at_buf U) (map byte_of_char ''Hello from Pipe!'') \<and>
     debug_port (fs (io k')) = debug_port (fs (io k))"
proof -
  let ?H = "''Hello from Pipe!''" let ?bs = "map byte_of_char ?H"
  have l: "length ?bs = 16" "length ?H = 16" by simp_all
  define c2 where "c2 = (\<lambda>_ :: u64. get_int (at_p_fds U) (\<lambda>rd_fd. Call u_read [rd_fd, at_buf U, 32] c3))"
  have H: "literal (kmem_of k) B (at_lit U ?H) ?H" "load32 (kmem_of k) (at_p_fds U) = a" "load32 (kmem_of k) (at_p_fds U + 4) = b"
    using I by (simp_all add: in_pipe_def texts_ok_def pipe_texts_def)
  have rb: "read_bytes (kmem_of k) (at_lit U ?H) 16 = ?bs"
    using cstr_bytes(1) [of "kmem_of k" "at_lit U ?H" ?H] H(1) unfolding literal_def l by blast
  have 1: "run P buf user_rsp mapped (get_int (at_p_fds U + 4) (\<lambda>wr. Call u_write [wr, at_lit U ?H, 16] c2)) regs k =
      run P buf user_rsp mapped (Call u_write [scast b, at_lit U ?H, 16] c2) regs k"
    by (rule get_int_run [where f = "\<lambda>wr. Call u_write [wr, at_lit U ?H, 16] c2"]) (fact mp(2) H(3))+
  have "length ([] :: u8 list) + unat (16 :: u64) \<le> cap" using R(2) by simp
  from in_pipe_write [OF R(1) this I ucast_scast_u32, of buf user_rsp mapped "at_lit U ?H" c2 regs] obtain regs1 k1 where
    r1: "run P buf user_rsp mapped (Call u_write [scast b, at_lit U ?H, 16] c2) regs k = run P buf user_rsp mapped (c2 16) regs1 k1"
    and I1: "in_pipe U p d A B con a b ?bs k1" and m1: "kmem_of k1 = kmem_of k" and d1: "debug_port (fs (io k1)) = debug_port (fs (io k))"
    using rb by (auto simp del: run.simps list.map)
  have 2: "run P buf user_rsp mapped (c2 16) regs1 k1 = run P buf user_rsp mapped (Call u_read [scast a, at_buf U, 32] c3) regs1 k1"
    unfolding c2_def
    by (rule get_int_run [where f = "\<lambda>fd. Call u_read [fd, at_buf U, 32] c3"]) (fact mp(1), simp only: m1 H(2))
  have "?bs \<noteq> []" "length ?bs \<le> unat (32 :: u64)" "region (at_buf U) (unat (32 :: u64)) \<inter> region (at_p_fds U) 8 = {}"
    "region (at_buf U) (unat (32 :: u64)) \<subseteq> B" using x by simp_all
  from in_pipe_read [OF R(1) I1 ucast_scast_u32 this, of buf user_rsp mapped c3 regs1] obtain regs2 k2 where
    r2: "run P buf user_rsp mapped (Call u_read [scast a, at_buf U, 32] c3) regs1 k1 = run P buf user_rsp mapped (c3 16) regs2 k2"
    and I2: "in_pipe U p d A B con a b [] k2" and m2: "kmem_of k2 = write_bytes (kmem_of k1) (at_buf U) ?bs"
    and d2: "debug_port (fs (io k2)) = debug_port (fs (io k1))"
    unfolding l by (auto simp del: run.simps list.map)
  have "run P buf user_rsp mapped (get_int (at_p_fds U + 4) (\<lambda>wr. Call u_write [wr, at_lit U ?H, 16] c2)) regs k =
      run P buf user_rsp mapped (c3 16) regs2 k2" using 1 r1 2 r2 by simp
  then show ?thesis using I2 m2 [unfolded m1] d1 d2 unfolding c2_def by (intro exI [of _ regs2] exI [of _ k2]) (simp only: simp_thms)
qed

lemma in_pipe_transfer:
  assumes R: "ring_laws (ring_ops (lib P)) con cap" "16 \<le> cap" and I: "in_pipe U p d A B con a b [] k"
    and x: "region (at_buf U) 32 \<inter> region (at_p_fds U) 8 = {}" "region (at_buf U) 32 \<subseteq> B"
    and mp: "mapped (at_p_fds U)" "mapped (at_p_fds U + 4)" "mapped (at_buf U + 16)"
  shows "\<exists>regs' k'. run P buf user_rsp mapped (get_int (at_p_fds U + 4) (\<lambda>wr. Call u_write [wr, at_lit U ''Hello from Pipe!'', 16] (\<lambda>_.
       get_int (at_p_fds U) (\<lambda>rd_fd. Call u_read [rd_fd, at_buf U, 32] (\<lambda>rd. if rd = 16 then Put (at_buf U + 16) [0] ok else bad))))) regs k =
       run P buf user_rsp mapped ok regs' k' \<and> in_pipe U p d A B con a b [] k' \<and> cstr (kmem_of k') (at_buf U) = Some ''Hello from Pipe!'' \<and>
     debug_port (fs (io k')) = debug_port (fs (io k)) \<and> only_in B (kmem_of k) (kmem_of k')"
proof -
  let ?H = "''Hello from Pipe!''" let ?bs = "map byte_of_char ?H"
  have l: "length ?bs = 16" "length ?H = 16" by simp_all
  define c3 where "c3 = (\<lambda>rd :: u64. if rd = 16 then Put (at_buf U + 16) [0] ok else bad)"
  obtain regs2 k2 where r2: "run P buf user_rsp mapped (get_int (at_p_fds U + 4) (\<lambda>wr. Call u_write [wr, at_lit U ?H, 16] (\<lambda>_.
       get_int (at_p_fds U) (\<lambda>rd_fd. Call u_read [rd_fd, at_buf U, 32] c3)))) regs k = run P buf user_rsp mapped (c3 16) regs2 k2"
    and I2: "in_pipe U p d A B con a b [] k2" and m2: "kmem_of k2 = write_bytes (kmem_of k) (at_buf U) ?bs"
    and d2: "debug_port (fs (io k2)) = debug_port (fs (io k))"
    using in_pipe_exchange [OF R I x mp(1,2), of buf user_rsp c3 regs] by (elim exE conjE)
  define k3 where "k3 = set_mem (write_bytes (kmem_of k2) (at_buf U + 16) [0]) k2"
  have s: "region (at_buf U + 16) 1 \<subseteq> region (at_buf U) 32" using region_sub [of 16 1 32 "at_buf U"] by simp
  have I3: "in_pipe U p d A B con a b [] k3"
    unfolding k3_def by (rule in_pipe_put [OF I2]) (use s x in auto)
  have 3: "run P buf user_rsp mapped (c3 16) regs2 k2 = run P buf user_rsp mapped ok regs2 k3" using mp(3) by (simp add: c3_def k3_def)
  have m3: "kmem_of k3 = write_bytes (write_bytes (kmem_of k) (at_buf U) ?bs) (at_buf U + 16) [0]" by (simp add: k3_def m2 del: list.map)
  have dj: "region (at_buf U) 16 \<inter> region (at_buf U + 16) 1 = {}" using region_offsets_disjoint(1) [of 0 16 16 1 "at_buf U"] by simp
  have "cstr (kmem_of k3) (at_buf U) = Some ?H"
  proof (rule cstr_read [where bs = ?bs])
    show "read_bytes (kmem_of k3) (at_buf U) (length ?bs) = ?bs"
      unfolding m3 l by (subst read_write_disjoint) (use dj in \<open>simp_all add: read_write_same del: list.map\<close>)
    show "kmem_of k3 (at_buf U + of_nat (length ?bs)) = 0" unfolding m3 l by simp
    show "?H = map char_of_byte ?bs" by (rule map_chars_back [symmetric])
    show "0 \<notin> set ?bs" by (simp add: byte_of_char_def)
  qed
  moreover have "only_in B (kmem_of k) (kmem_of k3)"
  proof -
    have "only_in (region (at_buf U) 32) (kmem_of k) (write_bytes (kmem_of k) (at_buf U) ?bs)"
      using only_in_write [of 0 ?bs 32 "at_buf U"] by (simp del: list.map)
    moreover have "only_in (region (at_buf U) 32) m (write_bytes m (at_buf U + 16) [0])" for m
      using only_in_write [of 16 "[0]" 32 "at_buf U"] by simp
    ultimately show ?thesis unfolding m3 by (meson only_in_trans only_in_mono x(2))
  qed
  moreover have "debug_port (fs (io k3)) = debug_port (fs (io k))" using d2 by (simp add: k3_def set_mem_def)
  ultimately show ?thesis using I3 r2 3 unfolding c3_def by (intro exI [of _ regs2] exI [of _ k3]) (simp only: simp_thms)
qed

definition pipe_area :: "layout \<Rightarrow> addr set \<Rightarrow> addr set" where
  "pipe_area U A = A \<union> region (at_p_fds U) 8 \<union> region (at_buf U) 32"

definition pipe_transcript :: string where
  "pipe_transcript = concat [''[INIT] Testing pipe...\<newline>'', ''[INIT] pipe successful. Testing data transfer...\<newline>'',
     ''[INIT] Read from pipe: '', ''Hello from Pipe!'', ''\<newline>'', ''[INIT] pipe descriptors closed.\<newline>'']"

text \<open>The prints around the transfer.\<close>

lemma in_pipe_report:
  assumes I: "in_pipe U p d A B con a b [] k" and f: "region (at_p_fds U) 8 \<inter> A = {}" "A \<subseteq> B"
    and str: "cstr (kmem_of k) (at_buf U) = Some str" "region (at_buf U) (length str) \<inter> A = {}" "at_buf U + of_nat (length str) \<notin> A"
  shows "\<exists>regs' k'. run P buf user_rsp mapped (print_lit U ''[INIT] Read from pipe: '' (print (at_buf U) (print_lit U ''\<newline>'' c))) regs k =
       run P buf user_rsp mapped c regs' k' \<and> in_pipe U p d A B con a b [] k' \<and>
     debug_port (fs (io k')) = debug_port (fs (io k)) @ map byte_of_char (''[INIT] Read from pipe: '' @ str @ ''\<newline>'') \<and> only_in A (kmem_of k) (kmem_of k')"
proof -
  let ?T = "''[INIT] Read from pipe: ''" and ?N = "''\<newline>''"
  have T: "?T \<in> set pipe_texts" "?N \<in> set pipe_texts" by (simp_all add: pipe_texts_def)
  define p1 where "p1 = print_lit U ?N c"
  define p2 where "p2 = print (at_buf U) p1"
  obtain regs1 k1 where r1: "run P buf user_rsp mapped (print_lit U ?T p2) regs k = run P buf user_rsp mapped p2 regs1 k1"
    and I1: "in_pipe U p d A B con a b [] k1" and d1: "debug_port (fs (io k1)) = debug_port (fs (io k)) @ map byte_of_char ?T"
    and m1: "only_in A (kmem_of k) (kmem_of k1)"
    using in_pipe_print_lit [OF I f T(1), of P buf user_rsp mapped p2 regs] by (elim exE conjE)
  have "literal (kmem_of k1) A (at_buf U) str" by (rule literal_kept [OF _ m1 str(3)]) (use str in \<open>simp add: literal_def\<close>)
  then have s1: "cstr (kmem_of k1) (at_buf U) = Some str" by (simp add: literal_def)
  obtain regs2 k2 where r2: "run P buf user_rsp mapped p2 regs1 k1 = run P buf user_rsp mapped p1 regs2 k2"
    and I2: "in_pipe U p d A B con a b [] k2" and d2: "debug_port (fs (io k2)) = debug_port (fs (io k1)) @ map byte_of_char str"
    and m2: "only_in A (kmem_of k1) (kmem_of k2)"
    using in_pipe_print [OF I1 f s1 str(2), of P buf user_rsp mapped p1 regs1] unfolding p2_def by (elim exE conjE)
  obtain regs3 k3 where "run P buf user_rsp mapped p1 regs2 k2 = run P buf user_rsp mapped c regs3 k3"
    "in_pipe U p d A B con a b [] k3" "debug_port (fs (io k3)) = debug_port (fs (io k2)) @ map byte_of_char ?N"
    "only_in A (kmem_of k2) (kmem_of k3)"
    using in_pipe_print_lit [OF I2 f T(2), of P buf user_rsp mapped c regs2] unfolding p1_def by (elim exE conjE)
  then show ?thesis
    using r1 r2 d1 d2 only_in_trans [OF m1 only_in_trans [OF m2]] unfolding p1_def p2_def
    by (intro exI [of _ regs3] exI [of _ k3]) (simp only: map_append append_assoc simp_thms)
qed

text \<open>
  C16: The pipe section of the first user program, from its first system call stub to its last, on the kernel: \<open>pipe\<close>, the
  write of its message, the read into its buffer, both calls of \<open>close\<close> and six calls of \<open>print\<close>, all through \<open>Dispatch\<close>, run to the end, and the
  debug port gets exactly the transcript of success, with the message that went through the pipe. Memory changes only on the screen, in the array of
  the descriptors and in the buffer, and the process can go on printing. (There is storage for six objects and room for two
  descriptors, the ring is a bounded queue of at least 16 bytes and new rings are empty, and the strings of the program are in its memory.)
\<close>

theorem init_pipe_transcript:
  assumes u: "console_user p d A k" and K: "pipe_ready P live avail oth p k"
    and R: "ring_laws (ring_ops (lib P)) con cap" "16 \<le> cap" "con (ring_new (lib P) kDefaultCapacity) = []"
    and t: "texts_ok U (pipe_area U A) (kmem_of k)"
    and lay: "region (at_buf U) 32 \<inter> region (at_p_fds U) 8 = {}" "region (at_p_fds U) 8 \<inter> A = {}" "region (at_buf U) 32 \<inter> A = {}"
    and mp: "\<forall>x \<in> region (at_p_fds U) 8 \<union> region (at_buf U) 32. mapped x"
  shows "\<exists>regs' k'. run P buf user_rsp mapped (init_pipe U c) regs k = run P buf user_rsp mapped c regs' k' \<and>
     debug_port (fs (io k')) = debug_port (fs (io k)) @ map byte_of_char pipe_transcript \<and>
     console_user p d A k' \<and> only_in (pipe_area U A) (kmem_of k) (kmem_of k')"
proof -
  let ?B = "pipe_area U A"
  have B: "A \<subseteq> ?B" "region (at_p_fds U) 8 \<subseteq> ?B" "region (at_buf U) 32 \<subseteq> ?B" by (auto simp: pipe_area_def)
  have mem: "at_p_fds U \<in> region (at_p_fds U) 8" "at_p_fds U + 4 \<in> region (at_p_fds U) 8" "at_buf U + 16 \<in> region (at_buf U) 32"
    by (auto simp: region_def intro: image_eqI [where x = 0] image_eqI [where x = 4] image_eqI [where x = 16])
  have mp': "mapped (at_p_fds U)" "mapped (at_p_fds U + 4)" "mapped (at_buf U + 16)" using mp mem by blast+
  define fin where "fin = get_int (at_p_fds U) (\<lambda>rd_fd. Call u_close [rd_fd] (\<lambda>_. get_int (at_p_fds U + 4) (\<lambda>wr. Call u_close [wr] (\<lambda>_.
      print_lit U ''[INIT] pipe descriptors closed.\<newline>'' c))))"
  define ok where "ok = print_lit U ''[INIT] Read from pipe: '' (print (at_buf U) (print_lit U ''\<newline>'' fin))"
  define bad where "bad = print_lit U ''[INIT] pipe read failed or unexpected size.\<newline>'' fin"
  define tr where "tr = get_int (at_p_fds U + 4) (\<lambda>wr. Call u_write [wr, at_lit U ''Hello from Pipe!'', 16] (\<lambda>_.
       get_int (at_p_fds U) (\<lambda>rd_fd. Call u_read [rd_fd, at_buf U, 32] (\<lambda>rd. if rd = 16 then Put (at_buf U + 16) [0] ok else bad))))"
  define c0 where "c0 = (\<lambda>r. if cint r = 0 then print_lit U ''[INIT] pipe successful. Testing data transfer...\<newline>'' tr
      else print_lit U ''[INIT] pipe failed!\<newline>'' c)"
  have prog: "init_pipe U c = print_lit U ''[INIT] Testing pipe...\<newline>'' (Call u_pipe [at_p_fds U] c0)"
    by (simp only: init_pipe_def c0_def tr_def ok_def bad_def fin_def Let_def)
  obtain a b regs1 k1 where 1: "run P buf user_rsp mapped (init_pipe U c) regs k = run P buf user_rsp mapped (c0 0) regs1 k1"
    "in_pipe U p d A ?B con a b [] k1" "debug_port (fs (io k1)) = debug_port (fs (io k)) @ map byte_of_char ''[INIT] Testing pipe...\<newline>''"
    "only_in ?B (kmem_of k) (kmem_of k1)"
    using in_pipe_start [where con = con, OF u K R(3) t B(1,2), of buf user_rsp mapped c0 regs] unfolding prog by (elim exE conjE)
  have c0: "c0 0 = print_lit U ''[INIT] pipe successful. Testing data transfer...\<newline>'' tr" by (simp add: c0_def cint_def)
  have "''[INIT] pipe successful. Testing data transfer...\<newline>'' \<in> set pipe_texts" by (simp add: pipe_texts_def)
  from in_pipe_print_lit [OF 1(2) lay(2) B(1) this, of P buf user_rsp mapped tr regs1] obtain regs2 k2 where
    2: "run P buf user_rsp mapped (c0 0) regs1 k1 = run P buf user_rsp mapped tr regs2 k2" "in_pipe U p d A ?B con a b [] k2"
    "debug_port (fs (io k2)) = debug_port (fs (io k1)) @ map byte_of_char ''[INIT] pipe successful. Testing data transfer...\<newline>''"
    "only_in A (kmem_of k1) (kmem_of k2)" unfolding c0 by (elim exE conjE)
  obtain regs3 k3 where 3: "run P buf user_rsp mapped tr regs2 k2 = run P buf user_rsp mapped ok regs3 k3" "in_pipe U p d A ?B con a b [] k3"
    "cstr (kmem_of k3) (at_buf U) = Some ''Hello from Pipe!''" "debug_port (fs (io k3)) = debug_port (fs (io k2))" "only_in ?B (kmem_of k2) (kmem_of k3)"
    using in_pipe_transfer [OF R(1,2) 2(2) lay(1) B(3) mp', of buf user_rsp ok bad regs2] unfolding tr_def by (elim exE conjE)
  have l: "length ''Hello from Pipe!'' = 16" by simp
  have s: "region (at_buf U) (length ''Hello from Pipe!'') \<inter> A = {}" "at_buf U + of_nat (length ''Hello from Pipe!'') \<notin> A"
    unfolding l of_nat_numeral using lay(3) mem(3) region_mono [of 16 32 "at_buf U", simplified] by blast+
  obtain regs4 k4 where 4: "run P buf user_rsp mapped ok regs3 k3 = run P buf user_rsp mapped fin regs4 k4" "in_pipe U p d A ?B con a b [] k4"
    "debug_port (fs (io k4)) = debug_port (fs (io k3)) @ map byte_of_char (''[INIT] Read from pipe: '' @ ''Hello from Pipe!'' @ ''\<newline>'')"
    "only_in A (kmem_of k3) (kmem_of k4)"
    using in_pipe_report [OF 3(2) lay(2) B(1) 3(3) s, of P buf user_rsp mapped fin regs3] unfolding ok_def by (elim exE conjE)
  obtain regs5 k5 where 5: "run P buf user_rsp mapped fin regs4 k4 = run P buf user_rsp mapped c regs5 k5" "console_user p d A k5"
    "debug_port (fs (io k5)) = debug_port (fs (io k4)) @ map byte_of_char ''[INIT] pipe descriptors closed.\<newline>''" "only_in A (kmem_of k4) (kmem_of k5)"
    using in_pipe_finish [OF 4(2) mp'(1,2) B(1), of P buf user_rsp c regs4] unfolding fin_def by (elim exE conjE)
  have "debug_port (fs (io k5)) = debug_port (fs (io k)) @ map byte_of_char pipe_transcript"
    unfolding 5(3) 4(3) 3(4) 2(3) 1(3) pipe_transcript_def concat.simps map_append append_assoc append_Nil2 ..
  moreover have "only_in ?B (kmem_of k) (kmem_of k5)"
    using 1(4) 3(5) only_in_mono [OF 2(4) B(1)] only_in_mono [OF 4(4) B(1)] only_in_mono [OF 5(4) B(1)] by (meson only_in_trans)
  ultimately show ?thesis using 1(1) 2(1) 3(1) 4(1) 5(1,2) by (intro exI [of _ regs5] exI [of _ k5]) simp
qed

text \<open>A ring of 64 bytes, and a memory with the text of number \<open>i\<close> at address \<open>256 * i\<close>.\<close>

definition ex_ring :: "u8 list ring" where
  "ex_ring = \<lparr>rb_Empty = (\<lambda>b. b = []), rb_Size = (\<lambda>b. of_nat (length (take 64 b))), rb_Capacity = (\<lambda>_. 64),
     rb_Push = (\<lambda>v b. if length b < 64 then (True, b @ [v]) else (False, b)),
     rb_Pop = (\<lambda>b. case take 64 b of [] \<Rightarrow> (None, b) | v # vs \<Rightarrow> (Some v, vs))\<rparr>"

lemma ex_ring_laws: "ring_laws ex_ring (take 64) 64"
proof -
  have m: "min k 64 mod 18446744073709551616 = min k (64::nat)" for k by simp
  have "length vs \<le> 64" if "take 64 b = v # vs" for b :: "u8 list" and v vs
    using arg_cong [OF that, of length] by simp
  then show ?thesis
    by (auto simp: ring_laws_def ex_ring_def unat_of_nat m split: list.split)
qed

definition ex_text_mem :: mem where
  "ex_text_mem x = (let i = unat x div 256; j = unat x mod 256 in
     if i < length pipe_texts \<and> j < length (pipe_texts ! i) then byte_of_char (pipe_texts ! i ! j) else 0)"

definition ex_text_layout :: layout where
  "ex_text_layout = ex_layout\<lparr>at_lit := (\<lambda>str. of_nat (256 * length (takeWhile (\<lambda>t. t \<noteq> str) pipe_texts)))\<rparr>"

lemma pipe_texts_facts: "length pipe_texts = 6" "\<forall>str \<in> set pipe_texts. length str < 200 \<and> 0 \<notin> set (map byte_of_char str)"
  by (simp_all add: pipe_texts_def byte_of_char_def)

lemma ex_text_byte:
  assumes "i < 6" and "j < 256"
  shows "ex_text_mem (of_nat (256 * i) + of_nat j) = (if j < length (pipe_texts ! i) then byte_of_char (pipe_texts ! i ! j) else 0)"
proof -
  have "of_nat (256 * i) + of_nat j = (of_nat (256 * i + j) :: u64)" by simp
  moreover have "unat (of_nat (256 * i + j) :: u64) = 256 * i + j" using assms by (intro of_nat_inverse [OF refl]) simp
  ultimately have u: "unat (of_nat (256 * i) + of_nat j :: u64) = 256 * i + j" by (rule ssubst)
  have "(256 * i + j) div 256 = i" "(256 * i + j) mod 256 = j" using assms(2) by simp_all
  then show ?thesis using assms(1) by (simp only: ex_text_mem_def u Let_def pipe_texts_facts(1) simp_thms)
qed

lemma ex_text_cstr:
  assumes "i < 6"
  shows "cstr ex_text_mem (of_nat (256 * i)) = Some (pipe_texts ! i)"
proof (rule cstr_read)
  let ?t = "pipe_texts ! i"
  have t: "length ?t < 200" "0 \<notin> set (map byte_of_char ?t)" using assms pipe_texts_facts by (metis nth_mem)+
  show "?t = map char_of_byte (map byte_of_char ?t)" by (rule map_chars_back [symmetric])
  show "0 \<notin> set (map byte_of_char ?t)" by (rule t(2))
  show "read_bytes ex_text_mem (of_nat (256 * i)) (length (map byte_of_char ?t)) = map byte_of_char ?t"
    using t(1) by (intro nth_equalityI) (simp_all add: ex_text_byte [OF assms] del: of_nat_mult)
  show "ex_text_mem (of_nat (256 * i) + of_nat (length (map byte_of_char ?t))) = 0"
    using t(1) by (simp add: ex_text_byte [OF assms] del: of_nat_mult)
qed

lemma takeWhile_index: "distinct xs \<Longrightarrow> i < length xs \<Longrightarrow> length (takeWhile (\<lambda>t. t \<noteq> xs ! i) xs) = i"
  by (induction xs arbitrary: i) (auto simp: nth_Cons split: nat.split)

lemma ex_texts_ok: "texts_ok ex_text_layout (pipe_area ex_text_layout {}) ex_text_mem"
  unfolding texts_ok_def
proof
  fix str
  assume "str \<in> set pipe_texts"
  then obtain i where i: "i < 6" "str = pipe_texts ! i" using pipe_texts_facts(1) by (auto simp: in_set_conv_nth)
  have "length (takeWhile (\<lambda>t. t \<noteq> str) pipe_texts) = i"
    unfolding i(2) by (rule takeWhile_index) (simp add: pipe_texts_def, simp only: pipe_texts_facts(1) i(1))
  then have a: "at_lit ex_text_layout str = of_nat (256 * i)" by (simp add: ex_text_layout_def)
  have l: "length str < 200" using i(2) \<open>str \<in> set pipe_texts\<close> pipe_texts_facts(2) by blast
  have u: "unat (of_nat (256 * i) :: u64) = 256 * i" using i(1) by (intro of_nat_inverse [OF refl]) simp
  have B: "pipe_area ex_text_layout {} = region 0x3100 8 \<union> region 0x3200 32" by (simp add: pipe_area_def ex_text_layout_def ex_layout_def)
  have d: "region (of_nat (256 * i)) 256 \<inter> (region 0x3100 8 \<union> region 0x3200 32) = ({} :: addr set)"
    using region_disjoint(1) [of "of_nat (256 * i)" 256 "0x3100" 8] region_disjoint(1) [of "of_nat (256 * i)" 256 "0x3200" 32] i(1)
    unfolding u by (simp add: Int_Un_distrib)
  have "at_lit ex_text_layout str + of_nat (length str) \<in> region (of_nat (256 * i)) 256"
    unfolding a region_def using l by (intro image_eqI [where x = "length str"]) simp_all
  moreover have "region (of_nat (256 * i)) (length str) \<subseteq> region (of_nat (256 * i)) 256" by (rule region_mono) (use l in simp)
  ultimately have e: "at_lit ex_text_layout str + of_nat (length str) \<notin> pipe_area ex_text_layout {}"
    "region (at_lit ex_text_layout str) (length str) \<inter> pipe_area ex_text_layout {} = {}"
    using d unfolding a B by blast+
  have "cstr ex_text_mem (at_lit ex_text_layout str) = Some str" using ex_text_cstr [OF i(1), folded i(2)] unfolding a .
  with e show "literal ex_text_mem (pipe_area ex_text_layout {}) (at_lit ex_text_layout str) str \<and>
      at_lit ex_text_layout str + of_nat (length str) \<notin> pipe_area ex_text_layout {}"
    unfolding literal_def by (intro conjI)
qed

theorem init_pipe_transcript_witness:
  "\<exists>regs' k'. run (ex_plat\<lparr>lib := ex_pool\<lparr>ring_ops := ex_ring\<rparr>\<rparr>) 0 0 (\<lambda>_. True) (init_pipe ex_text_layout Spin) zero_frame (set_mem ex_text_mem ex_user) =
       run (ex_plat\<lparr>lib := ex_pool\<lparr>ring_ops := ex_ring\<rparr>\<rparr>) 0 0 (\<lambda>_. True) Spin regs' k' \<and>
     debug_port (fs (io k')) = map byte_of_char pipe_transcript"
proof -
  let ?P = "ex_plat\<lparr>lib := ex_pool\<lparr>ring_ops := ex_ring\<rparr>\<rparr>" and ?k = "set_mem ex_text_mem ex_user"
  have c: "console_user 0x500 100 {} ?k" using ex_user_console by simp
  have S: "storage_laws (lib ?P) ex_live (\<lambda>k. 64 - k)" using ex_pool_laws by (simp add: storage_laws_def alloc_laws_def)
  have "refs_ok (\<lambda>_. 0) [None, Some 100] (io ?k)"
    by (auto simp: refs_ok_def live_ok_def refs_def slot_refs_def ex_user_def set_mem_def)
  then have "counted ex_live (\<lambda>_. 0) 0x500 ?k"
    by (simp add: counted_def ex_user_def set_mem_def ex_live_def Process_new_def)
  then have r: "pipe_ready ?P ex_live (\<lambda>k. 64 - k) (\<lambda>_. 0) 0x500 ?k"
    using S by (simp add: pipe_ready_def kMaxFds_def kmm_of_def ex_user_def set_mem_def ex_live_def ex_fsys_def Process_new_def)
  have R: "ring_laws (ring_ops (lib ?P)) (take 64) 64" "take 64 (ring_new (lib ?P) kDefaultCapacity) = []"
    using ex_ring_laws by (simp_all add: ex_pool_def ex_fk_def)
  have t: "texts_ok ex_text_layout (pipe_area ex_text_layout {}) (kmem_of ?k)" using ex_texts_ok by simp
  have "region (at_buf ex_text_layout) 32 \<inter> region (at_p_fds ex_text_layout) 8 = {}"
    using region_disjoint(2) [of "0x3100" 8 "0x3200" 32] by (simp add: ex_text_layout_def ex_layout_def)
  from init_pipe_transcript [OF c r R(1) _ R(2) t this, of "\<lambda>_. True" 0 0 Spin zero_frame] obtain regs' k' where
    "run ?P 0 0 (\<lambda>_. True) (init_pipe ex_text_layout Spin) zero_frame ?k = run ?P 0 0 (\<lambda>_. True) Spin regs' k'"
    "debug_port (fs (io k')) = debug_port (fs (io ?k)) @ map byte_of_char pipe_transcript" by (auto simp del: run.simps)
  moreover have "debug_port (fs (io ?k)) = []" by (simp add: set_mem_def ex_user_def ex_fsys_def)
  ultimately show ?thesis by (intro exI [of _ regs'] exI [of _ k']) (simp del: run.simps)
qed

end
