(* ===== verification/Spec2Isabelle.thy ===== *)
theory Spec2Isabelle
  imports CompilerRt Startup UserProg
begin

text \<open>
  A verification development for the ceryx kernel: a small x86-64 kernel with preemptive threads, processes with their own address
  spaces, Linux-style system calls and signals, an in-memory file system unpacked from a boot archive, and a framebuffer
  console. All paths below are relative to \<open>src/\<close>.

  \<^bold>\<open>How the parts interact.\<close> A user program enters through \<open>SyscallEntry\<close> or an interrupt stub, which saves the registers as an
  \<open>InterruptFrame\<close> on the kernel stack of the current thread and calls \<open>Syscall::Dispatch\<close> or the interrupt dispatcher. A
  system call works on the \<open>Process\<close> of the current thread: its descriptor table holds open files, which hold vnodes, which the
  operation tables of the RAM file system, the pseudo files and the pipes serve; its address space holds the mappings and the page
  table root. Calls that block put the thread on the wait queue of the scheduler; the timer interrupt calls \<open>Scheduler::Tick\<close>.
  On the way back pending signals are delivered. \<open>start_kernel\<close> builds all of this and starts \<open>/sbin/init\<close>.
  The model follows this from power on: \<open>Startup.start_kernel\<close> reaches the first state of \<open>KernelSafety.kernel_step\<close>, whose steps are the system calls,
  interrupts, signal deliveries, sleeps, wake-ups and reaper passes, and the threads keep their invariant in every run of it.

  \<^bold>\<open>Theories and sources\<close> (each opens with the files and functions it models; its operations have the names of the source).
  \<^item> \<open>Prelude\<close>: integer types, the result type \<open>expected\<close>, errno values, lemmas on words and lists; \<open>Memory\<close>: byte memory as the
    processor sees it through the current page tables, loads, stores and C strings.
  \<^item> \<open>CompilerRt\<close> (\<open>lib/compiler_rt.cpp\<close>): 128-bit division and multiplication on machine words, against division on integers.
  \<^item> \<open>Threads\<close> (\<open>proc/Thread.hpp\<close>, \<open>Thread.cpp\<close>, \<open>Switch.asm\<close>): thread objects and the stack images that a context switch pops;
    \<open>Scheduler\<close> (\<open>Scheduler.cpp\<close>, \<open>Reaper.cpp\<close>): the multi-level feedback queue, blocking, waking, exit, the reaper. The
    queue is used through the locale \<open>ready_queue\<close>; the invariants are \<open>sched_wf\<close> and that no live thread leaves all queues.
  \<^item> \<open>Pipe\<close> (\<open>fs/pipe/Pipe.hpp\<close>): operations, and the step relation \<open>pipe_step\<close> of any number of reading and writing threads,
    with their sleeps and wake-ups, cut where the code releases the lock. \<open>LinearFb\<close> (\<open>lib/linearfb.cpp\<close>, \<open>drivers/debugcon.cpp\<close>): the console.
  \<^item> \<open>Vnode\<close>, \<open>RamFs\<close>, \<open>Vfs\<close>, \<open>Cpio\<close> (\<open>fs/\<close>): vnodes, files as page trees with their refinement to maps from offsets to bytes, directories,
    pseudo files, path resolution against resolution by components, the archive loader. \<open>FsTypes\<close>: the typing invariant of
    the vnodes, kept by all of these.
  \<^item> \<open>Files\<close> (\<open>fs/FileDescription.hpp\<close>, descriptor table of \<open>Process.hpp\<close>): open files with their reference counts, through the locale
    \<open>refcounted\<close>: counts equal the slots and references that hold the file.
  \<^item> \<open>Kernel\<close> (\<open>UserAddressSpace.cpp\<close>): the state of the process layer as one record, user address spaces. \<open>ProcessModel\<close>
    (\<open>Process.cpp\<close>): process ids, fork, exit, reaping. \<open>Signals\<close> (\<open>Signal.cpp\<close>): sending, delivery, signal frames. \<open>Elf\<close> (\<open>ElfLoader.hpp\<close>).
  \<^item> \<open>SysFiles\<close>, \<open>SysProc\<close>, \<open>Syscalls\<close> (\<open>SyscallDispatch.cpp\<close>): one definition per system call, and the dispatcher. \<open>SysCounts\<close>: the
    file calls keep the reference counts, through the locale \<open>counted_calls\<close>; \<open>SysTypes\<close>: they never panic and keep the types,
    through its extension \<open>safe_calls\<close>.
  \<^item> \<open>CpuTables\<close> (\<open>Gdt\<close>, \<open>Idt\<close>), \<open>Lapic\<close> (\<open>Lapic.cpp\<close>), \<open>Entry\<close> (\<open>Syscall.asm\<close>, \<open>Interrupts.asm\<close>, \<open>Idt.cpp\<close>, \<open>Cpu.cpp\<close>, page fault handler):
    tables, timer, and what a user program observes of a system call, an exception or a page fault.
  \<^item> \<open>PhysMem\<close> (\<open>MemoryManager.cpp\<close>): the zones of physical memory; \<open>MemManager\<close> (\<open>MemoryManager.hpp\<close>, \<open>MemoryManager.cpp\<close>): \<open>Initialize\<close>, in its order
    of stages, and the accessors. \<open>Osl\<close> (\<open>lib/osl_stub.cpp\<close>): callbacks of the library.
  \<^item> \<open>SchedSafety\<close>, \<open>KernelSafety\<close>: the invariant of threads, processes and idle, reaper and current thread, kept by each operation of the scheduler and
    each system call, and the step relation \<open>kernel_step\<close> of the running kernel.
  \<^item> \<open>Boot\<close> (\<open>init/main.cpp\<close>): from the root of the file system to the first process; \<open>Startup\<close> (\<open>init/main.cpp\<close>, \<open>Scheduler::Start\<close>): all of
    \<open>start_kernel\<close>, from the processor tables to the running scheduler.
  \<^item> \<open>PipeCalls\<close>: \<open>pipe\<close>, \<open>write\<close>, \<open>read\<close> and \<open>close\<close> together, over descriptor table, open files, vnode and ring.
  \<^item> \<open>UserProg\<close> (\<open>userspace/\<close>): the stubs and the program \<open>/sbin/init\<close> on the dispatcher; what it prints, and its pipe section from the first call
    to the last.
  \<^item> This theory: exit and \<open>waitpid\<close> across processes, threads and the scheduler.

  \<^bold>\<open>Conventions.\<close> Integers keep their width (\<open>u8\<close> to \<open>u128\<close>); objects live at addresses in maps. \<open>expected\<close> is \<open>FoundationKit::Expected\<close> with a third
  value \<open>Bug\<close>, a panic or a null pointer, after which nothing runs. Loops that may not end are \<open>partial_function (option)\<close> and their value is
  \<open>None\<close> when they do not (archive, timer calibration, pipes, draining a page tree, C strings); termination is proved as \<open>\<exists>r. f x = Some r\<close>.
  No fuel is used. Interrupts are off in the kernel, so that a system call runs in one piece between the points where it blocks.

  \<^bold>\<open>Parameters.\<close> FoundationKit is a git submodule whose sources are not in the repository. What the code calls of it is the record \<open>fk\<close>
  (storage, page allocator, page trees, ring buffers), extended by \<open>plat\<close> (address spaces, id pool, clocks) and \<open>traps\<close>; the construction of its allocators
  is \<open>mm_lib\<close>, what a device answers \<open>timer_dev\<close>, what the boot loader hands over \<open>boot_info\<close>, the addresses of code \<open>code_addrs\<close>. The theorems name what they use of them: \<open>alloc_laws\<close> and \<open>storage_laws\<close> (new storage is that of no live object, and is there while some
  is left), \<open>page_objects\<close> (there is storage for the object of a page whenever there was a page; the write loop does not check it), \<open>page_laws\<close> and \<open>vmo_drain_laws\<close> (pages handed out are distinct, a page tree maps what was inserted), \<open>ring_laws\<close> (a ring is a
  bounded queue), \<open>unmap_keeps\<close> (unmapping changes no mapped byte), \<open>memmap_ok\<close> (boot memory map entries are disjoint). Each is shown
  to hold for the concrete instances \<open>ex_fk\<close>, \<open>ex_pool\<close>, \<open>ex_plat\<close>, \<open>ex_traps\<close> that the witnesses evaluate.

  \<^bold>\<open>Not modelled.\<close> Reference counts of vnodes (they never decide an operation; those of open files do); faults of user memory accesses
  inside a system call (the handler resolves them, or the access faults again for ever; no pointer of a caller is checked, and the model lets an access reach only
  bytes, never the objects of the kernel); logging; the FoundationKit allocators
  and the page table code behind \<open>mm_lib\<close>; several processors (the kernel starts one). The limine declarations are the interface of the
  boot loader, of which the memory map entries, the framebuffer and the initial archive are inputs of the model. The font is
  data that the console reads through memory. \<open>UserProg.run\<close> follows a user program while its calls return; sleeping and exit are followed by the
  theorems on the kernel.

  \<^bold>\<open>Simplified.\<close> A new file node always has its \<open>VmObject\<close>: a failure of \<open>MakeShared\<close> there is not modelled. A null result of \<open>new\<close> in \<open>PipeVnode_Create\<close>
  and \<open>FileDescription_new\<close> is \<open>Bug\<close> at once, where the code may still return an error. The same holds for the three unchecked ones of
  \<open>UserAddressSpace_Create\<close>. \<open>Reaper_pass\<close> is one step, where the code deletes with interrupts on, and the storage of deleted objects is not given back to the allocator.
  The lock of the scheduler is left out: operations run with interrupts off on one processor. \<open>pit_count\<close> reads the low byte first; C++ leaves the order of
  the two reads open. The counters of pipe ends change between the locked segments of \<open>pipe_step\<close>, where the code does not take the lock for them.
\<close>

section \<open>Exit and wait\<close>

lemma find_unique:
  assumes "c \<in> set xs" and "Q c" and "\<And>x. x \<in> set xs \<Longrightarrow> Q x \<Longrightarrow> x = c"
  shows "List.find Q xs = Some c"
  using assms(1,3)
proof (induction xs)
  case (Cons x xs)
  show ?case
  proof (cases "Q x")
    case False
    then have "x \<noteq> c" using assms(2) by auto
    then show ?thesis using False Cons by simp
  qed (use Cons.prems in simp)
qed simp

text \<open>Unmapping pages changes no byte that is still mapped.\<close>

definition unmap_keeps :: "('v, 'r, 'k, 'a) plat \<Rightarrow> bool" where
  "unmap_keeps P \<longleftrightarrow> (\<forall>a n s m l. fst (snd (snd (as_Unmap P a n (s, m, l)))) = m)"

lemma Reap_memory:
  assumes "procs k c = Some ch" and "m_fd_table ch = []" and "unmap_keeps P"
  shows "kmem_of (Process_Reap P c k) = kmem_of k"
proof -
  have m: "kmem_of (snd (on_space u (as_Unmap P a n) k)) = kmem_of k" for u a n k
    using assms(3) by (auto simp: unmap_keeps_def on_space_def kmem_of_def set_mem_def set_kmm_def split: option.split prod.split)
      (metis fst_conv snd_conv)
  have d: "kmem_of (UserAddressSpace_Destroy P u k) = kmem_of k" for u k
    using m [of u _ _ k] by (auto simp: UserAddressSpace_Destroy_def Let_def kmem_of_def set_kmm_def split: option.split)
  have p: "kmem_of (PidFree P pid k) = kmem_of k" for pid by (simp add: PidFree_def)
  let ?k = "UserAddressSpace_Destroy P (m_address_space ch) (PidFree P (ucast (m_pid ch)) k)"
  have "procs ?k c = Some ch" using same_fields(1) [OF same_base_Destroy] assms(1) by (metis PidFree_io(2))
  then have "kmem_of (delete_process c ?k) = kmem_of ?k"
    using assms(2) by (simp add: delete_process_def close_fds_def close_all_def Let_def kmem_of_def)
  then show ?thesis using assms(1) d p by (simp add: Process_Reap_def Let_def)
qed

lemma files_end_thread: "files (io (snd (end_thread P t k))) = files (io k)"
  by (simp add: end_thread_def Let_def run_sched_def show_view_def split: expected.split)

text \<open>
  C13: A parent collects the exit status of its child. After the thread of a child process called \<open>exit\<close>,
  \<open>waitpid\<close> of the parent for that process id returns at once with the id, stores the low byte of the status shifted by 8,
  unlinks the child from the parent and removes it, and touches no other process. (The process id is
  positive and no sibling has it, and unmapping the pages of the child leaves the memory of the parent alone.)
\<close>

theorem exit_waitpid:
  assumes "procs k p = Some pr" and "procs k c = Some ch" and "p \<noteq> c" and "c \<in> set (m_children pr)" and "0 < sint (m_pid ch)"
    and "\<And>x. x \<in> set (m_children pr) \<Longrightarrow> map_option m_pid (procs k x) = Some (m_pid ch) \<Longrightarrow> x = c"
    and "refs_ok others (m_fd_table ch) (io k)" and "unmap_keeps P"
    and "sys_exit P (Some t) (Some c) regs k = (Gone, k1)" and "rdi regs' = m_pid ch"
  shows "\<exists>k2. sys_waitpid P p regs' k1 = (Ret (m_pid ch), k2) \<and>
     procs k2 = (procs k)(p \<mapsto> pr\<lparr>m_children := remove1 c (m_children pr)\<rparr>, c := None) \<and> refs_ok others [] (io k2) \<and>
     (rsi regs' \<noteq> 0 \<longrightarrow> load32 (kmem_of k2) (rsi regs') = push_bit 8 (ucast (rdi regs) AND 0xFF))"
proof -
  let ?st = "ucast (rdi regs) :: u32" and ?k0 = "Process_Exit c (ucast (rdi regs)) k"
  define ch' where "ch' = ch\<lparr>m_fd_table := [], m_proc_state := ProcZombie, m_exit_status := ?st\<rparr>"
  note E = Process_Exit_facts [OF assms(2,7), of ?st, folded ch'_def]
  have e: "end_thread P t ?k0 = (Value (), k1)"
    using assms(9) by (auto simp: sys_exit_def split: prod.splits expected.splits)
  have p1: "procs k1 = (procs k)(c \<mapsto> ch')" using end_thread_procs [of P t ?k0] e E(1) by simp
  have r1: "refs_ok others [] (io k1)" using files_end_thread [of P t ?k0] e E(2) refs_ok_files by (metis snd_conv)
  define k2 where "k2 = (if rsi regs' \<noteq> 0 then set_mem (store32 (kmem_of k1) (rsi regs') (push_bit 8 (?st AND 0xFF))) k1 else k1)"
  have k2: "procs k2 = procs k1" "files (io k2) = files (io k1)" by (simp_all add: k2_def)
  define k3 where "k3 = upd_proc p (\<lambda>pr. pr\<lparr>m_children := remove1 c (m_children pr)\<rparr>) k2"
  have p3: "procs k3 = (procs k)(c \<mapsto> ch', p \<mapsto> pr\<lparr>m_children := remove1 c (m_children pr)\<rparr>)"
    using assms(1,3) k2 p1 by (simp add: k3_def fun_upd_def)
  have c3: "procs k3 c = Some ch'" "m_fd_table ch' = []" using p3 assms(3) by (simp_all add: ch'_def)
  have pid: "m_pid ch \<noteq> 0" using assms(5) by auto
  have find: "FindChild p (m_pid ch) k1 = Some c"
    using p1 assms(1,3,4) pid assms(6)
    by (auto simp: FindChild_def ch'_def intro!: find_unique split: if_splits)
  have w: "sys_waitpid P p regs' k1 = (Ret (m_pid ch), Process_Reap P c k3)"
    using find p1 assms(1,3,4,5,10) k2
    by (simp add: sys_waitpid_def waitpid_tail_def Let_def ch'_def RemoveChild_def k3_def k2_def)
  have rk: "refs_ok others (m_fd_table ch') (io k3)"
    using r1 k2(2) refs_ok_files [of "io k3" "io k1"] by (simp add: ch'_def k3_def)
  note R = Process_Reap_facts [OF c3(1) rk, of P]
  have "kmem_of (Process_Reap P c k3) = kmem_of k2" using Reap_memory [OF c3 assms(8)] by (simp add: k3_def)
  moreover have "rsi regs' \<noteq> 0 \<longrightarrow> load32 (kmem_of k2) (rsi regs') = push_bit 8 (?st AND 0xFF)" by (simp add: k2_def)
  moreover have "procs (Process_Reap P c k3) = (procs k)(p \<mapsto> pr\<lparr>m_children := remove1 c (m_children pr)\<rparr>, c := None)"
    unfolding R(1) p3 using assms(3) by (simp add: fun_eq_iff)
  ultimately show ?thesis using w R(2) by (intro exI [of _ "Process_Reap P c k3"] conjI) simp_all
qed

theorem exit_waitpid_witness:
  "\<exists>k1 k2. sys_exit ex_plat (Some 2) (Some 0x600) (zero_frame\<lparr>rdi := 0x2A\<rparr>) ex_kernel = (Gone, k1) \<and>
     sys_waitpid ex_plat 0x500 (zero_frame\<lparr>rdi := 2, rsi := 0x7000\<rparr>) k1 = (Ret 2, k2) \<and> procs k2 0x600 = None \<and>
     load32 (kmem_of k2) 0x7000 = 0x2A00"
proof -
  let ?pr = "(Process_new 1 0x510 2 2)\<lparr>m_fd_table := ex_table, m_children := [0x600], m_heap_start := 0x30000, m_heap_end := 0x30800\<rparr>"
  let ?ch = "(Process_new 2 0x610 2 2)\<lparr>m_parent := Some 0x500, m_proc_state := ProcZombie, m_exit_status := 7\<rparr>"
  let ?o = "\<lambda>d. refs ex_filesys d" and ?regs = "zero_frame\<lparr>rdi := 0x2A\<rparr>" and ?regs' = "zero_frame\<lparr>rdi := 2, rsi := 0x7000\<rparr>"
  have pr: "procs ex_kernel 0x500 = Some ?pr" "procs ex_kernel 0x600 = Some ?ch" by (simp_all add: ex_kernel_def)
  have ok: "refs_ok ?o (m_fd_table ?ch) (io ex_kernel)"
    using ex_refs_ok(1) by (simp add: refs_ok_def slot_refs_def Process_new_def ex_kernel_def)
  have un: "unmap_keeps ex_plat" by (simp add: unmap_keeps_def ex_plat_def)
  have "sch (Process_Exit 0x600 0x2A ex_kernel) = Wake 0x600 False (sch ex_kernel)"
    using Process_Exit_facts(3) [OF pr(2) ok, of "0x2A"] by simp
  moreover have "reaper_thread (Wake 0x600 False ex_ksched) \<noteq> Some 2" "\<exists>th. threads (Wake 0x600 False ex_ksched) 2 = Some th"
    by (simp_all add: ex_ksched_def ex_sched_def Wake_def ex_thread_def thr_def wake_thread_def Let_def push_back_def upd_thread_def)
  moreover have "sch ex_kernel = ex_ksched" by (simp add: ex_kernel_def)
  ultimately have "\<exists>k1. sys_exit ex_plat (Some 2) (Some 0x600) ?regs ex_kernel = (Gone, k1)"
    by (auto simp: sys_exit_def end_thread_def Let_def Reaper_Enqueue_def upd_thread_def thr_def)
  then obtain k1 where ex: "sys_exit ex_plat (Some 2) (Some 0x600) ?regs ex_kernel = (Gone, k1)" by (elim exE)
  have "\<exists>k2. sys_waitpid ex_plat 0x500 ?regs' k1 = (Ret (m_pid ?ch), k2) \<and>
     procs k2 = (procs ex_kernel)(0x500 \<mapsto> ?pr\<lparr>m_children := remove1 0x600 (m_children ?pr)\<rparr>, 0x600 := None) \<and> refs_ok ?o [] (io k2) \<and>
     (rsi ?regs' \<noteq> 0 \<longrightarrow> load32 (kmem_of k2) (rsi ?regs') = push_bit 8 (ucast (rdi ?regs) AND 0xFF))"
    by (rule exit_waitpid [OF pr _ _ _ _ ok un ex]) (simp_all add: Process_new_def)
  then obtain k2 where "sys_waitpid ex_plat 0x500 ?regs' k1 = (Ret 2, k2)" "procs k2 0x600 = None" "load32 (kmem_of k2) 0x7000 = 0x2A00"
    by (auto simp: Process_new_def)
  with ex show ?thesis by blast
qed

section \<open>Sleeping in waitpid\<close>

lemma Block_sleeps:
  assumes "sched_wf s" and "current_thread s = Some t" and "idle_thread s \<noteq> Some t"
  shows "t \<in> set (g_wait_queue (Block root ch s))" and "wait_channel (thr (Block root ch s) t) = ch"
    and "m_state (thr (Block root ch s) t) = Blocked"
proof -
  define s2 where "s2 = (upd_thread t (\<lambda>th. th\<lparr>m_state := Blocked, wait_channel := ch\<rparr>) s)\<lparr>g_wait_queue := g_wait_queue s @ [t]\<rparr>"
  note b = block_schedule [OF assms s2_def]
  have B: "Block root ch s = ScheduleLocked root s2" using assms(2) by (simp add: Block_def GetCurrentThread_def s2_def)
  obtain i where i: "idle_thread s = Some i" "off s i" using assms(1) by (auto simp: sched_wf_def)
  have i2: "idle_thread s2 = Some i" "off s2 i" using i b(2) assms(3) by (auto simp: s2_def)
  obtain n s1 where pick: "ScheduleLocked root s2 =
        (if current_thread s2 = Some n then s1 else PerformSwitch root (current_thread s2) n s1)"
      "ready s2 = [] \<and> n = i \<or> ready s2 = n # ready s1" "queues_wf s1" "\<And>u. off s1 u \<Longrightarrow> off s2 u \<or> u = n" "threads s1 = threads s2"
    by (rule ScheduleLocked_pick [OF b(1) i2, where root = root]) blast
  obtain th where th: "threads s t = Some th" using assms(1,2) by (auto simp: sched_wf_def off_def)
  have t2: "threads s2 t = Some (th\<lparr>m_state := Blocked, wait_channel := ch\<rparr>)" using th by (simp add: s2_def upd_thread_def)
  have "t \<notin> set (ready s2)" using assms(1,2) by (simp add: s2_def sched_wf_def off_def)
  moreover have "t \<noteq> i" using i(1) assms(3) by auto
  moreover have "t \<notin> set (ready s1)"
    using ready_iff [OF queues_wf_three [OF pick(3)], of t] pick(3) t2 pick(5) unfolding queues_wf_def by fastforce
  ultimately have n: "n \<noteq> t" "t \<notin> set (ready s1)" using pick(2) by auto
  have "\<not> off s1 t" using pick(4) n(1) b(2) by blast
  then have w: "t \<in> set (g_wait_queue s1)" using n(2) t2 pick(5) by (simp add: off_def)
  have th1: "thr s1 t = th\<lparr>m_state := Blocked, wait_channel := ch\<rparr>" using t2 pick(5) by (simp add: thr_def)
  then have "wait_channel (thr (PerformSwitch root q n s1) t) = ch \<and> m_state (thr (PerformSwitch root q n s1) t) = Blocked" for q
    using n(1) t2 pick(5) by (simp add: thr_def PerformSwitch_threads)
  then show "t \<in> set (g_wait_queue (Block root ch s))" "wait_channel (thr (Block root ch s) t) = ch"
    "m_state (thr (Block root ch s) t) = Blocked"
    unfolding B pick(1) using w th1 by auto
qed

lemma sch_Process_Exit:
  "procs k c = Some ch \<Longrightarrow> m_parent ch \<noteq> None \<Longrightarrow> sch (Process_Exit c st k) = Wake c False (sch k)"
  by (auto simp: Process_Exit_def close_fds_def Let_def split: prod.splits)

text \<open>
  C15: A thread that waits for a running child sleeps, and the exit of the child wakes the oldest of its sleepers and no other. \<open>waitpid\<close> puts the
  caller to sleep on the child, leaving the queues well formed; in any later state in which it is the oldest sleeper on
  that child, the exit of the child makes it ready to run, and every other sleeper on the child stays asleep as it was. (So when two threads
  of the parent wait for the same child, the exit does not wake the second one.)
\<close>

theorem waitpid_sleeps_and_wakes:
  assumes "sched_wf (sch k)" and "current_thread (sch k) = Some t" and "idle_thread (sch k) \<noteq> Some t"
    and "sys_waitpid P p regs k = (WaitChild c, k1)"
  shows "(\<exists>ch. procs k c = Some ch \<and> m_proc_state ch \<noteq> ProcZombie) \<and> procs k1 = procs k \<and> sched_wf (sch k1) \<and>
     t \<in> set (g_wait_queue (sch k1)) \<and> wait_channel (thr (sch k1) t) = c \<and> m_state (thr (sch k1) t) = Blocked \<and>
     (\<forall>k2 ch rest status. sched_wf (sch k2) \<and> procs k2 c = Some ch \<and> m_parent ch \<noteq> None \<and>
        filter (\<lambda>u. wait_channel (thr (sch k2) u) = c) (g_wait_queue (sch k2)) = t # rest \<longrightarrow>
        t \<in> set (ready (sch (Process_Exit c status k2))) \<and> t \<notin> set (g_wait_queue (sch (Process_Exit c status k2))) \<and>
        (\<forall>u \<in> set rest. u \<in> set (g_wait_queue (sch (Process_Exit c status k2))) \<and>
           threads (sch (Process_Exit c status k2)) u = threads (sch k2) u))"
proof -
  obtain ch where ch: "procs k c = Some ch" "m_proc_state ch \<noteq> ProcZombie" and k1: "k1 = run_sched (Block (root_of_proc P k) c) k"
    using assms(4) by (auto simp: sys_waitpid_def waitpid_tail_def Let_def split: option.splits if_splits expected.splits)
  have s1: "sch k1 = Block (root_of_proc P k) c (sch k)" by (simp add: k1 run_sched_def show_view_def Let_def)
  have "procs k1 = procs k" by (simp add: k1)
  moreover have "sched_wf (sch k1)" unfolding s1 using assms(1-3) by (intro Block_wf) simp_all
  moreover have "t \<in> set (ready (sch (Process_Exit c status k2))) \<and> t \<notin> set (g_wait_queue (sch (Process_Exit c status k2))) \<and>
      (\<forall>u \<in> set rest. u \<in> set (g_wait_queue (sch (Process_Exit c status k2))) \<and>
         threads (sch (Process_Exit c status k2)) u = threads (sch k2) u)"
    if "sched_wf (sch k2)" "procs k2 c = Some ch'" "m_parent ch' \<noteq> None"
      and f: "filter (\<lambda>u. wait_channel (thr (sch k2) u) = c) (g_wait_queue (sch k2)) = t # rest" for k2 ch' rest status
  proof -
    have q: "queues_wf (sch k2)" using that(1) by (simp add: sched_wf_def)
    have W: "{t} = set (woken c False (g_wait_queue (sch k2)) (sch k2))" using f by (simp add: woken_def)
    have "distinct (g_wait_queue (sch k2))" using q by (simp add: queues_wf_def)
    then have "distinct (t # rest)" unfolding f [symmetric] by simp
    moreover have "set (t # rest) \<subseteq> set (g_wait_queue (sch k2))" unfolding f [symmetric] by auto
    ultimately show ?thesis unfolding sch_Process_Exit [OF that(2,3)] using Wake_effect(3-5) [OF q W] by auto
  qed
  ultimately show ?thesis using ch Block_sleeps [OF assms(1-3), of "root_of_proc P k" c] unfolding s1 by blast
qed

definition ex_family :: "((u64 \<times> u64) list, u8 list, nat, (u64 \<times> u64) list) kernel" where
  "ex_family = ex_kernel\<lparr>sch := ex_sched,
     procs := (procs ex_kernel)(0x600 \<mapsto> (Process_new 2 0x610 2 2)\<lparr>m_parent := Some 0x500\<rparr>)\<rparr>"

theorem waitpid_sleeps_and_wakes_witness:
  "\<exists>k1. sys_waitpid ex_plat 0x500 (zero_frame\<lparr>rdi := 2\<rparr>) ex_family = (WaitChild 0x600, k1) \<and>
     2 \<in> set (g_wait_queue (sch k1)) \<and> m_state (thr (sch k1) 2) = Blocked \<and>
     2 \<in> set (ready (sch (Process_Exit 0x600 7 k1)))"
proof -
  let ?regs = "zero_frame\<lparr>rdi := 2\<rparr>" and ?ch = "(Process_new 2 0x610 2 2)\<lparr>m_parent := Some 0x500\<rparr>"
  define k1 where "k1 = run_sched (Block (root_of_proc ex_plat ex_family) 0x600) ex_family"
  have k: "sch ex_family = ex_sched" by (simp add: ex_family_def)
  have cur: "current_thread (sch ex_family) = Some 2" "idle_thread (sch ex_family) \<noteq> Some 2"
    by (simp_all add: k ex_sched_def)
  have find: "FindChild 0x500 2 ex_family = Some 0x600"
    by (simp add: FindChild_def ex_family_def ex_kernel_def Process_new_def)
  have ch: "procs ex_family 0x600 = Some ?ch" by (simp add: ex_family_def)
  have run: "sys_waitpid ex_plat 0x500 ?regs ex_family = (WaitChild 0x600, k1)"
    using find ch by (simp add: sys_waitpid_def Let_def Process_new_def zero_frame_def k1_def)
  have s1: "sch k1 = Block (root_of_proc ex_plat ex_family) 0x600 ex_sched"
    by (simp add: k1_def k run_sched_def show_view_def Let_def)
  have "sched_wf (sch ex_family)" by (simp add: k)
  note W = waitpid_sleeps_and_wakes [OF this cur run]
  have facts: "procs k1 = procs ex_family" "sched_wf (sch k1)" "2 \<in> set (g_wait_queue (sch k1))" "m_state (thr (sch k1) 2) = Blocked"
    "wait_channel (thr (sch k1) 2) = 0x600"
    using W by blast+
  have "g_wait_queue (sch k1) = [5, 2]" "wait_channel (thr (sch k1) 5) = 99"
    by (simp_all add: s1 Block_def ScheduleLocked_def Mlfq_PopBest_def GetCurrentThread_def Let_def thr_def PerformSwitch_threads ex_sched_def ex_thread_def)
  then have f: "filter (\<lambda>u. wait_channel (thr (sch k1) u) = 0x600) (g_wait_queue (sch k1)) = 2 # []"
    using facts(5) by simp
  have c: "procs k1 0x600 = Some ?ch" "m_parent ?ch \<noteq> None" using facts(1) ch by simp_all
  have "2 \<in> set (ready (sch (Process_Exit 0x600 7 k1)))" using W facts(2) c f by blast
  with run facts show ?thesis by blast
qed

end
